(* ===== verification/CSD_Prelude.thy ===== *)
theory CSD_Prelude
  imports Main "HOL-Library.Char_ord" "HOL-Library.List_Lexorder" "HOL-Library.Sublist"
begin

text \<open>
  Shared vocabulary of the development.

  \<^item> Failures. Every C++ operation that can raise, abort or run into undefined behaviour
    returns a value of \<open>cpp_error + 'a\<close>: \<open>Inl\<close> names what went wrong, \<open>Inr\<close> is the
    normal result. \<open>bindE\<close> is sequencing, \<open>foldE\<close> a counted loop whose body may fail.
  \<^item> Memory. A C \<open>char\<close> is HOL's 8-bit \<^typ>\<open>char\<close> (unsigned, as on the aarch64 CSD the
    README names), a \<open>std::string\<close> is a \<^typ>\<open>string\<close>, a fixed array \<open>char data[BUFF_SIZE]\<close>
    is a total function on indices (the contents the program never wrote are whatever they
    were), and every access goes through a bounds check.
  \<^item> Integers. \<open>int\<close> is read from four little-endian bytes as a two's complement number.
  \<^item> JSON. The value a rapidjson document holds, and the accessors the code calls, with
    rapidjson's assertions as failures.
\<close>

section \<open>Lemma collections of the development\<close>

named_theorems csd_bind \<open>sequencing of fallible operations\<close>
named_theorems csd_buf \<open>reads and writes of fixed buffers\<close>
named_theorems csd_num \<open>little-endian integers\<close>

section \<open>Failures\<close>

datatype cpp_error =
    OutOfRange        \<comment> \<open>\<open>std::out_of_range\<close> (substr, stoi)\<close>
  | InvalidArgument   \<comment> \<open>\<open>std::invalid_argument\<close> (stoi)\<close>
  | JsonAssert        \<comment> \<open>a failed \<open>RAPIDJSON_ASSERT\<close>\<close>
  | OutOfBounds       \<comment> \<open>an array or vector access outside its extent: undefined behaviour\<close>
  | Uninitialised     \<comment> \<open>a read of a variable that was never written: undefined behaviour\<close>
  | AssertFailed      \<comment> \<open>a failed \<open>assert\<close>\<close>
  | FloatRange        \<comment> \<open>a floating-point result that is not finite\<close>
  | IntOverflow       \<comment> \<open>a signed integer result outside its type: undefined behaviour\<close>
  | EmptyStack        \<comment> \<open>\<open>top\<close> of an empty \<open>std::stack\<close>: undefined behaviour\<close>

type_synonym 'a res = "cpp_error + 'a"

definition bindE :: "'e + 'a \<Rightarrow> ('a \<Rightarrow> 'e + 'b) \<Rightarrow> 'e + 'b" where
  "bindE m f = (case m of Inl e \<Rightarrow> Inl e | Inr x \<Rightarrow> f x)"

lemma bindE_simps [simp]:
  "bindE (Inl e) f = Inl e"
  "bindE (Inr x) f = f x"
  by (simp_all add: bindE_def)

lemma bindE_cong [fundef_cong]:
  assumes "m = m'" "\<And>x. m' = Inr x \<Longrightarrow> f x = g x"
  shows "bindE m f = bindE m' g"
  using assms by (cases m') simp_all

lemma bindE_Inr_conv [csd_bind]: "bindE m f = Inr y \<longleftrightarrow> (\<exists>x. m = Inr x \<and> f x = Inr y)"
  by (cases m) auto

lemma bindE_InrE [elim]:
  assumes "bindE m f = Inr y"
  obtains x where "m = Inr x" "f x = Inr y"
  using assms by (auto simp: bindE_Inr_conv)

lemma bindE_assoc [csd_bind]: "bindE (bindE m f) g = bindE m (\<lambda>x. bindE (f x) g)"
  by (cases m) simp_all

lemma bindE_return [simp]: "bindE m Inr = m"
  by (cases m) simp_all

text \<open>A loop over a list whose body may fail; the first failure ends it.\<close>

fun foldE :: "('a \<Rightarrow> 's \<Rightarrow> 'e + 's) \<Rightarrow> 'a list \<Rightarrow> 's \<Rightarrow> 'e + 's" where
  "foldE f [] s = Inr s"
| "foldE f (x # xs) s = bindE (f x s) (foldE f xs)"

lemma foldE_append [csd_bind]: "foldE f (xs @ ys) s = bindE (foldE f xs s) (foldE f ys)"
proof (induction xs arbitrary: s)
  case (Cons x xs)
  then show ?case by (cases "f x s") simp_all
qed simp

lemma foldE_invariant:
  assumes "foldE f xs s = Inr t" "P s"
    and "\<And>x s t. x \<in> set xs \<Longrightarrow> P s \<Longrightarrow> f x s = Inr t \<Longrightarrow> P t"
  shows "P t"
  using assms by (induction xs arbitrary: s) (auto simp: bindE_Inr_conv)

lemma foldE_total:
  assumes "\<And>x s. x \<in> set xs \<Longrightarrow> P s \<Longrightarrow> \<exists>t. f x s = Inr t \<and> P t" "P s"
  shows "\<exists>t. foldE f xs s = Inr t \<and> P t"
  using assms
proof (induction xs arbitrary: s)
  case Nil
  then show ?case by simp
next
  case (Cons x xs)
  from Cons.prems obtain t where t: "f x s = Inr t" "P t" by (meson list.set_intros(1))
  with Cons show ?case by simp
qed

lemma foldE_pure: "(\<And>x s. x \<in> set xs \<Longrightarrow> f x s = Inr (g x s)) \<Longrightarrow> foldE f xs s = Inr (fold g xs s)"
  by (induction xs arbitrary: s) simp_all

text \<open>A loop whose body may also leave it early (\<open>break\<close>).\<close>

fun break_loop :: "('a \<Rightarrow> 's \<Rightarrow> 'e + 's) \<Rightarrow> ('s \<Rightarrow> bool) \<Rightarrow> 'a list \<Rightarrow> 's \<Rightarrow> 'e + 's" where
  "break_loop f stop [] s = Inr s"
| "break_loop f stop (x # xs) s =
     bindE (f x s) (\<lambda>t. if stop t then Inr t else break_loop f stop xs t)"

lemma break_loop_append [csd_bind]:
  "\<not> stop s \<Longrightarrow> break_loop f stop (xs @ ys) s =
     bindE (break_loop f stop xs s) (\<lambda>t. if stop t then Inr t else break_loop f stop ys t)"
proof (induction xs arbitrary: s)
  case (Cons x xs)
  then show ?case by (cases "f x s") auto
qed simp

fun mapE :: "('a \<Rightarrow> 'e + 'b) \<Rightarrow> 'a list \<Rightarrow> 'e + 'b list" where
  "mapE f [] = Inr []"
| "mapE f (x # xs) = bindE (f x) (\<lambda>y. bindE (mapE f xs) (\<lambda>ys. Inr (y # ys)))"

lemma mapE_Inr: "(\<And>x. x \<in> set xs \<Longrightarrow> f x = Inr (g x)) \<Longrightarrow> mapE f xs = Inr (map g xs)"
  by (induction xs) simp_all

lemma mapE_length: "mapE f xs = Inr ys \<Longrightarrow> length ys = length xs"
  by (induction xs arbitrary: ys) (auto simp: bindE_Inr_conv)

text \<open>\<open>std::vector\<close> indexing: no check in C++, undefined behaviour out of range.\<close>

definition vec_at :: "'a list \<Rightarrow> int \<Rightarrow> 'a res" where
  "vec_at xs i = (if 0 \<le> i \<and> i < int (length xs) then Inr (xs ! nat i) else Inl OutOfBounds)"

lemma vec_at_nat [simp]: "i < length xs \<Longrightarrow> vec_at xs (int i) = Inr (xs ! i)"
  by (simp add: vec_at_def)

lemma vec_at_0 [simp]: "vec_at (x # xs) 0 = Inr x"
  by (simp add: vec_at_def)

lemma vec_at_Inr_conv: "vec_at xs i = Inr y \<longleftrightarrow> 0 \<le> i \<and> i < int (length xs) \<and> y = xs ! nat i"
  by (auto simp: vec_at_def)

text \<open>\<open>unordered_map::operator[]\<close> on an \<open>int\<close>-valued map: 0 for a missing key.\<close>

definition lookup0 :: "('k \<rightharpoonup> int) \<Rightarrow> 'k \<Rightarrow> int" where
  "lookup0 m k = (case m k of None \<Rightarrow> 0 | Some v \<Rightarrow> v)"

definition touch0 :: "('k \<rightharpoonup> int) \<Rightarrow> 'k \<Rightarrow> ('k \<rightharpoonup> int)" where
  \<comment> \<open>the default entry that \<open>operator[]\<close> leaves behind\<close>
  "touch0 m k = m(k \<mapsto> lookup0 m k)"

definition map_insert :: "('k \<rightharpoonup> 'v) \<Rightarrow> 'k \<Rightarrow> 'v \<Rightarrow> ('k \<rightharpoonup> 'v)" where
  \<comment> \<open>\<open>unordered_map::insert\<close>: an existing entry is kept\<close>
  "map_insert m k v = (case m k of None \<Rightarrow> m(k \<mapsto> v) | Some _ \<Rightarrow> m)"

lemma lookup0_simps [simp]:
  "m k = Some v \<Longrightarrow> lookup0 m k = v"
  "m k = None \<Longrightarrow> lookup0 m k = 0"
  by (simp_all add: lookup0_def)

lemma touch0_present [simp]: "m k = Some v \<Longrightarrow> touch0 m k = m"
  by (auto simp: touch0_def)

lemma map_insert_simps [simp]:
  "m k = None \<Longrightarrow> map_insert m k v = m(k \<mapsto> v)"
  "m k = Some w \<Longrightarrow> map_insert m k v = m"
  by (simp_all add: map_insert_def)

lemma map_insert_other [simp]: "j \<noteq> k \<Longrightarrow> map_insert m k v j = m j"
  by (cases "m k") simp_all

lemma map_add_fresh: "m k = None \<Longrightarrow> [k \<mapsto> v] ++ m = m(k \<mapsto> v)"
  by (auto simp: map_add_def fun_eq_iff split: option.splits)

section \<open>Fixed buffers\<close>

definition NUM_OF_BLOCKS :: nat where "NUM_OF_BLOCKS = 15"

definition BUFF_SIZE :: nat where "BUFF_SIZE = NUM_OF_BLOCKS * 4096"

definition TEST_SIZE :: nat where "TEST_SIZE = 54272"

lemmas csd_sizes = NUM_OF_BLOCKS_def BUFF_SIZE_def TEST_SIZE_def

lemma TEST_SIZE_le_BUFF_SIZE: "TEST_SIZE \<le> BUFF_SIZE"
  by (simp add: csd_sizes)

type_synonym buffer = "nat \<Rightarrow> char"

definition buf_write :: "buffer \<Rightarrow> nat \<Rightarrow> string \<Rightarrow> buffer" where
  "buf_write d off bs = (\<lambda>i. if off \<le> i \<and> i < off + length bs then bs ! (i - off) else d i)"

definition buf_read :: "buffer \<Rightarrow> nat \<Rightarrow> nat \<Rightarrow> string" where
  "buf_read d off n = map d [off..<off + n]"

text \<open>
  \<open>memcpy\<close> into and out of an array of \<open>cap\<close> bytes. \<open>memcpy_to\<close> and \<open>memcpy_from\<close> are for a \<open>char[BUFF_SIZE]\<close>;
  the block version of the worker defines \<open>BUFF_SIZE\<close> differently.
\<close>

definition memcpy_to_in :: "nat \<Rightarrow> buffer \<Rightarrow> int \<Rightarrow> string \<Rightarrow> buffer res" where
  "memcpy_to_in cap d off bs =
     (if 0 \<le> off \<and> nat off + length bs \<le> cap then Inr (buf_write d (nat off) bs)
      else Inl OutOfBounds)"

definition memcpy_from_in :: "nat \<Rightarrow> buffer \<Rightarrow> int \<Rightarrow> int \<Rightarrow> string res" where
  "memcpy_from_in cap d off n =
     (if 0 \<le> off \<and> 0 \<le> n \<and> nat off + nat n \<le> cap then Inr (buf_read d (nat off) (nat n))
      else Inl OutOfBounds)"

abbreviation memcpy_to :: "buffer \<Rightarrow> int \<Rightarrow> string \<Rightarrow> buffer res" where
  "memcpy_to \<equiv> memcpy_to_in BUFF_SIZE"

abbreviation memcpy_from :: "buffer \<Rightarrow> int \<Rightarrow> int \<Rightarrow> string res" where
  "memcpy_from \<equiv> memcpy_from_in BUFF_SIZE"

lemmas memcpy_to_def = memcpy_to_in_def
lemmas memcpy_from_def = memcpy_from_in_def

definition buf_at :: "nat \<Rightarrow> buffer \<Rightarrow> int \<Rightarrow> char res" where
  "buf_at cap d i = (if 0 \<le> i \<and> i < int cap then Inr (d (nat i)) else Inl OutOfBounds)"

text \<open>
  \<open>memset(&data, 0, sizeof(BUFF_SIZE))\<close>: \<open>BUFF_SIZE\<close> is an \<open>int\<close> constant expression, so
  \<open>sizeof\<close> is 4 and only the first four bytes are cleared.
\<close>

definition clear4 :: "buffer \<Rightarrow> buffer" where
  "clear4 d = buf_write d 0 (replicate 4 (CHR 0x00))"

lemma length_buf_read [simp]: "length (buf_read d off n) = n"
  by (simp add: buf_read_def)

lemma nth_buf_read [simp]: "i < n \<Longrightarrow> buf_read d off n ! i = d (off + i)"
  by (simp add: buf_read_def)

lemma buf_read_0 [simp]: "buf_read d off 0 = []"
  by (simp add: buf_read_def)

lemma buf_read_write_same [csd_buf, simp]: "buf_read (buf_write d off bs) off (length bs) = bs"
  by (rule nth_equalityI) (simp_all add: buf_write_def)

lemma buf_read_write_before [csd_buf]:
  "a + n \<le> off \<Longrightarrow> buf_read (buf_write d off bs) a n = buf_read d a n"
  by (rule nth_equalityI) (simp_all add: buf_write_def)

lemma buf_read_append [csd_buf]: "buf_read d off (m + n) = buf_read d off m @ buf_read d (off + m) n"
proof -
  have "[off..<(off + m) + n] = [off..<off + m] @ [off + m..<(off + m) + n]"
    by (rule upt_add_eq_append) simp
  then show ?thesis by (simp only: buf_read_def add.assoc [symmetric] map_append)
qed

lemma buf_write_extend [csd_buf]:
  "buf_read (buf_write d n bs) 0 (n + length bs) = buf_read d 0 n @ bs"
proof -
  have "buf_read (buf_write d n bs) 0 (n + length bs)
      = buf_read (buf_write d n bs) 0 n @ buf_read (buf_write d n bs) (0 + n) (length bs)"
    by (rule buf_read_append)
  also have "buf_read (buf_write d n bs) 0 n = buf_read d 0 n"
    by (rule buf_read_write_before) simp
  finally show ?thesis by simp
qed

lemma take_buf_read: "m \<le> n \<Longrightarrow> take m (buf_read d off n) = buf_read d off m"
  by (rule nth_equalityI) simp_all

lemma drop_buf_read: "drop m (buf_read d off n) = buf_read d (off + m) (n - m)"
  by (rule nth_equalityI) (simp_all add: add.assoc)

lemma memcpy_to_ok [csd_buf]:
  "n + length bs \<le> cap \<Longrightarrow> memcpy_to_in cap d (int n) bs = Inr (buf_write d n bs)"
  by (simp add: memcpy_to_in_def)

lemma memcpy_from_ok [csd_buf]:
  "n + k \<le> cap \<Longrightarrow> memcpy_from_in cap d (int n) (int k) = Inr (buf_read d n k)"
  by (simp add: memcpy_from_in_def)

lemma buf_at_ok [csd_buf]: "n < cap \<Longrightarrow> buf_at cap d (int n) = Inr (d n)"
  by (simp add: buf_at_def)

section \<open>Little-endian integers\<close>

fun le_nat :: "string \<Rightarrow> nat" where
  "le_nat [] = 0"
| "le_nat (b # bs) = of_char b + 256 * le_nat bs"

fun le_bytes :: "nat \<Rightarrow> nat \<Rightarrow> string" where
  "le_bytes 0 v = []"
| "le_bytes (Suc n) v = char_of (v mod 256) # le_bytes n (v div 256)"

lemma length_le_bytes [simp]: "length (le_bytes n v) = n"
  by (induction n arbitrary: v) simp_all

lemma of_char_less_256: "(of_char c :: nat) < 256"
  by simp

lemma le_nat_less: "le_nat bs < 256 ^ length bs"
proof (induction bs)
  case (Cons b bs)
  have step: "c < 256 \<Longrightarrow> x < y \<Longrightarrow> c + 256 * x < 256 * y" for c x y :: nat
    by linarith
  from step [OF of_char_less_256 Cons] show ?case by simp
qed simp

lemma le_nat_le_bytes [csd_num, simp]: "le_nat (le_bytes n v) = v mod 256 ^ n"
proof (induction n arbitrary: v)
  case (Suc n)
  have "v mod 256 ^ Suc n = v mod 256 + 256 * (v div 256 mod 256 ^ n)"
    by (simp add: mod_mult2_eq)
  with Suc show ?case by simp
qed simp

lemma le_bytes_le_nat [csd_num]: "le_bytes (length bs) (le_nat bs) = bs"
  by (induction bs) (simp_all only: list.size le_bytes.simps le_nat.simps add_Suc_right add_0_right
      mod_mult_self2 of_char_mod_256 char_of_char, simp_all)

lemma le_nat_append: "le_nat (xs @ ys) = le_nat xs + 256 ^ length xs * le_nat ys"
  by (induction xs) (simp_all add: algebra_simps)

lemma le_nat_zeros [simp]: "le_nat (replicate n (CHR 0x00)) = 0"
  by (induction n) simp_all

text \<open>Big-endian numbers.\<close>

fun be_nat :: "string \<Rightarrow> nat" where
  "be_nat [] = 0"
| "be_nat (b # bs) = of_char b * 256 ^ length bs + be_nat bs"

lemma be_nat_append: "be_nat (xs @ ys) = be_nat xs * 256 ^ length ys + be_nat ys"
  by (induction xs) (simp_all add: algebra_simps power_add)

lemma be_nat_less: "be_nat bs < 256 ^ length bs"
proof (induction bs)
  case (Cons b bs)
  let ?p = "256 ^ length bs :: nat"
  have "be_nat (b # bs) < of_char b * ?p + ?p" using Cons by simp
  also have "\<dots> = (of_char b + 1) * ?p" by simp
  also have "\<dots> \<le> 256 * ?p"
    using of_char_less_256 [of b] by (intro mult_le_mono1) linarith
  finally show ?case by simp
qed simp

fun be_bytes :: "nat \<Rightarrow> nat \<Rightarrow> string" where
  "be_bytes 0 v = []"
| "be_bytes (Suc n) v = be_bytes n (v div 256) @ [char_of (v mod 256)]"

lemma length_be_bytes [simp]: "length (be_bytes n v) = n"
  by (induction n arbitrary: v) simp_all

lemma be_nat_be_bytes [simp]: "be_nat (be_bytes n v) = v mod 256 ^ n"
proof (induction n arbitrary: v)
  case (Suc n)
  have "be_nat (be_bytes (Suc n) v) = be_nat (be_bytes n (v div 256)) * 256 + v mod 256"
    by (simp add: be_nat_append)
  also have "\<dots> = v mod 256 + 256 * (v div 256 mod 256 ^ n)" by (simp add: Suc)
  also have "\<dots> = v mod 256 ^ Suc n" by (simp add: mod_mult2_eq)
  finally show ?case .
qed simp

text \<open>Conversions to a signed 32-bit or 64-bit integer (\<open>*((int *)p)\<close> and narrowing).\<close>

definition to_int32 :: "int \<Rightarrow> int" where
  "to_int32 v = (v + 2 ^ 31) mod 2 ^ 32 - 2 ^ 31"

definition to_int64 :: "int \<Rightarrow> int" where
  "to_int64 v = (v + 2 ^ 63) mod 2 ^ 64 - 2 ^ 63"

definition is_int32 :: "int \<Rightarrow> bool" where
  "is_int32 v \<longleftrightarrow> - (2 ^ 31) \<le> v \<and> v < 2 ^ 31"

definition int_bytes :: "nat \<Rightarrow> int \<Rightarrow> string" where
  "int_bytes n v = le_bytes n (nat (v mod 256 ^ n))"

lemma length_int_bytes [simp]: "length (int_bytes n v) = n"
  by (simp add: int_bytes_def)

lemma to_int32_range: "is_int32 (to_int32 v)"
  by (simp add: is_int32_def to_int32_def)

lemma to_int32_id [csd_num]: "is_int32 v \<Longrightarrow> to_int32 v = v"
  by (simp add: is_int32_def to_int32_def)

lemma to_int32_int_bytes [csd_num]: "is_int32 v \<Longrightarrow> to_int32 (int (le_nat (int_bytes 4 v))) = v"
proof -
  assume "is_int32 v"
  have "int (le_nat (int_bytes 4 v)) = v mod 2 ^ 32"
    by (simp add: int_bytes_def)
  then have "to_int32 (int (le_nat (int_bytes 4 v))) = to_int32 v"
    by (simp add: to_int32_def mod_simps)
  with \<open>is_int32 v\<close> show ?thesis by (simp add: to_int32_id)
qed

section \<open>JSON values (rapidjson)\<close>

text \<open>
  rapidjson itself is not part of the repository. Its parser is a parameter of the operations
  that call it; this datatype is the value it returns, and the accessors state the documented
  behaviour of the \<open>Value\<close> members the code uses: reading a value as the wrong type, indexing a
  missing member or an element past the end fails an assertion.
\<close>

datatype json =
    JInt int
  | JDouble
  | JStr string
  | JArr "json list"
  | JObj "(string \<times> json) list"
  | JNull

fun IsString :: "json \<Rightarrow> bool" where
  "IsString (JStr s) = True"
| "IsString _ = False"

fun IsInt :: "json \<Rightarrow> bool" where
  "IsInt (JInt i) = is_int32 i"
| "IsInt _ = False"

fun IsDouble :: "json \<Rightarrow> bool" where
  "IsDouble JDouble = True"
| "IsDouble _ = False"

fun GetString :: "json \<Rightarrow> string res" where
  "GetString (JStr s) = Inr s"
| "GetString _ = Inl JsonAssert"

fun GetInt :: "json \<Rightarrow> int res" where
  "GetInt (JInt i) = (if is_int32 i then Inr i else Inl JsonAssert)"
| "GetInt _ = Inl JsonAssert"

fun GetInt64 :: "json \<Rightarrow> int res" where
  "GetInt64 (JInt i) = (if - (2 ^ 63) \<le> i \<and> i < 2 ^ 63 then Inr i else Inl JsonAssert)"
| "GetInt64 _ = Inl JsonAssert"

fun json_array :: "json \<Rightarrow> json list res" where
  \<comment> \<open>\<open>Size()\<close> and \<open>operator[]\<close> on an array value\<close>
  "json_array (JArr xs) = Inr xs"
| "json_array _ = Inl JsonAssert"

fun json_member :: "json \<Rightarrow> string \<Rightarrow> json res" where
  "json_member (JObj kvs) k = (case map_of kvs k of None \<Rightarrow> Inl JsonAssert | Some v \<Rightarrow> Inr v)"
| "json_member _ k = Inl JsonAssert"

definition json_elem :: "json \<Rightarrow> nat \<Rightarrow> json res" where
  "json_elem v i = bindE (json_array v) (\<lambda>xs. if i < length xs then Inr (xs ! i) else Inl JsonAssert)"

lemma json_elem_JArr [simp]: "i < length xs \<Longrightarrow> json_elem (JArr xs) i = Inr (xs ! i)"
  by (simp add: json_elem_def)

end
