(* ===== verification/Cpp_Strings.thy ===== *)
theory Cpp_Strings
  imports CSD_Prelude
begin

text \<open>
  The parts of the C++ standard library the worker uses on strings: \<open>substr\<close> and its
  \<open>std::out_of_range\<close>, \<open>find_first_not_of\<close>, \<open>stoi\<close>, \<open>atoi\<close>, \<open>to_string\<close>, hexadecimal stream
  output, \<open>getline\<close> with a delimiter, and 64-bit \<open>size_t\<close> subtraction. The lemmas relate digit
  strings of a fixed width to the numbers they show: equal width, lexicographic order and
  numeric order agree.
\<close>

section \<open>Substrings and searching\<close>

definition std_substr :: "string \<Rightarrow> nat \<Rightarrow> nat \<Rightarrow> string res" where
  "std_substr s pos n = (if pos \<le> length s then Inr (take n (drop pos s)) else Inl OutOfRange)"

definition std_substr_from :: "string \<Rightarrow> nat \<Rightarrow> string res" where
  "std_substr_from s pos = (if pos \<le> length s then Inr (drop pos s) else Inl OutOfRange)"

definition usub :: "nat \<Rightarrow> nat \<Rightarrow> nat" where
  \<comment> \<open>\<open>a - b\<close> on \<open>size_t\<close>\<close>
  "usub a b = (a + 2 ^ 64 - b) mod 2 ^ 64"

lemma usub_le: "b \<le> a \<Longrightarrow> a < 2 ^ 64 \<Longrightarrow> usub a b = a - b"
  using mod_add_self2 [of "a - b" "2 ^ 64"] by (simp add: usub_def)

fun find_first_not_of :: "string \<Rightarrow> string \<Rightarrow> nat option" where
  "find_first_not_of t [] = None"
| "find_first_not_of t (c # s) =
     (if c \<in> set t then map_option Suc (find_first_not_of t s) else Some 0)"

definition find_last_not_of :: "string \<Rightarrow> string \<Rightarrow> nat option" where
  "find_last_not_of t s = map_option (\<lambda>i. length s - 1 - i) (find_first_not_of t (rev s))"

lemma find_first_not_of_dropWhile:
  "(case find_first_not_of t s of None \<Rightarrow> [] | Some i \<Rightarrow> drop i s) = dropWhile (\<lambda>c. c \<in> set t) s"
  by (induction s) (auto split: option.splits)

lemma find_first_not_of_less: "find_first_not_of t s = Some i \<Longrightarrow> i < length s"
  by (induction s arbitrary: i) (auto split: if_splits)

definition is_space :: "char \<Rightarrow> bool" where
  "is_space c \<longleftrightarrow> c \<in> {CHR '' '', CHR 0x09, CHR 0x0A, CHR 0x0B, CHR 0x0C, CHR 0x0D}"

definition is_digit_char :: "char \<Rightarrow> bool" where
  "is_digit_char c \<longleftrightarrow> 48 \<le> (of_char c :: nat) \<and> (of_char c :: nat) \<le> 57"

section \<open>Reading integers\<close>

fun digits_value :: "int \<Rightarrow> string \<Rightarrow> int" where
  "digits_value acc [] = acc"
| "digits_value acc (c # cs) = digits_value (10 * acc + (of_char c - 48)) cs"

definition parse_sign :: "string \<Rightarrow> bool \<times> string" where
  "parse_sign s = (case s of c # cs \<Rightarrow>
       if c = CHR ''-'' then (True, cs) else if c = CHR ''+'' then (False, cs) else (False, s)
     | [] \<Rightarrow> (False, []))"

definition parse_int :: "string \<Rightarrow> int option" where
  \<comment> \<open>the number \<open>strtol\<close> reads: white space, a sign, at least one digit\<close>
  "parse_int s = (case parse_sign (dropWhile is_space s) of (neg, r) \<Rightarrow>
       let ds = takeWhile is_digit_char r; v = digits_value 0 ds
       in if ds = [] then None else Some (if neg then - v else v))"

definition stoi :: "string \<Rightarrow> int res" where
  "stoi s = (case parse_int s of None \<Rightarrow> Inl InvalidArgument
     | Some v \<Rightarrow> if is_int32 v then Inr v else Inl OutOfRange)"

definition stoll :: "string \<Rightarrow> int res" where
  "stoll s = (case parse_int s of None \<Rightarrow> Inl InvalidArgument
     | Some v \<Rightarrow> if - (2 ^ 63) \<le> v \<and> v < 2 ^ 63 then Inr v else Inl OutOfRange)"

definition atoi :: "string \<Rightarrow> int" where
  \<comment> \<open>glibc: \<open>(int) strtol(s)\<close>, where \<open>strtol\<close> saturates at the limits of \<open>long\<close>\<close>
  "atoi s = (case parse_int s of None \<Rightarrow> 0
     | Some v \<Rightarrow> to_int32 (max (- (2 ^ 63)) (min (2 ^ 63 - 1) v)))"

section \<open>Writing integers\<close>

definition digit_char :: "nat \<Rightarrow> char" where
  "digit_char d = ''0123456789abcdef'' ! d"

fun show_base :: "nat \<Rightarrow> nat \<Rightarrow> string" where
  "show_base b n = (if b < 2 \<or> n < b then [digit_char n]
                    else show_base b (n div b) @ [digit_char (n mod b)])"

declare show_base.simps [simp del]

definition std_to_string :: "int \<Rightarrow> string" where
  "std_to_string v = (if v < 0 then CHR ''-'' # show_base 10 (nat (- v)) else show_base 10 (nat v))"

definition stream_hex :: "int \<Rightarrow> string" where
  \<comment> \<open>\<open>oss << hex << v\<close> for an \<open>int\<close>: the 32-bit two's complement pattern\<close>
  "stream_hex v = show_base 16 (nat (v mod 2 ^ 32))"

text \<open>Digit strings of a fixed width.\<close>

fun show_width :: "nat \<Rightarrow> nat \<Rightarrow> nat \<Rightarrow> string" where
  "show_width b 0 n = []"
| "show_width b (Suc k) n = show_width b k (n div b) @ [digit_char (n mod b)]"

lemma length_show_width [simp]: "length (show_width b k n) = k"
  by (induction k arbitrary: n) simp_all

lemma show_width_0: "show_width b k 0 = replicate k (CHR ''0'')"
  by (induction k) (simp_all add: digit_char_def replicate_append_same)

lemma show_base_pad:
  assumes "2 \<le> b" "n < b ^ k" "0 < k"
  shows "length (show_base b n) \<le> k \<and>
    replicate (k - length (show_base b n)) (CHR ''0'') @ show_base b n = show_width b k n"
  using assms
proof (induction k arbitrary: n)
  case (Suc k)
  show ?case
  proof (cases "n < b")
    case True
    then show ?thesis using Suc.prems
      by (simp add: show_base.simps [of b n] show_width_0)
  next
    case False
    with Suc.prems have pos: "0 < k" by (cases k) auto
    have "n div b < b ^ k"
      using Suc.prems by (intro less_mult_imp_div_less) (simp add: mult.commute)
    from Suc.IH [OF Suc.prems(1) this pos] False Suc.prems(1) show ?thesis
      by (simp add: show_base.simps [of b n] flip: append_assoc)
  qed
qed simp

text \<open>On strings of equal length the last character decides last.\<close>

lemma list_le_snoc:
  fixes xs ys :: "'a::linorder list"
  assumes "length xs = length ys"
  shows "xs @ [a] \<le> ys @ [b] \<longleftrightarrow> xs < ys \<or> xs = ys \<and> a \<le> b"
  using assms by (induction xs ys rule: list_induct2) auto

lemma list_less_snoc:
  fixes xs ys :: "'a::linorder list"
  assumes "length xs = length ys"
  shows "xs @ [a] < ys @ [b] \<longleftrightarrow> xs < ys \<or> xs = ys \<and> a < b"
  using assms by (induction xs ys rule: list_induct2) auto

lemma digit_char_less:
  assumes "a < 16" "b < 16"
  shows "digit_char a < digit_char b \<longleftrightarrow> a < b"
proof -
  have "\<forall>a<16. \<forall>b<16. digit_char a < digit_char b \<longleftrightarrow> a < b"
    by (simp add: All_less_Suc eval_nat_numeral digit_char_def less_char_def)
  with assms show ?thesis by blast
qed

lemma digit_char_inj: "a < 16 \<Longrightarrow> b < 16 \<Longrightarrow> digit_char a = digit_char b \<longleftrightarrow> a = b"
  using digit_char_less [of a b] digit_char_less [of b a] by (metis linorder_neqE_nat less_irrefl)

lemma show_width_order:
  assumes "2 \<le> b" "b \<le> 16" "m < b ^ k" "n < b ^ k"
  shows "(show_width b k m < show_width b k n \<longleftrightarrow> m < n) \<and>
         (show_width b k m = show_width b k n \<longleftrightarrow> m = n)"
  using assms(3,4)
proof (induction k arbitrary: m n)
  case (Suc k)
  have div: "m div b < b ^ k" "n div b < b ^ k"
    using Suc.prems by (auto intro!: less_mult_imp_div_less simp: mult.commute)
  have mod: "m mod b < 16" "n mod b < 16"
    using assms(1,2) mod_less_divisor [of b m] mod_less_divisor [of b n] by linarith+
  have eq: "m = m div b * b + m mod b" "n = n div b * b + n mod b" by simp_all
  have lt: "m < n \<longleftrightarrow> m div b < n div b \<or> m div b = n div b \<and> m mod b < n mod b"
    by (metis div_le_mono eq leD linorder_neqE_nat nat_add_left_cancel_less nat_less_le)
  have same: "m = n \<longleftrightarrow> m div b = n div b \<and> m mod b = n mod b"
    by (metis eq)
  show ?case
    using Suc.IH [OF div] lt same mod
    by (simp add: list_less_snoc digit_char_less digit_char_inj)
qed simp

corollary show_width_le:
  assumes "2 \<le> b" "b \<le> 16" "m < b ^ k" "n < b ^ k"
  shows "show_width b k m \<le> show_width b k n \<longleftrightarrow> m \<le> n"
  using show_width_order [OF assms] by (auto simp: list_le_def le_less)

section \<open>Splitting at a delimiter\<close>

text \<open>
  \<open>getline(iss, buffer, d)\<close>: it fails at the end of the input, otherwise it takes the characters
  up to the delimiter and removes the delimiter.
\<close>

definition std_getline :: "char \<Rightarrow> string \<Rightarrow> (string \<times> string) option" where
  "std_getline d s = (if s = [] then None
     else Some (takeWhile (\<lambda>c. c \<noteq> d) s, drop 1 (dropWhile (\<lambda>c. c \<noteq> d) s)))"

function getline_all :: "char \<Rightarrow> string \<Rightarrow> string list" where
  "getline_all d s = (case std_getline d s of None \<Rightarrow> [] | Some (buf, rest) \<Rightarrow> buf # getline_all d rest)"
  by pat_completeness auto
termination
proof (relation "measure (\<lambda>(d, s). length s)")
  fix d s x buf rest
  assume "std_getline d s = Some x" "(buf, rest) = x"
  then have ne: "s \<noteq> []" and r: "rest = drop 1 (dropWhile (\<lambda>c. c \<noteq> d) s)"
    by (auto simp: std_getline_def split: if_splits)
  have "length (dropWhile (\<lambda>c. c \<noteq> d) s) \<le> length s" by (rule length_dropWhile_le)
  with ne r show "((d, rest), d, s) \<in> measure (\<lambda>(d, s). length s)"
    by (cases s) auto
qed simp

declare getline_all.simps [simp del]

lemma getline_all_Nil [simp]: "getline_all d [] = []"
  by (simp add: getline_all.simps [of d "[]"] std_getline_def)

lemma getline_all_delim: "getline_all d (d # s) = [] # getline_all d s"
  by (simp add: getline_all.simps [of d "d # s"] std_getline_def)

lemma getline_all_field:
  assumes "d \<notin> set p"
  shows "getline_all d (p @ d # s) = p # getline_all d s"
proof (cases "p = []")
  case True
  then show ?thesis by (simp add: getline_all_delim)
next
  case False
  have "takeWhile (\<lambda>c. c \<noteq> d) (p @ d # s) = p" "dropWhile (\<lambda>c. c \<noteq> d) (p @ d # s) = d # s"
    using assms by (auto simp: takeWhile_append dropWhile_append)
  then show ?thesis
    by (simp add: getline_all.simps [of d "p @ d # s"] std_getline_def)
qed

lemma getline_all_last:
  assumes "d \<notin> set p" "p \<noteq> []"
  shows "getline_all d p = [p]"
proof -
  have tw: "takeWhile (\<lambda>c. c \<noteq> d) p = p" and dw: "dropWhile (\<lambda>c. c \<noteq> d) p = []"
    using assms(1) by (auto simp: takeWhile_eq_all_conv dropWhile_eq_Nil_conv)
  have "std_getline d p = Some (p, [])"
    unfolding std_getline_def tw dw using assms(2) by simp
  then show ?thesis
    by (simp add: getline_all.simps [of d p])
qed

end
