(* ===== verification/CSD_Types.thy ===== *)
theory CSD_Types
  imports Cpp_Strings
begin

text \<open>
  The data the layers of the worker exchange (\<open>input.h\<close>, \<open>filter.h\<close>, \<open>merge_manager.h\<close>,
  \<open>return.h\<close>): the enumerations, \<open>Projection\<close>, \<open>PrimaryKey\<close>, \<open>FilterInfo\<close>, \<open>Result\<close> and
  \<open>MergeResult\<close>, with their constructors and re-initialisers.

  The fields that are only ever counters or offsets from 0 upwards (\<open>row_count\<close>, \<open>length\<close>,
  \<open>row_offset\<close>) are natural numbers; block counts are integers, because the scan layer computes
  them by subtraction. \<open>row_layout\<close> says which list of rows a buffer with its offset table
  holds; the locale \<open>row_buffer\<close> is the contract every layer relies on when it fills such a
  buffer, and \<open>flush_buffer\<close> the contract of a layer that sends the buffer on when it is full.
\<close>

section \<open>Enumerations\<close>

datatype MySQL_DataType =
    MySQL_BYTE | MySQL_INT16 | MySQL_INT32 | MySQL_INT64 | MySQL_FLOAT32 | MySQL_DOUBLE
  | MySQL_NEWDECIMAL | MySQL_DATE | MySQL_TIMESTAMP | MySQL_STRING | MySQL_VARSTRING

fun mysql_code :: "MySQL_DataType \<Rightarrow> int" where
  "mysql_code MySQL_BYTE = 1"
| "mysql_code MySQL_INT16 = 2"
| "mysql_code MySQL_INT32 = 3"
| "mysql_code MySQL_INT64 = 8"
| "mysql_code MySQL_FLOAT32 = 4"
| "mysql_code MySQL_DOUBLE = 5"
| "mysql_code MySQL_NEWDECIMAL = 246"
| "mysql_code MySQL_DATE = 14"
| "mysql_code MySQL_TIMESTAMP = 7"
| "mysql_code MySQL_STRING = 254"
| "mysql_code MySQL_VARSTRING = 15"

datatype KETI_SELECT_TYPE =
    COL_NAME | SEL_SUM | SEL_AVG | SEL_COUNT | SEL_COUNTSTAR | SEL_TOP | SEL_MIN | SEL_MAX

fun select_code :: "KETI_SELECT_TYPE \<Rightarrow> int" where
  "select_code COL_NAME = 0"
| "select_code SEL_SUM = 1"
| "select_code SEL_AVG = 2"
| "select_code SEL_COUNT = 3"
| "select_code SEL_COUNTSTAR = 4"
| "select_code SEL_TOP = 5"
| "select_code SEL_MIN = 6"
| "select_code SEL_MAX = 7"

datatype KETI_VALUE_TYPE =
    V_INT8 | V_INT16 | V_INT32 | V_INT64 | V_FLOAT32 | V_FLOAT64 | V_NUMERIC | V_DATE
  | V_TIMESTAMP | V_STRING | V_COLUMN | V_OPERATOR

fun value_code :: "KETI_VALUE_TYPE \<Rightarrow> int" where
  "value_code V_INT8 = 0"
| "value_code V_INT16 = 1"
| "value_code V_INT32 = 2"
| "value_code V_INT64 = 3"
| "value_code V_FLOAT32 = 4"
| "value_code V_FLOAT64 = 5"
| "value_code V_NUMERIC = 6"
| "value_code V_DATE = 7"
| "value_code V_TIMESTAMP = 8"
| "value_code V_STRING = 9"
| "value_code V_COLUMN = 10"
| "value_code V_OPERATOR = 11"

datatype Scan_Type = Full_Scan_Filter | Full_Scan | Index_Scan_Filter | Index_Scan

datatype opertype =
    GE | LE | GT | LT | ET | NE | LIKE | BETWEEN | IN_OP | IS_OP | ISNOT | NOT_OP | AND_OP | OR_OP
  | SUBSTRING

fun oper_code :: "opertype \<Rightarrow> int" where
  "oper_code GE = 1"
| "oper_code LE = 2"
| "oper_code GT = 3"
| "oper_code LT = 4"
| "oper_code ET = 5"
| "oper_code NE = 6"
| "oper_code LIKE = 7"
| "oper_code BETWEEN = 8"
| "oper_code IN_OP = 9"
| "oper_code IS_OP = 10"
| "oper_code ISNOT = 11"
| "oper_code NOT_OP = 12"
| "oper_code AND_OP = 13"
| "oper_code OR_OP = 14"
| "oper_code SUBSTRING = 16"

definition all_opers :: "opertype list" where
  "all_opers = [GE, LE, GT, LT, ET, NE, LIKE, BETWEEN, IN_OP, IS_OP, ISNOT, NOT_OP, AND_OP, OR_OP,
                SUBSTRING]"

definition oper_of :: "int \<Rightarrow> opertype option" where
  "oper_of v = find (\<lambda>p. oper_code p = v) all_opers"

lemma oper_of_code [simp]: "oper_of (oper_code p) = Some p"
  by (cases p) (simp_all add: oper_of_def all_opers_def)

instantiation opertype :: linorder
begin

definition less_eq_opertype :: "opertype \<Rightarrow> opertype \<Rightarrow> bool" where
  "less_eq_opertype p q \<longleftrightarrow> oper_code p \<le> oper_code q"

definition less_opertype :: "opertype \<Rightarrow> opertype \<Rightarrow> bool" where
  "less_opertype p q \<longleftrightarrow> oper_code p < oper_code q"

instance
proof
  fix p q :: opertype
  assume "p \<le> q" "q \<le> p"
  then have "oper_of (oper_code p) = oper_of (oper_code q)"
    by (simp add: less_eq_opertype_def)
  then show "p = q" by simp
qed (auto simp: less_eq_opertype_def less_opertype_def)

end

section \<open>Records\<close>

record Projection =
  projection :: int
  proj_values :: "string list"
  proj_types :: "int list"

record PrimaryKey =
  key_name :: string
  key_type :: int
  key_length :: int

record FilterInfo =
  table_col :: "string list"
  table_offset :: "int list"
  table_offlen :: "int list"
  table_datatype :: "int list"
  colindexmap :: "string \<rightharpoonup> int"
  table_filter :: string
  column_projection :: "Projection list"
  projection_datatype :: "int list"
  groupby_col :: "string list"

record Result =
  rs_query_id :: int
  rs_work_id :: int
  rs_csd_name :: string
  rs_total_block_count :: int
  rs_filter_info :: FilterInfo
  rs_row_count :: nat
  rs_length :: nat
  rs_data :: buffer
  rs_row_offset :: "nat list"
  rs_result_block_count :: int

record MergeResult =
  mr_query_id :: int
  mr_work_id :: int
  mr_csd_name :: string
  mr_row_offset :: "nat list"
  mr_row_count :: nat
  mr_data :: buffer
  mr_length :: nat
  mr_total_block_count :: int
  mr_result_block_count :: int
  mr_current_block_count :: int

text \<open>
  Constructors and re-initialisers. A freshly constructed object lies in memory whose contents
  \<open>junk\<close> are unknown; the constructor clears four bytes of its array.
\<close>

definition new_Result :: "buffer \<Rightarrow> int \<Rightarrow> int \<Rightarrow> string \<Rightarrow> int \<Rightarrow> FilterInfo \<Rightarrow> int \<Rightarrow> Result" where
  "new_Result junk qid wid csd tot fi rbc =
     \<lparr> rs_query_id = qid, rs_work_id = wid, rs_csd_name = csd, rs_total_block_count = tot,
       rs_filter_info = fi, rs_row_count = 0, rs_length = 0, rs_data = clear4 junk,
       rs_row_offset = [], rs_result_block_count = rbc \<rparr>"

definition InitResult :: "'a Result_scheme \<Rightarrow> 'a Result_scheme" where
  "InitResult r = r\<lparr> rs_row_count := 0, rs_length := 0, rs_data := clear4 (rs_data r),
                     rs_row_offset := [], rs_result_block_count := 0 \<rparr>"

definition new_MergeResult :: "buffer \<Rightarrow> int \<Rightarrow> int \<Rightarrow> string \<Rightarrow> int \<Rightarrow> MergeResult" where
  "new_MergeResult junk qid wid csd tot =
     \<lparr> mr_query_id = qid, mr_work_id = wid, mr_csd_name = csd, mr_row_offset = [],
       mr_row_count = 0, mr_data = clear4 junk, mr_length = 0, mr_total_block_count = tot,
       mr_result_block_count = 0, mr_current_block_count = 0 \<rparr>"

definition InitMergeResult :: "'a MergeResult_scheme \<Rightarrow> 'a MergeResult_scheme" where
  "InitMergeResult m = m\<lparr> mr_row_offset := [], mr_data := clear4 (mr_data m), mr_row_count := 0,
                          mr_length := 0, mr_result_block_count := 0 \<rparr>"

section \<open>Rows in a buffer\<close>

fun offsets :: "nat \<Rightarrow> string list \<Rightarrow> nat list" where
  "offsets n [] = []"
| "offsets n (r # rs) = n # offsets (n + length r) rs"

lemma length_offsets [simp]: "length (offsets n rs) = length rs"
  by (induction rs arbitrary: n) simp_all

lemma offsets_append [simp]: "offsets n (rs @ rs') = offsets n rs @ offsets (n + length (concat rs)) rs'"
  by (induction rs arbitrary: n) (simp_all add: add.assoc)

lemma offsets_nth: "i < length rs \<Longrightarrow> offsets n rs ! i = n + length (concat (take i rs))"
  by (induction rs arbitrary: n i) (auto simp: nth_Cons split: nat.splits)

definition row_layout_in :: "nat \<Rightarrow> nat \<Rightarrow> nat \<Rightarrow> nat list \<Rightarrow> buffer \<Rightarrow> string list \<Rightarrow> bool" where
  "row_layout_in cap cnt len offs d rows \<longleftrightarrow>
     cnt = length rows \<and> len = length (concat rows) \<and> len \<le> cap \<and> offs = offsets 0 rows \<and>
     buf_read d 0 len = concat rows"

definition result_rows_in :: "nat \<Rightarrow> 'a Result_scheme \<Rightarrow> string list \<Rightarrow> bool" where
  "result_rows_in cap r rows \<longleftrightarrow> row_layout_in cap (rs_row_count r) (rs_length r) (rs_row_offset r) (rs_data r) rows"

definition merge_rows_in :: "nat \<Rightarrow> 'a MergeResult_scheme \<Rightarrow> string list \<Rightarrow> bool" where
  "merge_rows_in cap m rows \<longleftrightarrow> row_layout_in cap (mr_row_count m) (mr_length m) (mr_row_offset m) (mr_data m) rows"

abbreviation row_layout :: "nat \<Rightarrow> nat \<Rightarrow> nat list \<Rightarrow> buffer \<Rightarrow> string list \<Rightarrow> bool" where
  "row_layout \<equiv> row_layout_in BUFF_SIZE"

abbreviation result_rows :: "'a Result_scheme \<Rightarrow> string list \<Rightarrow> bool" where
  "result_rows \<equiv> result_rows_in BUFF_SIZE"

abbreviation merge_rows :: "'a MergeResult_scheme \<Rightarrow> string list \<Rightarrow> bool" where
  "merge_rows \<equiv> merge_rows_in BUFF_SIZE"

lemmas row_layout_def = row_layout_in_def
lemmas result_rows_def = result_rows_in_def
lemmas merge_rows_def = merge_rows_in_def

lemma row_layout_empty [simp]: "row_layout_in cap 0 0 [] d []"
  by (simp add: row_layout_in_def)

lemma row_layout_append:
  assumes "row_layout_in cap cnt len offs d rows" "len + length row \<le> cap"
  shows "row_layout_in cap (Suc cnt) (len + length row) (offs @ [len]) (buf_write d len row) (rows @ [row])"
  using assms by (auto simp: row_layout_in_def buf_write_extend)

lemma row_layout_data:
  "buf_read d' 0 len = buf_read d 0 len \<Longrightarrow> row_layout_in cap cnt len offs d rows \<Longrightarrow> row_layout_in cap cnt len offs d' rows"
  unfolding row_layout_in_def by metis

lemma row_layout_nth:
  assumes "row_layout_in cap cnt len offs d rows" "i < length rows"
  shows "offs ! i + length (rows ! i) \<le> len"
    and "buf_read d (offs ! i) (length (rows ! i)) = rows ! i"
    and "(offs @ [len]) ! Suc i = offs ! i + length (rows ! i)"
proof -
  define pre where "pre = concat (take i rows)"
  define post where "post = concat (drop (Suc i) rows)"
  have split: "concat rows = pre @ rows ! i @ post"
    unfolding pre_def post_def using assms(2)
    by (metis concat.simps(2) concat_append id_take_nth_drop)
  have off: "offs ! i = length pre"
    using assms by (simp add: row_layout_in_def offsets_nth pre_def)
  have len: "len = length pre + length (rows ! i) + length post"
    using assms(1) split by (simp add: row_layout_in_def)
  have "buf_read d 0 len = concat rows"
    using assms(1) unfolding row_layout_in_def by (elim conjE)
  then have d: "buf_read d 0 len = pre @ rows ! i @ post"
    by (simp only: split)
  show "offs ! i + length (rows ! i) \<le> len" using off len by simp
  have "buf_read d (offs ! i) (length (rows ! i)) = take (length (rows ! i)) (drop (length pre) (buf_read d 0 len))"
    using off len by (simp add: drop_buf_read take_buf_read)
  then show "buf_read d (offs ! i) (length (rows ! i)) = rows ! i" by (simp add: d)
  show "(offs @ [len]) ! Suc i = offs ! i + length (rows ! i)"
  proof (cases "Suc i < length rows")
    case True
    then have "offs ! Suc i = length (concat (take (Suc i) rows))"
      using assms(1) by (simp add: row_layout_in_def offsets_nth)
    with True off assms(1) show ?thesis
      by (simp add: row_layout_in_def nth_append pre_def take_Suc_conv_app_nth)
  next
    case False
    with assms have "Suc i = length offs" "post = []"
      by (simp_all add: row_layout_in_def post_def)
    with off len show ?thesis by (simp add: nth_append)
  qed
qed

lemma row_layout_unique:
  assumes "row_layout_in cap cnt len offs d rows" "row_layout_in cap cnt len offs d rows'"
  shows "rows = rows'"
proof (rule nth_equalityI)
  show "length rows = length rows'" using assms by (simp add: row_layout_in_def)
  fix i assume i: "i < length rows"
  with assms have i': "i < length rows'" by (simp add: row_layout_in_def)
  have "length (rows ! i) = length (rows' ! i)"
    using row_layout_nth(3) [OF assms(1) i] row_layout_nth(3) [OF assms(2) i'] by linarith
  then show "rows ! i = rows' ! i"
    using row_layout_nth(2) [OF assms(1) i] row_layout_nth(2) [OF assms(2) i'] by metis
qed

section \<open>The contract of a row buffer\<close>

locale row_buffer =
  fixes rep :: "'b \<Rightarrow> string list \<Rightarrow> bool"
    and used :: "'b \<Rightarrow> nat"
    and append_row :: "string \<Rightarrow> 'b \<Rightarrow> 'b res"
    and reset :: "'b \<Rightarrow> 'b"
    and cap :: nat
  assumes reset_rep: "rep (reset b) []"
    and used_rep: "rep b rows \<Longrightarrow> used b = length (concat rows)"
    and used_bound: "rep b rows \<Longrightarrow> used b \<le> cap"
    and append_fits: "rep b rows \<Longrightarrow> used b + length row \<le> cap \<Longrightarrow>
      \<exists>b'. append_row row b = Inr b' \<and> rep b' (rows @ [row])"
    and append_overflow: "rep b rows \<Longrightarrow> cap < used b + length row \<Longrightarrow>
      append_row row b = Inl OutOfBounds"
begin

lemma append_all:
  assumes "rep b rows" "used b + length (concat rs) \<le> cap"
  shows "\<exists>b'. foldE append_row rs b = Inr b' \<and> rep b' (rows @ rs)"
  using assms
proof (induction rs arbitrary: b rows)
  case (Cons r rs)
  then have "used b + length r \<le> cap" by simp
  with Cons.prems(1) obtain b' where b': "append_row r b = Inr b'" "rep b' (rows @ [r])"
    using append_fits by blast
  have "used b' + length (concat rs) \<le> cap"
    using Cons.prems used_rep [OF b'(2)] used_rep [OF Cons.prems(1)] by simp
  from Cons.IH [OF b'(2) this] b'(1) show ?case by simp
qed auto

lemma append_all_overflow:
  assumes "rep b rows" "cap < used b + length (concat rs)"
  shows "foldE append_row rs b = Inl OutOfBounds"
  using assms
proof (induction rs arbitrary: b rows)
  case Nil
  with used_bound [of b rows] show ?case by simp
next
  case (Cons r rs)
  show ?case
  proof (cases "used b + length r \<le> cap")
    case True
    with Cons.prems(1) obtain b' where b': "append_row r b = Inr b'" "rep b' (rows @ [r])"
      using append_fits by blast
    have "cap < used b' + length (concat rs)"
      using Cons.prems used_rep [OF b'(2)] used_rep [OF Cons.prems(1)] by simp
    from Cons.IH [OF b'(2) this] b'(1) show ?thesis by simp
  next
    case False
    with Cons.prems(1) show ?thesis using append_overflow [of b rows r] by simp
  qed
qed

end

text \<open>
  How often rows of these lengths pass the limit, in a buffer that already holds \<open>n\<close> bytes.
\<close>

fun flush_count :: "nat \<Rightarrow> nat \<Rightarrow> nat list \<Rightarrow> nat" where
  "flush_count limit n [] = 0"
| "flush_count limit n (l # ls) =
     (if n + l \<le> limit then flush_count limit (n + l) ls else Suc (flush_count limit l ls))"

lemma flush_count_small: "n + sum_list ls \<le> limit \<Longrightarrow> flush_count limit n ls = 0"
  by (induction ls arbitrary: n) simp_all

text \<open>
  A layer that fills a row buffer and sends it on when the next row would pass \<open>limit\<close>. \<open>cur\<close> is
  the buffer being filled, \<open>sent\<close> the buffers sent on so far.
\<close>

locale flush_buffer = row_buffer rep used append_row reset cap
  for rep :: "'b \<Rightarrow> string list \<Rightarrow> bool" and used append_row reset cap +
  fixes limit :: nat
    and cur :: "'s \<Rightarrow> 'b"
    and sent :: "'s \<Rightarrow> 'b list"
    and step :: "string \<Rightarrow> 's \<Rightarrow> 's res"
  assumes limit_le: "limit \<le> cap"
    and step_fits: "rep (cur s) rows \<Longrightarrow> used (cur s) + length row \<le> limit \<Longrightarrow>
      \<exists>s'. step row s = Inr s' \<and> rep (cur s') (rows @ [row]) \<and> sent s' = sent s"
    and step_flush: "rep (cur s) rows \<Longrightarrow> limit < used (cur s) + length row \<Longrightarrow>
      length row \<le> cap \<Longrightarrow>
      \<exists>s' e. step row s = Inr s' \<and> rep (cur s') [row] \<and> sent s' = sent s @ [e] \<and> rep e rows"
    and step_overflow: "rep (cur s) rows \<Longrightarrow> cap < length row \<Longrightarrow> step row s = Inl OutOfBounds"
begin

lemma run_conserves:
  assumes "rep (cur s) rows" "\<forall>r\<in>set rs. length r \<le> cap"
  shows "\<exists>s' es rss lst. foldE step rs s = Inr s' \<and> sent s' = sent s @ es \<and>
    list_all2 rep es rss \<and> rep (cur s') lst \<and> concat rss @ lst = rows @ rs \<and>
    length es = flush_count limit (used (cur s)) (map length rs)"
  using assms
proof (induction rs arbitrary: s rows)
  case Nil
  then show ?case
    by (intro exI [of _ s] exI [of _ "[] :: 'b list"] exI [of _ "[] :: string list list"]
        exI [of _ rows]) simp
next
  case (Cons r rs)
  then have r: "length r \<le> cap" and rs: "\<forall>r\<in>set rs. length r \<le> cap" by simp_all
  show ?case
  proof (cases "used (cur s) + length r \<le> limit")
    case True
    from step_fits [OF Cons.prems(1) this] obtain s1
      where s1: "step r s = Inr s1" "rep (cur s1) (rows @ [r])" "sent s1 = sent s" by blast
    have "used (cur s1) = used (cur s) + length r" using used_rep [OF s1(2)] used_rep [OF Cons.prems(1)] by simp
    with Cons.IH [OF s1(2) rs] s1 True show ?thesis by simp
  next
    case False
    then have "limit < used (cur s) + length r" by simp
    from step_flush [OF Cons.prems(1) this r] obtain s1 e
      where s1: "step r s = Inr s1" "rep (cur s1) [r]" "sent s1 = sent s @ [e]" "rep e rows" by blast
    have "used (cur s1) = length r" using used_rep [OF s1(2)] by simp
    with Cons.IH [OF s1(2) rs] obtain s' es rss lst
      where "foldE step rs s1 = Inr s'" "sent s' = sent s1 @ es" "list_all2 rep es rss"
        "rep (cur s') lst" "concat rss @ lst = [r] @ rs" "length es = flush_count limit (length r) (map length rs)" by auto
    with s1 False show ?thesis
      by (intro exI [of _ s'] exI [of _ "e # es"] exI [of _ "rows # rss"] exI [of _ lst]) simp
  qed
qed

text \<open>One row that does not fit even into an empty buffer, and the run fails.\<close>

lemma run_overflow:
  assumes "rep (cur s) rows" "\<exists>r\<in>set rs. cap < length r"
  shows "foldE step rs s = Inl OutOfBounds"
proof -
  from split_list_first_prop [OF assms(2)] obtain xs r ys where
    rs: "rs = xs @ r # ys" "cap < length r" "\<forall>x\<in>set xs. length x \<le> cap" by (auto simp: not_less)
  from run_conserves [OF assms(1) rs(3)] obtain s' lst where "foldE step xs s = Inr s'" "rep (cur s') lst" by blast
  with step_overflow [OF this(2) rs(2)] show ?thesis by (simp add: rs(1) foldE_append)
qed

lemma run_bounded:
  assumes "rep (cur s) rows" "used (cur s) \<le> limit" "\<forall>r\<in>set rs. length r \<le> limit"
    "\<forall>e\<in>set (sent s). used e \<le> limit" "foldE step rs s = Inr s'"
  shows "used (cur s') \<le> limit \<and> (\<forall>e\<in>set (sent s'). used e \<le> limit)"
  using assms
proof (induction rs arbitrary: s rows)
  case Nil
  then show ?case by simp
next
  case (Cons r rs)
  then have r: "length r \<le> limit" "length r \<le> cap" and rs: "\<forall>r\<in>set rs. length r \<le> limit"
    using limit_le by auto
  show ?case
  proof (cases "used (cur s) + length r \<le> limit")
    case True
    from step_fits [OF Cons.prems(1) this] obtain s1
      where s1: "step r s = Inr s1" "rep (cur s1) (rows @ [r])" "sent s1 = sent s" by blast
    have "used (cur s1) \<le> limit"
      using True used_rep [OF s1(2)] used_rep [OF Cons.prems(1)] by simp
    from Cons.IH [OF s1(2) this rs] s1 Cons.prems show ?thesis by simp
  next
    case False
    then have "limit < used (cur s) + length r" by simp
    from step_flush [OF Cons.prems(1) this r(2)] obtain s1 e
      where s1: "step r s = Inr s1" "rep (cur s1) [r]" "sent s1 = sent s @ [e]" "rep e rows" by blast
    have "used (cur s1) \<le> limit" using used_rep [OF s1(2)] r(1) by simp
    moreover have "used e \<le> limit"
      using used_rep [OF s1(4)] used_rep [OF Cons.prems(1)] Cons.prems(2) by simp
    ultimately have "\<forall>e\<in>set (sent s1). used e \<le> limit" using s1(3) Cons.prems(4) by simp
    moreover have "foldE step rs s1 = Inr s'" using s1(1) Cons.prems(5) by simp
    ultimately show ?thesis
      using Cons.IH [OF s1(2) \<open>used (cur s1) \<le> limit\<close> rs] by blast
  qed
qed

end

end
