(* ===== verification/Work_Queue.thy ===== *)
theory Work_Queue
  imports CSD_Types
begin

text \<open>
  \<open>template <typename T> class WorkQueue\<close> (\<open>input.h\<close>): a \<open>std::queue\<close> under a mutex and a
  condition variable. The layers of the worker talk to each other only through four of these.

  Each critical section (the code between \<open>lock\<close> and \<open>unlock\<close> or \<open>wait\<close>) is one atomic operation:
  \<open>push_work\<close>, \<open>wait_and_pop\<close> and \<open>queue_length\<close>. \<open>notify_one\<close> is called after the mutex is
  released, so it is a step of its own; \<open>pending\<close> counts the calls that have been decided
  (\<open>was_empty\<close>) and not yet performed. \<open>wq_step\<close> interleaves any number of producers with the
  consumers listed in \<open>pcs\<close>, and allows spurious wake-ups. The lemmas show that items come out
  in the order they went in, whoever takes them, and that no wake-up is lost although
  \<open>notify_one\<close> is called only when the queue was empty.
\<close>

section \<open>The FIFO contract\<close>

locale fifo_queue =
  fixes items :: "'q \<Rightarrow> 'a list"
    and push :: "'a \<Rightarrow> 'q \<Rightarrow> 'q"
    and pop :: "'q \<Rightarrow> 'a option \<times> 'q"
  assumes push_items: "items (push x q) = items q @ [x]"
    and pop_empty: "items q = [] \<Longrightarrow> fst (pop q) = None \<and> items (snd (pop q)) = []"
    and pop_nonempty: "items q = x # xs \<Longrightarrow> fst (pop q) = Some x \<and> items (snd (pop q)) = xs"
begin

lemma push_all_items: "items (fold push xs q) = items q @ xs"
  by (induction xs arbitrary: q) (simp_all add: push_items)

fun pop_many :: "nat \<Rightarrow> 'q \<Rightarrow> 'a list \<times> 'q" where
  "pop_many 0 q = ([], q)"
| "pop_many (Suc n) q =
     (case pop q of (None, q') \<Rightarrow> ([], q')
      | (Some x, q') \<Rightarrow> (case pop_many n q' of (xs, q'') \<Rightarrow> (x # xs, q'')))"

lemma pop_many_items:
  "n \<le> length (items q) \<Longrightarrow>
     fst (pop_many n q) = take n (items q) \<and> items (snd (pop_many n q)) = drop n (items q)"
proof (induction n arbitrary: q)
  case (Suc n)
  then obtain x xs where it: "items q = x # xs" by (cases "items q") auto
  obtain q' where p: "pop q = (Some x, q')" and q': "items q' = xs"
    using pop_nonempty [OF it] by (metis prod.collapse)
  from Suc.prems it q' have "n \<le> length (items q')" by simp
  from Suc.IH [OF this] it p q' show ?case by (cases "pop_many n q'") simp
qed simp

theorem fifo_order:
  "items q = [] \<Longrightarrow> fst (pop_many (length xs) (fold push xs q)) = xs"
  using pop_many_items [of "length xs" "fold push xs q"] by (simp add: push_all_items)

end

section \<open>The queue and its operations\<close>

datatype consumer = Running | Blocked | Woken

record 'a WorkQueue =
  work :: "'a list"
  pending :: nat
  pcs :: "consumer list"

definition new_WorkQueue :: "nat \<Rightarrow> 'a WorkQueue" where
  "new_WorkQueue n = \<lparr> work = [], pending = 0, pcs = replicate n Running \<rparr>"

definition push_work :: "'a \<Rightarrow> 'a WorkQueue \<Rightarrow> 'a WorkQueue" where
  "push_work item q =
     (let was_empty = (work q = [])
      in q\<lparr> work := work q @ [item],
            pending := (if was_empty then Suc (pending q) else pending q) \<rparr>)"

text \<open>
  The part of \<open>wait_and_pop\<close> that consumer \<open>c\<close> runs while it holds the mutex: either the queue
  is empty and it blocks on the condition variable, or it takes the front item.
\<close>

definition wait_and_pop :: "nat \<Rightarrow> 'a WorkQueue \<Rightarrow> 'a option \<times> 'a WorkQueue" where
  "wait_and_pop c q =
     (case work q of
        [] \<Rightarrow> (None, q\<lparr> pcs := (pcs q)[c := Blocked] \<rparr>)
      | x # xs \<Rightarrow> (Some x, q\<lparr> work := xs, pcs := (pcs q)[c := Running] \<rparr>))"

definition queue_length :: "'a WorkQueue \<Rightarrow> int" where
  "queue_length q = int (length (work q))"

text \<open>\<open>notify_one\<close>: one blocked consumer, chosen by the scheduler, wakes; none if none is blocked.\<close>

definition notify_one :: "nat option \<Rightarrow> 'a WorkQueue \<Rightarrow> 'a WorkQueue" where
  "notify_one choice q =
     (case choice of None \<Rightarrow> q\<lparr> pending := pending q - 1 \<rparr>
      | Some c \<Rightarrow> q\<lparr> pending := pending q - 1, pcs := (pcs q)[c := Woken] \<rparr>)"

interpretation wq: fifo_queue work push_work "wait_and_pop c" for c
  by unfold_locales (auto simp: push_work_def wait_and_pop_def Let_def)

section \<open>Interleavings\<close>

datatype 'a qlabel = Push 'a | Pop nat 'a | Silent

inductive wq_step :: "'a WorkQueue \<Rightarrow> 'a qlabel \<Rightarrow> 'a WorkQueue \<Rightarrow> bool" where
  step_push: "wq_step q (Push x) (push_work x q)"
| step_pop: "c < length (pcs q) \<Longrightarrow> pcs q ! c \<noteq> Blocked \<Longrightarrow> wait_and_pop c q = (Some x, q') \<Longrightarrow>
     wq_step q (Pop c x) q'"
| step_block: "c < length (pcs q) \<Longrightarrow> pcs q ! c \<noteq> Blocked \<Longrightarrow> wait_and_pop c q = (None, q') \<Longrightarrow>
     wq_step q Silent q'"
| step_notify: "0 < pending q \<Longrightarrow> c < length (pcs q) \<Longrightarrow> pcs q ! c = Blocked \<Longrightarrow>
     wq_step q Silent (notify_one (Some c) q)"
| step_notify_none: "0 < pending q \<Longrightarrow> Blocked \<notin> set (pcs q) \<Longrightarrow> wq_step q Silent (notify_one None q)"
| step_spurious: "c < length (pcs q) \<Longrightarrow> pcs q ! c = Blocked \<Longrightarrow>
     wq_step q Silent (q\<lparr> pcs := (pcs q)[c := Woken] \<rparr>)"

inductive_cases wq_pushE: "wq_step q (Push x) q'"
inductive_cases wq_popE: "wq_step q (Pop c x) q'"
inductive_cases wq_silentE: "wq_step q Silent q'"

inductive wq_run :: "'a WorkQueue \<Rightarrow> 'a qlabel list \<Rightarrow> 'a WorkQueue \<Rightarrow> bool" where
  run_nil: "wq_run q [] q"
| run_step: "wq_run q ls q' \<Longrightarrow> wq_step q' l q'' \<Longrightarrow> wq_run q (ls @ [l]) q''"

fun pushed :: "'a qlabel list \<Rightarrow> 'a list" where
  "pushed [] = []"
| "pushed (Push x # ls) = x # pushed ls"
| "pushed (_ # ls) = pushed ls"

fun popped :: "'a qlabel list \<Rightarrow> 'a list" where
  "popped [] = []"
| "popped (Pop c x # ls) = x # popped ls"
| "popped (_ # ls) = popped ls"

lemma pushed_append [simp]: "pushed (ls @ ms) = pushed ls @ pushed ms"
  by (induction ls rule: pushed.induct) simp_all

lemma popped_append [simp]: "popped (ls @ ms) = popped ls @ popped ms"
  by (induction ls rule: popped.induct) simp_all

lemma wq_step_work: "wq_step q l q' \<Longrightarrow> popped [l] @ work q' = work q @ pushed [l]"
  by (induction rule: wq_step.induct)
    (auto simp: push_work_def wait_and_pop_def notify_one_def Let_def split: list.splits)

lemma wq_run_work: "wq_run q ls q' \<Longrightarrow> popped ls @ work q' = work q @ pushed ls"
proof (induction rule: wq_run.induct)
  case (run_step q ls q' l q'')
  have "popped (ls @ [l]) @ work q'' = popped ls @ popped [l] @ work q''" by simp
  also have "\<dots> = (popped ls @ work q') @ pushed [l]"
    using wq_step_work [OF run_step.hyps(2)] by simp
  also have "\<dots> = work q @ pushed (ls @ [l])" using run_step.IH by simp
  finally show ?case .
qed simp

text \<open>
  The wake-up invariant: while there is work, a notification is outstanding or some consumer
  is not blocked (and will look at the queue again before it blocks).
\<close>

definition wake_inv :: "'a WorkQueue \<Rightarrow> bool" where
  "wake_inv q \<longleftrightarrow> pcs q \<noteq> [] \<and> (work q \<noteq> [] \<longrightarrow> 0 < pending q \<or> (\<exists>p\<in>set (pcs q). p \<noteq> Blocked))"

lemma wake_inv_new: "0 < n \<Longrightarrow> wake_inv (new_WorkQueue n)"
  by (simp add: wake_inv_def new_WorkQueue_def)

lemma wake_inv_awake: "c < length ps \<Longrightarrow> p \<noteq> Blocked \<Longrightarrow> \<exists>p'\<in>set (ps[c := p]). p' \<noteq> Blocked"
  using set_update_memI [of c ps p] by (rule bexI [rotated])

lemma wake_inv_step: "wq_step q l q' \<Longrightarrow> wake_inv q \<Longrightarrow> wake_inv q'"
proof (induction rule: wq_step.induct)
  case (step_push q x)
  then show ?case by (auto simp: wake_inv_def push_work_def Let_def)
next
  case (step_pop c q x q')
  then have "pcs q' = (pcs q)[c := Running]"
    by (cases "work q") (auto simp: wait_and_pop_def)
  moreover have "\<exists>p\<in>set ((pcs q)[c := Running]). p \<noteq> Blocked"
    using step_pop.hyps(1) by (rule wake_inv_awake) simp
  moreover from this have "(pcs q)[c := Running] \<noteq> []" by auto
  ultimately show ?case by (simp add: wake_inv_def)
next
  case (step_block c q q')
  then show ?case by (auto simp: wake_inv_def wait_and_pop_def split: list.splits)
next
  case (step_notify q c)
  then show ?case using wake_inv_awake [of c "pcs q" Woken]
    by (auto simp: wake_inv_def notify_one_def)
next
  case (step_notify_none q)
  then have "\<exists>p\<in>set (pcs q). p \<noteq> Blocked"
    by (cases "pcs q") (auto simp: wake_inv_def)
  with step_notify_none show ?case by (auto simp: wake_inv_def notify_one_def)
next
  case (step_spurious c q)
  then show ?case using wake_inv_awake [of c "pcs q" Woken] by (auto simp: wake_inv_def)
qed

lemma wake_inv_run: "wq_run q ls q' \<Longrightarrow> wake_inv q \<Longrightarrow> wake_inv q'"
  by (induction rule: wq_run.induct) (auto intro: wake_inv_step)

section \<open>Properties\<close>

text \<open>
  C18. Whatever the interleaving of producers, consumers, notifications and spurious wake-ups, the
  items the consumers took out, followed by what is still queued, are exactly the items that
  were pushed, in the order they were pushed: nothing is lost, duplicated or reordered.
\<close>

theorem work_queue_fifo:
  "wq_run (new_WorkQueue n) ls q \<Longrightarrow> popped ls @ work q = pushed ls"
  using wq_run_work by (fastforce simp: new_WorkQueue_def)

theorem work_queue_fifo_witness:
  "\<exists>q. wq_run (new_WorkQueue 1) [Push (7::nat), Pop 0 7] q \<and> popped [Push 7, Pop 0 7] @ work q = [7]"
proof -
  let ?q1 = "push_work (7::nat) (new_WorkQueue 1)"
  have r1: "wq_run (new_WorkQueue 1) ([] @ [Push 7]) ?q1"
    by (rule run_step [OF run_nil step_push])
  have "wq_step ?q1 (Pop 0 7) (snd (wait_and_pop 0 ?q1))"
    by (rule step_pop) (simp_all add: push_work_def new_WorkQueue_def wait_and_pop_def)
  from run_step [OF r1 this]
  have r2: "wq_run (new_WorkQueue 1) [Push 7, Pop 0 7] (snd (wait_and_pop 0 ?q1))" by simp
  from work_queue_fifo [OF r2] r2 show ?thesis by auto
qed

text \<open>
  C19. No lost wake-up: with at least one consumer, in every reachable state in which the queue is
  not empty and every notification has been delivered, some consumer can take the front item
  in its next step, although \<open>push_work\<close> calls \<open>notify_one\<close> only when the queue was empty.
\<close>

theorem work_queue_not_stuck:
  assumes "wq_run (new_WorkQueue n) ls q" "0 < n" "work q = x # xs" "pending q = 0"
  shows "\<exists>c q'. wq_step q (Pop c x) q' \<and> work q' = xs"
proof -
  have "wake_inv q" using wake_inv_run [OF assms(1)] wake_inv_new [OF assms(2)] by blast
  with assms(3,4) obtain c where c: "c < length (pcs q)" "pcs q ! c \<noteq> Blocked"
    by (auto simp: wake_inv_def in_set_conv_nth)
  have "wait_and_pop c q = (Some x, q\<lparr>work := xs, pcs := (pcs q)[c := Running]\<rparr>)"
    using assms(3) by (simp add: wait_and_pop_def)
  from step_pop [OF c this] show ?thesis by fastforce
qed

theorem work_queue_not_stuck_witness:
  "\<exists>q. wq_run (new_WorkQueue 1) [Push (7::nat), Silent] q \<and>
       (\<exists>c q'. wq_step q (Pop c 7) q' \<and> work q' = [])"
proof -
  let ?q1 = "push_work (7::nat) (new_WorkQueue 1)"
  let ?q2 = "notify_one None ?q1"
  have r1: "wq_run (new_WorkQueue 1) ([] @ [Push 7]) ?q1"
    by (rule run_step [OF run_nil step_push])
  have "wq_step ?q1 Silent ?q2"
    by (rule step_notify_none) (simp_all add: push_work_def new_WorkQueue_def)
  from run_step [OF r1 this] have r2: "wq_run (new_WorkQueue 1) [Push 7, Silent] ?q2" by simp
  have "work ?q2 = [7]" "pending ?q2 = 0"
    by (simp_all add: push_work_def new_WorkQueue_def notify_one_def)
  from work_queue_not_stuck [OF r2 _ this] r2 show ?thesis by auto
qed

end
