(* ===== verification/Input_Model.thy ===== *)
theory Input_Model
  imports Work_Queue
begin

text \<open>
  The input layer (\<open>input.h\<close>, \<open>input.cc\<close>): reading a snippet from the socket, the constructor
  \<open>Snippet(const char*)\<close>, and \<open>EnQueueScan\<close>.

  The socket is the list of what successive \<open>read\<close> calls deliver. rapidjson's parser and its
  pretty printer are parameters. \<open>primary_length\<close> is an option: the constructor assigns it inside
  the loop over the columns only.
\<close>

section \<open>Snippets\<close>

record BlockInfo =
  block_id :: int
  block_offset :: int
  block_size :: int

record Snippet =
  sn_work_id :: int
  sn_query_id :: int
  sn_csd_name :: string
  sn_table_name :: string
  sn_table_col :: "string list"
  sn_table_offset :: "int list"
  sn_table_offlen :: "int list"
  sn_table_datatype :: "int list"
  sn_block_info_list :: "BlockInfo list"
  sn_total_block_count :: int
  sn_colindexmap :: "string \<rightharpoonup> int"
  sn_primary_key_list :: "PrimaryKey list"
  sn_kNumInternalBytes :: nat
  sn_primary_length :: "int option"
  sn_table_filter :: string
  sn_column_projection :: "Projection list"
  sn_projection_datatype :: "int list"
  sn_groupby_col :: "string list"
  sn_scan_type :: Scan_Type
  sn_inserted_key :: "string list"
  sn_inserted_value :: "string list"

definition u64 :: "int \<Rightarrow> int" where
  \<comment> \<open>conversion to \<open>uint64_t\<close>\<close>
  "u64 v = v mod 2 ^ 64"

definition get_string :: "json \<Rightarrow> string \<Rightarrow> string res" where
  "get_string doc k = bindE (json_member doc k) GetString"

definition get_int :: "json \<Rightarrow> string \<Rightarrow> int res" where
  "get_int doc k = bindE (json_member doc k) GetInt"

definition get_array :: "json \<Rightarrow> string \<Rightarrow> json list res" where
  "get_array doc k = bindE (json_member doc k) json_array"

definition elem_int :: "json \<Rightarrow> string \<Rightarrow> nat \<Rightarrow> int res" where
  \<comment> \<open>\<open>document[k][i].GetInt()\<close>\<close>
  "elem_int doc k i = bindE (json_member doc k) (\<lambda>a. bindE (json_elem a i) GetInt)"

definition elem_string :: "json \<Rightarrow> string \<Rightarrow> nat \<Rightarrow> string res" where
  "elem_string doc k i = bindE (json_member doc k) (\<lambda>a. bindE (json_elem a i) GetString)"

text \<open>The extents: each has an offset and a list of block lengths.\<close>

definition add_block :: "json \<Rightarrow> int \<times> 's Snippet_scheme \<Rightarrow> (int \<times> 's Snippet_scheme) res" where
  "add_block jl st = (case st of (off, sn) \<Rightarrow>
     bindE (GetInt64 jl) (\<lambda>l.
       Inr (u64 (off + u64 l),
            sn\<lparr> sn_block_info_list := sn_block_info_list sn @
                   [\<lparr> block_id = sn_total_block_count sn, block_offset = off, block_size = u64 l \<rparr>],
                sn_total_block_count := sn_total_block_count sn + 1 \<rparr>)))"

definition add_extent :: "json \<Rightarrow> 's Snippet_scheme \<Rightarrow> 's Snippet_scheme res" where
  "add_extent e sn =
     bindE (json_member e ''offset'') (\<lambda>jo.
     bindE (GetInt64 jo) (\<lambda>off.
     bindE (get_array e ''length'') (\<lambda>ls.
     bindE (foldE add_block ls (u64 off, sn)) (\<lambda>(off, sn). Inr sn))))"

text \<open>
  One column. The list and the length of the primary key are cleared for every column, before
  the column is added to them.
\<close>

definition add_column :: "json \<Rightarrow> int \<Rightarrow> nat \<Rightarrow> 's Snippet_scheme \<Rightarrow> 's Snippet_scheme res" where
  "add_column doc primary_count i sn =
     bindE (elem_string doc ''tableCol'' i) (\<lambda>col.
     bindE (elem_int doc ''tableOffset'' i) (\<lambda>startoff.
     bindE (elem_int doc ''tableOfflen'' i) (\<lambda>offlen.
     bindE (elem_int doc ''tableDatatype'' i) (\<lambda>dt.
       let sn = sn\<lparr> sn_table_col := sn_table_col sn @ [col],
                    sn_table_offset := sn_table_offset sn @ [startoff],
                    sn_table_offlen := sn_table_offlen sn @ [offlen],
                    sn_table_datatype := sn_table_datatype sn @ [dt],
                    sn_colindexmap := map_insert (sn_colindexmap sn) col (int i),
                    sn_primary_key_list := [], sn_primary_length := Some 0 \<rparr>
       in if int i < primary_count then
            Inr (sn\<lparr> sn_primary_key_list := sn_primary_key_list sn @
                        [\<lparr> key_name = col, key_type = dt, key_length = offlen \<rparr>],
                     sn_primary_length := map_option (\<lambda>n. n + offlen) (sn_primary_length sn) \<rparr>)
          else Inr sn))))"

definition read_projection :: "json \<Rightarrow> Projection res" where
  "read_projection p =
     bindE (get_int p ''selectType'') (\<lambda>ptype.
     bindE (get_array p ''value'') (\<lambda>v.
     bindE (json_member p ''valueType'') (\<lambda>vt.
     bindE (mapE (\<lambda>j. bindE (GetString (v ! j)) (\<lambda>s.
              bindE (json_elem vt j) (\<lambda>t. bindE (GetInt t) (\<lambda>n. Inr (s, n))))) [0..<length v]) (\<lambda>xs.
       Inr \<lparr> projection = ptype, proj_values = map fst xs, proj_types = map snd xs \<rparr>))))"

definition add_projection :: "json list \<Rightarrow> json \<Rightarrow> nat \<Rightarrow> Snippet \<Rightarrow> Snippet res" where
  "add_projection ps pd i sn =
     bindE (read_projection (ps ! i)) (\<lambda>p.
     bindE (json_elem pd i) (\<lambda>t. bindE (GetInt t) (\<lambda>n.
       Inr (sn\<lparr> sn_column_projection := sn_column_projection sn @ [p],
                sn_projection_datatype := sn_projection_datatype sn @ [n] \<rparr>))))"

definition decide_scan_type :: "bool \<Rightarrow> bool \<Rightarrow> Scan_Type" where
  "decide_scan_type index_scan only_scan =
     (if \<not> index_scan \<and> \<not> only_scan then Full_Scan_Filter
      else if \<not> index_scan \<and> only_scan then Full_Scan
      else if index_scan \<and> \<not> only_scan then Index_Scan_Filter
      else Index_Scan)"

definition read_header :: "json \<Rightarrow> (int \<times> Snippet) res" where
  "read_header doc =
     bindE (get_int doc ''queryID'') (\<lambda>qid.
     bindE (get_int doc ''workID'') (\<lambda>wid.
     bindE (get_string doc ''csdName'') (\<lambda>csd.
     bindE (get_string doc ''tableName'') (\<lambda>tn.
     bindE (get_array doc ''groupBy'') (\<lambda>gb.
     bindE (mapE GetString gb) (\<lambda>gcols.
     bindE (get_int doc ''primaryKey'') (\<lambda>primary_count.
       Inr (primary_count,
         \<lparr> sn_work_id = wid, sn_query_id = qid, sn_csd_name = csd, sn_table_name = tn,
           sn_table_col = [], sn_table_offset = [], sn_table_offlen = [], sn_table_datatype = [],
           sn_block_info_list = [], sn_total_block_count = 0, sn_colindexmap = Map.empty,
           sn_primary_key_list = [],
           sn_kNumInternalBytes = (if primary_count = 0 then 8 else 0),
           sn_primary_length = None, sn_table_filter = [], sn_column_projection = [],
           sn_projection_datatype = [], sn_groupby_col = gcols, sn_scan_type = Full_Scan,
           sn_inserted_key = [], sn_inserted_value = [] \<rparr>))))))))"

definition read_blocks :: "json \<Rightarrow> Snippet \<Rightarrow> Snippet res" where
  "read_blocks doc sn = bindE (get_array doc ''blockList'') (\<lambda>bl. foldE add_extent bl sn)"

definition read_columns :: "json \<Rightarrow> int \<Rightarrow> 's Snippet_scheme \<Rightarrow> 's Snippet_scheme res" where
  "read_columns doc primary_count sn =
     bindE (get_array doc ''tableCol'') (\<lambda>tc. foldE (add_column doc primary_count) [0..<length tc] sn)"

definition read_projections :: "json \<Rightarrow> Snippet \<Rightarrow> Snippet res" where
  "read_projections doc sn =
     bindE (get_array doc ''columnProjection'') (\<lambda>ps.
     bindE (json_member doc ''projectionDatatype'') (\<lambda>pd.
       foldE (add_projection ps pd) [0..<length ps] sn))"

definition read_filter :: "(json \<Rightarrow> string) \<Rightarrow> json \<Rightarrow> 's Snippet_scheme \<Rightarrow> 's Snippet_scheme res" where
  "read_filter write doc sn =
     bindE (get_array doc ''tableFilter'') (\<lambda>tf.
       let only_scan = (tf = []);
           sn = (if only_scan then sn
                 else sn\<lparr> sn_table_filter := write (JObj [(''tableFilter'', JArr tf)]) \<rparr>)
       in Inr (sn\<lparr> sn_scan_type := decide_scan_type False only_scan \<rparr>))"

definition snippet_of_json :: "(json \<Rightarrow> string) \<Rightarrow> json \<Rightarrow> Snippet res" where
  "snippet_of_json write doc =
     bindE (read_header doc) (\<lambda>(primary_count, sn).
     bindE (read_blocks doc sn) (\<lambda>sn.
     bindE (read_columns doc primary_count sn) (\<lambda>sn.
     bindE (read_projections doc sn) (\<lambda>sn.
       read_filter write doc sn))))"

definition new_Snippet :: "(string \<Rightarrow> json) \<Rightarrow> (json \<Rightarrow> string) \<Rightarrow> string \<Rightarrow> Snippet res" where
  "new_Snippet parse write txt = snippet_of_json write (parse txt)"

section \<open>Reading from the socket\<close>

text \<open>
  What a \<open>read\<close> call delivers: \<open>None\<close> for an error (the process exits), otherwise the bytes, none
  at the end of the stream. The result is \<open>None\<close> while the loop has not ended; a chunk is
  appended as a C string. \<open>length -= numread\<close> is 64-bit.
\<close>

datatype input_end = Exited | Received string

fun read_loop :: "nat \<Rightarrow> string \<Rightarrow> string option list \<Rightarrow> input_end option" where
  "read_loop len json [] = None"
| "read_loop len json (None # rs) = Some Exited"
| "read_loop len json (Some chunk # rs) =
     (let len = usub len (length chunk); json = json @ takeWhile (\<lambda>c. c \<noteq> CHR 0x00) chunk
      in if len = 0 then Some (Received json) else read_loop len json rs)"

definition EnQueueScan :: "'s Snippet_scheme \<Rightarrow> 's Snippet_scheme WorkQueue \<Rightarrow> 's Snippet_scheme WorkQueue" where
  "EnQueueScan sn q = push_work sn q"

text \<open>One accepted connection of \<open>InputSnippet\<close>.\<close>

definition InputSnippet ::
  "(string \<Rightarrow> json) \<Rightarrow> (json \<Rightarrow> string) \<Rightarrow> nat \<Rightarrow> string option list \<Rightarrow> Snippet WorkQueue \<Rightarrow>
   Snippet WorkQueue res option" where
  "InputSnippet parse write len reads q =
     (case read_loop len [] reads of
        Some (Received json) \<Rightarrow> Some (bindE (new_Snippet parse write json) (\<lambda>sn. Inr (EnQueueScan sn q)))
      | _ \<Rightarrow> None)"

section \<open>The read loop\<close>

lemma read_loop_progress:
  assumes "\<forall>c\<in>set cs. c \<noteq> [] \<and> CHR 0x00 \<notin> set c" "length (concat cs) = len" "cs \<noteq> []" "len < 2 ^ 64"
  shows "read_loop len json (map Some cs @ rs) = Some (Received (json @ concat cs))"
  using assms
proof (induction cs arbitrary: len json)
  case (Cons c cs)
  have c: "takeWhile (\<lambda>x. x \<noteq> CHR 0x00) c = c" "c \<noteq> []"
    using Cons.prems(1) by (auto simp: takeWhile_eq_all_conv)
  have len: "usub len (length c) = length (concat cs)"
    using Cons.prems(2,4) by (subst usub_le) auto
  show ?case
  proof (cases "cs = []")
    case True
    with c len show ?thesis by (simp add: Let_def)
  next
    case False
    then have ne: "concat cs \<noteq> []" using Cons.prems(1) by (cases cs) auto
    then have "read_loop (length (concat cs)) (json @ c) (map Some cs @ rs) =
        Some (Received ((json @ c) @ concat cs))"
      using Cons.prems False by (intro Cons.IH) auto
    moreover have "read_loop len json (map Some (c # cs) @ rs) =
        read_loop (length (concat cs)) (json @ c) (map Some cs @ rs)"
      unfolding list.map append_Cons read_loop.simps Let_def c(1) len
      by (simp only: length_0_conv ne if_False)
    ultimately show ?thesis by simp
  qed
qed simp

lemma read_loop_waits:
  assumes "length (concat cs) < len" "len < 2 ^ 64"
  shows "read_loop len json (map Some cs) = None"
  using assms
proof (induction cs arbitrary: len json)
  case (Cons c cs)
  then have "usub len (length c) = len - length c" by (intro usub_le) auto
  with Cons.prems Cons.IH [of "len - length c"] show ?case by (simp add: Let_def)
qed simp

text \<open>
  C30. However the text of a snippet is cut into non-empty pieces by the network, the loop ends
  after the last piece with exactly that text.
\<close>

theorem snippet_text_reassembled:
  assumes "list_all (\<lambda>c. c \<noteq> [] \<and> CHR 0x00 \<notin> set c) cs" "cs \<noteq> []" "length (concat cs) < 2 ^ 64"
  shows "read_loop (length (concat cs)) [] (map Some cs @ rs) = Some (Received (concat cs))"
  using read_loop_progress [of cs "length (concat cs)" "[]" rs] assms by (simp add: list_all_iff)

theorem snippet_text_reassembled_witness:
  "read_loop 4 [] (map Some [''{ '', '' }'']) = Some (Received ''{  }'')"
proof -
  have "read_loop (length (concat [''{ '', '' }''])) [] (map Some [''{ '', '' }''] @ []) =
      Some (Received (concat [''{ '', '' }'']))"
    by (rule snippet_text_reassembled) simp_all
  moreover have "length (concat [''{ '', '' }'']) = 4" "concat [''{ '', '' }''] = ''{  }''" by simp_all
  ultimately show ?thesis by (simp only: append_Nil2)
qed

text \<open>
  If the peer announces more bytes than it sends and closes, the loop never ends: after any
  number of further reads (all of them empty) it has neither returned nor exited.
\<close>

theorem early_close_spins:
  assumes "length (concat cs) < len" "len < 2 ^ 64"
  shows "read_loop len [] (map Some cs @ replicate k (Some [])) = None"
proof -
  have "map Some cs @ replicate k (Some []) = map Some (cs @ replicate k [])" by simp
  moreover have "length (concat (cs @ replicate k [])) = length (concat cs)" by (induction k) simp_all
  ultimately show ?thesis using read_loop_waits [of "cs @ replicate k []" len "[]"] assms by simp
qed

theorem early_close_spins_witness:
  "read_loop 10 [] (map Some [''{ }''] @ replicate 1000 (Some [])) = None"
  using early_close_spins [of "[''{ }'']" 10 1000] by simp

section \<open>What a snippet contains\<close>

text \<open>The document's schema arrays, as the constructor reads them.\<close>

definition schema_doc :: "json \<Rightarrow> string list \<Rightarrow> int list \<Rightarrow> int list \<Rightarrow> int list \<Rightarrow> bool" where
  "schema_doc doc cols offs lens types \<longleftrightarrow>
     json_member doc ''tableCol'' = Inr (JArr (map JStr cols)) \<and>
     json_member doc ''tableOffset'' = Inr (JArr (map JInt offs)) \<and>
     json_member doc ''tableOfflen'' = Inr (JArr (map JInt lens)) \<and>
     json_member doc ''tableDatatype'' = Inr (JArr (map JInt types)) \<and>
     length offs = length cols \<and> length lens = length cols \<and> length types = length cols \<and>
     list_all is_int32 offs \<and> list_all is_int32 lens \<and> list_all is_int32 types"

definition key_columns :: "int \<Rightarrow> nat \<Rightarrow> string list \<Rightarrow> int list \<Rightarrow> int list \<Rightarrow> PrimaryKey list" where
  \<comment> \<open>what is left in \<open>primary_key_list\<close> after \<open>k\<close> columns: the last of them, if it is a key\<close>
  "key_columns pc k cols lens types =
     (if 0 < k \<and> int k \<le> pc then
        [\<lparr> key_name = cols ! (k - 1), key_type = types ! (k - 1), key_length = lens ! (k - 1) \<rparr>]
      else [])"

definition columns_read :: "int \<Rightarrow> nat \<Rightarrow> string list \<Rightarrow> int list \<Rightarrow> int list \<Rightarrow> int list \<Rightarrow> Snippet \<Rightarrow> bool" where
  "columns_read pc k cols offs lens types sn \<longleftrightarrow>
     sn_table_col sn = take k cols \<and> sn_table_offset sn = take k offs \<and>
     sn_table_offlen sn = take k lens \<and> sn_table_datatype sn = take k types \<and>
     (\<forall>i<k. sn_colindexmap sn (cols ! i) = Some (int i)) \<and> dom (sn_colindexmap sn) = set (take k cols) \<and>
     sn_primary_key_list sn = key_columns pc k cols lens types \<and>
     sn_primary_length sn = (if k = 0 then None else Some (if int k \<le> pc then lens ! (k - 1) else 0))"

lemma elem_int_nth:
  "json_member doc k = Inr (JArr (map JInt xs)) \<Longrightarrow> list_all is_int32 xs \<Longrightarrow> i < length xs \<Longrightarrow>
     elem_int doc k i = Inr (xs ! i)"
  by (simp add: elem_int_def list_all_length)

lemma elem_string_nth:
  "json_member doc k = Inr (JArr (map JStr xs)) \<Longrightarrow> i < length xs \<Longrightarrow> elem_string doc k i = Inr (xs ! i)"
  by (simp add: elem_string_def)

lemma add_column_ok:
  assumes doc: "schema_doc doc cols offs lens types" and dist: "distinct cols" and k: "k < length cols"
    and sn: "columns_read pc k cols offs lens types sn"
  shows "\<exists>sn'. add_column doc pc k sn = Inr sn' \<and> columns_read pc (Suc k) cols offs lens types sn' \<and>
    sn_kNumInternalBytes sn' = sn_kNumInternalBytes sn \<and> sn_block_info_list sn' = sn_block_info_list sn \<and>
    sn_total_block_count sn' = sn_total_block_count sn"
proof -
  have new: "cols ! k \<notin> set (take k cols)"
    using dist k by (metis distinct_take not_distinct_conv_prefix take_Suc_conv_app_nth)
  then have none: "sn_colindexmap sn (cols ! k) = None" using sn by (auto simp: columns_read_def)
  have old: "cols ! i \<noteq> cols ! k" if "i < k" for i using that k dist by (simp add: nth_eq_iff_index_eq)
  show ?thesis
    using doc k sn none old
    by (auto simp: add_column_def elem_string_nth elem_int_nth schema_doc_def columns_read_def key_columns_def
        take_Suc_conv_app_nth less_Suc_eq Let_def)
qed

lemma add_columns_ok:
  assumes doc: "schema_doc doc cols offs lens types" and dist: "distinct cols"
    and sn: "columns_read pc 0 cols offs lens types sn"
  shows "k \<le> length cols \<Longrightarrow> \<exists>sn'. foldE (add_column doc pc) [0..<k] sn = Inr sn' \<and>
    columns_read pc k cols offs lens types sn' \<and> sn_kNumInternalBytes sn' = sn_kNumInternalBytes sn \<and>
    sn_block_info_list sn' = sn_block_info_list sn \<and> sn_total_block_count sn' = sn_total_block_count sn"
proof (induction k)
  case (Suc k)
  then obtain sn1 where "foldE (add_column doc pc) [0..<k] sn = Inr sn1" "columns_read pc k cols offs lens types sn1"
    "sn_kNumInternalBytes sn1 = sn_kNumInternalBytes sn"
    "sn_block_info_list sn1 = sn_block_info_list sn \<and> sn_total_block_count sn1 = sn_total_block_count sn" by auto
  with add_column_ok [OF doc dist _ this(2)] Suc.prems show ?case by (auto simp: foldE_append)
qed (use sn in simp)

text \<open>What the block loop and the projection loop leave alone.\<close>

lemma columns_read_update [simp]:
  "columns_read pc k cols offs lens types (sn\<lparr> sn_block_info_list := bl \<rparr>) = columns_read pc k cols offs lens types sn"
  "columns_read pc k cols offs lens types (sn\<lparr> sn_total_block_count := n \<rparr>) = columns_read pc k cols offs lens types sn"
  "columns_read pc k cols offs lens types (sn\<lparr> sn_column_projection := ps \<rparr>) = columns_read pc k cols offs lens types sn"
  "columns_read pc k cols offs lens types (sn\<lparr> sn_projection_datatype := ds \<rparr>) = columns_read pc k cols offs lens types sn"
  "columns_read pc k cols offs lens types (sn\<lparr> sn_table_filter := f \<rparr>) = columns_read pc k cols offs lens types sn"
  "columns_read pc k cols offs lens types (sn\<lparr> sn_scan_type := t \<rparr>) = columns_read pc k cols offs lens types sn"
  by (simp_all add: columns_read_def)

definition stage :: "int \<Rightarrow> nat \<Rightarrow> string list \<Rightarrow> int list \<Rightarrow> int list \<Rightarrow> int list \<Rightarrow> Snippet \<Rightarrow> bool" where
  "stage pc k cols offs lens types sn \<longleftrightarrow> columns_read pc k cols offs lens types sn \<and>
     sn_kNumInternalBytes sn = (if pc = 0 then 8 else 0)"

lemma read_header_stage:
  assumes "read_header doc = Inr (pc, sn)"
  shows "stage pc 0 cols offs lens types sn \<and> get_int doc ''primaryKey'' = Inr pc \<and>
    sn_block_info_list sn = [] \<and> sn_total_block_count sn = 0"
  using assms by (auto simp: read_header_def bindE_Inr_conv stage_def columns_read_def key_columns_def)

lemma add_block_stage:
  "add_block j st = Inr st' \<Longrightarrow> stage pc k cols offs lens types (snd st) \<Longrightarrow>
     stage pc k cols offs lens types (snd st')"
  by (cases st) (auto simp: add_block_def stage_def bindE_Inr_conv)

lemma add_extent_stage:
  assumes "add_extent e sn = Inr sn'" "stage pc k cols offs lens types sn"
  shows "stage pc k cols offs lens types sn'"
proof -
  from assms(1) obtain off ls st where run: "foldE add_block ls (off, sn) = Inr st" and st: "sn' = snd st"
    by (auto simp: add_extent_def bindE_Inr_conv)
  have "stage pc k cols offs lens types (snd st)"
    by (rule foldE_invariant [OF run]) (auto simp: assms(2) intro: add_block_stage)
  with st show ?thesis by simp
qed

lemma add_projection_stage:
  "add_projection ps pd i sn = Inr sn' \<Longrightarrow> stage pc k cols offs lens types sn \<Longrightarrow>
     stage pc k cols offs lens types sn'"
  by (auto simp: add_projection_def stage_def bindE_Inr_conv)

lemma snippet_columns:
  assumes sn: "snippet_of_json write doc = Inr sn" and doc: "schema_doc doc cols offs lens types"
    and dist: "distinct cols" and pc: "get_int doc ''primaryKey'' = Inr pc"
  shows "stage pc (length cols) cols offs lens types sn"
proof -
  from sn obtain pc' s0 s1 s2 s3 where s0: "read_header doc = Inr (pc', s0)"
    and s1: "read_blocks doc s0 = Inr s1" and s2: "read_columns doc pc' s1 = Inr s2"
    and s3: "read_projections doc s2 = Inr s3" and s4: "read_filter write doc s3 = Inr sn"
    by (auto simp: snippet_of_json_def bindE_Inr_conv)
  have pc': "pc' = pc" and st0: "stage pc 0 cols offs lens types s0"
    using read_header_stage [OF s0, of cols offs lens types] pc by auto
  from s1 obtain bl where bl: "foldE add_extent bl s0 = Inr s1" by (auto simp: read_blocks_def bindE_Inr_conv)
  have st1: "stage pc 0 cols offs lens types s1"
    by (rule foldE_invariant [where P = "stage pc 0 cols offs lens types", OF bl st0]) (rule add_extent_stage)
  have "get_array doc ''tableCol'' = Inr (map JStr cols)" using doc by (simp add: get_array_def schema_doc_def)
  with s2 pc' have "foldE (add_column doc pc) [0..<length cols] s1 = Inr s2" by (simp add: read_columns_def)
  with add_columns_ok [OF doc dist, of pc s1 "length cols"] st1
  have st2: "stage pc (length cols) cols offs lens types s2" by (auto simp: stage_def)
  from s3 obtain ps pd where ps: "foldE (add_projection ps pd) [0..<length ps] s2 = Inr s3"
    by (auto simp: read_projections_def bindE_Inr_conv)
  have st3: "stage pc (length cols) cols offs lens types s3"
    by (rule foldE_invariant [where P = "stage pc (length cols) cols offs lens types", OF ps st2])
      (rule add_projection_stage)
  from s4 obtain f t where "sn = s3\<lparr> sn_table_filter := f, sn_scan_type := t \<rparr> \<or> sn = s3\<lparr> sn_scan_type := t \<rparr>"
    by (auto simp: read_filter_def bindE_Inr_conv Let_def split: if_splits)
  with st3 show ?thesis by (auto simp: stage_def)
qed

text \<open>
  The primary key of a table is lost unless its last column belongs to the key: the list
  and the total length are cleared in every round of the column loop. The key columns are then
  not prepended to the rows, although \<open>kNumInternalBytes\<close> says there is a primary key.
\<close>

theorem primary_key_lost:
  assumes "snippet_of_json write doc = Inr sn" "schema_doc doc cols offs lens types" "distinct cols"
    and "get_int doc ''primaryKey'' = Inr pc" "0 < pc" "pc < int (length cols)"
  shows "sn_primary_key_list sn = [] \<and> sn_primary_length sn = Some 0 \<and> sn_kNumInternalBytes sn = 0"
  using snippet_columns [OF assms(1-4)] assms(5,6)
  by (auto simp: stage_def columns_read_def key_columns_def)

text \<open>
  The schema of a snippet is the schema of the document, and \<open>colindexmap\<close> maps every column
  name, and nothing else, to its position.
\<close>

lemma snippet_schema:
  assumes "snippet_of_json write doc = Inr sn" "schema_doc doc cols offs lens types" "distinct cols"
    and "get_int doc ''primaryKey'' = Inr pc"
  shows "sn_table_col sn = cols \<and> sn_table_offset sn = offs \<and> sn_table_offlen sn = lens \<and>
    sn_table_datatype sn = types \<and> dom (sn_colindexmap sn) = set cols \<and>
    (\<forall>i<length cols. sn_colindexmap sn (cols ! i) = Some (int i))"
  using snippet_columns [OF assms] assms(2) unfolding stage_def columns_read_def schema_doc_def by simp

section \<open>The block list\<close>

fun extent_blocks :: "int \<Rightarrow> int \<Rightarrow> int list \<Rightarrow> BlockInfo list" where
  "extent_blocks n off [] = []"
| "extent_blocks n off (l # ls) =
     \<lparr> block_id = n, block_offset = off, block_size = l \<rparr> # extent_blocks (n + 1) (off + l) ls"

fun all_blocks :: "int \<Rightarrow> (int \<times> int list) list \<Rightarrow> BlockInfo list" where
  "all_blocks n [] = []"
| "all_blocks n ((off, ls) # es) = extent_blocks n off ls @ all_blocks (n + int (length ls)) es"

definition extent_json :: "int \<times> int list \<Rightarrow> json" where
  "extent_json e = JObj [(''offset'', JInt (fst e)), (''length'', JArr (map JInt (snd e)))]"

definition small_extent :: "int \<times> int list \<Rightarrow> bool" where
  "small_extent e \<longleftrightarrow> 0 \<le> fst e \<and> list_all (\<lambda>l. 0 \<le> l) (snd e) \<and> fst e + sum_list (snd e) < 2 ^ 63"

lemma add_blocks_ok:
  assumes "0 \<le> off" "list_all (\<lambda>l. 0 \<le> l) ls" "off + sum_list ls < 2 ^ 63"
  shows "\<exists>off' sn'. foldE add_block (map JInt ls) (off, sn) = Inr (off', sn') \<and>
    sn_block_info_list sn' = sn_block_info_list sn @ extent_blocks (sn_total_block_count sn) off ls \<and>
    sn_total_block_count sn' = sn_total_block_count sn + int (length ls)"
  using assms
proof (induction ls arbitrary: off sn)
  case (Cons l ls)
  have nonneg: "0 \<le> sum_list ls" using Cons.prems(2) by (induction ls) auto
  then have l: "0 \<le> l" "l < 2 ^ 63" "off + l < 2 ^ 63" using Cons.prems by auto
  then have "u64 l = l" "u64 (off + l) = off + l" using Cons.prems(1) by (simp_all add: u64_def)
  then have step: "add_block (JInt l) (off, sn) = Inr (off + l,
      sn\<lparr> sn_block_info_list := sn_block_info_list sn @
              [\<lparr> block_id = sn_total_block_count sn, block_offset = off, block_size = l \<rparr>],
          sn_total_block_count := sn_total_block_count sn + 1 \<rparr>)" (is "_ = Inr (_, ?sn)")
    using l by (simp add: add_block_def)
  from Cons.IH [of "off + l" ?sn] Cons.prems l step show ?case by (auto simp: algebra_simps)
qed simp

lemma add_extents_ok:
  assumes "list_all small_extent es"
  shows "\<exists>sn'. foldE add_extent (map extent_json es) sn = Inr sn' \<and>
    sn_block_info_list sn' = sn_block_info_list sn @ all_blocks (sn_total_block_count sn) es \<and>
    sn_total_block_count sn' = sn_total_block_count sn + int (length (concat (map snd es)))"
  using assms
proof (induction es arbitrary: sn)
  case (Cons e es)
  obtain off ls where e: "e = (off, ls)" by (cases e)
  have small: "0 \<le> off" "list_all (\<lambda>l. 0 \<le> l) ls" "off + sum_list ls < 2 ^ 63"
    using Cons.prems e by (simp_all add: small_extent_def)
  have "0 \<le> sum_list ls" using small(2) by (induction ls) auto
  then have off: "u64 off = off" "off < 2 ^ 63" using small by (simp_all add: u64_def)
  from add_blocks_ok [OF small, of sn] obtain off' sn1 where
    sn1: "foldE add_block (map JInt ls) (off, sn) = Inr (off', sn1)"
    "sn_block_info_list sn1 = sn_block_info_list sn @ extent_blocks (sn_total_block_count sn) off ls"
    "sn_total_block_count sn1 = sn_total_block_count sn + int (length ls)" by blast
  have "add_extent (extent_json e) sn = Inr sn1"
    using sn1(1) off small(1) e by (simp add: add_extent_def extent_json_def get_array_def)
  with Cons.IH [of sn1] Cons.prems sn1 e show ?case by auto
qed simp

lemma later_stages_blocks:
  assumes "foldE (add_projection ps pd) xs sn = Inr sn'"
  shows "sn_block_info_list sn' = sn_block_info_list sn \<and> sn_total_block_count sn' = sn_total_block_count sn"
  by (rule foldE_invariant [where P = "\<lambda>s. sn_block_info_list s = sn_block_info_list sn \<and>
        sn_total_block_count s = sn_total_block_count sn", OF assms])
    (auto simp: add_projection_def bindE_Inr_conv)

lemma add_column_frame:
  assumes "add_column doc pc i sn = Inr sn'"
  shows "sn_block_info_list sn' = sn_block_info_list sn \<and> sn_total_block_count sn' = sn_total_block_count sn"
proof -
  from assms obtain col so ol dt where "elem_string doc ''tableCol'' i = Inr col"
    "elem_int doc ''tableOffset'' i = Inr so" "elem_int doc ''tableOfflen'' i = Inr ol"
    "elem_int doc ''tableDatatype'' i = Inr dt"
    unfolding add_column_def by (elim bindE_InrE) blast
  with assms show ?thesis
    by (cases "int i < pc") (simp_all add: add_column_def Let_def, (drule sym, simp)+)
qed

lemma add_column_blocks:
  assumes "foldE (add_column doc pc) xs sn = Inr sn'"
  shows "sn_block_info_list sn' = sn_block_info_list sn \<and> sn_total_block_count sn' = sn_total_block_count sn"
  by (rule foldE_invariant [where P = "\<lambda>s. sn_block_info_list s = sn_block_info_list sn \<and>
        sn_total_block_count s = sn_total_block_count sn", OF assms])
    (simp_all add: add_column_frame)

text \<open>
  The block list of a snippet: the blocks of each extent follow each other without a gap from
  the extent's offset on, they are numbered from 0 across all extents, and \<open>total_block_count\<close> is
  their number. The scan type is the full scan with a filter exactly if the filter is not empty.
\<close>

lemma snippet_block_list:
  assumes "snippet_of_json write doc = Inr sn"
    and "json_member doc ''blockList'' = Inr (JArr (map extent_json es))" "list_all small_extent es"
    and "json_member doc ''tableFilter'' = Inr (JArr tf)"
  shows "sn_block_info_list sn = all_blocks 0 es \<and>
    sn_total_block_count sn = int (length (sn_block_info_list sn)) \<and>
    sn_scan_type sn = (if tf = [] then Full_Scan else Full_Scan_Filter)"
proof -
  from assms(1) obtain pc s0 s1 s2 s3 where s0: "read_header doc = Inr (pc, s0)"
    and s1: "read_blocks doc s0 = Inr s1" and s2: "read_columns doc pc s1 = Inr s2"
    and s3: "read_projections doc s2 = Inr s3" and s4: "read_filter write doc s3 = Inr sn"
    by (auto simp: snippet_of_json_def bindE_Inr_conv)
  have z: "sn_block_info_list s0 = []" "sn_total_block_count s0 = 0" using read_header_stage [OF s0] by auto
  have b1: "sn_block_info_list s1 = all_blocks 0 es"
    "sn_total_block_count s1 = int (length (concat (map snd es)))"
    using add_extents_ok [OF assms(3), of s0] s1 z assms(2) by (auto simp: read_blocks_def get_array_def)
  have len: "length (extent_blocks n off ls) = length ls" for n off ls by (induction ls arbitrary: n off) auto
  have cnt: "length (all_blocks n es) = length (concat (map snd es))" for n
    by (induction es arbitrary: n) (auto simp: len)
  from s2 obtain xs where s2': "foldE (add_column doc pc) xs s1 = Inr s2"
    by (auto simp: read_columns_def bindE_Inr_conv)
  from s3 obtain ps pd xs where s3': "foldE (add_projection ps pd) xs s2 = Inr s3"
    by (auto simp: read_projections_def bindE_Inr_conv)
  have "sn_block_info_list s3 = sn_block_info_list s1" "sn_total_block_count s3 = sn_total_block_count s1"
    using add_column_blocks [OF s2'] later_stages_blocks [OF s3'] by simp_all
  with s4 b1 cnt assms(4) show ?thesis
    by (auto simp: read_filter_def get_array_def Let_def decide_scan_type_def split: if_splits)
qed

text \<open>
  C31. What a snippet contains: the schema of the document, with \<open>colindexmap\<close> mapping every column name, and nothing else, to
  its position; the blocks of each extent, following each other without a gap from the extent's offset on and numbered
  from 0 across all extents, with \<open>total_block_count\<close> their number; and the scan type with a filter exactly if the filter is
  not empty.
\<close>

theorem snippet_contents:
  assumes "snippet_of_json write doc = Inr sn" "schema_doc doc cols offs lens types" "distinct cols"
    and "get_int doc ''primaryKey'' = Inr pc"
    and "json_member doc ''blockList'' = Inr (JArr (map extent_json es))" "list_all small_extent es"
    and "json_member doc ''tableFilter'' = Inr (JArr tf)"
  shows "sn_table_col sn = cols \<and> sn_table_offset sn = offs \<and> sn_table_offlen sn = lens \<and>
    sn_table_datatype sn = types \<and> dom (sn_colindexmap sn) = set cols \<and>
    (\<forall>i<length cols. sn_colindexmap sn (cols ! i) = Some (int i)) \<and>
    sn_block_info_list sn = all_blocks 0 es \<and> sn_total_block_count sn = int (length (sn_block_info_list sn)) \<and>
    sn_scan_type sn = (if tf = [] then Full_Scan else Full_Scan_Filter)"
  using snippet_schema [OF assms(1-4)] snippet_block_list [OF assms(1,5-7)] by simp

section \<open>A concrete snippet\<close>

definition ex_doc :: json where
  "ex_doc = JObj [(''queryID'', JInt 1), (''workID'', JInt 2), (''csdName'', JStr ''1''),
     (''tableName'', JStr ''orders''), (''groupBy'', JArr []), (''primaryKey'', JInt 1),
     (''blockList'', JArr (map extent_json [(4096, [10, 20])])),
     (''tableCol'', JArr (map JStr [''o_orderkey'', ''o_custkey''])),
     (''tableOffset'', JArr (map JInt [0, 4])), (''tableOfflen'', JArr (map JInt [4, 4])),
     (''tableDatatype'', JArr (map JInt [3, 3])), (''columnProjection'', JArr []),
     (''projectionDatatype'', JArr []), (''tableFilter'', JArr [])]"

lemma ex_doc_schema: "schema_doc ex_doc [''o_orderkey'', ''o_custkey''] [0, 4] [4, 4] [3, 3]"
  by (simp add: schema_doc_def ex_doc_def is_int32_def)

definition ex_snippet :: Snippet where
  "ex_snippet = \<lparr> sn_work_id = 2, sn_query_id = 1, sn_csd_name = ''1'', sn_table_name = ''orders'',
     sn_table_col = [''o_orderkey'', ''o_custkey''], sn_table_offset = [0, 4], sn_table_offlen = [4, 4],
     sn_table_datatype = [3, 3],
     sn_block_info_list = [\<lparr> block_id = 0, block_offset = 4096, block_size = 10 \<rparr>,
       \<lparr> block_id = 1, block_offset = 4106, block_size = 20 \<rparr>],
     sn_total_block_count = 2, sn_colindexmap = [''o_orderkey'' \<mapsto> 0, ''o_custkey'' \<mapsto> 1],
     sn_primary_key_list = [], sn_kNumInternalBytes = 0, sn_primary_length = Some 0,
     sn_table_filter = [], sn_column_projection = [], sn_projection_datatype = [], sn_groupby_col = [],
     sn_scan_type = Full_Scan, sn_inserted_key = [], sn_inserted_value = [] \<rparr>"

lemma ex_snippet_json: "snippet_of_json write ex_doc = Inr ex_snippet"
  by (simp add: snippet_of_json_def read_header_def read_blocks_def read_columns_def read_projections_def
      read_filter_def get_int_def get_string_def get_array_def elem_int_def elem_string_def json_elem_def
      ex_doc_def ex_snippet_def extent_json_def add_extent_def add_block_def u64_def add_column_def
      decide_scan_type_def Let_def is_int32_def map_insert_def)

theorem primary_key_lost_witness:
  "sn_primary_key_list ex_snippet = [] \<and> sn_primary_length ex_snippet = Some 0 \<and>
   sn_kNumInternalBytes ex_snippet = 0"
  by (rule primary_key_lost [OF ex_snippet_json ex_doc_schema, where pc = 1])
    (simp_all add: ex_doc_def get_int_def is_int32_def)

theorem snippet_contents_witness:
  "sn_table_col ex_snippet = [''o_orderkey'', ''o_custkey''] \<and> sn_colindexmap ex_snippet ''o_custkey'' = Some 1 \<and>
   sn_block_info_list ex_snippet = all_blocks 0 [(4096, [10, 20])] \<and> sn_scan_type ex_snippet = Full_Scan"
proof -
  have "get_int ex_doc ''primaryKey'' = Inr 1" by (simp add: ex_doc_def get_int_def is_int32_def)
  from snippet_contents [OF ex_snippet_json ex_doc_schema _ this, of "[(4096, [10, 20])]" "[]"]
  have "sn_table_col ex_snippet = [''o_orderkey'', ''o_custkey'']"
    "\<forall>i<2. sn_colindexmap ex_snippet ([''o_orderkey'', ''o_custkey''] ! i) = Some (int i)"
    "sn_block_info_list ex_snippet = all_blocks 0 [(4096, [10, 20])]" "sn_scan_type ex_snippet = Full_Scan"
    by (simp_all add: numeral_2_eq_2 ex_doc_def small_extent_def)
  from this(1,3,4) this(2) [rule_format, of 1] show ?thesis by simp
qed

end
