(* ===== verification/Filter_Ops.thy ===== *)
theory Filter_Ops
  imports CSD_Types
begin

text \<open>
  The operators of the filter layer (\<open>filter.cc\<close>): trimming, the twelve \<open>compare\<close> functions and
  the flags they set, \<open>BETWEEN\<close>, \<open>IS\<close>, \<open>split\<close>, \<open>isvarc\<close> and the conversion of an integer
  constant to the textual form of a DECIMAL column.

  The lemmas give the \<open>compare\<close> functions one common meaning and show that \<open>ItoDec\<close> orders its
  arguments as unsigned 32-bit patterns.
\<close>

section \<open>Trimming\<close>

definition trim_chars :: string where
  \<comment> \<open>the C string \<open>" \t\n\r\f\v\0"\<close> ends at its first NUL, so NUL is not in the set\<close>
  "trim_chars = [CHR '' '', CHR 0x09, CHR 0x0A, CHR 0x0D, CHR 0x0C, CHR 0x0B]"

definition rtrim :: "string \<Rightarrow> string" where
  \<comment> \<open>\<open>s.erase(npos + 1)\<close> erases from 0 when nothing but trimmed characters is left\<close>
  "rtrim s = take (case find_last_not_of trim_chars s of None \<Rightarrow> 0 | Some i \<Rightarrow> i + 1) s"

definition ltrim :: "string \<Rightarrow> string" where
  "ltrim s = (case find_first_not_of trim_chars s of None \<Rightarrow> [] | Some i \<Rightarrow> drop i s)"

definition trim :: "string \<Rightarrow> string" where
  "trim s = ltrim (rtrim s)"

lemma ltrim_dropWhile: "ltrim s = dropWhile (\<lambda>c. c \<in> set trim_chars) s"
  by (simp add: ltrim_def find_first_not_of_dropWhile)

lemma rtrim_dropWhile: "rtrim s = rev (dropWhile (\<lambda>c. c \<in> set trim_chars) (rev s))"
proof (cases "find_first_not_of trim_chars (rev s)")
  case None
  then show ?thesis
    using find_first_not_of_dropWhile [where t = trim_chars and s = "rev s"]
    by (simp add: rtrim_def find_last_not_of_def)
next
  case (Some i)
  then have "i < length s" using find_first_not_of_less by fastforce
  then have "Suc (length s - Suc i) = length s - i" by (rule Suc_diff_Suc)
  with Some show ?thesis
    using find_first_not_of_dropWhile [where t = trim_chars and s = "rev s", symmetric]
    by (simp add: rtrim_def find_last_not_of_def rev_drop)
qed

section \<open>Comparison flags\<close>

record row_vars =
  CV :: bool            \<comment> \<open>result of the current operation\<close>
  TmpV :: bool          \<comment> \<open>result of the operations before it\<close>
  Passed :: bool        \<comment> \<open>skip to the next OR\<close>
  isSaved :: bool
  canSaved :: bool
  isnot :: bool
  substringflag :: bool
  tmpsubstring :: string

text \<open>The body the twelve functions share, around the comparison each of them makes.\<close>

definition compare_flags :: "bool \<Rightarrow> row_vars \<Rightarrow> row_vars" where
  "compare_flags holds v =
     (let v1 = (if holds then
                  (if TmpV v then v\<lparr>CV := True, canSaved := True\<rparr>
                   else v\<lparr>CV := False, canSaved := False\<rparr>)
                else v\<lparr>CV := False, canSaved := False\<rparr>)
      in if isnot v1 then
           (if CV v1 then v1\<lparr>CV := False, canSaved := False\<rparr>
            else v1\<lparr>CV := True, canSaved := True\<rparr>)
         else v1)"

definition compareGE_str :: "string \<Rightarrow> string \<Rightarrow> row_vars \<Rightarrow> row_vars" where
  "compareGE_str LV RV v = compare_flags (RV \<le> LV) v"

definition compareGE_int :: "int \<Rightarrow> int \<Rightarrow> row_vars \<Rightarrow> row_vars" where
  "compareGE_int LV RV v = compare_flags (RV \<le> LV) v"

definition compareLE_str :: "string \<Rightarrow> string \<Rightarrow> row_vars \<Rightarrow> row_vars" where
  "compareLE_str LV RV v = compare_flags (LV \<le> RV) v"

definition compareLE_int :: "int \<Rightarrow> int \<Rightarrow> row_vars \<Rightarrow> row_vars" where
  "compareLE_int LV RV v = compare_flags (LV \<le> RV) v"

definition compareGT_str :: "string \<Rightarrow> string \<Rightarrow> row_vars \<Rightarrow> row_vars" where
  "compareGT_str LV RV v = compare_flags (RV < LV) v"

definition compareGT_int :: "int \<Rightarrow> int \<Rightarrow> row_vars \<Rightarrow> row_vars" where
  "compareGT_int LV RV v = compare_flags (RV < LV) v"

definition compareLT_str :: "string \<Rightarrow> string \<Rightarrow> row_vars \<Rightarrow> row_vars" where
  "compareLT_str LV RV v = compare_flags (LV < RV) v"

definition compareLT_int :: "int \<Rightarrow> int \<Rightarrow> row_vars \<Rightarrow> row_vars" where
  "compareLT_int LV RV v = compare_flags (LV < RV) v"

definition compareET_str :: "string \<Rightarrow> string \<Rightarrow> row_vars \<Rightarrow> row_vars" where
  "compareET_str LV RV v = compare_flags (trim LV = trim RV) v"

definition compareET_int :: "int \<Rightarrow> int \<Rightarrow> row_vars \<Rightarrow> row_vars" where
  "compareET_int LV RV v = compare_flags (LV = RV) v"

definition compareNE_str :: "string \<Rightarrow> string \<Rightarrow> row_vars \<Rightarrow> row_vars" where
  "compareNE_str LV RV v = compare_flags (LV \<noteq> RV) v"

definition compareNE_int :: "int \<Rightarrow> int \<Rightarrow> row_vars \<Rightarrow> row_vars" where
  "compareNE_int LV RV v = compare_flags (LV \<noteq> RV) v"

lemmas compare_defs =
  compareGE_str_def compareGE_int_def compareLE_str_def compareLE_int_def
  compareGT_str_def compareGT_int_def compareLT_str_def compareLT_int_def
  compareET_str_def compareET_int_def compareNE_str_def compareNE_int_def

lemma compare_flags_eq:
  "compare_flags holds v =
     v\<lparr>CV := ((holds \<and> TmpV v) \<noteq> isnot v), canSaved := ((holds \<and> TmpV v) \<noteq> isnot v)\<rparr>"
  by (auto simp: compare_flags_def Let_def)

text \<open>The negation that \<open>LIKE\<close> and \<open>BETWEEN\<close> apply to their result.\<close>

definition negate_if_not :: "row_vars \<Rightarrow> row_vars" where
  "negate_if_not v =
     (if isnot v then
        (if CV v then v\<lparr>CV := False, canSaved := False\<rparr> else v\<lparr>CV := True, canSaved := True\<rparr>)
      else v)"

section \<open>BETWEEN and IS\<close>

definition BetweenOperator_int :: "int \<Rightarrow> int \<Rightarrow> int \<Rightarrow> bool" where
  "BetweenOperator_int lv rv1 rv2 = (if rv1 \<le> lv \<and> lv \<le> rv2 then True else False)"

definition BetweenOperator_str :: "string \<Rightarrow> string \<Rightarrow> string \<Rightarrow> bool" where
  "BetweenOperator_str lv rv1 rv2 = (if rv1 \<le> lv \<and> lv \<le> rv2 then True else False)"

definition IsOperator :: "string \<Rightarrow> int \<Rightarrow> bool" where
  \<comment> \<open>the column index it looks up is not used\<close>
  "IsOperator lv inot = (if lv = [] then (if inot = 0 then True else False)
                           else (if inot = 0 then False else True))"

section \<open>Splitting and varchar columns\<close>

definition split :: "string \<Rightarrow> char \<Rightarrow> string list" where
  "split str Delimiter = getline_all Delimiter str"

definition isvarc :: "int list \<Rightarrow> nat \<Rightarrow> (bool \<times> nat list) res" where
  "isvarc datatype ColNum =
     foldE (\<lambda>i (isvarchar, varcharlist).
        bindE (vec_at datatype (int i)) (\<lambda>t.
          Inr (if t = 15 then (True, varcharlist @ [i]) else (isvarchar, varcharlist))))
      [0..<ColNum] (False, [])"

lemma isvarc_eq:
  assumes "ColNum \<le> length datatype"
  shows "isvarc datatype ColNum =
    Inr (\<exists>i<ColNum. datatype ! i = 15, filter (\<lambda>i. datatype ! i = 15) [0..<ColNum])"
  using assms unfolding isvarc_def
  by (induction ColNum) (auto simp: foldE_append less_Suc_eq)

section \<open>Integers as DECIMAL text\<close>

text \<open>
  \<open>ItoDec\<close>: the hexadecimal text of the seven bytes of a DECIMAL(15,2) with this integer part and
  a zero fraction. The padding loop compares an \<open>int\<close> with the \<open>size_t\<close> \<open>10 - s.length()\<close>.
\<close>

definition ItoDec :: "int \<Rightarrow> string" where
  "ItoDec inum =
     (let s = stream_hex inum
      in ''80'' @ replicate (usub 10 (length s)) (CHR ''0'') @ s @ ''00'')"

lemma ItoDec_width:
  assumes "is_int32 n"
  shows "ItoDec n = ''80'' @ show_width 16 10 (nat (n mod 2 ^ 32)) @ ''00''"
proof -
  let ?v = "nat (n mod 2 ^ 32)"
  have v: "?v < 16 ^ 10"
    using pos_mod_bound [of "2 ^ 32 :: int" n] by (simp add: nat_less_iff)
  from show_base_pad [of 16 ?v 10] v
  have len: "length (show_base 16 ?v) \<le> 10"
    and pad: "replicate (10 - length (show_base 16 ?v)) (CHR ''0'') @ show_base 16 ?v = show_width 16 10 ?v"
    by simp_all
  have "usub 10 (length (show_base 16 ?v)) = 10 - length (show_base 16 ?v)"
    using len by (simp add: usub_le)
  with pad show ?thesis by (simp add: ItoDec_def stream_hex_def Let_def flip: append_assoc)
qed

lemma append_le_same [simp]:
  fixes xs :: "'a::linorder list"
  shows "xs @ ys \<le> xs @ zs \<longleftrightarrow> ys \<le> zs"
  by (induction xs) simp_all

lemma append_le_snd:
  fixes xs ys :: "'a::linorder list"
  assumes "length xs = length ys"
  shows "xs @ zs \<le> ys @ zs \<longleftrightarrow> xs \<le> ys"
  using assms by (induction xs ys rule: list_induct2) auto

lemma ItoDec_le_iff:
  assumes "is_int32 m" "is_int32 n"
  shows "ItoDec m \<le> ItoDec n \<longleftrightarrow> m mod 2 ^ 32 \<le> n mod 2 ^ 32"
proof -
  have b: "nat (k mod 2 ^ 32) < 16 ^ 10" for k :: int
    using pos_mod_bound [of "2 ^ 32 :: int" k] by (simp add: nat_less_iff)
  have "ItoDec m \<le> ItoDec n \<longleftrightarrow>
      show_width 16 10 (nat (m mod 2 ^ 32)) \<le> show_width 16 10 (nat (n mod 2 ^ 32))"
    using assms by (simp only: ItoDec_width append_le_same, intro append_le_snd) simp
  also have "\<dots> \<longleftrightarrow> nat (m mod 2 ^ 32) \<le> nat (n mod 2 ^ 32)"
    by (rule show_width_le [OF _ _ b b]) simp_all
  also have "\<dots> \<longleftrightarrow> m mod 2 ^ 32 \<le> n mod 2 ^ 32"
    by (simp add: nat_le_eq_zle)
  finally show ?thesis .
qed

end
