(* ===== verification/Filter_Columns.thy ===== *)
theory Filter_Columns
  imports Filter_Ops
begin

text \<open>
  Reading the columns of a row (\<open>filter.cc\<close>): \<open>GetColumnoff\<close> finds where a column starts by
  walking the columns before it, and remembers every start and length it computes in
  \<open>newstartptr\<close> and \<open>newlengthraw\<close> for the rest of the row; \<open>typeLittle\<close>, \<open>typeBig\<close> and
  \<open>typeDecimal\<close> read the bytes, and \<open>InOperator\<close> compares with a list.

  The state is the \<open>Filter\<close> object: \<open>Filter_obj\<close> with its \<open>RowFilterData\<close>. The second half
  defines the row format from the schema (\<open>enc_row\<close>) and shows that, whatever columns were asked
  for before and in whatever order, a read returns the bytes of the column that was asked for.
\<close>

section \<open>The filter object\<close>

record RowFilterData =
  rf_startoff :: "int list"
  rf_offlen :: "int list"
  rf_datatype :: "int list"
  rf_ColName :: "string list"
  rf_varcharlist :: "nat list"
  rf_ColIndexmap :: "string \<rightharpoonup> int"
  rf_offsetcount :: nat
  rf_rowoffset :: int
  rf_rowbuf :: buffer     \<comment> \<open>a \<open>char *\<close>: the bytes it points to\<close>
  rf_bufsize :: nat       \<comment> \<open>and the size of the array they are in\<close>

record Filter_obj =
  newstartptr :: "string \<rightharpoonup> int"
  newlengthraw :: "string \<rightharpoonup> int"
  joinmap :: "string \<rightharpoonup> string"
  rowfilterdata :: RowFilterData
  rownum :: int         \<comment> \<open>file-level counters of \<open>filter.cc\<close>\<close>
  saverowcount :: int

section \<open>Finding a column\<close>

text \<open>One round of the loop of \<open>GetColumnoff\<close>, for column number \<open>i\<close>.\<close>

definition column_startoff :: "nat \<Rightarrow> Filter_obj \<Rightarrow> (int \<times> Filter_obj) res" where
  "column_startoff i fo =
     (let rf = rowfilterdata fo in
      if i = 0 then bindE (vec_at (rf_startoff rf) 0) (\<lambda>s. Inr (rf_rowoffset rf + s, fo))
      else bindE (vec_at (rf_ColName rf) (int i - 1)) (\<lambda>prev.
        Inr (lookup0 (newstartptr fo) prev + lookup0 (newlengthraw fo) prev,
             fo\<lparr> newstartptr := touch0 (newstartptr fo) prev,
                 newlengthraw := touch0 (newlengthraw fo) prev \<rparr>)))"

definition column_round :: "nat \<Rightarrow> Filter_obj \<Rightarrow> Filter_obj res" where
  "column_round i fo =
     bindE (column_startoff i fo) (\<lambda>(startoff, fo).
       let rf = rowfilterdata fo in
       bindE (vec_at (rf_ColName rf) (int i)) (\<lambda>name.
       bindE (vec_at (rf_offlen rf) (int i)) (\<lambda>ol.
         if i \<in> set (rf_varcharlist rf) then
           (if ol < 256 then
              bindE (buf_at (rf_bufsize rf) (rf_rowbuf rf) startoff) (\<lambda>b.
                Inr (fo\<lparr> newstartptr := map_insert (newstartptr fo) name (startoff + 1),
                         newlengthraw := map_insert (newlengthraw fo) name (of_char b) \<rparr>))
            else
              bindE (buf_at (rf_bufsize rf) (rf_rowbuf rf) startoff) (\<lambda>b0.
              bindE (buf_at (rf_bufsize rf) (rf_rowbuf rf) (startoff + 1)) (\<lambda>b1.
                Inr (fo\<lparr> newstartptr := map_insert (newstartptr fo) name (startoff + 2),
                         newlengthraw := map_insert (newlengthraw fo) name
                           (int (le_nat [b0, b1])) \<rparr>))))
         else
           Inr (fo\<lparr> newstartptr := map_insert (newstartptr fo) name startoff,
                    newlengthraw := map_insert (newlengthraw fo) name ol \<rparr>))))"

definition GetColumnoff :: "string \<Rightarrow> Filter_obj \<Rightarrow> Filter_obj res" where
  "GetColumnoff colname fo =
     (let rf = rowfilterdata fo;
          cols = [rf_offsetcount rf..<nat (lookup0 (rf_ColIndexmap rf) colname + 1)]
      in bindE (foldE column_round cols fo) (\<lambda>fo'.
           Inr (fo'\<lparr> rowfilterdata := (rowfilterdata fo')\<lparr>
                       rf_offsetcount := rf_offsetcount rf + length cols \<rparr> \<rparr>)))"

section \<open>Reading a column\<close>

text \<open>
  The loop \<open>for (k < newlengthraw[colname]) ... rowbuf[newstartptr[colname] + k]\<close> that the three
  readers share. \<open>newstartptr[colname]\<close> is evaluated only if the loop runs.
\<close>

definition column_bytes :: "string \<Rightarrow> buffer \<Rightarrow> Filter_obj \<Rightarrow> (string \<times> Filter_obj) res" where
  "column_bytes colname rowbuf fo =
     bindE (GetColumnoff colname fo) (\<lambda>fo.
       let n = lookup0 (newlengthraw fo) colname;
           fo1 = fo\<lparr> newlengthraw := touch0 (newlengthraw fo) colname \<rparr>
       in if n \<le> 0 then Inr ([], fo1)
          else bindE (memcpy_from_in (rf_bufsize (rowfilterdata fo)) rowbuf (lookup0 (newstartptr fo) colname) n) (\<lambda>bs.
            Inr (bs, fo1\<lparr> newstartptr := touch0 (newstartptr fo) colname \<rparr>)))"

definition typeLittle ::
  "(string \<rightharpoonup> int) \<Rightarrow> string \<Rightarrow> buffer \<Rightarrow> Filter_obj \<Rightarrow> (int \<times> Filter_obj) res" where
  "typeLittle typedata colname rowbuf fo =
     (let t = lookup0 typedata colname in
      if t = 14 then
        bindE (column_bytes colname rowbuf fo) (\<lambda>(bs, fo).
          if length bs \<le> 4 then Inr (to_int32 (int (le_nat bs)), fo) else Inl OutOfBounds)
      else if t = 8 then
        bindE (column_bytes colname rowbuf fo) (\<lambda>(bs, fo).
          if length bs \<le> 8 then Inr (to_int32 (to_int64 (int (le_nat bs))), fo)
          else Inl OutOfBounds)
      else if t = 3 then
        bindE (column_bytes colname rowbuf fo) (\<lambda>(bs, fo).
          if length bs \<le> 4 then Inr (to_int32 (int (le_nat bs)), fo) else Inl OutOfBounds)
      else
        bindE (stoi (case joinmap fo colname of None \<Rightarrow> [] | Some s \<Rightarrow> s)) (\<lambda>v. Inr (v, fo)))"

definition typeBig :: "string \<Rightarrow> buffer \<Rightarrow> Filter_obj \<Rightarrow> (string \<times> Filter_obj) res" where
  "typeBig colname rowbuf fo = column_bytes colname rowbuf fo"

text \<open>Two lower-case hexadecimal digits per byte.\<close>

definition hex_byte :: "char \<Rightarrow> string" where
  "hex_byte b = (let s = stream_hex (of_char b) in if length s \<le> 1 then ''0'' @ s else s)"

definition typeDecimal :: "string \<Rightarrow> buffer \<Rightarrow> Filter_obj \<Rightarrow> (string \<times> Filter_obj) res" where
  "typeDecimal colname rowbuf fo =
     bindE (column_bytes colname rowbuf fo) (\<lambda>(bs, fo). Inr (concat (map hex_byte bs), fo))"

definition little_type :: "(string \<rightharpoonup> int) \<Rightarrow> string \<Rightarrow> bool" where
  "little_type typedata c \<longleftrightarrow> lookup0 typedata c = 3 \<or> lookup0 typedata c = 14 \<or> lookup0 typedata c = 8"

definition short_little_type :: "(string \<rightharpoonup> int) \<Rightarrow> string \<Rightarrow> bool" where
  "short_little_type typedata c \<longleftrightarrow> lookup0 typedata c = 3 \<or> lookup0 typedata c = 14"

definition big_type :: "(string \<rightharpoonup> int) \<Rightarrow> string \<Rightarrow> bool" where
  "big_type typedata c \<longleftrightarrow> lookup0 typedata c = 254 \<or> lookup0 typedata c = 15"

definition decimal_type :: "(string \<rightharpoonup> int) \<Rightarrow> string \<Rightarrow> bool" where
  "decimal_type typedata c \<longleftrightarrow> lookup0 typedata c = 246"

lemmas type_tests = little_type_def short_little_type_def big_type_def decimal_type_def

section \<open>IN\<close>

text \<open>The value of one element of an \<open>IN\<close> list for a string or decimal left-hand side.\<close>

definition in_elem_str ::
  "(string \<rightharpoonup> int) \<Rightarrow> buffer \<Rightarrow> json \<Rightarrow> Filter_obj \<Rightarrow> (string \<times> Filter_obj) res" where
  "in_elem_str typedata rowbuf e fo =
     (case e of
        JStr s \<Rightarrow>
          if short_little_type typedata s then
            bindE (typeLittle typedata s rowbuf fo) (\<lambda>(v, fo). Inr (ItoDec v, fo))
          else if big_type typedata s then typeBig s rowbuf fo
          else if decimal_type typedata s then typeDecimal s rowbuf fo
          else bindE (std_substr_from s 1) (\<lambda>r. Inr (r, fo))
      | _ \<Rightarrow> bindE (GetInt e) (\<lambda>v. Inr (ItoDec v, fo)))"

fun InOperator_str ::
  "string \<Rightarrow> json list \<Rightarrow> (string \<rightharpoonup> int) \<Rightarrow> buffer \<Rightarrow> Filter_obj \<Rightarrow> (bool \<times> Filter_obj) res" where
  "InOperator_str lv [] typedata rowbuf fo = Inr (False, fo)"
| "InOperator_str lv (e # es) typedata rowbuf fo =
     bindE (in_elem_str typedata rowbuf e fo) (\<lambda>(RV, fo).
       if lv = RV then Inr (True, fo) else InOperator_str lv es typedata rowbuf fo)"

text \<open>
  The same for an integer left-hand side. A string constant is converted and then not compared;
  \<open>substr\<close> of an empty one throws, and the loop goes on with the next element.
\<close>

definition in_elem_int ::
  "int \<Rightarrow> (string \<rightharpoonup> int) \<Rightarrow> buffer \<Rightarrow> json \<Rightarrow> Filter_obj \<Rightarrow> (bool \<times> Filter_obj) res" where
  "in_elem_int lv typedata rowbuf e fo =
     (case e of
        JStr s \<Rightarrow>
          if short_little_type typedata s then
            bindE (typeLittle typedata s rowbuf fo) (\<lambda>(RV, fo). Inr (lv = RV, fo))
          else if big_type typedata s then
            bindE (typeBig s rowbuf fo) (\<lambda>(RV, fo). Inr (lv = atoi RV, fo))
          else if decimal_type typedata s then
            bindE (typeDecimal s rowbuf fo) (\<lambda>(RV, fo). Inr (ItoDec lv = RV, fo))
          else Inr (False, fo)
      | _ \<Rightarrow> bindE (GetInt e) (\<lambda>RV. Inr (lv = RV, fo)))"

fun InOperator_int ::
  "int \<Rightarrow> json list \<Rightarrow> (string \<rightharpoonup> int) \<Rightarrow> buffer \<Rightarrow> Filter_obj \<Rightarrow> (bool \<times> Filter_obj) res" where
  "InOperator_int lv [] typedata rowbuf fo = Inr (False, fo)"
| "InOperator_int lv (e # es) typedata rowbuf fo =
     bindE (in_elem_int lv typedata rowbuf e fo) (\<lambda>(hit, fo).
       if hit then Inr (True, fo) else InOperator_int lv es typedata rowbuf fo)"

section \<open>The row format\<close>

text \<open>
  A field is its type code, its declared length and its contents. A VARSTRING is preceded by its
  length, in one byte when the declared length is below 256 and in two otherwise; every other
  type occupies exactly its declared length.
\<close>

type_synonym field = "int \<times> int \<times> string"

definition hdr_len :: "field \<Rightarrow> nat" where
  "hdr_len f = (case f of (dt, ol, b) \<Rightarrow> if dt = 15 then (if ol < 256 then 1 else 2) else 0)"

definition enc_field :: "field \<Rightarrow> string" where
  "enc_field f = (case f of (dt, ol, b) \<Rightarrow> le_bytes (hdr_len f) (length b) @ b)"

definition wf_field :: "field \<Rightarrow> bool" where
  "wf_field f = (case f of (dt, ol, b) \<Rightarrow>
     if dt = 15 then length b < 256 ^ hdr_len f else int (length b) = ol)"

abbreviation contents :: "field \<Rightarrow> string" where
  "contents f \<equiv> snd (snd f)"

definition enc_row :: "field list \<Rightarrow> string" where
  "enc_row fs = concat (map enc_field fs)"

definition data_start :: "field list \<Rightarrow> nat \<Rightarrow> nat" where
  "data_start fs i = length (enc_row (take i fs)) + hdr_len (fs ! i)"

lemma enc_row_split: "i < length fs \<Longrightarrow>
    enc_row fs = enc_row (take i fs) @ enc_field (fs ! i) @ enc_row (drop (Suc i) fs)"
  unfolding enc_row_def by (metis (no_types, lifting) concat.simps(2) concat_append id_take_nth_drop
      list.simps(9) map_append)

lemma length_enc_field: "length (enc_field f) = hdr_len f + length (contents f)"
  by (cases f) (simp add: enc_field_def)

lemma data_start_Suc:
  "Suc i < length fs \<Longrightarrow>
     data_start fs (Suc i) = data_start fs i + length (contents (fs ! i)) + hdr_len (fs ! Suc i)"
  by (simp add: data_start_def enc_row_def take_Suc_conv_app_nth length_enc_field)

text \<open>The row the filter object currently points at, and what the schema says of it.\<close>

definition row_at :: "nat \<Rightarrow> buffer \<Rightarrow> nat \<Rightarrow> string \<Rightarrow> bool" where
  "row_at cap d base row \<longleftrightarrow> base + length row \<le> cap \<and> buf_read d base (length row) = row"

definition row_ctx :: "field list \<Rightarrow> nat \<Rightarrow> RowFilterData \<Rightarrow> bool" where
  "row_ctx fs base rf \<longleftrightarrow>
     fs \<noteq> [] \<and> (\<forall>f\<in>set fs. wf_field f) \<and>
     distinct (rf_ColName rf) \<and> length (rf_ColName rf) = length fs \<and>
     rf_offlen rf = map (\<lambda>f. fst (snd f)) fs \<and>
     (\<exists>so. rf_startoff rf = 0 # so) \<and>
     (\<forall>i<length fs. i \<in> set (rf_varcharlist rf) \<longleftrightarrow> fst (fs ! i) = 15) \<and>
     (\<forall>i<length fs. rf_ColIndexmap rf (rf_ColName rf ! i) = Some (int i)) \<and>
     (\<forall>s. s \<notin> set (rf_ColName rf) \<longrightarrow> rf_ColIndexmap rf s = None) \<and>
     rf_rowoffset rf = int base \<and> row_at (rf_bufsize rf) (rf_rowbuf rf) base (enc_row fs)"

text \<open>The cache holds exactly the first \<open>k\<close> columns; a name that is no column has length 0.\<close>

definition cache_ok :: "field list \<Rightarrow> nat \<Rightarrow> nat \<Rightarrow> Filter_obj \<Rightarrow> bool" where
  "cache_ok fs base k fo \<longleftrightarrow>
     k \<le> length fs \<and>
     (\<forall>i<k. newstartptr fo (rf_ColName (rowfilterdata fo) ! i) = Some (int (base + data_start fs i)) \<and>
            newlengthraw fo (rf_ColName (rowfilterdata fo) ! i) = Some (int (length (contents (fs ! i))))) \<and>
     (\<forall>i. k \<le> i \<and> i < length fs \<longrightarrow>
            newstartptr fo (rf_ColName (rowfilterdata fo) ! i) = None \<and>
            newlengthraw fo (rf_ColName (rowfilterdata fo) ! i) = None) \<and>
     (\<forall>s. s \<notin> set (rf_ColName (rowfilterdata fo)) \<longrightarrow> lookup0 (newlengthraw fo) s = 0)"

definition reader_ok :: "nat \<Rightarrow> field list \<Rightarrow> nat \<Rightarrow> buffer \<Rightarrow> Filter_obj \<Rightarrow> bool" where
  "reader_ok cap fs base d fo \<longleftrightarrow>
     row_ctx fs base (rowfilterdata fo) \<and> rf_rowbuf (rowfilterdata fo) = d \<and>
     rf_bufsize (rowfilterdata fo) = cap \<and>
     cache_ok fs base (rf_offsetcount (rowfilterdata fo)) fo"

section \<open>Where the fields lie\<close>

lemma row_at_nth:
  assumes "row_at cap d base row" "k < length row"
  shows "d (base + k) = row ! k" "base + k < cap"
proof -
  have "d (base + k) = buf_read d base (length row) ! k" using assms(2) by simp
  then show "d (base + k) = row ! k" using assms(1) by (simp only: row_at_def)
  show "base + k < cap" using assms by (simp add: row_at_def)
qed

lemma field_byte:
  assumes "row_at cap d base (enc_row fs)" "i < length fs" "j < length (enc_field (fs ! i))"
  shows "d (base + length (enc_row (take i fs)) + j) = enc_field (fs ! i) ! j"
    and "base + length (enc_row (take i fs)) + j < cap"
proof -
  let ?p = "length (enc_row (take i fs))"
  note split = enc_row_split [OF assms(2)]
  have k: "?p + j < length (enc_row fs)"
    using assms(3) arg_cong [OF split, of length] by simp
  have "enc_row fs ! (?p + j) = enc_field (fs ! i) ! j"
    using assms(3) by (subst split) (simp add: nth_append)
  with row_at_nth [OF assms(1) k] show "d (base + ?p + j) = enc_field (fs ! i) ! j"
    and "base + ?p + j < cap" by (simp_all add: add.assoc)
qed

lemma field_read:
  assumes "row_at cap d base (enc_row fs)" "i < length fs"
  shows "buf_read d (base + data_start fs i) (length (contents (fs ! i))) = contents (fs ! i)"
    and "base + data_start fs i + length (contents (fs ! i)) \<le> cap"
proof -
  let ?h = "hdr_len (fs ! i)" and ?c = "contents (fs ! i)"
  have byte: "enc_field (fs ! i) ! (?h + j) = ?c ! j" if "j < length ?c" for j
    using that by (cases "fs ! i") (simp add: enc_field_def nth_append)
  show "buf_read d (base + data_start fs i) (length ?c) = ?c"
  proof (rule nth_equalityI)
    fix j assume "j < length (buf_read d (base + data_start fs i) (length ?c))"
    then have j: "j < length ?c" by simp
    then have "?h + j < length (enc_field (fs ! i))" by (simp add: length_enc_field)
    from field_byte(1) [OF assms this] byte [OF j] j
    show "buf_read d (base + data_start fs i) (length ?c) ! j = ?c ! j"
      by (simp add: data_start_def add.assoc)
  qed simp
  have "data_start fs i + length ?c \<le> length (enc_row fs)"
    using arg_cong [OF enc_row_split [OF assms(2)], of length]
    by (simp add: data_start_def length_enc_field)
  then show "base + data_start fs i + length ?c \<le> cap"
    using assms(1) by (simp add: row_at_def)
qed

lemma hdr_byte:
  assumes "j < hdr_len f"
  shows "enc_field f ! j = le_bytes (hdr_len f) (length (contents f)) ! j"
  using assms by (cases f) (simp add: enc_field_def nth_append)

section \<open>The cache\<close>

definition cache_add :: "field list \<Rightarrow> nat \<Rightarrow> nat \<Rightarrow> Filter_obj \<Rightarrow> Filter_obj" where
  "cache_add fs base k fo =
     (let name = rf_ColName (rowfilterdata fo) ! k in
      fo\<lparr> newstartptr := (newstartptr fo)(name \<mapsto> int (base + data_start fs k)),
          newlengthraw := (newlengthraw fo)(name \<mapsto> int (length (contents (fs ! k)))) \<rparr>)"

lemma cache_add_rowfilterdata [simp]: "rowfilterdata (cache_add fs base k fo) = rowfilterdata fo"
  by (simp add: cache_add_def Let_def)

lemma cache_ok_add:
  assumes "cache_ok fs base k fo" "row_ctx fs base (rowfilterdata fo)" "k < length fs"
  shows "cache_ok fs base (Suc k) (cache_add fs base k fo)"
proof -
  let ?cn = "rf_ColName (rowfilterdata fo)"
  have inj: "?cn ! i = ?cn ! j \<longleftrightarrow> i = j" if "i < length fs" "j < length fs" for i j
    using assms(2) that by (simp add: row_ctx_def nth_eq_iff_index_eq)
  have mem: "?cn ! k \<in> set ?cn" using assms(2,3) by (simp add: row_ctx_def)
  show ?thesis
    using assms(1,3) mem unfolding cache_ok_def cache_add_def Let_def
    by (auto simp: inj less_Suc_eq lookup0_def)
qed

lemma column_startoff_ok:
  assumes "cache_ok fs base k fo" "row_ctx fs base (rowfilterdata fo)" "k < length fs"
  shows "column_startoff k fo = Inr (int (base + length (enc_row (take k fs))), fo)"
proof (cases k)
  case 0
  then show ?thesis using assms(2)
    by (auto simp: column_startoff_def row_ctx_def enc_row_def)
next
  case (Suc i)
  then have i: "i < k" "i < length fs" using assms(3) by simp_all
  have "enc_row (take k fs) = enc_row (take i fs) @ enc_field (fs ! i)"
    using Suc i by (simp add: enc_row_def take_Suc_conv_app_nth)
  then have len: "length (enc_row (take k fs)) = data_start fs i + length (contents (fs ! i))"
    by (simp add: data_start_def length_enc_field)
  have "length (rf_ColName (rowfilterdata fo)) = length fs" using assms(2) by (simp add: row_ctx_def)
  with i Suc have prev: "vec_at (rf_ColName (rowfilterdata fo)) (int k - 1) = Inr (rf_ColName (rowfilterdata fo) ! i)"
    by (simp add: vec_at_def)
  from assms(1) i(1) show ?thesis
    by (simp add: column_startoff_def Suc cache_ok_def len [unfolded Suc] prev [unfolded Suc, simplified])
qed

lemma column_round_ok:
  assumes "cache_ok fs base k fo" "row_ctx fs base (rowfilterdata fo)" "k < length fs"
  shows "column_round k fo = Inr (cache_add fs base k fo)"
proof -
  let ?rf = "rowfilterdata fo" and ?f = "fs ! k"
  let ?s = "base + length (enc_row (take k fs))"
  obtain dt ol b where f: "?f = (dt, ol, b)" by (cases ?f)
  have at: "row_at (rf_bufsize ?rf) (rf_rowbuf ?rf) base (enc_row fs)" using assms(2) by (simp add: row_ctx_def)
  have wf: "wf_field ?f" using assms(2,3) by (simp add: row_ctx_def)
  have vec: "vec_at (rf_ColName ?rf) (int k) = Inr (rf_ColName ?rf ! k)"
      "vec_at (rf_offlen ?rf) (int k) = Inr ol"
    using assms(2,3) f by (simp_all add: row_ctx_def)
  have none: "newstartptr fo (rf_ColName ?rf ! k) = None" "newlengthraw fo (rf_ColName ?rf ! k) = None"
    using assms(1,3) by (simp_all add: cache_ok_def)
  have var: "k \<in> set (rf_varcharlist ?rf) \<longleftrightarrow> dt = 15"
    using assms(2,3) f by (simp add: row_ctx_def)
  have byte: "buf_at (rf_bufsize ?rf) (rf_rowbuf ?rf) (int (?s + j)) = Inr (le_bytes (hdr_len ?f) (length b) ! j)"
    if "j < hdr_len ?f" for j
  proof -
    have "j < length (enc_field ?f)" using that by (simp add: length_enc_field)
    from field_byte [OF at assms(3) this] hdr_byte [OF that] f show ?thesis
      by (simp only: buf_at_ok) simp
  qed
  note start = column_startoff_ok [OF assms]
  have ds: "data_start fs k = length (enc_row (take k fs)) + hdr_len ?f" by (simp add: data_start_def)
  consider (fixed) "dt \<noteq> 15" | (short) "dt = 15" "ol < 256" | (long) "dt = 15" "\<not> ol < 256" by blast
  then show ?thesis
  proof cases
    case fixed
    then have "hdr_len ?f = 0" "ol = int (length b)" using wf f by (simp_all add: hdr_len_def wf_field_def)
    then show ?thesis
      using fixed start vec none var f ds by (simp add: column_round_def cache_add_def Let_def)
  next
    case short
    then have h: "hdr_len ?f = 1" and len: "length b < 256"
      using wf f by (simp_all add: hdr_len_def wf_field_def)
    have "buf_at (rf_bufsize ?rf) (rf_rowbuf ?rf) (int ?s) = Inr (char_of (length b))"
      using byte [of 0] h len by simp
    moreover have "of_char (char_of (length b)) = int (length b)"
      using len by (metis mod_less of_char_of of_nat_of_char)
    ultimately show ?thesis using short start vec none var f ds h
      by (simp add: column_round_def cache_add_def Let_def algebra_simps)
  next
    case long
    then have h: "hdr_len ?f = 2" and len: "length b < 256 ^ 2"
      using wf f by (simp_all add: hdr_len_def wf_field_def)
    let ?hb = "le_bytes 2 (length b)"
    have b0: "buf_at (rf_bufsize ?rf) (rf_rowbuf ?rf) (int ?s) = Inr (?hb ! 0)" using byte [of 0] h by simp
    have b1: "buf_at (rf_bufsize ?rf) (rf_rowbuf ?rf) (int ?s + 1) = Inr (?hb ! 1)"
      using byte [of 1] h by (simp add: add.commute)
    have "le_nat [?hb ! 0, ?hb ! 1] = le_nat ?hb"
      by (rule arg_cong [where f = le_nat]) (simp add: numeral_2_eq_2)
    then have "le_nat [?hb ! 0, ?hb ! 1] = length b" using len by simp
    with long start vec none var f ds h b0 b1 show ?thesis
      by (simp add: column_round_def cache_add_def Let_def algebra_simps del: le_nat.simps)
  qed
qed

lemma column_rounds_ok:
  assumes "cache_ok fs base k fo" "row_ctx fs base (rowfilterdata fo)" "m \<le> length fs" "k \<le> m"
  shows "\<exists>fo'. foldE column_round [k..<m] fo = Inr fo' \<and> cache_ok fs base m fo' \<and>
           rowfilterdata fo' = rowfilterdata fo"
  using assms
proof (induction "m - k" arbitrary: k fo)
  case 0
  then have "m = k" by simp
  with 0 show ?case by simp
next
  case (Suc n)
  then have k: "k < m" "k < length fs" by simp_all
  have step: "column_round k fo = Inr (cache_add fs base k fo)"
    using Suc.prems(1,2) k(2) by (rule column_round_ok)
  have "\<exists>fo'. foldE column_round [Suc k..<m] (cache_add fs base k fo) = Inr fo' \<and>
      cache_ok fs base m fo' \<and> rowfilterdata fo' = rowfilterdata (cache_add fs base k fo)"
    using Suc.hyps(2) Suc.prems k cache_ok_add [OF Suc.prems(1,2) k(2)]
    by (intro Suc.hyps(1)) simp_all
  then show ?case using step k(1) by (simp add: upt_conv_Cons)
qed

lemma GetColumnoff_ok:
  assumes "reader_ok cap fs base d fo" "i < length fs"
  shows "\<exists>fo'. GetColumnoff (rf_ColName (rowfilterdata fo) ! i) fo = Inr fo' \<and>
    reader_ok cap fs base d fo' \<and> i < rf_offsetcount (rowfilterdata fo') \<and>
    rf_ColName (rowfilterdata fo') = rf_ColName (rowfilterdata fo)"
proof -
  let ?rf = "rowfilterdata fo"
  let ?k = "rf_offsetcount ?rf" and ?m = "max (rf_offsetcount (rowfilterdata fo)) (Suc i)"
  have ctx: "row_ctx fs base ?rf" and cache: "cache_ok fs base ?k fo"
    using assms(1) by (simp_all add: reader_ok_def)
  then have "lookup0 (rf_ColIndexmap ?rf) (rf_ColName ?rf ! i) = int i"
    using assms(2) by (simp add: row_ctx_def)
  then have cols: "[?k..<nat (lookup0 (rf_ColIndexmap ?rf) (rf_ColName ?rf ! i) + 1)] = [?k..<?m]"
    by (simp add: nat_add_distrib max_def)
  have "?m \<le> length fs" using cache assms(2) by (simp add: cache_ok_def)
  from column_rounds_ok [OF cache ctx this] obtain fo'
    where fo': "foldE column_round [?k..<?m] fo = Inr fo'" "cache_ok fs base ?m fo'"
      "rowfilterdata fo' = ?rf" by auto
  let ?r = "fo'\<lparr> rowfilterdata := ?rf\<lparr> rf_offsetcount := ?m \<rparr> \<rparr>"
  have "GetColumnoff (rf_ColName ?rf ! i) fo = Inr ?r"
    unfolding GetColumnoff_def Let_def cols fo'(1) by (simp add: fo'(3) max_def)
  moreover have "cache_ok fs base ?m ?r" using fo'(2,3) by (simp add: cache_ok_def)
  moreover have "row_ctx fs base (?rf\<lparr> rf_offsetcount := ?m \<rparr>)" using ctx by (simp add: row_ctx_def)
  moreover have "rf_rowbuf ?rf = d" "rf_bufsize ?rf = cap" using assms(1) by (simp_all add: reader_ok_def)
  ultimately show ?thesis by (auto simp: reader_ok_def)
qed

section \<open>Reading returns the field, in any order of accesses\<close>

lemma column_bytes_ok:
  assumes "reader_ok cap fs base d fo" "i < length fs"
  shows "\<exists>fo'. column_bytes (rf_ColName (rowfilterdata fo) ! i) d fo = Inr (contents (fs ! i), fo') \<and>
    reader_ok cap fs base d fo' \<and> rf_ColName (rowfilterdata fo') = rf_ColName (rowfilterdata fo)"
proof -
  let ?c = "rf_ColName (rowfilterdata fo) ! i"
  from GetColumnoff_ok [OF assms] obtain fo' where
    get: "GetColumnoff ?c fo = Inr fo'" and ok: "reader_ok cap fs base d fo'"
    and i: "i < rf_offsetcount (rowfilterdata fo')"
    and names: "rf_ColName (rowfilterdata fo') = rf_ColName (rowfilterdata fo)" by blast
  have cached: "newstartptr fo' ?c = Some (int (base + data_start fs i))"
      "newlengthraw fo' ?c = Some (int (length (contents (fs ! i))))"
    using ok i names by (simp_all add: reader_ok_def cache_ok_def)
  have size: "rf_bufsize (rowfilterdata fo') = cap" and at: "row_at cap d base (enc_row fs)" using ok by (auto simp: reader_ok_def row_ctx_def)
  have "memcpy_from_in cap d (int (base + data_start fs i)) (int (length (contents (fs ! i))))
      = Inr (contents (fs ! i))"
    using field_read [OF at assms(2)] by (simp only: memcpy_from_ok)
  then show ?thesis using get cached ok names size by (auto simp: column_bytes_def Let_def)
qed

text \<open>
  A name that is not a column is looked up as column 0; its length is the 0 of a fresh entry, so
  the readers return the empty string.
\<close>

lemma column_bytes_unknown:
  assumes "reader_ok cap fs base d fo" "s \<notin> set (rf_ColName (rowfilterdata fo))"
  shows "\<exists>fo'. column_bytes s d fo = Inr ([], fo') \<and> reader_ok cap fs base d fo' \<and>
    rf_ColName (rowfilterdata fo') = rf_ColName (rowfilterdata fo)"
proof -
  let ?rf = "rowfilterdata fo"
  have ctx: "row_ctx fs base ?rf" using assms(1) by (simp add: reader_ok_def)
  then have pos: "0 < length fs" and none: "rf_ColIndexmap ?rf s = None"
    and zero: "rf_ColIndexmap ?rf (rf_ColName ?rf ! 0) = Some 0"
    using assms(2) by (auto simp: row_ctx_def)
  have "GetColumnoff s fo = GetColumnoff (rf_ColName ?rf ! 0) fo"
    using none zero by (simp add: GetColumnoff_def)
  with GetColumnoff_ok [OF assms(1) pos] obtain fo' where
    get: "GetColumnoff s fo = Inr fo'" and ok: "reader_ok cap fs base d fo'"
    and names: "rf_ColName (rowfilterdata fo') = rf_ColName ?rf" by auto
  have len: "lookup0 (newlengthraw fo') s = 0"
    using ok names assms(2) by (simp add: reader_ok_def cache_ok_def)
  let ?r = "fo'\<lparr> newlengthraw := touch0 (newlengthraw fo') s \<rparr>"
  have "column_bytes s d fo = Inr ([], ?r)" using get len by (simp add: column_bytes_def Let_def)
  moreover have "cache_ok fs base k ?r" if "cache_ok fs base k fo'" for k
  proof -
    have other: "touch0 (newlengthraw fo') s c = newlengthraw fo' c" if "c \<noteq> s" for c
      using that by (simp add: touch0_def)
    have col: "rf_ColName (rowfilterdata fo') ! i \<noteq> s" if "i < length fs" for i
      using that assms(2) names ctx by (metis nth_mem row_ctx_def)
    show ?thesis using that len other col by (auto simp: cache_ok_def touch0_def lookup0_def)
  qed
  ultimately show ?thesis using ok names by (auto simp: reader_ok_def)
qed

text \<open>
  What a client of the readers relies on: a read of a known name returns that field's value and
  leaves the reader in a good state.
\<close>

locale column_reader =
  fixes ok :: "'s \<Rightarrow> bool"
    and names :: "string list"
    and readable :: "nat \<Rightarrow> bool"
    and field_of :: "nat \<Rightarrow> 'v"
    and read :: "string \<Rightarrow> 's \<Rightarrow> ('v \<times> 's) res"
  assumes read_ok: "ok s \<Longrightarrow> i < length names \<Longrightarrow> readable i \<Longrightarrow>
    \<exists>s'. read (names ! i) s = Inr (field_of i, s') \<and> ok s'"
begin

fun read_all :: "string list \<Rightarrow> 's \<Rightarrow> ('v list \<times> 's) res" where
  "read_all [] s = Inr ([], s)"
| "read_all (c # cs) s =
     bindE (read c s) (\<lambda>(v, s). bindE (read_all cs s) (\<lambda>(vs, s). Inr (v # vs, s)))"

lemma read_all_ok:
  assumes "ok s" "\<forall>i\<in>set is. i < length names \<and> readable i"
  shows "\<exists>s'. read_all (map ((!) names) is) s = Inr (map field_of is, s') \<and> ok s'"
  using assms
proof (induction "is" arbitrary: s)
  case (Cons i "is")
  then obtain s1 where s1: "read (names ! i) s = Inr (field_of i, s1)" "ok s1"
    using read_ok [of s i] by auto
  with Cons.IH [of s1] Cons.prems show ?case by auto
qed simp

end

definition row_reader ::
  "nat \<Rightarrow> (string \<rightharpoonup> int) \<Rightarrow> string list \<Rightarrow> field list \<Rightarrow> nat \<Rightarrow> buffer \<Rightarrow> Filter_obj \<Rightarrow> bool" where
  "row_reader cap typedata names fs base d fo \<longleftrightarrow>
     reader_ok cap fs base d fo \<and> rf_ColName (rowfilterdata fo) = names \<and>
     typedata = map_of (zip names (map fst fs))"

lemma row_reader_schema:
  assumes "row_reader cap typedata names fs base d fo"
  shows "length names = length fs" "distinct names"
    "i < length fs \<Longrightarrow> typedata (names ! i) = Some (fst (fs ! i))"
proof -
  show *: "length names = length fs" "distinct names"
    using assms by (auto simp: row_reader_def reader_ok_def row_ctx_def)
  assume "i < length fs"
  with * assms show "typedata (names ! i) = Some (fst (fs ! i))"
    by (simp add: row_reader_def map_of_zip_nth)
qed

lemma typeBig_unknown:
  assumes "row_reader cap typedata names fs base d fo" "s \<notin> set names"
  shows "\<exists>fo'. typeBig s d fo = Inr ([], fo') \<and> row_reader cap typedata names fs base d fo'"
  using column_bytes_unknown [of cap fs base d fo s] assms by (auto simp: typeBig_def row_reader_def)

definition little_value :: "int \<Rightarrow> string \<Rightarrow> int" where
  \<comment> \<open>every integer type is returned through an \<open>int\<close>\<close>
  "little_value dt b = (if dt = 8 then to_int32 (to_int64 (int (le_nat b))) else to_int32 (int (le_nat b)))"

definition little_field :: "field \<Rightarrow> bool" where
  "little_field f = (case f of (dt, ol, b) \<Rightarrow>
     (dt = 3 \<or> dt = 14) \<and> length b \<le> 4 \<or> dt = 8 \<and> length b \<le> 8)"

definition dec_text :: "string \<Rightarrow> string" where
  "dec_text b = concat (map hex_byte b)"

interpretation big: column_reader "row_reader cap typedata names fs base d" names "\<lambda>i. True"
    "\<lambda>i. contents (fs ! i)" "\<lambda>c. typeBig c d"
  for cap typedata names fs base d
proof
  fix s i
  assume s: "row_reader cap typedata names fs base d s" and i: "i < length names"
  then have "reader_ok cap fs base d s" "i < length fs" "rf_ColName (rowfilterdata s) = names"
    using row_reader_schema(1) [OF s] by (simp_all add: row_reader_def)
  from column_bytes_ok [OF this(1,2)] this(3) s
  show "\<exists>s'. typeBig (names ! i) d s = Inr (contents (fs ! i), s') \<and> row_reader cap typedata names fs base d s'"
    by (auto simp: typeBig_def row_reader_def)
qed

interpretation dec: column_reader "row_reader cap typedata names fs base d" names "\<lambda>i. True"
    "\<lambda>i. dec_text (contents (fs ! i))" "\<lambda>c. typeDecimal c d"
  for cap typedata names fs base d
proof
  fix s i
  assume "row_reader cap typedata names fs base d s" "i < length names" "True"
  from big.read_ok [OF this]
  show "\<exists>s'. typeDecimal (names ! i) d s = Inr (dec_text (contents (fs ! i)), s') \<and>
      row_reader cap typedata names fs base d s'"
    by (auto simp: typeDecimal_def typeBig_def dec_text_def)
qed

interpretation little: column_reader "row_reader cap typedata names fs base d" names
    "\<lambda>i. little_field (fs ! i)" "\<lambda>i. little_value (fst (fs ! i)) (contents (fs ! i))"
    "\<lambda>c. typeLittle typedata c d"
  for cap typedata names fs base d
proof
  fix s i
  assume s: "row_reader cap typedata names fs base d s" and i: "i < length names"
    and f: "little_field (fs ! i)"
  from big.read_ok [OF s i] obtain s' where
    s': "column_bytes (names ! i) d s = Inr (contents (fs ! i), s')" "row_reader cap typedata names fs base d s'"
    by (auto simp: typeBig_def)
  have "typedata (names ! i) = Some (fst (fs ! i))"
    using row_reader_schema [OF s] i by simp
  with s' f show "\<exists>s'. typeLittle typedata (names ! i) d s =
        Inr (little_value (fst (fs ! i)) (contents (fs ! i)), s') \<and> row_reader cap typedata names fs base d s'"
    by (auto simp: typeLittle_def little_field_def little_value_def)
qed

text \<open>The integers a column of each type can hold are read back exactly, unless it is a BIGINT
  outside the range of \<open>int\<close>.\<close>

lemma little_value_int32: "is_int32 v \<Longrightarrow> little_value 3 (int_bytes 4 v) = v"
  by (simp add: little_value_def to_int32_int_bytes)

lemma little_value_date: "v < 256 ^ 3 \<Longrightarrow> little_value 14 (le_bytes 3 v) = int v"
  by (simp add: little_value_def to_int32_def)

lemma little_value_int64: "little_value 8 (int_bytes 8 v) = to_int32 v"
proof -
  have "int (le_nat (int_bytes 8 v)) = v mod 2 ^ 64" by (simp add: int_bytes_def)
  moreover have "(v mod 2 ^ 64 + 2 ^ 63) mod 2 ^ 64 = (v + 2 ^ 63) mod 2 ^ 64"
    by (simp add: mod_add_left_eq)
  ultimately have "to_int64 (int (le_nat (int_bytes 8 v))) = to_int64 v"
    by (simp only: to_int64_def)
  moreover have "to_int32 (to_int64 v) = to_int32 v"
  proof -
    define q where "q = 2 ^ 32 * ((v + 2 ^ 63) div 2 ^ 64)"
    have "(v + 2 ^ 63) mod 2 ^ 64 = v + 2 ^ 63 - 2 ^ 32 * q"
      by (simp add: q_def minus_mult_div_eq_mod [symmetric])
    then have "to_int64 v + 2 ^ 31 = v + 2 ^ 31 + 2 ^ 32 * (- q)"
      by (simp add: to_int64_def)
    then show ?thesis by (simp only: to_int32_def mod_mult_self2)
  qed
  ultimately show ?thesis by (simp add: little_value_def)
qed

end
