(* ===== verification/Scan_Keys.thy ===== *)
theory Scan_Keys
  imports Input_Model Filter_Columns
begin

text \<open>
  The byte-level helpers of the scan layer (\<open>scan.cc\<close>): decoding the primary key columns from a
  RocksDB key (\<open>getPrimaryKeyData\<close>), and the conversions between hexadecimal text and bytes.

  \<open>ikey\<close> is the memory behind \<open>ikey_data\<close>; reading past its end is undefined behaviour.
  \<open>key_bytes\<close> and the loop state are the bytes written to \<open>dest\<close>, whose number is the value the
  function returns.
\<close>

section \<open>Primary keys\<close>

definition sep :: char where "sep = CHR 0x03"
definition gap :: char where "gap = CHR 0x20"
definition fin :: char where "fin = CHR 0x02"

definition key_slice :: "string \<Rightarrow> nat \<Rightarrow> int \<Rightarrow> string res" where
  "key_slice ikey off n =
     (if 0 \<le> n \<and> off + nat n \<le> length ikey then Inr (take (nat n) (drop off ikey)) else Inl OutOfBounds)"

definition key_reversed :: "string \<Rightarrow> nat \<Rightarrow> int \<Rightarrow> string res" where
  \<comment> \<open>\<open>pk[i] = ikey_data[offset+key_length-i-1]\<close> for all \<open>i\<close>, which overwrites \<open>pk[0] = 0x00\<close>\<close>
  "key_reversed ikey off n =
     (if n \<le> 0 then Inl OutOfBounds else bindE (key_slice ikey off n) (\<lambda>bs. Inr (rev bs)))"

text \<open>The loop over a VARSTRING key: the rest of the key, the array's size, and what is in it.\<close>

fun var_key :: "string \<Rightarrow> int \<Rightarrow> nat \<Rightarrow> string \<Rightarrow> (nat \<times> string) res" where
  "var_key [] kl off pk = Inl OutOfBounds"
| "var_key (c # cs) kl off pk =
     (if c = sep \<or> c = gap then var_key cs kl (off + 1) pk
      else if c = fin then Inr (off + 1, pk)
      else if int (length pk) < kl then var_key cs kl (off + 1) (pk @ [c])
      else Inl OutOfBounds)"

definition var_length :: "nat \<Rightarrow> string" where
  "var_length n =
     (if n < 256 then [char_of n] else [char_of (n div 256), char_of (n mod 256)])"

definition pk_column :: "string \<Rightarrow> PrimaryKey \<Rightarrow> nat \<times> string \<Rightarrow> (nat \<times> string) res" where
  "pk_column ikey k st = (case st of (off, dest) \<Rightarrow>
     let kl = key_length k; t = key_type k in
     if t = mysql_code MySQL_INT32 \<or> t = mysql_code MySQL_INT64 \<or> t = mysql_code MySQL_DATE then
       bindE (key_reversed ikey off kl) (\<lambda>pk. Inr (off + nat kl, dest @ pk))
     else if t = mysql_code MySQL_NEWDECIMAL \<or> t = mysql_code MySQL_STRING then
       bindE (key_slice ikey off kl) (\<lambda>pk. Inr (off + nat kl, dest @ pk))
     else if t = mysql_code MySQL_VARSTRING then
       bindE (var_key (drop off ikey) kl off []) (\<lambda>(off, pk).
         Inr (off, dest @ var_length (length pk) @ pk))
     else Inr (off, dest))"

definition getPrimaryKeyData :: "string \<Rightarrow> PrimaryKey list \<Rightarrow> string res" where
  "getPrimaryKeyData ikey pk_list =
     bindE (foldE (pk_column ikey) pk_list (4, [])) (\<lambda>(off, dest). Inr dest)"

section \<open>Hexadecimal text\<close>

definition hexval :: "char \<Rightarrow> nat" where
  "hexval c = (of_char c mod 32 + 9) mod 25"

fun hex_pairs :: "string \<Rightarrow> string" where
  "hex_pairs (a # b # cs) = char_of (hexval a * 16 + hexval b) # hex_pairs cs"
| "hex_pairs _ = []"

definition hexstr_to_char :: "string \<Rightarrow> string option" where
  \<comment> \<open>\<open>NULL\<close> for an odd length, in which case \<open>row_size\<close> is left alone\<close>
  "hexstr_to_char hexstr =
     (let s = takeWhile (\<lambda>c. c \<noteq> CHR 0x00) hexstr
      in if length s mod 2 \<noteq> 0 then None else Some (hex_pairs s))"

definition hexmap :: "nat \<Rightarrow> char" where
  "hexmap d = ''0123456789ABCDEF'' ! d"

definition char_to_hexstr :: "string \<Rightarrow> string" where
  "char_to_hexstr d = concat (map (\<lambda>c. [hexmap (of_char c div 16), hexmap (of_char c mod 16)]) d)"

lemma hexval_hexmap: "h < 16 \<Longrightarrow> hexval (hexmap h) = h \<and> hexmap h \<noteq> CHR 0x00"
proof -
  have "list_all (\<lambda>h. hexval (hexmap h) = h \<and> hexmap h \<noteq> CHR 0x00) [0..<16]" by code_simp
  then show "h < 16 \<Longrightarrow> hexval (hexmap h) = h \<and> hexmap h \<noteq> CHR 0x00" by (simp add: list_all_iff)
qed

text \<open>
  Converting bytes to hexadecimal text and back gives the bytes.
\<close>

theorem hex_round_trip: "hexstr_to_char (char_to_hexstr d) = Some d"
proof -
  have digits: "(of_char c div 16 :: nat) < 16" "(of_char c mod 16 :: nat) < 16" for c
    using of_char_less_256 [of c] by (auto simp: div_less_iff_less_mult)
  have nz: "takeWhile (\<lambda>c. c \<noteq> CHR 0x00) (char_to_hexstr d) = char_to_hexstr d"
    using digits hexval_hexmap by (auto simp: takeWhile_eq_all_conv char_to_hexstr_def)
  have "length (char_to_hexstr d) = 2 * length d" by (induction d) (simp_all add: char_to_hexstr_def)
  then have even: "length (char_to_hexstr d) mod 2 = 0" by simp
  have "hex_pairs (char_to_hexstr d) = d"
  proof (induction d)
    case (Cons c d)
    have "hexval (hexmap (of_char c div 16)) * 16 + hexval (hexmap (of_char c mod 16)) = of_char c"
      using hexval_hexmap [OF digits(1)] hexval_hexmap [OF digits(2)] by simp
    with Cons show ?case by (simp add: char_to_hexstr_def)
  qed (simp add: char_to_hexstr_def)
  then show ?thesis unfolding hexstr_to_char_def Let_def nz even by simp
qed

section \<open>What the key decoder returns\<close>

lemma rev_be_bytes: "rev (be_bytes n v) = le_bytes n v"
  by (induction n arbitrary: v) simp_all

text \<open>
  An INT key column is stored in the RocksDB key big-endian with its sign bit inverted. The
  decoder reverses the bytes and leaves the sign bit as it is (the assignment that is meant to
  clear it is overwritten), so the filter reads a value that is off by \<open>2^31\<close>.
\<close>

theorem int_key_sign_not_restored:
  assumes "is_int32 v" "length idx = 4"
  shows "getPrimaryKeyData (idx @ be_bytes 4 (nat (v + 2 ^ 31)) @ rest)
      [\<lparr> key_name = c, key_type = 3, key_length = 4 \<rparr>] = Inr (le_bytes 4 (nat (v + 2 ^ 31))) \<and>
    little_value 3 (le_bytes 4 (nat (v + 2 ^ 31))) = (if v < 0 then v + 2 ^ 31 else v - 2 ^ 31)"
proof
  show "getPrimaryKeyData (idx @ be_bytes 4 (nat (v + 2 ^ 31)) @ rest)
      [\<lparr> key_name = c, key_type = 3, key_length = 4 \<rparr>] = Inr (le_bytes 4 (nat (v + 2 ^ 31)))"
    using assms(2)
    by (simp add: getPrimaryKeyData_def pk_column_def key_reversed_def key_slice_def rev_be_bytes)
  let ?m = "nat (v + 2 ^ 31)"
  have v: "- (2 ^ 31) \<le> v" "v < 2 ^ 31" using assms(1) by (simp_all add: is_int32_def)
  then have "?m < 256 ^ 4" by (simp add: nat_less_iff)
  then have "int (le_nat (le_bytes 4 ?m)) = v + 2 ^ 31" using v(1) by simp
  then have "little_value 3 (le_bytes 4 ?m) = to_int32 (v + 2 ^ 31)" by (simp add: little_value_def)
  also have "\<dots> = (if v < 0 then v + 2 ^ 31 else v - 2 ^ 31)"
  proof (cases "v < 0")
    case True
    have "(v + 2 ^ 32) mod 2 ^ 32 = v + 2 ^ 32" using True v by (intro mod_pos_pos_trivial) simp_all
    moreover have "v + 2 ^ 31 + 2 ^ 31 = v + 2 ^ 32" by simp
    ultimately have "to_int32 (v + 2 ^ 31) = v + 2 ^ 32 - 2 ^ 31" by (simp only: to_int32_def)
    with True show ?thesis by simp
  next
    case False
    have "(v + 2 ^ 31 + 2 ^ 31) mod 2 ^ 32 = v mod 2 ^ 32" by simp
    with False v show ?thesis by (simp add: to_int32_def)
  qed
  finally show "little_value 3 (le_bytes 4 ?m) = (if v < 0 then v + 2 ^ 31 else v - 2 ^ 31)" .
qed

theorem int_key_sign_not_restored_witness:
  "little_value 3 (le_bytes 4 (nat (1 + 2 ^ 31))) = 1 - 2 ^ 31"
  using int_key_sign_not_restored [of 1 "replicate 4 (CHR 0x00)" "[]" "[]"] by (simp add: is_int32_def)

lemma var_key_scan:
  assumes "fin \<notin> set s" "int (length pk + length (filter (\<lambda>c. c \<noteq> sep \<and> c \<noteq> gap) s)) \<le> kl"
  shows "var_key (s @ fin # rest) kl off pk =
    Inr (off + length s + 1, pk @ filter (\<lambda>c. c \<noteq> sep \<and> c \<noteq> gap) s)"
  using assms
proof (induction s arbitrary: off pk)
  case Nil
  have "fin \<noteq> sep" "fin \<noteq> gap" by (simp_all add: sep_def gap_def fin_def)
  then show ?case by simp
next
  case (Cons a s)
  then show ?case by (cases "a = sep \<or> a = gap") auto
qed

text \<open>
  A VARSTRING key column: the decoder drops the segment marks and \<^emph>\<open>every\<close> blank, those
  inside the value included, and writes the length of what is left in front of it.
\<close>

theorem var_key_loses_blanks:
  assumes "fin \<notin> set s" "length idx = 4"
    and "int (length (filter (\<lambda>c. c \<noteq> sep \<and> c \<noteq> gap) s)) \<le> kl"
    and "length (filter (\<lambda>c. c \<noteq> sep \<and> c \<noteq> gap) s) < 256"
  shows "getPrimaryKeyData (idx @ s @ fin # rest) [\<lparr> key_name = c, key_type = 15, key_length = kl \<rparr>] =
    Inr (char_of (length (filter (\<lambda>c. c \<noteq> sep \<and> c \<noteq> gap) s)) # filter (\<lambda>c. c \<noteq> sep \<and> c \<noteq> gap) s)"
  using assms var_key_scan [of s "[]" kl rest 4]
  by (simp add: getPrimaryKeyData_def pk_column_def var_length_def)

theorem var_key_loses_blanks_witness:
  "getPrimaryKeyData (replicate 4 (CHR 0x00) @ ''New York'' @ fin # [])
     [\<lparr> key_name = ''city'', key_type = 15, key_length = 20 \<rparr>] = Inr (char_of (7 :: nat) # ''NewYork'')"
  using var_key_loses_blanks [of "''New York''" "replicate 4 (CHR 0x00)" 20 "[]" "''city''"]
  by (simp add: sep_def gap_def fin_def)

text \<open>
  The length of a key of 256 characters or more is written high byte first, and a key of fewer
  characters always gets one length byte; the filter reads two bytes, low byte first, for every
  column declared with 256 or more.
\<close>

lemma var_length_mismatch: "le_nat (var_length 258) = 513"
  by (simp add: var_length_def)

end
