(* ===== verification/Table_Manager.thy ===== *)
theory Table_Manager
  imports CSD_Types
begin

text \<open>
  \<open>csd_table_manager.cc\<close>: the table of SST files, one per CSD and TPC-H table, and its lookup.
  Every path has the form \<open>sst_dir/<table>/<file>\<close>, so the entries list the file names only.
\<close>

definition sst_dir :: string where
  "sst_dir = ''/home/ngd/csd-worker-module/csd_file_scan/keti/sstfile/''"

definition sst_path :: "string \<Rightarrow> string \<Rightarrow> string" where
  "sst_path table file = sst_dir @ table @ ''/'' @ file"

definition table_entries :: "(string \<times> string \<times> string) list" where
  "table_entries =
    [(''1'', ''lineitem'', ''001388.sst''),
     (''1'', ''customer'', ''001174.sst''),
     (''1'', ''orders'', ''001533.sst''),
     (''1'', ''part'', ''000895.sst''),
     (''1'', ''supplier'', ''000771.sst''),
     (''1'', ''partsupp'', ''001019.sst''),
     (''1'', ''nation'', ''001715.sst''),
     (''1'', ''region'', ''001699.sst''),
     (''2'', ''lineitem'', ''001404.sst''),
     (''2'', ''customer'', ''001190.sst''),
     (''2'', ''orders'', ''001548.sst''),
     (''2'', ''part'', ''000911.sst''),
     (''2'', ''supplier'', ''000787.sst''),
     (''2'', ''partsupp'', ''001035.sst''),
     (''3'', ''lineitem'', ''001420.sst''),
     (''3'', ''customer'', ''001205.sst''),
     (''3'', ''orders'', ''001576.sst''),
     (''3'', ''part'', ''000926.sst''),
     (''3'', ''supplier'', ''000802.sst''),
     (''3'', ''partsupp'', ''001050.sst''),
     (''4'', ''lineitem'', ''001436.sst''),
     (''4'', ''customer'', ''001221.sst''),
     (''4'', ''orders'', ''001591.sst''),
     (''4'', ''part'', ''000942.sst''),
     (''4'', ''supplier'', ''000818.sst''),
     (''4'', ''partsupp'', ''001066.sst''),
     (''5'', ''lineitem'', ''001452.sst''),
     (''5'', ''customer'', ''001236.sst''),
     (''5'', ''orders'', ''001607.sst''),
     (''5'', ''part'', ''000957.sst''),
     (''5'', ''supplier'', ''000833.sst''),
     (''5'', ''partsupp'', ''001081.sst''),
     (''6'', ''lineitem'', ''001468.sst''),
     (''6'', ''customer'', ''001252.sst''),
     (''6'', ''orders'', ''001622.sst''),
     (''6'', ''part'', ''000973.sst''),
     (''6'', ''supplier'', ''000849.sst''),
     (''6'', ''partsupp'', ''001097.sst''),
     (''7'', ''lineitem'', ''001484.sst''),
     (''7'', ''customer'', ''001267.sst''),
     (''7'', ''orders'', ''001638.sst''),
     (''7'', ''part'', ''000988.sst''),
     (''7'', ''supplier'', ''000864.sst''),
     (''7'', ''partsupp'', ''001112.sst''),
     (''8'', ''lineitem'', ''001490.sst''),
     (''8'', ''customer'', ''001283.sst''),
     (''8'', ''orders'', ''001653.sst''),
     (''8'', ''part'', ''001004.sst''),
     (''8'', ''supplier'', ''000880.sst''),
     (''8'', ''partsupp'', ''001128.sst'')]"

type_synonym table_rep = "string \<times> string \<rightharpoonup> string"

definition InitCSDTableManager :: "table_rep \<Rightarrow> table_rep" where
  "InitCSDTableManager m =
     fold (\<lambda>(csd, table, file) m. map_insert m (csd, table) (sst_path table file)) table_entries m"

definition GetTableRep :: "string \<Rightarrow> string \<Rightarrow> table_rep \<Rightarrow> string \<times> table_rep" where
  \<comment> \<open>\<open>operator[]\<close> adds an empty path for an unknown pair\<close>
  "GetTableRep csd_name table_name m =
     (case m (csd_name, table_name) of
        Some file_path \<Rightarrow> (file_path, m)
      | None \<Rightarrow> ([], m((csd_name, table_name) \<mapsto> [])))"

section \<open>What a lookup returns\<close>

lemma fold_map_insert_other:
  "k \<notin> (\<lambda>(a, b, c). (a, b)) ` set es \<Longrightarrow>
     fold (\<lambda>(a, b, c) m. map_insert m (a, b) (g b c)) es m k = m k"
proof (induction es arbitrary: m)
  case (Cons e es)
  obtain a b c where e: "e = (a, b, c)" by (cases e)
  with Cons show ?case by (simp add: image_iff)
qed simp

lemma fold_map_insert_keeps:
  "m k = Some v \<Longrightarrow> fold (\<lambda>(a, b, c) m. map_insert m (a, b) (g b c)) es m k = Some v"
proof (induction es arbitrary: m)
  case (Cons e es)
  obtain a b c where e: "e = (a, b, c)" by (cases e)
  have "map_insert m (a, b) (g b c) k = Some v"
    using Cons.prems by (cases "(a, b) = k") simp_all
  with Cons.IH e show ?case by simp
qed simp

lemma fold_map_insert_entry:
  assumes "distinct (map (\<lambda>(a, b, c). (a, b)) es)" "(a, b, c) \<in> set es" "m (a, b) = None"
  shows "fold (\<lambda>(a, b, c) m. map_insert m (a, b) (g b c)) es m (a, b) = Some (g b c)"
  using assms
proof (induction es arbitrary: m)
  case (Cons e es)
  obtain a' b' c' where e: "e = (a', b', c')" by (cases e)
  show ?case
  proof (cases "(a', b') = (a, b)")
    case True
    with Cons.prems(1,2) e have "c' = c" by (force simp: image_iff)
    with True e Cons.prems(3) show ?thesis by (simp add: fold_map_insert_keeps)
  next
    case False
    then have "map_insert m (a', b') (g b' c') (a, b) = None"
      using Cons.prems(3) map_insert_other [of "(a, b)" "(a', b')" m] by metis
    with Cons False e show ?thesis by auto
  qed
qed simp

lemma table_entries_distinct: "distinct (map (\<lambda>(a, b, c). (a, b)) table_entries)"
  by (simp add: table_entries_def)

definition csd_names :: "string list" where
  "csd_names = [''1'', ''2'', ''3'', ''4'', ''5'', ''6'', ''7'', ''8'']"

definition sharded_tables :: "string list" where
  "sharded_tables = [''lineitem'', ''customer'', ''orders'', ''part'', ''supplier'', ''partsupp'']"

lemma sharded_entries:
  "list_all (\<lambda>c. list_all (\<lambda>t. list_ex (\<lambda>(a, b, f). a = c \<and> b = t) table_entries) sharded_tables) csd_names"
  by (simp add: csd_names_def sharded_tables_def table_entries_def)

text \<open>
  After the initialisation every CSD has an SST file for each of the six sharded TPC-H
  tables, and the path lies in that table's directory; the lookup leaves the table unchanged.
\<close>

theorem every_shard_has_a_file:
  assumes "c \<in> set csd_names" "t \<in> set sharded_tables"
  shows "\<exists>f. GetTableRep c t (InitCSDTableManager Map.empty) =
    (sst_path t f, InitCSDTableManager Map.empty)"
proof -
  from assms sharded_entries obtain f where f: "(c, t, f) \<in> set table_entries"
    by (auto simp: list_all_iff list_ex_iff)
  have "InitCSDTableManager Map.empty (c, t) = Some (sst_path t f)"
    unfolding InitCSDTableManager_def
    by (rule fold_map_insert_entry [OF table_entries_distinct f]) simp
  then show ?thesis by (intro exI [of _ f]) (simp add: GetTableRep_def)
qed

theorem every_shard_has_a_file_witness:
  "\<exists>f. GetTableRep ''3'' ''orders'' (InitCSDTableManager Map.empty) =
    (sst_path ''orders'' f, InitCSDTableManager Map.empty)"
  by (rule every_shard_has_a_file) (simp_all add: csd_names_def sharded_tables_def)

text \<open>The two small tables are stored on CSD 1 only; elsewhere the lookup gives an empty path.\<close>

lemma nation_only_on_csd_1: "GetTableRep ''2'' ''nation'' (InitCSDTableManager Map.empty) =
    ([], (InitCSDTableManager Map.empty)((''2'', ''nation'') \<mapsto> []))"
proof -
  have "InitCSDTableManager Map.empty (''2'', ''nation'') = None"
    unfolding InitCSDTableManager_def
    by (subst fold_map_insert_other) (simp_all add: table_entries_def)
  then show ?thesis by (simp add: GetTableRep_def)
qed

end
