(* ===== verification/Scan_Model.thy ===== *)
theory Scan_Model
  imports Scan_Keys Table_Manager
begin

text \<open>
  The scan layer (\<open>scan.cc\<close>): \<open>EnQueueData\<close>, \<open>WalScan\<close>, \<open>BlockScan\<close> and one turn of \<open>Scanning\<close>.

  The file-level variables of \<open>scan.cc\<close> and the \<open>Result\<close> being filled are the record
  \<open>ScanState\<close>, together with the two queues the layer writes to; \<open>ss_sent\<close> records every result
  handed to \<open>EnQueueData\<close>, in order. RocksDB's \<open>SstFileReader\<close> is a parameter: what its iterator
  delivers for a path is a list of \<open>sst_entry\<close>s (status, key, value).
\<close>

section \<open>State and operations\<close>

record sst_entry =
  sst_ok :: bool
  sst_key :: string
  sst_value :: string

record ScanState =
  ss_result :: Result
  ss_current_block_count :: int
  ss_row_count :: int
  ss_check :: bool
  ss_origin_index_num :: string
  ss_index_valid :: bool
  ss_filterq :: "Result WorkQueue"
  ss_mergeq :: "Result WorkQueue"
  ss_sent :: "Result list"

definition EnQueueData ::
  "Result \<Rightarrow> Scan_Type \<Rightarrow> Result WorkQueue \<times> Result WorkQueue \<Rightarrow> Result WorkQueue \<times> Result WorkQueue" where
  "EnQueueData r t qs = (case qs of (fq, mq) \<Rightarrow>
     (case t of
        Full_Scan_Filter \<Rightarrow> if rs_length r \<noteq> 0 then (push_work r fq, mq) else (fq, push_work r mq)
      | Full_Scan \<Rightarrow> (fq, push_work r mq)
      | Index_Scan_Filter \<Rightarrow> if rs_length r \<noteq> 0 then (push_work r fq, mq) else (fq, push_work r mq)
      | Index_Scan \<Rightarrow> (fq, push_work r mq)))"

definition send_result :: "Result \<Rightarrow> Scan_Type \<Rightarrow> ScanState \<Rightarrow> ScanState" where
  "send_result r t st =
     (case EnQueueData r t (ss_filterq st, ss_mergeq st) of (fq, mq) \<Rightarrow>
        st\<lparr> ss_filterq := fq, ss_mergeq := mq, ss_sent := ss_sent st @ [r] \<rparr>)"

definition ExtractUserKey :: "nat \<Rightarrow> string \<Rightarrow> (string \<times> nat) res" where
  \<comment> \<open>a slice: the memory it points into and its size\<close>
  "ExtractUserKey n key = (if n \<le> length key then Inr (key, length key - n) else Inl AssertFailed)"

definition scan_append_in :: "nat \<Rightarrow> string \<Rightarrow> 'r Result_scheme \<Rightarrow> 'r Result_scheme res" where
  "scan_append_in cap row r =
     bindE (memcpy_to_in cap (rs_data r) (int (rs_length r)) row) (\<lambda>d.
       Inr (r\<lparr> rs_row_offset := rs_row_offset r @ [rs_length r], rs_data := d,
               rs_length := rs_length r + length row, rs_row_count := rs_row_count r + 1 \<rparr>))"

abbreviation scan_append :: "string \<Rightarrow> 'r Result_scheme \<Rightarrow> 'r Result_scheme res" where
  "scan_append \<equiv> scan_append_in BUFF_SIZE"

lemmas scan_append_def = scan_append_in_def

definition WalScan :: "'s Snippet_scheme \<Rightarrow> Result \<Rightarrow> Result res" where
  \<comment> \<open>text of odd length gives no data and an empty row\<close>
  "WalScan sn r =
     foldE (\<lambda>i r. bindE (vec_at (sn_inserted_value sn) (int i)) (\<lambda>v.
        scan_append (case hexstr_to_char v of None \<Rightarrow> [] | Some d \<Rightarrow> d) r))
      [0..<length (sn_inserted_key sn)] r"

definition copy_result :: "buffer \<Rightarrow> Result \<Rightarrow> Result res" where
  \<comment> \<open>\<open>scan_result_\<close>: a new object with the rows of the old one\<close>
  "copy_result junk r =
     (let r' = new_Result junk (rs_query_id r) (rs_work_id r) (rs_csd_name r) (rs_total_block_count r)
                 (rs_filter_info r) (rs_result_block_count r)
      in bindE (memcpy_from (rs_data r) 0 (int (rs_length r))) (\<lambda>bs.
         bindE (memcpy_to (rs_data r') 0 bs) (\<lambda>d.
           Inr (r'\<lparr> rs_row_count := rs_row_count r, rs_length := rs_length r,
                     rs_row_offset := rs_row_offset r, rs_data := d \<rparr>))))"

definition flush_result :: "Scan_Type \<Rightarrow> buffer \<Rightarrow> ScanState \<Rightarrow> ScanState res" where
  "flush_result t junk st =
     (let r = (ss_result st)\<lparr> rs_result_block_count := 15 \<rparr> in
      bindE (copy_result junk r) (\<lambda>r'.
        Inr (send_result r' t (st\<lparr> ss_current_block_count := ss_current_block_count st + 15,
                                    ss_result := InitResult r \<rparr>))))"

definition append_value :: "Scan_Type \<Rightarrow> buffer \<Rightarrow> string \<Rightarrow> ScanState \<Rightarrow> ScanState res" where
  "append_value t junk row st =
     bindE (if TEST_SIZE < rs_length (ss_result st) + length row then flush_result t junk st else Inr st) (\<lambda>st.
     bindE (scan_append row (ss_result st)) (\<lambda>r. Inr (st\<lparr> ss_result := r \<rparr>)))"

text \<open>
  The branch for a table with a primary key: no row offset is recorded and the buffer is never
  flushed. \<open>total_row_data\<close> has \<open>primary_length + row_size\<close> bytes.
\<close>

definition append_with_key :: "'s Snippet_scheme \<Rightarrow> int \<Rightarrow> string \<Rightarrow> string \<Rightarrow> ScanState \<Rightarrow> ScanState res" where
  "append_with_key sn primary_length ikey row st =
     bindE (getPrimaryKeyData ikey (sn_primary_key_list sn)) (\<lambda>pk.
       if int (length pk) \<le> primary_length then
         (let r = ss_result st in
          bindE (memcpy_to (rs_data r) (int (rs_length r)) (pk @ row)) (\<lambda>d.
            Inr (st\<lparr> ss_result := r\<lparr> rs_data := d, rs_length := rs_length r + length row + length pk,
                                      rs_row_count := rs_row_count r + 1 \<rparr> \<rparr>)))
       else Inl OutOfBounds)"

text \<open>One round of the loop of \<open>BlockScan\<close>; the flag says that the loop is left.\<close>

definition indexnum_size :: nat where "indexnum_size = 4"

definition scan_entry :: "'s Snippet_scheme \<Rightarrow> buffer \<Rightarrow> sst_entry \<Rightarrow> bool \<times> ScanState \<Rightarrow> (bool \<times> ScanState) res" where
  "scan_entry sn junk e bst = (case bst of (_, st) \<Rightarrow>
     if \<not> sst_ok e then Inr (True, st)
     else
       bindE (ExtractUserKey (sn_kNumInternalBytes sn) (sst_key e)) (\<lambda>(ikey, _).
       bindE (key_slice ikey 0 (int indexnum_size)) (\<lambda>index_num.
         let st = (if ss_check st then st\<lparr> ss_origin_index_num := index_num, ss_check := False \<rparr> else st)
         in if ss_origin_index_num st \<noteq> index_num then Inr (True, st\<lparr> ss_index_valid := False \<rparr>)
            else
              let st = st\<lparr> ss_row_count := ss_row_count st + 1 \<rparr> in
              (case sn_primary_length sn of
                 None \<Rightarrow> Inl Uninitialised
               | Some pl \<Rightarrow>
                   bindE (if pl \<noteq> 0 then append_with_key sn pl ikey (sst_value e) st
                          else append_value (sn_scan_type sn) junk (sst_value e) st)
                     (\<lambda>st. Inr (False, st))))))"

definition BlockScan :: "'s Snippet_scheme \<Rightarrow> buffer \<Rightarrow> sst_entry list \<Rightarrow> ScanState \<Rightarrow> ScanState res" where
  "BlockScan sn junk entries st =
     (if sn_scan_type sn = Full_Scan_Filter \<or> sn_scan_type sn = Full_Scan then
        bindE (break_loop (scan_entry sn junk) fst entries (False, st)) (\<lambda>(_, st). Inr st)
      else Inr st)"

definition filter_info_of :: "'s Snippet_scheme \<Rightarrow> FilterInfo" where
  "filter_info_of sn =
     \<lparr> table_col = sn_table_col sn, table_offset = sn_table_offset sn, table_offlen = sn_table_offlen sn,
       table_datatype = sn_table_datatype sn, colindexmap = sn_colindexmap sn,
       table_filter = sn_table_filter sn, column_projection = sn_column_projection sn,
       projection_datatype = sn_projection_datatype sn, groupby_col = sn_groupby_col sn \<rparr>"

definition scan_start :: "buffer \<Rightarrow> Snippet \<Rightarrow> string \<Rightarrow> Result WorkQueue \<Rightarrow> Result WorkQueue \<Rightarrow> ScanState" where
  \<comment> \<open>\<open>origin\<close> is what the snippet before left in \<open>origin_index_num\<close>\<close>
  "scan_start junk sn origin fq mq =
     \<lparr> ss_result = new_Result junk (sn_query_id sn) (sn_work_id sn) (sn_csd_name sn)
                     (sn_total_block_count sn) (filter_info_of sn) 0,
       ss_current_block_count = 0, ss_row_count = 0, ss_check = True, ss_origin_index_num = origin,
       ss_index_valid = True, ss_filterq = fq, ss_mergeq = mq, ss_sent = [] \<rparr>"

definition finish_scan :: "Snippet \<Rightarrow> ScanState \<Rightarrow> ScanState" where
  "finish_scan sn st =
     (let r = ss_result st; cur = ss_current_block_count st; tot = sn_total_block_count sn;
          st = (if \<not> ss_index_valid st then
                  st\<lparr> ss_result := r\<lparr> rs_result_block_count := rs_result_block_count r + (tot - cur) \<rparr>,
                      ss_current_block_count := tot \<rparr>
                else
                  st\<lparr> ss_result := r\<lparr> rs_result_block_count := tot - cur \<rparr>,
                      ss_current_block_count := cur + (tot - cur) \<rparr>);
          st = send_result (ss_result st) (sn_scan_type sn) st
      in st\<lparr> ss_result := InitResult (ss_result st) \<rparr>)"

definition scan_snippet ::
  "(string \<Rightarrow> sst_entry list) \<Rightarrow> buffer \<Rightarrow> table_rep \<Rightarrow> Snippet \<Rightarrow> string \<Rightarrow> Result WorkQueue \<Rightarrow>
   Result WorkQueue \<Rightarrow> (table_rep \<times> ScanState) res" where
  "scan_snippet reader junk tm sn origin fq mq =
     (case GetTableRep (sn_csd_name sn) (sn_table_name sn) tm of (file_path, tm) \<Rightarrow>
        bindE (BlockScan sn junk (reader file_path) (scan_start junk sn origin fq mq)) (\<lambda>st.
          Inr (tm, finish_scan sn st)))"

text \<open>One turn of the loop of \<open>Scanning\<close>.\<close>

definition Scanning ::
  "(string \<Rightarrow> sst_entry list) \<Rightarrow> buffer \<Rightarrow> string \<Rightarrow>
   table_rep \<times> Snippet WorkQueue \<times> Result WorkQueue \<times> Result WorkQueue \<Rightarrow>
   (table_rep \<times> Snippet WorkQueue \<times> Result WorkQueue \<times> Result WorkQueue) res" where
  "Scanning reader junk origin qs = (case qs of (tm, sq, fq, mq) \<Rightarrow>
     (case wait_and_pop 0 sq of
        (None, sq) \<Rightarrow> Inr (tm, sq, fq, mq)
      | (Some sn, sq) \<Rightarrow>
          bindE (scan_snippet reader junk tm sn origin fq mq) (\<lambda>(tm, st).
            Inr (tm, sq, ss_filterq st, ss_mergeq st))))"

section \<open>The flush contract\<close>

interpretation scanbuf: row_buffer "result_rows_in cap :: 'r Result_scheme \<Rightarrow> _" rs_length "scan_append_in cap" InitResult cap
  for cap
proof
  fix b :: "'r Result_scheme" and rows :: "string list" and row :: string
  show "result_rows_in cap (InitResult b) []"
    by (simp add: result_rows_in_def InitResult_def row_layout_in_def)
  assume rep: "result_rows_in cap b rows"
  then show "rs_length b = length (concat rows)" "rs_length b \<le> cap"
    by (simp_all add: result_rows_in_def row_layout_in_def)
  show "\<exists>b'. scan_append_in cap row b = Inr b' \<and> result_rows_in cap b' (rows @ [row])"
    if "rs_length b + length row \<le> cap"
    using row_layout_append [OF rep [unfolded result_rows_in_def] that] that
    by (simp add: scan_append_in_def memcpy_to_ok result_rows_in_def)
  show "scan_append_in cap row b = Inl OutOfBounds" if "cap < rs_length b + length row"
    using that by (simp add: scan_append_in_def memcpy_to_in_def)
qed

lemma send_result_fields [simp]:
  "ss_result (send_result r t st) = ss_result st"
  "ss_sent (send_result r t st) = ss_sent st @ [r]"
  "ss_current_block_count (send_result r t st) = ss_current_block_count st"
  "ss_row_count (send_result r t st) = ss_row_count st"
  "ss_check (send_result r t st) = ss_check st"
  "ss_origin_index_num (send_result r t st) = ss_origin_index_num st"
  "ss_index_valid (send_result r t st) = ss_index_valid st"
  by (simp_all add: send_result_def split: prod.splits)

lemma copy_result_ok:
  assumes "result_rows r rows"
  shows "\<exists>r'. copy_result junk r = Inr r' \<and> result_rows r' rows \<and>
    rs_result_block_count r' = rs_result_block_count r \<and> rs_query_id r' = rs_query_id r \<and>
    rs_work_id r' = rs_work_id r \<and> rs_csd_name r' = rs_csd_name r \<and>
    rs_total_block_count r' = rs_total_block_count r \<and> rs_filter_info r' = rs_filter_info r"
proof -
  let ?d = "buf_write (clear4 junk) 0 (buf_read (rs_data r) 0 (rs_length r))"
  have len: "rs_length r \<le> BUFF_SIZE" using assms by (simp add: result_rows_def row_layout_def)
  have "memcpy_from (rs_data r) 0 (int (rs_length r)) = Inr (buf_read (rs_data r) 0 (rs_length r))"
    using memcpy_from_ok [of 0 "rs_length r"] len by simp
  moreover have "memcpy_to (clear4 junk) 0 (buf_read (rs_data r) 0 (rs_length r)) = Inr ?d"
    using memcpy_to_ok [of 0 "buf_read (rs_data r) 0 (rs_length r)"] len by simp
  moreover have "buf_read ?d 0 (rs_length r) = buf_read (rs_data r) 0 (rs_length r)"
    using buf_read_write_same [of "clear4 junk" 0 "buf_read (rs_data r) 0 (rs_length r)"] by simp
  moreover from this assms have "row_layout (rs_row_count r) (rs_length r) (rs_row_offset r) ?d rows"
    unfolding result_rows_def by (rule row_layout_data)
  ultimately show ?thesis
    by (simp add: copy_result_def new_Result_def Let_def result_rows_def)
qed

lemma append_value_fits:
  assumes "result_rows (ss_result st) rows" "rs_length (ss_result st) + length row \<le> TEST_SIZE"
  shows "\<exists>st'. append_value t junk row st = Inr st' \<and> result_rows (ss_result st') (rows @ [row]) \<and>
    ss_sent st' = ss_sent st"
proof -
  have "rs_length (ss_result st) + length row \<le> BUFF_SIZE"
    using assms(2) TEST_SIZE_le_BUFF_SIZE by linarith
  from scanbuf.append_fits [OF assms(1) this] assms(2) show ?thesis
    by (auto simp: append_value_def)
qed

lemma append_value_flush:
  assumes "result_rows (ss_result st) rows" "TEST_SIZE < rs_length (ss_result st) + length row"
    "length row \<le> BUFF_SIZE"
  shows "\<exists>st' e. append_value t junk row st = Inr st' \<and> result_rows (ss_result st') [row] \<and>
    ss_sent st' = ss_sent st @ [e] \<and> result_rows e rows"
proof -
  let ?r = "(ss_result st)\<lparr> rs_result_block_count := 15 \<rparr>"
  have "result_rows ?r rows" using assms(1) by (simp add: result_rows_def)
  from copy_result_ok [OF this] obtain e where e: "copy_result junk ?r = Inr e" "result_rows e rows" by blast
  have "rs_length (InitResult ?r) + length row \<le> BUFF_SIZE" using assms(3) by (simp add: InitResult_def)
  from scanbuf.append_fits [OF scanbuf.reset_rep this] e assms(2) show ?thesis
    by (auto simp: append_value_def flush_result_def Let_def)
qed

lemma append_value_overflow:
  assumes "result_rows (ss_result st) rows" "BUFF_SIZE < length row"
  shows "append_value t junk row st = Inl OutOfBounds"
proof -
  let ?r = "(ss_result st)\<lparr> rs_result_block_count := 15 \<rparr>"
  have "result_rows ?r rows" using assms(1) by (simp add: result_rows_def)
  from copy_result_ok [OF this] obtain e where e: "copy_result junk ?r = Inr e" by blast
  have "BUFF_SIZE < rs_length (InitResult ?r) + length row" "TEST_SIZE < rs_length (ss_result st) + length row"
    using assms(2) TEST_SIZE_le_BUFF_SIZE by simp_all
  with scanbuf.append_overflow [OF scanbuf.reset_rep this(1)] e show ?thesis
    by (simp add: append_value_def flush_result_def Let_def)
qed

interpretation scan: flush_buffer result_rows rs_length scan_append InitResult BUFF_SIZE TEST_SIZE ss_result ss_sent
    "append_value t junk" for t junk
  by unfold_locales
    (fact TEST_SIZE_le_BUFF_SIZE | (rule append_value_fits; assumption) | (rule append_value_flush; assumption)
      | (rule append_value_overflow; assumption))+

section \<open>The loop over the entries\<close>

definition good_entry :: "'s Snippet_scheme \<Rightarrow> string \<Rightarrow> sst_entry \<Rightarrow> bool" where
  \<comment> \<open>a readable entry of the table with index number \<open>p\<close>\<close>
  "good_entry sn p e \<longleftrightarrow> sst_ok e \<and> sn_kNumInternalBytes sn \<le> length (sst_key e) \<and>
     indexnum_size \<le> length (sst_key e) \<and> take indexnum_size (sst_key e) = p"

lemma append_value_row_count:
  "append_value t junk row (st\<lparr> ss_row_count := n \<rparr>) =
     bindE (append_value t junk row st) (\<lambda>s. Inr (s\<lparr> ss_row_count := n \<rparr>))"
proof -
  have flush: "flush_result t junk (st\<lparr> ss_row_count := n \<rparr>) =
      bindE (flush_result t junk st) (\<lambda>s. Inr (s\<lparr> ss_row_count := n \<rparr>))"
    by (cases "copy_result junk ((ss_result st)\<lparr> rs_result_block_count := 15 \<rparr>)")
      (simp_all add: flush_result_def Let_def send_result_def split: prod.splits)
  have app: "bindE (scan_append row (ss_result (s\<lparr> ss_row_count := n \<rparr>))) (\<lambda>r. Inr (s\<lparr> ss_row_count := n, ss_result := r \<rparr>)) =
      bindE (bindE (scan_append row (ss_result s)) (\<lambda>r. Inr (s\<lparr> ss_result := r \<rparr>))) (\<lambda>s. Inr (s\<lparr> ss_row_count := n \<rparr>))"
    for s :: ScanState by (cases "scan_append row (ss_result s)") simp_all
  show ?thesis
    using app by (cases "flush_result t junk st") (simp_all add: append_value_def flush)
qed

definition past_header :: "string \<Rightarrow> ScanState \<Rightarrow> bool" where
  "past_header p st \<longleftrightarrow> \<not> ss_check st \<and> ss_origin_index_num st = p"

lemma append_value_keeps:
  assumes "append_value t junk row st = Inr st'"
  shows "ss_check st' = ss_check st" "ss_origin_index_num st' = ss_origin_index_num st"
    "ss_index_valid st' = ss_index_valid st" "ss_row_count st' = ss_row_count st"
    "sum_list (map rs_result_block_count (ss_sent st')) - ss_current_block_count st' =
     sum_list (map rs_result_block_count (ss_sent st)) - ss_current_block_count st"
  using assms
  by (auto simp: append_value_def flush_result_def copy_result_def new_Result_def bindE_Inr_conv Let_def
      split: if_splits)

lemma scan_entry_good:
  assumes "good_entry sn p e" "past_header p st \<or> ss_check st" "sn_primary_length sn = Some 0"
  shows "scan_entry sn junk e (b, st) =
    bindE (append_value (sn_scan_type sn) junk (sst_value e)
             (st\<lparr> ss_check := False, ss_origin_index_num := p, ss_row_count := ss_row_count st + 1 \<rparr>))
      (\<lambda>s. Inr (False, s))"
proof -
  have "key_slice (sst_key e) 0 (int indexnum_size) = Inr p"
    using assms(1) by (simp add: good_entry_def key_slice_def)
  then show ?thesis
    using assms by (cases st) (auto simp: scan_entry_def good_entry_def ExtractUserKey_def past_header_def)
qed

lemma scan_loop_good:
  assumes "list_all (good_entry sn p) es" "past_header p st" "sn_primary_length sn = Some 0"
  shows "break_loop (scan_entry sn junk) fst es (False, st) =
    bindE (foldE (append_value (sn_scan_type sn) junk) (map sst_value es) st)
      (\<lambda>s. Inr (False, s\<lparr> ss_row_count := ss_row_count st + int (length es) \<rparr>))"
  using assms
proof (induction es arbitrary: st)
  case Nil
  then show ?case by simp
next
  case (Cons e es)
  let ?app = "append_value (sn_scan_type sn) junk"
  have st: "st\<lparr> ss_check := False, ss_origin_index_num := p, ss_row_count := ss_row_count st + 1 \<rparr> =
      st\<lparr> ss_row_count := ss_row_count st + 1 \<rparr>"
    using Cons.prems(2) by (cases st) (simp add: past_header_def)
  have step: "scan_entry sn junk e (False, st) =
      bindE (?app (sst_value e) st) (\<lambda>s. Inr (False, s\<lparr> ss_row_count := ss_row_count st + 1 \<rparr>))"
    using scan_entry_good [of sn p e st junk False] Cons.prems
    by (cases "?app (sst_value e) st") (simp_all add: st append_value_row_count)
  show ?case
  proof (cases "?app (sst_value e) st")
    case (Inl err)
    with step show ?thesis by simp
  next
    case (Inr s)
    let ?s = "s\<lparr> ss_row_count := ss_row_count st + 1 \<rparr>"
    have past: "past_header p ?s"
      using append_value_keeps [OF Inr] Cons.prems(2) by (simp add: past_header_def)
    have fold: "foldE ?app xs (s\<lparr> ss_row_count := n \<rparr>) = bindE (foldE ?app xs s) (\<lambda>s. Inr (s\<lparr> ss_row_count := n \<rparr>))"
      for xs s n
    proof (induction xs arbitrary: s)
      case (Cons x xs)
      then show ?case by (cases "?app x s") (simp_all add: append_value_row_count)
    qed simp
    from step Inr Cons.IH [of ?s] past Cons.prems show ?thesis
      by (cases "foldE ?app (map sst_value es) s") (simp_all add: fold algebra_simps)
  qed
qed

text \<open>A table without a primary key whose entries all belong to it: the scan is the fold.\<close>

lemma BlockScan_good:
  assumes "list_all (good_entry sn p) es" "sn_primary_length sn = Some 0" "ss_check st"
    and "sn_scan_type sn = Full_Scan_Filter \<or> sn_scan_type sn = Full_Scan"
  shows "BlockScan sn junk es st =
    bindE (foldE (append_value (sn_scan_type sn) junk) (map sst_value es)
             (if es = [] then st else st\<lparr> ss_check := False, ss_origin_index_num := p \<rparr>))
      (\<lambda>s. Inr (s\<lparr> ss_row_count := ss_row_count st + int (length es) \<rparr>))"
proof (cases es)
  case Nil
  then show ?thesis using assms(4) by (cases st) (simp add: BlockScan_def)
next
  case (Cons e es')
  let ?st = "st\<lparr> ss_check := False, ss_origin_index_num := p \<rparr>"
  have past: "past_header p ?st" by (simp add: past_header_def)
  have e: "good_entry sn p e" using assms(1) Cons by simp
  have "scan_entry sn junk e (False, st) = scan_entry sn junk e (False, ?st)"
    using scan_entry_good [OF e _ assms(2), of st] scan_entry_good [OF e _ assms(2), of ?st] past assms(3)
    by simp
  then have "break_loop (scan_entry sn junk) fst es (False, st) = break_loop (scan_entry sn junk) fst es (False, ?st)"
    using Cons by simp
  with scan_loop_good [OF assms(1) past assms(2), of junk] Cons assms(4) show ?thesis
    by (cases "foldE (append_value (sn_scan_type sn) junk) (map sst_value es) ?st")
      (simp_all add: BlockScan_def)
qed

section \<open>Invariants of the scan\<close>

definition of_snippet :: "Snippet \<Rightarrow> Result \<Rightarrow> bool" where
  "of_snippet sn r \<longleftrightarrow> rs_query_id r = sn_query_id sn \<and> rs_work_id r = sn_work_id sn \<and>
     rs_csd_name r = sn_csd_name sn \<and> rs_total_block_count r = sn_total_block_count sn \<and>
     rs_filter_info r = filter_info_of sn"

definition scan_inv :: "Snippet \<Rightarrow> Result WorkQueue \<times> Result WorkQueue \<Rightarrow> ScanState \<Rightarrow> bool" where
  "scan_inv sn qs st \<longleftrightarrow>
     of_snippet sn (ss_result st) \<and> list_all (of_snippet sn) (ss_sent st) \<and>
     rs_result_block_count (ss_result st) = 0 \<and>
     sum_list (map rs_result_block_count (ss_sent st)) = ss_current_block_count st \<and>
     (ss_filterq st, ss_mergeq st) = fold (\<lambda>r. EnQueueData r (sn_scan_type sn)) (ss_sent st) qs"

lemma of_snippet_fields [simp]:
  "of_snippet sn (r\<lparr> rs_row_count := a \<rparr>) = of_snippet sn r"
  "of_snippet sn (r\<lparr> rs_length := a \<rparr>) = of_snippet sn r"
  "of_snippet sn (r\<lparr> rs_data := d \<rparr>) = of_snippet sn r"
  "of_snippet sn (r\<lparr> rs_row_offset := xs \<rparr>) = of_snippet sn r"
  "of_snippet sn (r\<lparr> rs_result_block_count := n \<rparr>) = of_snippet sn r"
  "of_snippet sn (InitResult r) = of_snippet sn r"
  by (simp_all add: of_snippet_def InitResult_def)

lemma copy_result_of_snippet:
  "copy_result junk r = Inr r' \<Longrightarrow> of_snippet sn r \<Longrightarrow>
     of_snippet sn r' \<and> rs_result_block_count r' = rs_result_block_count r"
  by (auto simp: copy_result_def new_Result_def of_snippet_def bindE_Inr_conv Let_def)

lemma send_result_inv:
  assumes "(ss_filterq st, ss_mergeq st) = fold (\<lambda>r. EnQueueData r t) (ss_sent st) qs"
  shows "(ss_filterq (send_result r t st), ss_mergeq (send_result r t st)) =
    fold (\<lambda>r. EnQueueData r t) (ss_sent (send_result r t st)) qs"
  using assms by (simp add: send_result_def split: prod.splits)

lemma flush_result_inv:
  assumes "flush_result (sn_scan_type sn) junk st = Inr st'" "scan_inv sn qs st"
  shows "scan_inv sn qs st'"
proof -
  let ?r = "(ss_result st)\<lparr> rs_result_block_count := 15 \<rparr>"
  let ?st = "st\<lparr> ss_current_block_count := ss_current_block_count st + 15, ss_result := InitResult ?r \<rparr>"
  from assms(1) obtain r' where r': "copy_result junk ?r = Inr r'"
    and st': "st' = send_result r' (sn_scan_type sn) ?st"
    by (auto simp: flush_result_def bindE_Inr_conv Let_def)
  have "of_snippet sn ?r" using assms(2) by (simp add: scan_inv_def)
  from copy_result_of_snippet [OF r' this] have "of_snippet sn r'" "rs_result_block_count r' = 15" by simp_all
  moreover have "(ss_filterq ?st, ss_mergeq ?st) = fold (\<lambda>r. EnQueueData r (sn_scan_type sn)) (ss_sent ?st) qs"
    using assms(2) by (simp add: scan_inv_def)
  note send_result_inv [OF this, of r']
  moreover have "rs_result_block_count (InitResult ?r) = 0" by (simp add: InitResult_def)
  ultimately show ?thesis using assms(2) unfolding st' scan_inv_def by simp
qed

lemma append_value_inv:
  assumes "append_value (sn_scan_type sn) junk row st = Inr st'" "scan_inv sn qs st"
  shows "scan_inv sn qs st'"
proof -
  from assms(1) obtain s r where
    s: "(if TEST_SIZE < rs_length (ss_result st) + length row then flush_result (sn_scan_type sn) junk st else Inr st) = Inr s"
    and r: "scan_append row (ss_result s) = Inr r" and st': "st' = s\<lparr> ss_result := r \<rparr>"
    by (auto simp: append_value_def bindE_Inr_conv)
  have "scan_inv sn qs s"
    using s assms(2) flush_result_inv by (cases "TEST_SIZE < rs_length (ss_result st) + length row") auto
  moreover from r have "of_snippet sn (ss_result s) \<Longrightarrow> of_snippet sn r"
    "rs_result_block_count r = rs_result_block_count (ss_result s)"
    by (auto simp: scan_append_def bindE_Inr_conv)
  ultimately show ?thesis using st' by (simp add: scan_inv_def)
qed

text \<open>Every result sent before the last one counts 15 blocks.\<close>

lemma append_value_counts:
  assumes "append_value t junk row st = Inr st'" "list_all (\<lambda>r. rs_result_block_count r = 15) (ss_sent st)"
  shows "list_all (\<lambda>r. rs_result_block_count r = 15) (ss_sent st')"
  using assms
  by (auto simp: append_value_def flush_result_def copy_result_def new_Result_def bindE_Inr_conv Let_def
      split: if_splits)

lemma append_values_counts:
  assumes "foldE (append_value t junk) rows st = Inr st'" "list_all (\<lambda>r. rs_result_block_count r = 15) (ss_sent st)"
  shows "list_all (\<lambda>r. rs_result_block_count r = 15) (ss_sent st')"
  using assms by (induction rows arbitrary: st) (auto simp: bindE_Inr_conv dest: append_value_counts)

lemma append_with_key_result:
  assumes "append_with_key sn pl ikey row st = Inr st'"
  shows "\<exists>pk d. getPrimaryKeyData ikey (sn_primary_key_list sn) = Inr pk \<and> st' = st\<lparr> ss_result := (ss_result st)\<lparr> rs_data := d,
      rs_length := rs_length (ss_result st) + length row + length pk,
      rs_row_count := rs_row_count (ss_result st) + 1 \<rparr> \<rparr>"
proof -
  from assms obtain pk where pk: "getPrimaryKeyData ikey (sn_primary_key_list sn) = Inr pk" "int (length pk) \<le> pl"
    by (auto simp: append_with_key_def bindE_Inr_conv split: if_splits)
  with assms obtain d where "memcpy_to (rs_data (ss_result st)) (int (rs_length (ss_result st))) (pk @ row) = Inr d"
    by (auto simp: append_with_key_def bindE_Inr_conv Let_def)
  with assms pk show ?thesis by (intro exI [of _ pk] exI [of _ d]) (auto simp: append_with_key_def Let_def)
qed

lemma append_with_key_inv:
  assumes "append_with_key sn pl ikey row st = Inr st'" "scan_inv sn qs st"
  shows "scan_inv sn qs st'"
  using append_with_key_result [OF assms(1)] assms(2) by (auto simp: scan_inv_def)

lemma scan_inv_counters [simp]:
  "scan_inv sn qs (st\<lparr> ss_row_count := n \<rparr>) = scan_inv sn qs st"
  "scan_inv sn qs (st\<lparr> ss_check := b \<rparr>) = scan_inv sn qs st"
  "scan_inv sn qs (st\<lparr> ss_origin_index_num := p \<rparr>) = scan_inv sn qs st"
  "scan_inv sn qs (st\<lparr> ss_index_valid := b \<rparr>) = scan_inv sn qs st"
  by (simp_all add: scan_inv_def)

lemma scan_entry_inv:
  assumes "scan_entry sn junk e (b, st) = Inr (b', st')" "scan_inv sn qs st"
  shows "scan_inv sn qs st'"
proof -
  define s0 where "s0 idx = (if ss_check st then st\<lparr> ss_origin_index_num := idx, ss_check := False \<rparr> else st)" for idx
  have s0: "scan_inv sn qs (s0 idx)" for idx using assms(2) by (simp add: s0_def)
  from assms(1) consider "st' = st" | idx where "st' = (s0 idx)\<lparr> ss_index_valid := False \<rparr>"
    | idx pl ikey where "append_with_key sn pl ikey (sst_value e)
        ((s0 idx)\<lparr> ss_row_count := ss_row_count (s0 idx) + 1 \<rparr>) = Inr st'"
    | idx where "append_value (sn_scan_type sn) junk (sst_value e)
        ((s0 idx)\<lparr> ss_row_count := ss_row_count (s0 idx) + 1 \<rparr>) = Inr st'"
    unfolding scan_entry_def prod.case s0_def [symmetric] Let_def
    by (fastforce simp: bindE_Inr_conv split: if_splits option.splits)
  then show ?thesis
    by cases (use s0 assms(2) append_value_inv append_with_key_inv in \<open>auto\<close>)
qed

lemma scan_loop_inv:
  assumes "break_loop (scan_entry sn junk) fst es (b, st) = Inr (b', st')" "scan_inv sn qs st"
  shows "scan_inv sn qs st'"
  using assms
proof (induction es arbitrary: b st)
  case (Cons e es)
  from Cons.prems(1) obtain c s where s: "scan_entry sn junk e (b, st) = Inr (c, s)"
    by (auto simp: bindE_Inr_conv)
  with Cons scan_entry_inv [OF s Cons.prems(2)] show ?case by (auto split: if_splits)
qed simp

lemma BlockScan_inv:
  assumes "BlockScan sn junk es st = Inr st'" "scan_inv sn qs st"
  shows "scan_inv sn qs st'"
proof (cases "sn_scan_type sn = Full_Scan_Filter \<or> sn_scan_type sn = Full_Scan")
  case True
  with assms(1) obtain b where "break_loop (scan_entry sn junk) fst es (False, st) = Inr (b, st')"
    by (auto simp: BlockScan_def bindE_Inr_conv)
  from scan_loop_inv [OF this assms(2)] show ?thesis .
next
  case False
  with assms show ?thesis by (simp add: BlockScan_def)
qed

lemma scan_start_inv: "scan_inv sn (fq, mq) (scan_start junk sn origin fq mq)"
  by (simp add: scan_inv_def scan_start_def of_snippet_def new_Result_def)

lemma finish_scan_inv:
  assumes "scan_inv sn qs st"
  shows "\<exists>r. ss_sent (finish_scan sn st) = ss_sent st @ [r] \<and> of_snippet sn r \<and>
      rs_result_block_count r = sn_total_block_count sn - ss_current_block_count st \<and>
      rs_row_count r = rs_row_count (ss_result st) \<and> rs_length r = rs_length (ss_result st) \<and>
      rs_row_offset r = rs_row_offset (ss_result st) \<and> rs_data r = rs_data (ss_result st)"
    and "(ss_filterq (finish_scan sn st), ss_mergeq (finish_scan sn st)) =
      fold (\<lambda>r. EnQueueData r (sn_scan_type sn)) (ss_sent (finish_scan sn st)) qs"
proof -
  show "\<exists>r. ss_sent (finish_scan sn st) = ss_sent st @ [r] \<and> of_snippet sn r \<and>
      rs_result_block_count r = sn_total_block_count sn - ss_current_block_count st \<and>
      rs_row_count r = rs_row_count (ss_result st) \<and> rs_length r = rs_length (ss_result st) \<and>
      rs_row_offset r = rs_row_offset (ss_result st) \<and> rs_data r = rs_data (ss_result st)"
    using assms by (cases "ss_index_valid st") (simp_all add: finish_scan_def Let_def scan_inv_def)
  have "(ss_filterq st, ss_mergeq st) = fold (\<lambda>r. EnQueueData r (sn_scan_type sn)) (ss_sent st) qs"
    using assms by (simp add: scan_inv_def)
  then show "(ss_filterq (finish_scan sn st), ss_mergeq (finish_scan sn st)) =
      fold (\<lambda>r. EnQueueData r (sn_scan_type sn)) (ss_sent (finish_scan sn st)) qs"
    by (cases "ss_index_valid st") (simp_all add: finish_scan_def Let_def send_result_def split: prod.splits)
qed

section \<open>A concrete table\<close>

definition ex_entries :: "string \<Rightarrow> sst_entry list" where
  "ex_entries path = [\<lparr> sst_ok = True, sst_key = replicate 4 (CHR 0x07) @ ''k1'', sst_value = ''abcdefgh'' \<rparr>,
     \<lparr> sst_ok = True, sst_key = replicate 4 (CHR 0x07) @ ''k2'', sst_value = ''ijklmnop'' \<rparr>]"

lemma ex_entries_good: "list_all (good_entry ex_snippet (replicate 4 (CHR 0x07))) (ex_entries path)"
  by (simp add: ex_entries_def good_entry_def ex_snippet_def indexnum_size_def)

lemma scan_snippet_counts:
  assumes "scan_snippet reader junk tm sn origin fq mq = Inr (tm', st)"
  shows "sum_list (map rs_result_block_count (ss_sent st)) = sn_total_block_count sn \<and>
    list_all (of_snippet sn) (ss_sent st) \<and>
    (ss_filterq st, ss_mergeq st) = fold (\<lambda>r. EnQueueData r (sn_scan_type sn)) (ss_sent st) (fq, mq)"
proof -
  from assms obtain es st0 where st0: "BlockScan sn junk es (scan_start junk sn origin fq mq) = Inr st0"
    and st: "st = finish_scan sn st0"
    by (auto simp: scan_snippet_def bindE_Inr_conv split: prod.splits)
  have inv: "scan_inv sn (fq, mq) st0" by (rule BlockScan_inv [OF st0 scan_start_inv])
  from finish_scan_inv [OF inv] inv st show ?thesis by (auto simp: scan_inv_def)
qed

text \<open>
  C14. Whatever the table contains, every scan that ends without a failure sends results whose
  block counts add up to the snippet's \<open>total_block_count\<close>, each of them with the snippet's ids and
  filter information, and the two queues contain exactly these results, in order, routed by the
  scan type.
\<close>

theorem scan_block_counts:
  assumes "scan_snippet reader junk tm sn origin fq mq = Inr (tm', st)"
  shows "sum_list (map rs_result_block_count (ss_sent st)) = sn_total_block_count sn \<and>
    list_all (of_snippet sn) (ss_sent st) \<and>
    (ss_filterq st, ss_mergeq st) = fold (\<lambda>r. EnQueueData r (sn_scan_type sn)) (ss_sent st) (fq, mq)"
  using assms by (rule scan_snippet_counts)

lemma scan_snippet_eq:
  assumes "list_all (good_entry sn p) es" "es = reader path" "GetTableRep (sn_csd_name sn) (sn_table_name sn) tm = (path, tm')"
    and "sn_primary_length sn = Some 0" "sn_scan_type sn = Full_Scan_Filter \<or> sn_scan_type sn = Full_Scan"
  shows "scan_snippet reader junk tm sn origin fq mq =
    bindE (foldE (append_value (sn_scan_type sn) junk) (map sst_value es)
        (let s = scan_start junk sn origin fq mq in if es = [] then s else s\<lparr> ss_check := False, ss_origin_index_num := p \<rparr>))
      (\<lambda>s. Inr (tm', finish_scan sn (s\<lparr> ss_row_count := int (length es) \<rparr>)))"
proof -
  let ?s = "scan_start junk sn origin fq mq"
  have "BlockScan sn junk es ?s = bindE (foldE (append_value (sn_scan_type sn) junk) (map sst_value es)
             (if es = [] then ?s else ?s\<lparr> ss_check := False, ss_origin_index_num := p \<rparr>))
      (\<lambda>s. Inr (s\<lparr> ss_row_count := ss_row_count ?s + int (length es) \<rparr>))"
    by (rule BlockScan_good [OF assms(1,4) _ assms(5)]) (simp add: scan_start_def)
  moreover have "ss_row_count ?s = 0" by (simp add: scan_start_def)
  ultimately show ?thesis
    using assms(2,3) by (simp add: scan_snippet_def Let_def bindE_assoc)
qed

text \<open>
  What the scan of such a file sends, in full: the rows, and the counts of blocks. Every buffer the rows fill counts 15
  blocks, the last result the rest of the snippet's total.
\<close>

abbreviation row_lengths :: "sst_entry list \<Rightarrow> nat list" where
  "row_lengths es \<equiv> map (\<lambda>e. length (sst_value e)) es"

definition buffers_filled :: "sst_entry list \<Rightarrow> nat" where
  "buffers_filled es = flush_count TEST_SIZE 0 (row_lengths es)"

lemma scan_snippet_sends:
  assumes "list_all (good_entry sn p) (reader (fst (GetTableRep (sn_csd_name sn) (sn_table_name sn) tm)))"
    and "list_all (\<lambda>e. length (sst_value e) \<le> BUFF_SIZE) (reader (fst (GetTableRep (sn_csd_name sn) (sn_table_name sn) tm)))"
    and "sn_primary_length sn = Some 0" "sn_scan_type sn = Full_Scan_Filter \<or> sn_scan_type sn = Full_Scan"
  shows "\<exists>tm' st rss. scan_snippet reader junk tm sn origin fq mq = Inr (tm', st) \<and>
    list_all2 result_rows (ss_sent st) rss \<and>
    concat rss = map sst_value (reader (fst (GetTableRep (sn_csd_name sn) (sn_table_name sn) tm))) \<and>
    (let n = buffers_filled (reader (fst (GetTableRep (sn_csd_name sn) (sn_table_name sn) tm)))
     in map rs_result_block_count (ss_sent st) = replicate n 15 @ [sn_total_block_count sn - 15 * int n])"
proof -
  obtain path tm' where rep: "GetTableRep (sn_csd_name sn) (sn_table_name sn) tm = (path, tm')"
    by (cases "GetTableRep (sn_csd_name sn) (sn_table_name sn) tm")
  let ?es = "reader path" and ?s = "scan_start junk sn origin fq mq"
  let ?s1 = "if ?es = [] then ?s else ?s\<lparr> ss_check := False, ss_origin_index_num := p \<rparr>" and ?n = "buffers_filled (reader path)"
  have rows: "result_rows (ss_result ?s1) []" and start: "rs_length (ss_result ?s1) = 0" "ss_sent ?s1 = []"
    by (simp_all add: scan_start_def new_Result_def result_rows_def)
  have small: "\<forall>r\<in>set (map sst_value ?es). length r \<le> BUFF_SIZE" using assms(2) rep by (simp add: list_all_iff)
  from scan.run_conserves [OF rows small, where t = "sn_scan_type sn" and junk = junk]
  obtain s' es' rss lst where
    s': "foldE (append_value (sn_scan_type sn) junk) (map sst_value ?es) ?s1 = Inr s'"
    "ss_sent s' = ss_sent ?s1 @ es'" "list_all2 result_rows es' rss" "result_rows (ss_result s') lst"
    "concat rss @ lst = [] @ map sst_value ?es" "length es' = ?n" unfolding start(1) by (auto simp: buffers_filled_def comp_def)
  let ?st0 = "s'\<lparr> ss_row_count := int (length ?es) \<rparr>"
  have scan: "scan_snippet reader junk tm sn origin fq mq = Inr (tm', finish_scan sn ?st0)"
    using scan_snippet_eq [where reader = reader, OF _ refl rep assms(3,4)] assms(1) rep s'(1) by (simp add: Let_def)
  have "BlockScan sn junk ?es ?s = Inr ?st0"
    using BlockScan_good [where sn = sn and es = ?es and p = p and st = ?s and junk = junk] assms rep s'(1)
    by (simp add: scan_start_def)
  then have inv: "scan_inv sn (fq, mq) ?st0" by (rule BlockScan_inv [OF _ scan_start_inv])
  from finish_scan_inv(1) [OF inv] obtain r where
    r: "ss_sent (finish_scan sn ?st0) = ss_sent ?st0 @ [r]" "rs_result_block_count r = sn_total_block_count sn - ss_current_block_count ?st0"
    "rs_row_count r = rs_row_count (ss_result ?st0)" "rs_length r = rs_length (ss_result ?st0)"
    "rs_row_offset r = rs_row_offset (ss_result ?st0)" "rs_data r = rs_data (ss_result ?st0)" by blast
  have "result_rows r lst" using r(3-6) s'(4) by (simp add: result_rows_def)
  then have all: "list_all2 result_rows (ss_sent (finish_scan sn ?st0)) (rss @ [lst])"
    using r(1) s'(2,3) start(2) by (simp add: list_all2_appendI)
  have "list_all (\<lambda>r. rs_result_block_count r = 15) es'"
    using append_values_counts [OF s'(1)] s'(2) start(2) by simp
  then have counts: "map rs_result_block_count es' = replicate ?n 15"
    using s'(6) by (intro replicate_eqI) (auto simp: list_all_iff)
  moreover have "ss_current_block_count ?st0 = 15 * int ?n"
    using inv s'(2) start(2) counts by (simp add: scan_inv_def sum_list_replicate)
  ultimately have "map rs_result_block_count (ss_sent (finish_scan sn ?st0)) = replicate ?n 15 @ [sn_total_block_count sn - 15 * int ?n]"
    using r(1,2) s'(2) start(2) by simp
  with scan all s'(5) rep show ?thesis by (intro exI [of _ tm'] exI [of _ "finish_scan sn ?st0"] exI [of _ "rss @ [lst]"]) simp
qed

lemma scan_snippet_rows:
  assumes "list_all (good_entry sn p) (reader (fst (GetTableRep (sn_csd_name sn) (sn_table_name sn) tm)))"
    and "list_all (\<lambda>e. length (sst_value e) \<le> BUFF_SIZE) (reader (fst (GetTableRep (sn_csd_name sn) (sn_table_name sn) tm)))"
    and "sn_primary_length sn = Some 0" "sn_scan_type sn = Full_Scan_Filter \<or> sn_scan_type sn = Full_Scan"
  shows "\<exists>tm' st rss. scan_snippet reader junk tm sn origin fq mq = Inr (tm', st) \<and>
    list_all2 result_rows (ss_sent st) rss \<and>
    concat rss = map sst_value (reader (fst (GetTableRep (sn_csd_name sn) (sn_table_name sn) tm)))"
  using scan_snippet_sends [where reader = reader and tm = tm, OF assms] by blast

lemma scan_snippet_long_row:
  assumes "list_all (good_entry sn p) (reader (fst (GetTableRep (sn_csd_name sn) (sn_table_name sn) tm)))"
    and "\<not> list_all (\<lambda>e. length (sst_value e) \<le> BUFF_SIZE) (reader (fst (GetTableRep (sn_csd_name sn) (sn_table_name sn) tm)))"
    and "sn_primary_length sn = Some 0" "sn_scan_type sn = Full_Scan_Filter \<or> sn_scan_type sn = Full_Scan"
  shows "scan_snippet reader junk tm sn origin fq mq = Inl OutOfBounds"
proof -
  obtain path tm' where rep: "GetTableRep (sn_csd_name sn) (sn_table_name sn) tm = (path, tm')"
    by (cases "GetTableRep (sn_csd_name sn) (sn_table_name sn) tm")
  let ?es = "reader path" and ?s = "scan_start junk sn origin fq mq"
  let ?s1 = "if ?es = [] then ?s else ?s\<lparr> ss_check := False, ss_origin_index_num := p \<rparr>"
  have rows: "result_rows (ss_result ?s1) []" by (simp add: scan_start_def new_Result_def result_rows_def)
  have "\<exists>r\<in>set (map sst_value ?es). BUFF_SIZE < length r" using assms(2) rep by (auto simp: list_all_iff not_le)
  from scan.run_overflow [OF rows this, where t = "sn_scan_type sn" and junk = junk]
    scan_snippet_eq [where reader = reader, OF _ refl rep assms(3,4)] assms(1) rep show ?thesis by (simp add: Let_def)
qed

text \<open>
  C13. The scan of a table whose key columns need not be restored (\<open>primary_length\<close> is 0) and all of whose entries are
  readable and carry the same index number; an entry of another index would end the scan. If every row fits into the
  buffer of a result (\<open>BUFF_SIZE\<close> bytes), the scan does not fail; the rows of the results it sends, put together in order,
  are exactly the values in the file, and every result but the last counts 15 blocks, however many rows it holds. If
  some row is longer than the buffer, the scan writes past its end.
\<close>

theorem scan_conserves_rows:
  assumes "es = reader (fst (GetTableRep (sn_csd_name sn) (sn_table_name sn) tm))" "list_all (good_entry sn p) es"
    and "sn_primary_length sn = Some 0" "sn_scan_type sn = Full_Scan_Filter \<or> sn_scan_type sn = Full_Scan"
  shows "if list_all (\<lambda>e. length (sst_value e) \<le> BUFF_SIZE) es
    then \<exists>tm' st rss. scan_snippet reader junk tm sn origin fq mq = Inr (tm', st) \<and>
      list_all2 result_rows (ss_sent st) rss \<and> concat rss = map sst_value es \<and>
      map rs_result_block_count (ss_sent st) =
        replicate (buffers_filled es) 15 @ [sn_total_block_count sn - 15 * int (buffers_filled es)]
    else scan_snippet reader junk tm sn origin fq mq = Inl OutOfBounds"
  using scan_snippet_sends [where reader = reader and tm = tm, OF assms(2) [unfolded assms(1)] _ assms(3,4)]
    scan_snippet_long_row [where reader = reader and tm = tm, OF assms(2) [unfolded assms(1)] _ assms(3,4)]
  unfolding assms(1) Let_def by metis

theorem scan_conserves_rows_witness:
  "\<exists>tm' st rss. scan_snippet ex_entries (\<lambda>_. CHR 0x2A) Map.empty ex_snippet [] (new_WorkQueue 2) (new_WorkQueue 1) = Inr (tm', st) \<and>
    list_all2 result_rows (ss_sent st) rss \<and> concat rss = [''abcdefgh'', ''ijklmnop'']"
proof -
  let ?es = "ex_entries (fst (GetTableRep (sn_csd_name ex_snippet) (sn_table_name ex_snippet) Map.empty))"
  have sn: "sn_primary_length ex_snippet = Some 0" "sn_scan_type ex_snippet = Full_Scan_Filter \<or> sn_scan_type ex_snippet = Full_Scan"
    by (simp_all add: ex_snippet_def)
  have "list_all (\<lambda>e. length (sst_value e) \<le> BUFF_SIZE) ?es" "map sst_value ?es = [''abcdefgh'', ''ijklmnop'']"
    by (simp_all add: ex_entries_def csd_sizes)
  then show ?thesis
    using scan_conserves_rows [where reader = ex_entries and tm = Map.empty and junk = "\<lambda>_. CHR 0x2A" and origin = "[]" and
        fq = "new_WorkQueue 2" and mq = "new_WorkQueue 1", OF refl ex_entries_good sn] by auto
qed

definition key_scan_inv :: "ScanState \<Rightarrow> bool" where
  "key_scan_inv st \<longleftrightarrow> ss_sent st = [] \<and> rs_row_offset (ss_result st) = [] \<and>
     int (rs_row_count (ss_result st)) = ss_row_count st"

lemma key_scan_entry:
  assumes "scan_entry sn junk e (b, st) = Inr (b', st')" "key_scan_inv st"
    "sn_primary_length sn = Some pl" "pl \<noteq> 0"
  shows "key_scan_inv st'"
proof -
  define s0 where "s0 idx = (if ss_check st then st\<lparr> ss_origin_index_num := idx, ss_check := False \<rparr> else st)" for idx
  have s0: "key_scan_inv (s0 idx)" for idx using assms(2) by (simp add: s0_def key_scan_inv_def)
  from assms(1,3,4) consider "st' = st" | idx where "st' = (s0 idx)\<lparr> ss_index_valid := False \<rparr>"
    | idx pl ikey where "append_with_key sn pl ikey (sst_value e)
        ((s0 idx)\<lparr> ss_row_count := ss_row_count (s0 idx) + 1 \<rparr>) = Inr st'"
    unfolding scan_entry_def prod.case s0_def [symmetric] Let_def
    by (fastforce simp: bindE_Inr_conv split: if_splits option.splits)
  then show ?thesis
  proof cases
    case 3
    from append_with_key_result [OF 3] s0 [of idx] show ?thesis by (auto simp: key_scan_inv_def)
  qed (use s0 assms(2) in \<open>auto simp: key_scan_inv_def\<close>)
qed

lemma key_scan_loop:
  assumes "break_loop (scan_entry sn junk) fst es (b, st) = Inr (b', st')" "key_scan_inv st"
    "sn_primary_length sn = Some pl" "pl \<noteq> 0"
  shows "key_scan_inv st'"
  using assms
proof (induction es arbitrary: b st)
  case (Cons e es)
  from Cons.prems(1) obtain c s where s: "scan_entry sn junk e (b, st) = Inr (c, s)"
    by (auto simp: bindE_Inr_conv)
  with Cons key_scan_entry [OF s Cons.prems(2-4)] show ?case by (auto split: if_splits)
qed simp

lemma key_scan_result:
  assumes "scan_snippet reader junk tm sn origin fq mq = Inr (tm', st)"
    and "sn_primary_length sn = Some pl" "pl \<noteq> 0"
  shows "\<exists>r. ss_sent st = [r] \<and> rs_row_offset r = [] \<and> int (rs_row_count r) = ss_row_count st"
proof -
  from assms(1) obtain es st0 where st0: "BlockScan sn junk es (scan_start junk sn origin fq mq) = Inr st0"
    and st: "st = finish_scan sn st0"
    by (auto simp: scan_snippet_def bindE_Inr_conv split: prod.splits)
  have start: "key_scan_inv (scan_start junk sn origin fq mq)"
    by (simp add: key_scan_inv_def scan_start_def new_Result_def)
  have "key_scan_inv st0"
  proof (cases "sn_scan_type sn = Full_Scan_Filter \<or> sn_scan_type sn = Full_Scan")
    case True
    with st0 obtain b where "break_loop (scan_entry sn junk) fst es (False, scan_start junk sn origin fq mq) = Inr (b, st0)"
      by (auto simp: BlockScan_def bindE_Inr_conv)
    from key_scan_loop [OF this start assms(2,3)] show ?thesis .
  next
    case False
    with st0 start show ?thesis by (simp add: BlockScan_def)
  qed
  then show ?thesis using st
    by (cases "ss_index_valid st0") (simp_all add: finish_scan_def key_scan_inv_def Let_def)
qed

text \<open>
  A table whose primary key is known to the scan (\<open>primary_length\<close> not 0): the scan sends one
  result only, however many rows there are; it counts all rows but has no row offsets at all.
\<close>

theorem key_scan_has_no_offsets:
  assumes "scan_snippet reader junk tm sn origin fq mq = Inr (tm', st)"
    and "sn_primary_length sn = Some pl" "pl \<noteq> 0"
  shows "\<exists>r. ss_sent st = [r] \<and> rs_row_offset r = [] \<and> int (rs_row_count r) = ss_row_count st"
  using assms by (rule key_scan_result)

definition ex_key_snippet :: Snippet where
  "ex_key_snippet = ex_snippet\<lparr> sn_primary_length := Some 4,
     sn_primary_key_list := [\<lparr> key_name = ''k'', key_type = 254, key_length = 2 \<rparr>] \<rparr>"

lemma ex_key_scan:
  "\<exists>tm st. scan_snippet ex_entries junk Map.empty ex_key_snippet [] fq mq = Inr (tm, st) \<and> ss_row_count st = 2"
  by (simp add: scan_snippet_def GetTableRep_def ex_entries_def BlockScan_def ex_key_snippet_def ex_snippet_def
      scan_entry_def ExtractUserKey_def key_slice_def indexnum_size_def scan_start_def append_with_key_def
      getPrimaryKeyData_def pk_column_def new_Result_def memcpy_to_def csd_sizes finish_scan_def Let_def)

theorem key_scan_has_no_offsets_witness:
  "\<exists>tm st r. scan_snippet ex_entries (\<lambda>_. CHR 0x2A) Map.empty ex_key_snippet [] (new_WorkQueue 2) (new_WorkQueue 1) = Inr (tm, st) \<and>
    ss_sent st = [r] \<and> rs_row_offset r = [] \<and> rs_row_count r = 2"
proof -
  from ex_key_scan obtain tm st where
    s: "scan_snippet ex_entries (\<lambda>_. CHR 0x2A) Map.empty ex_key_snippet [] (new_WorkQueue 2) (new_WorkQueue 1) = Inr (tm, st)"
    "ss_row_count st = 2" by blast
  have "sn_primary_length ex_key_snippet = Some 4" by (simp add: ex_key_snippet_def)
  from key_scan_has_no_offsets [OF s(1) this] s show ?thesis by auto
qed

theorem scan_block_counts_witness:
  "\<exists>tm st. scan_snippet ex_entries (\<lambda>_. CHR 0x2A) Map.empty ex_key_snippet [] (new_WorkQueue 2) (new_WorkQueue 1) = Inr (tm, st) \<and>
    sum_list (map rs_result_block_count (ss_sent st)) = 2"
proof -
  from ex_key_scan obtain tm st where
    s: "scan_snippet ex_entries (\<lambda>_. CHR 0x2A) Map.empty ex_key_snippet [] (new_WorkQueue 2) (new_WorkQueue 1) = Inr (tm, st)"
    by blast
  have "sn_total_block_count ex_key_snippet = 2" by (simp add: ex_key_snippet_def ex_snippet_def)
  with scan_block_counts [OF s] s show ?thesis by auto
qed

end
