(* ===== verification/Filter_Like.thy ===== *)
theory Filter_Like
  imports Filter_Ops
begin

text \<open>
  The two \<open>LIKE\<close> matchers of \<open>filter.cc\<close>. \<open>LikeSubString_v2\<close> is the one \<open>BlockFilter\<close> calls. Its
  loop bound is computed in \<open>size_t\<close>, so a pattern segment longer than the value makes it wrap,
  and \<open>substr\<close> throws when its position passes the end. \<open>like_sem\<close> is SQL's meaning of a pattern
  whose only wildcard is \<open>%\<close>, defined without reference to the code.
\<close>

section \<open>LikeSubString\<close>

definition LikeSubString :: "string \<Rightarrow> string \<Rightarrow> bool res" where
  "LikeSubString lv rv =
     (let len = int (length rv); LvLen = int (length lv) in
      if rv = [] then Inl OutOfBounds   \<comment> \<open>\<open>rv[len - 1]\<close> of the empty string\<close>
      else if rv ! 0 = CHR ''%'' \<and> last rv = CHR ''%'' then
        bindE (std_substr rv 1 (if len < 2 then length rv else length rv - 2)) (\<lambda>val.
          foldE (\<lambda>i found. if found then Inr True
              else bindE (std_substr lv i (length val)) (\<lambda>p. Inr (p = val)))
            [0..<nat (LvLen - len + 1)] False)
      else if rv ! 0 = CHR ''%'' then
        bindE (std_substr rv 1 (length rv - 1)) (\<lambda>val.
          bindE (std_substr lv (usub (usub (length lv) (length val)) 1) (length val)) (\<lambda>p.
            Inr (p = val)))
      else if last rv = CHR ''%'' then
        bindE (std_substr rv 0 (length rv - 1)) (\<lambda>val.
          bindE (std_substr lv 0 (length val)) (\<lambda>p. Inr (p = val)))
      else Inr (rv = lv))"

section \<open>LikeSubString\_v2\<close>

text \<open>
  The inner loop: \<open>j < LvLen - val[val.size() - 1].length() + 1\<close> in \<open>size_t\<close> arithmetic. The
  outer loop returns at the end of its first round, so there is no second one. A hit on an inner
  segment advances \<open>j\<close> by the segment and then once more by the \<open>j++\<close> of the \<open>for\<close>.
\<close>

function like_loop ::
  "string \<Rightarrow> string list \<Rightarrow> bool \<Rightarrow> bool \<Rightarrow> nat \<Rightarrow> nat \<Rightarrow> nat \<Rightarrow> bool res" where
  "like_loop lv val isfirst islast bound i j =
     (if j < bound then
        bindE (if isfirst then Inr False
               else bindE (std_substr lv 0 (length (val ! i))) (\<lambda>p. Inr (p \<noteq> val ! i))) (\<lambda>no_prefix.
        if no_prefix then Inr False else
        bindE (if islast then Inr False
               else bindE (std_substr lv (usub (length lv) (length (last val))) (length (last val)))
                      (\<lambda>p. Inr (p \<noteq> last val))) (\<lambda>no_suffix.
        if no_suffix then Inr False else
        bindE (std_substr lv j (length (val ! i))) (\<lambda>p.
          if p = val ! i then
            (if i = length val - 1 then Inr True
             else like_loop lv val isfirst islast bound (Suc i) (Suc (j + length (val ! i))))
          else like_loop lv val isfirst islast bound i (Suc j))))
      else Inr False)"
  by pat_completeness auto
termination
  by (relation "measure (\<lambda>(lv, val, f, l, bound, i, j). bound - j)") auto

declare like_loop.simps [simp del]

definition LikeSubString_v2 :: "string \<Rightarrow> string \<Rightarrow> bool res" where
  "LikeSubString_v2 lv rv =
     (if rv = [] then Inl OutOfBounds   \<comment> \<open>\<open>rv[len - 1]\<close> of the empty string\<close>
      else let isfirst = (rv ! 0 = CHR ''%''); islast = (last rv = CHR ''%'');
               val = split rv (CHR ''%''); i = (if isfirst then 1 else 0)
           in if i < length val then
                like_loop lv val isfirst islast
                  ((usub (length lv) (length (last val)) + 1) mod 2 ^ 64) i 0
              else Inr False)"

section \<open>What LIKE means\<close>

fun like_sem :: "string \<Rightarrow> string \<Rightarrow> bool" where
  "like_sem [] t = (t = [])"
| "like_sem (c # p) t =
     (if c = CHR ''%'' then (\<exists>k\<le>length t. like_sem p (drop k t))
      else (case t of [] \<Rightarrow> False | d # t' \<Rightarrow> d = c \<and> like_sem p t'))"

lemma like_sem_literal:
  "CHR ''%'' \<notin> set s \<Longrightarrow> like_sem (s @ p) t \<longleftrightarrow> take (length s) t = s \<and> like_sem p (drop (length s) t)"
proof (induction s arbitrary: t)
  case (Cons c s)
  then show ?case by (cases t) auto
qed simp

lemma like_sem_any: "like_sem ''%'' t"
  by (simp, rule exI [of _ "length t"]) simp

lemma like_sem_prefix: "CHR ''%'' \<notin> set s \<Longrightarrow> like_sem (s @ ''%'') t \<longleftrightarrow> take (length s) t = s"
  by (simp only: like_sem_literal like_sem_any simp_thms)

lemma like_sem_suffix:
  assumes "CHR ''%'' \<notin> set s"
  shows "like_sem (CHR ''%'' # s) t \<longleftrightarrow> length s \<le> length t \<and> drop (length t - length s) t = s"
proof -
  have lit: "like_sem s u \<longleftrightarrow> u = s" for u
    using like_sem_literal [OF assms, of "[]" u] by auto
  show ?thesis
  proof
    assume "like_sem (CHR ''%'' # s) t"
    then obtain k where "k \<le> length t" "drop k t = s" by (auto simp: lit)
    then show "length s \<le> length t \<and> drop (length t - length s) t = s" by auto
  qed (auto simp: lit intro!: exI [of _ "length t - length s"])
qed

lemma like_sem_infix:
  assumes "CHR ''%'' \<notin> set s"
  shows "like_sem (CHR ''%'' # s @ ''%'') t \<longleftrightarrow> (\<exists>k\<le>length t. take (length s) (drop k t) = s)"
  using like_sem_prefix [OF assms] by simp

section \<open>The loop on patterns with one segment\<close>

lemma like_loop_infix:
  assumes "i = length val - 1" "val ! i = s" "bound \<le> Suc (length lv)"
  shows "like_loop lv val True True bound i j =
    Inr (\<exists>k. j \<le> k \<and> k < bound \<and> take (length s) (drop k lv) = s)"
proof (induction "bound - j" arbitrary: j)
  case 0
  then show ?case by (auto simp: like_loop.simps [of _ _ _ _ _ _ j])
next
  case (Suc n)
  then have j: "j < bound" "j \<le> length lv" using assms(3) by auto
  have IH: "like_loop lv val True True bound i (Suc j) =
      Inr (\<exists>k. Suc j \<le> k \<and> k < bound \<and> take (length s) (drop k lv) = s)"
    using Suc.hyps(2) by (intro Suc.hyps(1)) simp
  have split: "(\<exists>k. j \<le> k \<and> k < bound \<and> P k) \<longleftrightarrow> P j \<or> (\<exists>k. Suc j \<le> k \<and> k < bound \<and> P k)" for P
    using j(1) by (metis Suc_le_eq le_neq_implies_less order_refl Suc_leD)
  show ?case
    using j assms(1,2) IH split [of "\<lambda>k. take (length s) (drop k lv) = s"]
    by (simp add: like_loop.simps [of _ _ _ _ _ _ j] std_substr_def)
qed

text \<open>A segment shorter than the value occurs somewhere exactly when it occurs within the bound.\<close>

lemma occurrence_bound:
  assumes "take (length s) (drop k lv) = s" "k \<le> length lv"
  shows "k < Suc (length lv) - length s"
proof -
  have "min (length s) (length lv - k) = length s"
    using arg_cong [OF assms(1), of length] by simp
  then have "length s \<le> length lv - k" by linarith
  then show ?thesis using assms(2) by linarith
qed

lemma occurrence_iff:
  assumes "length s \<le> Suc (length lv)"
  shows "(\<exists>k. 0 \<le> k \<and> k < Suc (length lv) - length s \<and> take (length s) (drop k lv) = s) \<longleftrightarrow>
         (\<exists>k\<le>length lv. take (length s) (drop k lv) = s)"
  (is "?L \<longleftrightarrow> ?R")
proof
  assume ?L
  then obtain k where k: "k < Suc (length lv) - length s" "take (length s) (drop k lv) = s" by blast
  then have "k \<le> length lv" by linarith
  with k show ?R by blast
next
  assume ?R
  then show ?L using occurrence_bound [of s _ lv] by blast
qed

lemma like_bound:
  assumes "length lv + 1 < 2 ^ 64" "length s \<le> Suc (length lv)"
  shows "(usub (length lv) (length s) + 1) mod 2 ^ 64 = Suc (length lv) - length s"
proof (cases "length s \<le> length lv")
  case True
  then show ?thesis using assms by (simp add: usub_le Suc_diff_le)
next
  case False
  with assms(2) have "length s = Suc (length lv)" by simp
  then show ?thesis by (simp add: usub_def)
qed

lemma split_infix: "CHR ''%'' \<notin> set s \<Longrightarrow> split (CHR ''%'' # s @ ''%'') (CHR ''%'') = [[], s]"
  by (simp add: split_def getline_all_delim getline_all_field)

lemma split_suffix: "CHR ''%'' \<notin> set s \<Longrightarrow> s \<noteq> [] \<Longrightarrow> split (CHR ''%'' # s) (CHR ''%'') = [[], s]"
  by (simp add: split_def getline_all_delim getline_all_last)

lemma split_prefix: "CHR ''%'' \<notin> set s \<Longrightarrow> split (s @ ''%'') (CHR ''%'') = [s]"
  by (simp add: split_def getline_all_field)

lemma like_loop_suffix:
  assumes "length s \<le> length lv" "length lv < 2 ^ 64" "j \<le> length lv - length s"
  shows "like_loop lv [[], s] True False (Suc (length lv) - length s) 1 j =
    Inr (drop (length lv - length s) lv = s)"
  using assms(3)
proof (induction "length lv - length s - j" arbitrary: j)
  case 0
  then have j: "j = length lv - length s" by simp
  show ?case using assms(1,2) j
    by (subst like_loop.simps) (auto simp: std_substr_def usub_le)
next
  case (Suc n)
  then have j: "j < length lv - length s" by simp
  have IH: "like_loop lv [[], s] True False (Suc (length lv) - length s) 1 (Suc j) =
      Inr (drop (length lv - length s) lv = s)"
    using Suc.hyps(2) j by (intro Suc.hyps(1)) simp_all
  have "j < Suc (length lv) - length s" "j \<le> length lv" using j by simp_all
  then show ?case using IH assms(1,2)
    by (simp add: like_loop.simps [of _ _ _ _ _ _ j] std_substr_def usub_le)
qed

lemma like_loop_runs_off:
  assumes "i = length val - 1" "val ! i = s" "length lv < length s" "Suc (length lv) < bound"
    "j \<le> Suc (length lv)"
  shows "like_loop lv val True True bound i j = Inl OutOfRange"
  using assms(5)
proof (induction "Suc (length lv) - j" arbitrary: j)
  case 0
  then have "j = Suc (length lv)" by simp
  with assms(4) show ?case by (subst like_loop.simps) (simp add: std_substr_def)
next
  case (Suc n)
  then have j: "j \<le> length lv" by simp
  have "length (take (length s) (drop j lv)) < length s" using assms(3) by simp
  then have "take (length s) (drop j lv) \<noteq> s" by (metis less_irrefl)
  moreover have "like_loop lv val True True bound i (Suc j) = Inl OutOfRange"
    using Suc.hyps(2) j by (intro Suc.hyps(1)) simp_all
  ultimately show ?case
    using j assms(1,2,4) by (subst like_loop.simps) (simp add: std_substr_def)
qed

section \<open>Properties\<close>

text \<open>
  A pattern \<open>%s%\<close> matches exactly when SQL says it does, for every value at most one
  character shorter than \<open>s\<close>: the matcher terminates without an exception and returns whether
  \<open>s\<close> occurs in the value.
\<close>

lemma like_infix_correct:
  assumes "CHR ''%'' \<notin> set s" "length s \<le> Suc (length lv)" "length lv + 1 < 2 ^ 64"
  shows "LikeSubString_v2 lv (CHR ''%'' # s @ ''%'') = Inr (like_sem (CHR ''%'' # s @ ''%'') lv)"
proof -
  have "LikeSubString_v2 lv (CHR ''%'' # s @ ''%'') =
      like_loop lv [[], s] True True (Suc (length lv) - length s) 1 0"
    using like_bound [OF assms(3,2)] by (simp add: LikeSubString_v2_def split_infix [OF assms(1)])
  also have "\<dots> = Inr (\<exists>k. 0 \<le> k \<and> k < Suc (length lv) - length s \<and> take (length s) (drop k lv) = s)"
    by (rule like_loop_infix) simp_all
  finally show ?thesis
    by (simp only: occurrence_iff [OF assms(2)] like_sem_infix [OF assms(1)])
qed

text \<open>
  A pattern \<open>s%\<close> matches exactly the values that start with \<open>s\<close>, whatever their length.
\<close>

lemma like_prefix_correct:
  assumes "CHR ''%'' \<notin> set s" "s \<noteq> []" "length lv + 1 < 2 ^ 64" "length s < 2 ^ 64"
  shows "LikeSubString_v2 lv (s @ ''%'') = Inr (like_sem (s @ ''%'') lv)"
proof -
  have first: "(s @ ''%'') ! 0 \<noteq> CHR ''%''"
    using assms(1,2) by (cases s) auto
  let ?B = "(usub (length lv) (length s) + 1) mod 2 ^ 64"
  have "LikeSubString_v2 lv (s @ ''%'') = like_loop lv [s] False True ?B 0 0"
    using assms first by (simp add: LikeSubString_v2_def split_prefix)
  also have "\<dots> = Inr (take (length s) lv = s)"
  proof (cases "?B = 0")
    case True
    have "length s = Suc (length lv)"
    proof (rule ccontr)
      assume ne: "length s \<noteq> Suc (length lv)"
      show False
      proof (cases "length s \<le> length lv")
        case True
        with \<open>?B = 0\<close> like_bound [of lv s] assms(3) show False by simp
      next
        case False
        with ne have "Suc (length lv) < length s" by simp
        with assms(4) have "?B = length lv + 2 ^ 64 + 1 - length s" by (simp add: usub_def)
        with \<open>?B = 0\<close> assms(4) show False by simp
      qed
    qed
    then have "take (length s) lv \<noteq> s" by auto
    with True show ?thesis by (simp add: like_loop.simps)
  next
    case False
    then show ?thesis by (auto simp: like_loop.simps [of _ _ _ _ _ _ 0] std_substr_def)
  qed
  finally show ?thesis using assms(1) by (simp add: like_sem_prefix)
qed

text \<open>
  A pattern \<open>%s\<close> matches exactly the values that end with \<open>s\<close>, for every value at most one
  character shorter than \<open>s\<close>.
\<close>

lemma like_suffix_correct:
  assumes "CHR ''%'' \<notin> set s" "s \<noteq> []" "length s \<le> Suc (length lv)" "length lv + 1 < 2 ^ 64"
  shows "LikeSubString_v2 lv (CHR ''%'' # s) = Inr (like_sem (CHR ''%'' # s) lv)"
proof -
  have last: "last (CHR ''%'' # s) \<noteq> CHR ''%''" using assms(1,2) last_in_set by (metis last_ConsR)
  have "LikeSubString_v2 lv (CHR ''%'' # s) =
      like_loop lv [[], s] True False (Suc (length lv) - length s) 1 0"
    using like_bound [OF assms(4,3)] last
    by (simp add: LikeSubString_v2_def split_suffix [OF assms(1,2)])
  also have "\<dots> = Inr (length s \<le> length lv \<and> drop (length lv - length s) lv = s)"
  proof (cases "length s \<le> length lv")
    case True
    with assms(4) like_loop_suffix [of s lv 0] show ?thesis by simp
  next
    case False
    with assms(3) show ?thesis by (simp add: like_loop.simps)
  qed
  finally show ?thesis by (simp only: like_sem_suffix [OF assms(1)])
qed



text \<open>
  A pattern \<open>%s%\<close> whose segment is at least two characters longer than the value does not
  return false: the loop bound wraps around in \<open>size_t\<close>, the loop runs past the end of the value
  and \<open>substr\<close> throws \<open>std::out_of_range\<close>, which nothing in the filter thread catches.
\<close>

theorem like_infix_short_value:
  assumes "CHR ''%'' \<notin> set s" "length lv + 2 \<le> length s" "length s < 2 ^ 63"
  shows "LikeSubString_v2 lv (CHR ''%'' # s @ ''%'') = Inl OutOfRange"
proof -
  let ?B = "(usub (length lv) (length s) + 1) mod 2 ^ 64"
  have B: "?B = length lv + 2 ^ 64 + 1 - length s" using assms(2,3) by (simp add: usub_def)
  then have "Suc (length lv) < ?B" using assms(3) by simp
  moreover have "length lv < length s" using assms(2) by linarith
  ultimately have "like_loop lv [[], s] True True ?B 1 0 = Inl OutOfRange"
    by (intro like_loop_runs_off) simp_all
  then show ?thesis
    by (simp add: LikeSubString_v2_def split_infix [OF assms(1)])
qed

theorem like_infix_short_value_witness:
  "LikeSubString_v2 ''red'' ''%green%'' = Inl OutOfRange"
  using like_infix_short_value [of "''green''" "''red''"] by simp

text \<open>Three patterns on which the matcher and SQL disagree without an exception.\<close>

lemma like_percent_alone: "LikeSubString_v2 ''a'' ''%'' = Inr False \<and> like_sem ''%'' ''a''"
  by (auto simp: LikeSubString_v2_def split_def getline_all_delim)

lemma like_two_segments:
  "LikeSubString_v2 ''axb'' ''a%b'' = Inr False \<and> like_sem ''a%b'' ''axb''"
proof
  have "split ''a%b'' (CHR ''%'') = [''a'', ''b'']"
    using getline_all_field [of "CHR ''%''" "''a''" "''b''"] getline_all_last [of "CHR ''%''" "''b''"]
    by (simp add: split_def)
  then show "LikeSubString_v2 ''axb'' ''a%b'' = Inr False"
    by (simp add: LikeSubString_v2_def usub_def like_loop.simps std_substr_def)
  show "like_sem ''a%b'' ''axb''"
    by (simp, rule exI [of _ 1]) simp
qed

lemma like_no_wildcard:
  "LikeSubString_v2 ''abcabc'' ''abc'' = Inr True \<and> \<not> like_sem ''abc'' ''abcabc''"
proof
  have "split ''abc'' (CHR ''%'') = [''abc'']"
    using getline_all_last [of "CHR ''%''" "''abc''"] by (simp add: split_def)
  then show "LikeSubString_v2 ''abcabc'' ''abc'' = Inr True"
    by (simp add: LikeSubString_v2_def usub_def like_loop.simps std_substr_def)
qed simp

end
