(* ===== verification/Filter_Clauses.thy ===== *)
theory Filter_Clauses
  imports Filter_Columns Filter_Like
begin

text \<open>
  The cases of the \<open>switch\<close> over \<open>OPERATOR\<close> in \<open>Filter::BlockFilter\<close> (\<open>filter.cc\<close>), one
  definition per case, and the dispatch itself (\<open>filter_case\<close>), which every element of the
  \<open>tableFilter\<close> array goes through once per row.

  A case works on the flags of the row (\<open>row_vars\<close>) and the \<open>Filter\<close> object. The map \<open>typedata\<close>
  is only read here: the entries \<open>typedata[name]\<close> leaves behind for unknown names hold the 0 a
  later lookup would return anyway. The six comparisons share their operand code, which the
  source repeats in each case: \<open>compare_operands\<close> is that code, with the treatment of the
  right-hand side of a CHAR or VARSTRING column (the only part in which the cases differ) as an
  argument.
\<close>

section \<open>Operands\<close>

datatype operands = Ints int int | Strs string string

definition rv_little ::
  "(string \<rightharpoonup> int) \<Rightarrow> buffer \<Rightarrow> json \<Rightarrow> Filter_obj \<Rightarrow> (int \<times> Filter_obj) res" where
  "rv_little typedata rowbuf RV fo =
     (case RV of JStr s \<Rightarrow> typeLittle typedata s rowbuf fo
      | _ \<Rightarrow> bindE (GetInt RV) (\<lambda>v. Inr (v, fo)))"

definition rv_big_checked ::
  "(string \<rightharpoonup> int) \<Rightarrow> buffer \<Rightarrow> json \<Rightarrow> Filter_obj \<Rightarrow> (string \<times> Filter_obj) res" where
  \<comment> \<open>\<open>GE\<close>: a column or a constant; anything but a string leaves \<open>RV\<close> empty\<close>
  "rv_big_checked typedata rowbuf RV fo =
     (case RV of
        JStr s \<Rightarrow> if big_type typedata s then typeBig s rowbuf fo
                  else bindE (std_substr_from s 1) (\<lambda>r. Inr (r, fo))
      | _ \<Rightarrow> Inr ([], fo))"

definition rv_big_plain ::
  "(string \<rightharpoonup> int) \<Rightarrow> buffer \<Rightarrow> json \<Rightarrow> Filter_obj \<Rightarrow> (string \<times> Filter_obj) res" where
  \<comment> \<open>\<open>LE\<close>, \<open>GT\<close>, \<open>LT\<close>, \<open>NE\<close>: every string is taken for a column name\<close>
  "rv_big_plain typedata rowbuf RV fo =
     (if IsString RV then bindE (GetString RV) (\<lambda>s. typeBig s rowbuf fo)
      else bindE (GetString RV) (\<lambda>s. bindE (std_substr_from s 1) (\<lambda>r. Inr (r, fo))))"

definition rv_big_ET ::
  "(string \<rightharpoonup> int) \<Rightarrow> buffer \<Rightarrow> json \<Rightarrow> Filter_obj \<Rightarrow> (string \<times> Filter_obj) res" where
  "rv_big_ET typedata rowbuf RV fo =
     bindE (GetString RV) (\<lambda>s.
       if big_type typedata s then typeBig s rowbuf fo
       else bindE (std_substr_from s 1) (\<lambda>r. Inr (r, fo)))"

definition rv_decimal ::
  "(string \<rightharpoonup> int) \<Rightarrow> buffer \<Rightarrow> json \<Rightarrow> Filter_obj \<Rightarrow> (string \<times> Filter_obj) res" where
  "rv_decimal typedata rowbuf RV fo =
     (case RV of
        JStr s \<Rightarrow> if decimal_type typedata s then typeDecimal s rowbuf fo
                  else bindE (std_substr_from s 1) (\<lambda>r. Inr (r, fo))
      | _ \<Rightarrow> bindE (GetInt RV) (\<lambda>tmpint. Inr (ItoDec tmpint, fo)))"

definition rv_of_constant ::
  "(string \<rightharpoonup> int) \<Rightarrow> buffer \<Rightarrow> json \<Rightarrow> Filter_obj \<Rightarrow> (string \<times> Filter_obj) res" where
  \<comment> \<open>the right-hand side of a string constant; neither type leaves \<open>RV\<close> empty\<close>
  "rv_of_constant typedata rowbuf RV fo =
     bindE (GetString RV) (\<lambda>s.
       if big_type typedata s then typeBig s rowbuf fo
       else if decimal_type typedata s then typeDecimal s rowbuf fo
       else Inr ([], fo))"

definition compare_operands ::
  "(json \<Rightarrow> Filter_obj \<Rightarrow> (string \<times> Filter_obj) res) \<Rightarrow> (string \<rightharpoonup> int) \<Rightarrow> buffer \<Rightarrow> json \<Rightarrow>
   Filter_obj \<Rightarrow> (operands \<times> Filter_obj) res" where
  "compare_operands rv_big typedata rowbuf c fo =
     bindE (json_member c ''LV'') (\<lambda>jl.
     case jl of
       JStr l \<Rightarrow>
         if little_type typedata l then
           bindE (typeLittle typedata l rowbuf fo) (\<lambda>(LV, fo).
           bindE (json_member c ''RV'') (\<lambda>jr.
           bindE (rv_little typedata rowbuf jr fo) (\<lambda>(RV, fo). Inr (Ints LV RV, fo))))
         else if big_type typedata l then
           bindE (typeBig l rowbuf fo) (\<lambda>(LV, fo).
           bindE (json_member c ''RV'') (\<lambda>jr.
           bindE (rv_big jr fo) (\<lambda>(RV, fo). Inr (Strs LV RV, fo))))
         else if decimal_type typedata l then
           bindE (typeDecimal l rowbuf fo) (\<lambda>(LV, fo).
           bindE (json_member c ''RV'') (\<lambda>jr.
           bindE (rv_decimal typedata rowbuf jr fo) (\<lambda>(RV, fo). Inr (Strs LV RV, fo))))
         else
           bindE (std_substr_from l 1) (\<lambda>LV.
           bindE (json_member c ''RV'') (\<lambda>jr.
           bindE (rv_of_constant typedata rowbuf jr fo) (\<lambda>(RV, fo). Inr (Strs LV RV, fo))))
     | _ \<Rightarrow>
         bindE (GetInt jl) (\<lambda>LV.
         bindE (json_member c ''RV'') (\<lambda>jr.
         bindE (GetString jr) (\<lambda>r.
         bindE (typeLittle typedata r rowbuf fo) (\<lambda>(RV, fo). Inr (Ints LV RV, fo))))))"

section \<open>The comparisons\<close>

type_synonym row_state = "row_vars \<times> Filter_obj"

definition apply_compare ::
  "(int \<Rightarrow> int \<Rightarrow> row_vars \<Rightarrow> row_vars) \<Rightarrow> (string \<Rightarrow> string \<Rightarrow> row_vars \<Rightarrow> row_vars) \<Rightarrow>
   row_vars \<Rightarrow> operands \<Rightarrow> row_vars" where
  "apply_compare ci cs v ops = (case ops of Ints l r \<Rightarrow> ci l r v | Strs l r \<Rightarrow> cs l r v)"

definition clause_GE :: "(string \<rightharpoonup> int) \<Rightarrow> buffer \<Rightarrow> json \<Rightarrow> row_state \<Rightarrow> row_state res" where
  "clause_GE typedata rowbuf c st = (case st of (v, fo) \<Rightarrow>
     bindE (compare_operands (rv_big_checked typedata rowbuf) typedata rowbuf c fo) (\<lambda>(ops, fo).
       Inr (apply_compare compareGE_int compareGE_str v ops, fo)))"

definition clause_LE :: "(string \<rightharpoonup> int) \<Rightarrow> buffer \<Rightarrow> json \<Rightarrow> row_state \<Rightarrow> row_state res" where
  "clause_LE typedata rowbuf c st = (case st of (v, fo) \<Rightarrow>
     bindE (compare_operands (rv_big_plain typedata rowbuf) typedata rowbuf c fo) (\<lambda>(ops, fo).
       Inr (apply_compare compareLE_int compareLE_str v ops, fo)))"

definition clause_GT :: "(string \<rightharpoonup> int) \<Rightarrow> buffer \<Rightarrow> json \<Rightarrow> row_state \<Rightarrow> row_state res" where
  "clause_GT typedata rowbuf c st = (case st of (v, fo) \<Rightarrow>
     bindE (compare_operands (rv_big_plain typedata rowbuf) typedata rowbuf c fo) (\<lambda>(ops, fo).
       Inr (apply_compare compareGT_int compareGT_str v ops, fo)))"

definition clause_LT :: "(string \<rightharpoonup> int) \<Rightarrow> buffer \<Rightarrow> json \<Rightarrow> row_state \<Rightarrow> row_state res" where
  "clause_LT typedata rowbuf c st = (case st of (v, fo) \<Rightarrow>
     bindE (compare_operands (rv_big_plain typedata rowbuf) typedata rowbuf c fo) (\<lambda>(ops, fo).
       Inr (apply_compare compareLT_int compareLT_str v ops, fo)))"

definition clause_ET :: "(string \<rightharpoonup> int) \<Rightarrow> buffer \<Rightarrow> json \<Rightarrow> row_state \<Rightarrow> row_state res" where
  "clause_ET typedata rowbuf c st = (case st of (v, fo) \<Rightarrow>
     bindE (compare_operands (rv_big_ET typedata rowbuf) typedata rowbuf c fo) (\<lambda>(ops, fo).
       Inr (apply_compare compareET_int compareET_str v ops, fo)))"

definition clause_NE :: "(string \<rightharpoonup> int) \<Rightarrow> buffer \<Rightarrow> json \<Rightarrow> row_state \<Rightarrow> row_state res" where
  "clause_NE typedata rowbuf c st = (case st of (v, fo) \<Rightarrow>
     bindE (compare_operands (rv_big_plain typedata rowbuf) typedata rowbuf c fo) (\<lambda>(ops, fo).
       Inr (apply_compare compareNE_int compareNE_str v ops, fo)))"

section \<open>LIKE\<close>

definition like_lv ::
  "(string \<rightharpoonup> int) \<Rightarrow> buffer \<Rightarrow> string \<Rightarrow> Filter_obj \<Rightarrow> (string \<times> Filter_obj) res" where
  "like_lv typedata rowbuf s fo =
     (if little_type typedata s then
        bindE (typeLittle typedata s rowbuf fo) (\<lambda>(tmplv, fo). Inr (std_to_string tmplv, fo))
      else if big_type typedata s then typeBig s rowbuf fo
      else if decimal_type typedata s then typeDecimal s rowbuf fo
      else bindE (std_substr_from s 1) (\<lambda>r. Inr (r, fo)))"

definition like_rv ::
  "(string \<rightharpoonup> int) \<Rightarrow> buffer \<Rightarrow> string \<Rightarrow> Filter_obj \<Rightarrow> (string \<times> Filter_obj) res" where
  \<comment> \<open>as \<open>like_lv\<close>, without the 64-bit type\<close>
  "like_rv typedata rowbuf s fo =
     (if short_little_type typedata s then
        bindE (typeLittle typedata s rowbuf fo) (\<lambda>(tmprv, fo). Inr (std_to_string tmprv, fo))
      else if big_type typedata s then typeBig s rowbuf fo
      else if decimal_type typedata s then typeDecimal s rowbuf fo
      else bindE (std_substr_from s 1) (\<lambda>r. Inr (r, fo)))"

definition like_result :: "(string \<rightharpoonup> int) \<Rightarrow> buffer \<Rightarrow> json \<Rightarrow> Filter_obj \<Rightarrow> (bool \<times> Filter_obj) res" where
  "like_result typedata rowbuf c fo =
     bindE (json_member c ''LV'') (\<lambda>jl.
     bindE (GetString jl) (\<lambda>l.
     bindE (like_lv typedata rowbuf l fo) (\<lambda>(LV, fo).
     bindE (json_member c ''RV'') (\<lambda>jr.
     bindE (GetString jr) (\<lambda>r.
     bindE (like_rv typedata rowbuf r fo) (\<lambda>(RV, fo).
     bindE (LikeSubString_v2 LV RV) (\<lambda>b. Inr (b, fo))))))))"

definition clause_LIKE :: "(string \<rightharpoonup> int) \<Rightarrow> buffer \<Rightarrow> json \<Rightarrow> row_state \<Rightarrow> row_state res" where
  "clause_LIKE typedata rowbuf c st = (case st of (v, fo) \<Rightarrow>
     bindE (like_result typedata rowbuf c fo) (\<lambda>(b, fo). Inr (negate_if_not (v\<lparr>CV := b\<rparr>), fo)))"

section \<open>BETWEEN\<close>

text \<open>
  \<open>RV\<close> and \<open>RV1\<close> of the integer case are uninitialised \<open>int\<close>s until an element of \<open>EXTRA\<close>
  assigns them. A \<open>stoi\<close> that throws ends the loop; the \<open>CV = true\<close> of the handler is overwritten
  by the assignment after the loop.
\<close>

fun between_little_loop ::
  "(string \<rightharpoonup> int) \<Rightarrow> buffer \<Rightarrow> nat \<Rightarrow> json list \<Rightarrow> int option \<Rightarrow> int option \<Rightarrow> Filter_obj \<Rightarrow>
   (int option \<times> int option \<times> Filter_obj) res" where
  "between_little_loop typedata rowbuf k [] RV RV1 fo = Inr (RV, RV1, fo)"
| "between_little_loop typedata rowbuf k (e # es) RV RV1 fo =
     (case e of
        JStr s \<Rightarrow>
          if short_little_type typedata s then
            bindE (typeLittle typedata s rowbuf fo) (\<lambda>(x, fo).
              if k = 0 then between_little_loop typedata rowbuf (k + 1) es (Some x) RV1 fo
              else between_little_loop typedata rowbuf (k + 1) es RV (Some x) fo)
          else (case stoi s of
              Inl _ \<Rightarrow> Inr (RV, RV1, fo)
            | Inr x \<Rightarrow>
                if k = 0 then between_little_loop typedata rowbuf (k + 1) es (Some x) RV1 fo
                else between_little_loop typedata rowbuf (k + 1) es RV (Some x) fo)
      | JInt i \<Rightarrow>
          if is_int32 i then
            (if k = 0 then between_little_loop typedata rowbuf (k + 1) es (Some i) RV1 fo
             else between_little_loop typedata rowbuf (k + 1) es RV (Some i) fo)
          else between_little_loop typedata rowbuf (k + 1) es RV RV1 fo
      | _ \<Rightarrow> between_little_loop typedata rowbuf (k + 1) es RV RV1 fo)"

definition between_little ::
  "(string \<rightharpoonup> int) \<Rightarrow> buffer \<Rightarrow> string \<Rightarrow> json \<Rightarrow> Filter_obj \<Rightarrow> (bool \<times> Filter_obj) res" where
  "between_little typedata rowbuf l extra fo =
     bindE (typeLittle typedata l rowbuf fo) (\<lambda>(LV, fo).
     bindE (json_array extra) (\<lambda>es.
     bindE (between_little_loop typedata rowbuf 0 es None None fo) (\<lambda>(RV, RV1, fo).
       (case (RV, RV1) of
          (Some a, Some b) \<Rightarrow> Inr (BetweenOperator_int LV a b, fo)
        | _ \<Rightarrow> Inl Uninitialised))))"

text \<open>The string case. The second bound is overwritten with the rest of the \<^emph>\<open>first\<close> one.\<close>

fun between_big_loop ::
  "(string \<rightharpoonup> int) \<Rightarrow> buffer \<Rightarrow> nat \<Rightarrow> json list \<Rightarrow> string \<Rightarrow> string \<Rightarrow> Filter_obj \<Rightarrow>
   (string \<times> string \<times> Filter_obj) res" where
  "between_big_loop typedata rowbuf k [] RV RV1 fo = Inr (RV, RV1, fo)"
| "between_big_loop typedata rowbuf k (e # es) RV RV1 fo =
     (case e of
        JStr s \<Rightarrow>
          if short_little_type typedata s then
            bindE (typeBig s rowbuf fo) (\<lambda>(x, fo).
              if k = 0 then between_big_loop typedata rowbuf (k + 1) es x RV1 fo
              else between_big_loop typedata rowbuf (k + 1) es RV x fo)
          else if k = 0 then
            (case std_substr_from s 1 of
               Inl _ \<Rightarrow> Inr (s, RV1, fo)
             | Inr x \<Rightarrow> between_big_loop typedata rowbuf (k + 1) es x RV1 fo)
          else
            (case std_substr_from RV 1 of
               Inl _ \<Rightarrow> Inr (RV, s, fo)
             | Inr x \<Rightarrow> between_big_loop typedata rowbuf (k + 1) es RV x fo)
      | JInt i \<Rightarrow>
          if is_int32 i then
            (if k = 0 then between_big_loop typedata rowbuf (k + 1) es (std_to_string i) RV1 fo
             else between_big_loop typedata rowbuf (k + 1) es RV (std_to_string i) fo)
          else between_big_loop typedata rowbuf (k + 1) es RV RV1 fo
      | _ \<Rightarrow> between_big_loop typedata rowbuf (k + 1) es RV RV1 fo)"

definition between_big ::
  "(string \<rightharpoonup> int) \<Rightarrow> buffer \<Rightarrow> string \<Rightarrow> json \<Rightarrow> Filter_obj \<Rightarrow> (bool \<times> Filter_obj) res" where
  "between_big typedata rowbuf l extra fo =
     bindE (typeBig l rowbuf fo) (\<lambda>(LV, fo).
     bindE (json_array extra) (\<lambda>es.
     bindE (between_big_loop typedata rowbuf 0 es [] [] fo) (\<lambda>(RV, RV1, fo).
       Inr (BetweenOperator_str LV RV RV1, fo))))"

fun between_decimal_loop ::
  "(string \<rightharpoonup> int) \<Rightarrow> buffer \<Rightarrow> nat \<Rightarrow> json list \<Rightarrow> string \<Rightarrow> string \<Rightarrow> Filter_obj \<Rightarrow>
   (string \<times> string \<times> Filter_obj) res" where
  "between_decimal_loop typedata rowbuf k [] RV RV1 fo = Inr (RV, RV1, fo)"
| "between_decimal_loop typedata rowbuf k (e # es) RV RV1 fo =
     (case e of
        JStr s \<Rightarrow>
          if short_little_type typedata s then
            bindE (typeDecimal s rowbuf fo) (\<lambda>(x, fo).
              if k = 0 then between_decimal_loop typedata rowbuf (k + 1) es x RV1 fo
              else between_decimal_loop typedata rowbuf (k + 1) es RV x fo)
          else if k = 0 then
            (case std_substr_from s 1 of
               Inl _ \<Rightarrow> Inr (s, RV1, fo)
             | Inr x \<Rightarrow> between_decimal_loop typedata rowbuf (k + 1) es x RV1 fo)
          else
            (case std_substr_from s 1 of
               Inl _ \<Rightarrow> Inr (RV, s, fo)
             | Inr x \<Rightarrow> between_decimal_loop typedata rowbuf (k + 1) es RV x fo)
      | JInt i \<Rightarrow>
          if is_int32 i then
            (if k = 0 then between_decimal_loop typedata rowbuf (k + 1) es (std_to_string i) RV1 fo
             else between_decimal_loop typedata rowbuf (k + 1) es RV (std_to_string i) fo)
          else between_decimal_loop typedata rowbuf (k + 1) es RV RV1 fo
      | _ \<Rightarrow> between_decimal_loop typedata rowbuf (k + 1) es RV RV1 fo)"

definition between_decimal ::
  "(string \<rightharpoonup> int) \<Rightarrow> buffer \<Rightarrow> string \<Rightarrow> json \<Rightarrow> Filter_obj \<Rightarrow> (bool \<times> Filter_obj) res" where
  "between_decimal typedata rowbuf l extra fo =
     bindE (typeDecimal l rowbuf fo) (\<lambda>(LV, fo).
     bindE (json_array extra) (\<lambda>es.
     bindE (between_decimal_loop typedata rowbuf 0 es [] [] fo) (\<lambda>(RV, RV1, fo).
       Inr (BetweenOperator_str LV RV RV1, fo))))"

definition between_result ::
  "(string \<rightharpoonup> int) \<Rightarrow> buffer \<Rightarrow> json \<Rightarrow> bool \<Rightarrow> Filter_obj \<Rightarrow> (bool \<times> Filter_obj) res" where
  \<comment> \<open>a constant on the left is read and leaves \<open>CV\<close>, here \<open>cv\<close>, as it was\<close>
  "between_result typedata rowbuf c cv fo =
     bindE (json_member c ''LV'') (\<lambda>jl.
       case jl of
         JStr l \<Rightarrow>
           if little_type typedata l then
             bindE (json_member c ''EXTRA'') (\<lambda>x. between_little typedata rowbuf l x fo)
           else if big_type typedata l then
             bindE (json_member c ''EXTRA'') (\<lambda>x. between_big typedata rowbuf l x fo)
           else if decimal_type typedata l then
             bindE (json_member c ''EXTRA'') (\<lambda>x. between_decimal typedata rowbuf l x fo)
           else bindE (std_substr_from l 1) (\<lambda>LV. Inr (cv, fo))
       | _ \<Rightarrow> bindE (GetInt jl) (\<lambda>LV. Inr (cv, fo)))"

definition clause_BETWEEN :: "(string \<rightharpoonup> int) \<Rightarrow> buffer \<Rightarrow> json \<Rightarrow> row_state \<Rightarrow> row_state res" where
  "clause_BETWEEN typedata rowbuf c st = (case st of (v, fo) \<Rightarrow>
     bindE (between_result typedata rowbuf c (CV v) fo) (\<lambda>(b, fo). Inr (negate_if_not (v\<lparr>CV := b\<rparr>), fo)))"

section \<open>IN, NOT, AND, OR, SUBSTRING\<close>

definition in_result ::
  "(string \<Rightarrow> json list \<Rightarrow> (string \<rightharpoonup> int) \<Rightarrow> buffer \<Rightarrow> Filter_obj \<Rightarrow> (bool \<times> Filter_obj) res) \<Rightarrow>
   (string \<rightharpoonup> int) \<Rightarrow> buffer \<Rightarrow> json \<Rightarrow> row_state \<Rightarrow> (bool \<times> Filter_obj) res" where
  \<comment> \<open>with the \<open>InOperator\<close> for strings\<close>
  "in_result in_str typedata rowbuf c st = (case st of (v, fo) \<Rightarrow>
     if substringflag v then
       bindE (json_member c ''EXTRA'') (\<lambda>x. bindE (json_array x) (\<lambda>es.
         in_str (tmpsubstring v) es typedata rowbuf fo))
     else
       bindE (json_member c ''LV'') (\<lambda>jl.
       case jl of
         JStr l \<Rightarrow>
           if little_type typedata l then
             bindE (typeLittle typedata l rowbuf fo) (\<lambda>(LV, fo).
             bindE (json_member c ''EXTRA'') (\<lambda>x. bindE (json_array x) (\<lambda>es.
               InOperator_int LV es typedata rowbuf fo)))
           else
             bindE (if big_type typedata l then typeBig l rowbuf fo
                    else if decimal_type typedata l then typeDecimal l rowbuf fo
                    else bindE (std_substr_from l 1) (\<lambda>LV. Inr (LV, fo))) (\<lambda>(LV, fo).
             bindE (json_member c ''EXTRA'') (\<lambda>x. bindE (json_array x) (\<lambda>es.
               in_str LV es typedata rowbuf fo)))
       | _ \<Rightarrow>
           bindE (GetInt jl) (\<lambda>LV.
           bindE (json_member c ''EXTRA'') (\<lambda>x. bindE (json_array x) (\<lambda>es.
             InOperator_int LV es typedata rowbuf fo)))))"

definition set_in_flags :: "bool \<Rightarrow> row_vars \<Rightarrow> row_vars" where
  "set_in_flags b v = (if substringflag v then v\<lparr>CV := b, substringflag := False\<rparr> else v\<lparr>CV := b\<rparr>)"

definition clause_IN :: "(string \<rightharpoonup> int) \<Rightarrow> buffer \<Rightarrow> json \<Rightarrow> row_state \<Rightarrow> row_state res" where
  "clause_IN typedata rowbuf c st = (case st of (v, fo) \<Rightarrow>
     bindE (in_result InOperator_str typedata rowbuf c (v, fo)) (\<lambda>(b, fo). Inr (set_in_flags b v, fo)))"

definition clause_NOT :: "row_vars \<Rightarrow> row_vars" where
  "clause_NOT v = (if isnot v then v\<lparr>isnot := False\<rparr> else v\<lparr>isnot := True\<rparr>)"

definition clause_AND :: "row_vars \<Rightarrow> row_vars" where
  "clause_AND v =
     (let v = v\<lparr>isnot := False\<rparr> in
      if CV v = False then v\<lparr>Passed := True\<rparr> else v\<lparr>TmpV := CV v\<rparr>)"

definition clause_OR :: "row_vars \<Rightarrow> row_vars" where
  "clause_OR v =
     (let v = v\<lparr>isnot := False\<rparr> in
      if CV v = True then v\<lparr>isSaved := True\<rparr> else v\<lparr>TmpV := True, Passed := False\<rparr>)"

definition int_to_size :: "int \<Rightarrow> nat" where
  \<comment> \<open>conversion of an \<open>int\<close> argument to \<open>size_t\<close>\<close>
  "int_to_size i = nat (i mod 2 ^ 64)"

definition clause_SUBSTRING :: "(string \<rightharpoonup> int) \<Rightarrow> buffer \<Rightarrow> json \<Rightarrow> row_state \<Rightarrow> row_state res" where
  "clause_SUBSTRING typedata rowbuf c st = (case st of (v, fo) \<Rightarrow>
     bindE (json_member c ''LV'') (\<lambda>jl.
     bindE (GetString jl) (\<lambda>l.
       if little_type typedata l then
         bindE (typeLittle typedata l rowbuf fo) (\<lambda>(LV, fo). Inr (v\<lparr>substringflag := True\<rparr>, fo))
       else if big_type typedata l then
         bindE (typeBig l rowbuf fo) (\<lambda>(LV, fo).
         bindE (json_member c ''RV'') (\<lambda>rv.
         bindE (json_elem rv 0) (\<lambda>e0. bindE (GetString e0) (\<lambda>s0.
         bindE (json_elem rv 1) (\<lambda>e1. bindE (GetString e1) (\<lambda>s1.
         bindE (std_substr LV (int_to_size (atoi s0)) (int_to_size (atoi s1))) (\<lambda>sub.
           Inr (v\<lparr>tmpsubstring := sub, substringflag := True\<rparr>, fo))))))))
       else if decimal_type typedata l then
         bindE (typeDecimal l rowbuf fo) (\<lambda>(LV, fo). Inr (v\<lparr>substringflag := True\<rparr>, fo))
       else
         bindE (std_substr_from l 1) (\<lambda>LV. Inr (v\<lparr>substringflag := True\<rparr>, fo)))))"

section \<open>The dispatch\<close>

definition passed_case :: "json \<Rightarrow> row_vars \<Rightarrow> row_vars res" where
  \<comment> \<open>after a false operand of AND everything up to the next OR is skipped\<close>
  "passed_case c v =
     bindE (json_member c ''OPERATOR'') (\<lambda>j.
     bindE (GetInt j) (\<lambda>n. Inr (case oper_of n of Some OR_OP \<Rightarrow> clause_OR v | _ \<Rightarrow> v)))"

definition filter_case :: "(string \<rightharpoonup> int) \<Rightarrow> buffer \<Rightarrow> json \<Rightarrow> row_state \<Rightarrow> row_state res" where
  "filter_case typedata rowbuf c st = (case st of (v, fo) \<Rightarrow>
     if Passed v then bindE (passed_case c v) (\<lambda>v. Inr (v, fo))
     else
       bindE (json_member c ''OPERATOR'') (\<lambda>j.
       bindE (GetInt j) (\<lambda>n.
       case oper_of n of
         Some GE \<Rightarrow> clause_GE typedata rowbuf c st
       | Some LE \<Rightarrow> clause_LE typedata rowbuf c st
       | Some GT \<Rightarrow> clause_GT typedata rowbuf c st
       | Some LT \<Rightarrow> clause_LT typedata rowbuf c st
       | Some ET \<Rightarrow> clause_ET typedata rowbuf c st
       | Some NE \<Rightarrow> clause_NE typedata rowbuf c st
       | Some LIKE \<Rightarrow> clause_LIKE typedata rowbuf c st
       | Some BETWEEN \<Rightarrow> clause_BETWEEN typedata rowbuf c st
       | Some IN_OP \<Rightarrow> clause_IN typedata rowbuf c st
       | Some IS_OP \<Rightarrow> Inr st
       | Some ISNOT \<Rightarrow> Inr st
       | Some NOT_OP \<Rightarrow> Inr (clause_NOT v, fo)
       | Some AND_OP \<Rightarrow> Inr (clause_AND v, fo)
       | Some OR_OP \<Rightarrow> Inr (clause_OR v, fo)
       | Some SUBSTRING \<Rightarrow> clause_SUBSTRING typedata rowbuf c st
       | None \<Rightarrow> Inr st)))"

end
