(* ===== verification/Filter_Row.thy ===== *)
theory Filter_Row
  imports Filter_Clauses
begin

text \<open>
  The decision for one row (\<open>filter.cc\<close>, \<open>BlockFilter\<close>, the loop over \<open>filterarray\<close>).

  \<open>row_loop\<close> is the loop with its \<open>break\<close>, \<open>row_saved\<close> the two conditions under which the row is
  copied to the result. The specification side has SQL values (\<open>sqlval\<close>), the meaning of the two
  operands of a comparison on a decoded row (\<open>spec_operands\<close>), and a grammar of filters in
  disjunctive normal form (\<open>dnf_toks\<close>). The lemmas show that the loop with its five flags
  computes the truth value of the formula.
\<close>

section \<open>The loop over the filter\<close>

definition row_init :: "row_vars \<Rightarrow> row_vars" where
  \<comment> \<open>\<open>CV\<close>, \<open>substringflag\<close> and \<open>tmpsubstring\<close> keep the value the row before left\<close>
  "row_init v = v\<lparr> TmpV := True, Passed := False, isSaved := False, canSaved := False, isnot := False \<rparr>"

definition row_loop :: "(json \<Rightarrow> row_state \<Rightarrow> row_state res) \<Rightarrow> json list \<Rightarrow> row_state \<Rightarrow> row_state res" where
  \<comment> \<open>over the \<open>switch\<close>, with the columns' types and the row buffer already given to it\<close>
  "row_loop fcase = break_loop fcase (\<lambda>st. isSaved (fst st))"

definition row_saved :: "row_vars \<Rightarrow> bool" where
  "row_saved v \<longleftrightarrow> isSaved v \<or> (canSaved v \<and> isSaved v = False \<and> Passed v \<noteq> True \<and> CV v)"

section \<open>The meaning of a comparison\<close>

text \<open>A column's value or a constant: \<open>K\<close> marks a constant.\<close>

datatype sqlval = CInt int | CStr string | CDec string | KInt int | KStr string

definition field_value :: "field \<Rightarrow> sqlval option" where
  "field_value f =
     (if little_field f then Some (CInt (little_value (fst f) (contents f)))
      else if fst f = 254 \<or> fst f = 15 then Some (CStr (contents f))
      else if fst f = 246 then Some (CDec (dec_text (contents f)))
      else None)"

definition term_value :: "string list \<Rightarrow> field list \<Rightarrow> json \<Rightarrow> sqlval option" where
  \<comment> \<open>a constant string carries one leading character that marks it as a constant\<close>
  "term_value names fs j = (case j of
       JInt i \<Rightarrow> if is_int32 i then Some (KInt i) else None
     | JStr s \<Rightarrow> (case map_of (zip names fs) s of
          Some f \<Rightarrow> field_value f
        | None \<Rightarrow> (case s of [] \<Rightarrow> None | c # r \<Rightarrow> Some (KStr r)))
     | _ \<Rightarrow> None)"

text \<open>
  The operand pairs the comparison compares as intended. A string constant on the right of a CHAR
  or VARSTRING column is understood by \<open>GE\<close> and \<open>ET\<close> only.
\<close>

fun spec_operands :: "opertype \<Rightarrow> sqlval \<Rightarrow> sqlval \<Rightarrow> operands option" where
  "spec_operands p (CInt a) (CInt b) = Some (Ints a b)"
| "spec_operands p (CInt a) (KInt b) = Some (Ints a b)"
| "spec_operands p (KInt a) (CInt b) = Some (Ints a b)"
| "spec_operands p (CStr a) (CStr b) = Some (Strs a b)"
| "spec_operands p (CStr a) (KStr b) = (if p = GE \<or> p = ET then Some (Strs a b) else None)"
| "spec_operands p (CDec a) (CDec b) = Some (Strs a b)"
| "spec_operands p (CDec a) (KStr b) = Some (Strs a b)"
| "spec_operands p (CDec a) (KInt b) = Some (Strs a (ItoDec b))"
| "spec_operands p (KStr a) (CStr b) = Some (Strs a b)"
| "spec_operands p (KStr a) (CDec b) = Some (Strs a b)"
| "spec_operands p _ _ = None"

fun oper_holds :: "opertype \<Rightarrow> operands \<Rightarrow> bool" where
  "oper_holds GE (Ints a b) = (b \<le> a)"
| "oper_holds GE (Strs a b) = (b \<le> a)"
| "oper_holds LE (Ints a b) = (a \<le> b)"
| "oper_holds LE (Strs a b) = (a \<le> b)"
| "oper_holds GT (Ints a b) = (b < a)"
| "oper_holds GT (Strs a b) = (b < a)"
| "oper_holds LT (Ints a b) = (a < b)"
| "oper_holds LT (Strs a b) = (a < b)"
| "oper_holds ET (Ints a b) = (a = b)"
| "oper_holds ET (Strs a b) = (trim a = trim b)"
| "oper_holds NE (Ints a b) = (a \<noteq> b)"
| "oper_holds NE (Strs a b) = (a \<noteq> b)"
| "oper_holds _ _ = False"

definition has_op :: "opertype \<Rightarrow> json \<Rightarrow> bool" where
  "has_op p c \<longleftrightarrow> json_member c ''OPERATOR'' = Inr (JInt (oper_code p))"

definition compare_ops :: "opertype list" where
  "compare_ops = [GE, LE, GT, LT, ET, NE]"

definition member_term :: "string list \<Rightarrow> field list \<Rightarrow> json \<Rightarrow> string \<Rightarrow> sqlval option" where
  "member_term names fs c k = (case json_member c k of Inr j \<Rightarrow> term_value names fs j | Inl _ \<Rightarrow> None)"

definition clause_operands :: "string list \<Rightarrow> field list \<Rightarrow> opertype \<Rightarrow> json \<Rightarrow> operands option" where
  "clause_operands names fs p c =
     (case member_term names fs c ''LV'' of
        Some l \<Rightarrow> (case member_term names fs c ''RV'' of
            Some r \<Rightarrow> spec_operands p l r | None \<Rightarrow> None)
      | None \<Rightarrow> None)"

section \<open>Operands are read as specified\<close>

lemma typedata_of_field:
  assumes "row_reader cap typedata names fs base d fo" "map_of (zip names fs) s = Some f"
  shows "typedata s = Some (fst f)" "\<exists>i<length names. names ! i = s \<and> fs ! i = f"
proof -
  from assms(2) have "(s, f) \<in> set (zip names fs)" by (rule map_of_SomeD)
  then obtain i where i: "i < length names" "i < length fs" "names ! i = s" "fs ! i = f"
    by (auto simp: set_zip)
  then show "\<exists>i<length names. names ! i = s \<and> fs ! i = f" by blast
  show "typedata s = Some (fst f)" using row_reader_schema(3) [OF assms(1), of i] i by simp
qed

lemma typedata_of_constant:
  assumes "row_reader cap typedata names fs base d fo" "map_of (zip names fs) s = None"
  shows "typedata s = None"
proof -
  note len = row_reader_schema(1) [OF assms(1)]
  then have "s \<notin> set names" using assms(2) by (simp add: map_of_zip_is_None)
  with len have "map_of (zip names (map fst fs)) s = None" by (simp add: map_of_zip_is_None)
  with assms(1) show ?thesis by (simp add: row_reader_def)
qed

text \<open>What each kind of term says about the type tests and the readers.\<close>

lemma term_CInt:
  assumes "row_reader cap typedata names fs base d fo" "term_value names fs j = Some (CInt a)"
  shows "\<exists>s fo'. j = JStr s \<and> little_type typedata s \<and> typeLittle typedata s d fo = Inr (a, fo') \<and>
    row_reader cap typedata names fs base d fo'"
proof -
  from assms(2) obtain s f where s: "j = JStr s" "map_of (zip names fs) s = Some f"
    "little_field f" "a = little_value (fst f) (contents f)"
    by (auto simp: term_value_def field_value_def split: json.splits option.splits if_splits list.splits)
  from typedata_of_field [OF assms(1) s(2)] obtain i where
    i: "i < length names" "names ! i = s" "fs ! i = f" "typedata s = Some (fst f)" by blast
  have "little_type typedata s"
    using i(4) s(3) by (auto simp: little_type_def little_field_def)
  with little.read_ok [OF assms(1) i(1)] i s show ?thesis by auto
qed

lemma term_CStr:
  assumes "row_reader cap typedata names fs base d fo" "term_value names fs j = Some (CStr a)"
  shows "\<exists>s fo'. j = JStr s \<and> \<not> little_type typedata s \<and> big_type typedata s \<and>
    typeBig s d fo = Inr (a, fo') \<and> row_reader cap typedata names fs base d fo'"
proof -
  from assms(2) obtain s f where s: "j = JStr s" "map_of (zip names fs) s = Some f"
    "fst f = 254 \<or> fst f = 15" "a = contents f"
    by (auto simp: term_value_def field_value_def split: json.splits option.splits if_splits list.splits)
  from typedata_of_field [OF assms(1) s(2)] obtain i where
    i: "i < length names" "names ! i = s" "fs ! i = f" "typedata s = Some (fst f)" by blast
  with big.read_ok [OF assms(1) i(1)] s show ?thesis by (auto simp: type_tests)
qed

lemma term_CDec:
  assumes "row_reader cap typedata names fs base d fo" "term_value names fs j = Some (CDec a)"
  shows "\<exists>s fo'. j = JStr s \<and> \<not> little_type typedata s \<and> \<not> big_type typedata s \<and>
    decimal_type typedata s \<and> typeDecimal s d fo = Inr (a, fo') \<and> row_reader cap typedata names fs base d fo'"
proof -
  from assms(2) obtain s f where s: "j = JStr s" "map_of (zip names fs) s = Some f"
    "fst f = 246" "a = dec_text (contents f)"
    by (auto simp: term_value_def field_value_def split: json.splits option.splits if_splits list.splits)
  from typedata_of_field [OF assms(1) s(2)] obtain i where
    i: "i < length names" "names ! i = s" "fs ! i = f" "typedata s = Some (fst f)" by blast
  with dec.read_ok [OF assms(1) i(1)] s show ?thesis by (auto simp: type_tests)
qed

lemma term_KStr:
  assumes "row_reader cap typedata names fs base d fo" "term_value names fs j = Some (KStr a)"
  shows "\<exists>s. j = JStr s \<and> \<not> little_type typedata s \<and> \<not> big_type typedata s \<and>
    \<not> decimal_type typedata s \<and> std_substr_from s 1 = Inr a"
proof -
  from assms(2) obtain c where s: "j = JStr (c # a)" "map_of (zip names fs) (c # a) = None"
    by (auto simp: term_value_def field_value_def split: json.splits option.splits if_splits list.splits)
  from typedata_of_constant [OF assms(1) s(2)] s show ?thesis
    by (auto simp: type_tests std_substr_from_def)
qed

lemma term_KInt:
  assumes "term_value names fs j = Some (KInt a)"
  shows "j = JInt a \<and> is_int32 a"
  using assms by (auto simp: term_value_def field_value_def split: json.splits option.splits if_splits list.splits)

lemma member_term_Some:
  assumes "member_term names fs c k = Some v"
  obtains j where "json_member c k = Inr j" "term_value names fs j = Some v"
  using assms by (auto simp: member_term_def split: sum.splits)

definition rv_big_for :: "opertype \<Rightarrow> (string \<rightharpoonup> int) \<Rightarrow> buffer \<Rightarrow> json \<Rightarrow> Filter_obj \<Rightarrow> (string \<times> Filter_obj) res" where
  "rv_big_for p = (if p = GE then rv_big_checked else if p = ET then rv_big_ET else rv_big_plain)"

text \<open>
  The operands of a comparison, whatever the case does with the right-hand side of a CHAR or VARSTRING
  column (\<open>rv_big\<close>), as long as it returns what is expected there.
\<close>

lemma compare_operands_read:
  assumes fo: "row_reader cap typedata names fs base d fo"
    and jl: "json_member c ''LV'' = Inr jl" "term_value names fs jl = Some l"
    and jr: "json_member c ''RV'' = Inr jr" "term_value names fs jr = Some r"
    and op: "(\<forall>a. l \<noteq> CStr a) \<Longrightarrow> spec_operands p l r = Some ops"
    and str: "\<And>a fo. l = CStr a \<Longrightarrow> row_reader cap typedata names fs base d fo \<Longrightarrow>
      \<exists>b fo'. ops = Strs a b \<and> rv_big jr fo = Inr (b, fo') \<and> row_reader cap typedata names fs base d fo'"
  shows "\<exists>fo'. compare_operands rv_big typedata d c fo = Inr (ops, fo') \<and> row_reader cap typedata names fs base d fo'"
proof (cases "\<exists>a. l = CStr a")
  case True
  then obtain a where l: "l = CStr a" by blast
  from term_CStr [OF fo jl(2) [unfolded l]] obtain s fo1 where
    s: "jl = JStr s" "\<not> little_type typedata s" "big_type typedata s" "typeBig s d fo = Inr (a, fo1)"
    "row_reader cap typedata names fs base d fo1" by blast
  from str [OF l s(5)] s(1-4) jl(1) jr(1) show ?thesis by (auto simp: compare_operands_def)
next
  case False
  then have ops: "spec_operands p l r = Some ops" using op by blast
  note mem = jl(1) jr(1)
  from ops show ?thesis
  proof (cases rule: spec_operands.elims)
    case (1 a b)
    from term_CInt [OF fo jl(2) [unfolded 1]] obtain s fo1 where
      s: "jl = JStr s" "little_type typedata s" "typeLittle typedata s d fo = Inr (a, fo1)"
      "row_reader cap typedata names fs base d fo1" by blast
    from term_CInt [OF s(4) jr(2) [unfolded 1]] s(1-3) mem 1 show ?thesis
      by (auto simp: compare_operands_def rv_little_def)
  next
    case (2 a b)
    from term_CInt [OF fo jl(2) [unfolded 2]] term_KInt [OF jr(2) [unfolded 2]] mem 2 show ?thesis
      by (auto simp: compare_operands_def rv_little_def)
  next
    case (3 a b)
    from term_CInt [OF fo jr(2) [unfolded 3]] term_KInt [OF jl(2) [unfolded 3]] mem 3 show ?thesis
      by (auto simp: compare_operands_def)
  next
    case (4 a b)
    with False show ?thesis by simp
  next
    case (5 a b)
    with False show ?thesis by simp
  next
    case (6 a b)
    from term_CDec [OF fo jl(2) [unfolded 6]] obtain s fo1 where
      s: "jl = JStr s" "\<not> little_type typedata s" "\<not> big_type typedata s" "decimal_type typedata s"
      "typeDecimal s d fo = Inr (a, fo1)" "row_reader cap typedata names fs base d fo1" by blast
    from term_CDec [OF s(6) jr(2) [unfolded 6]] s(1-5) mem 6 show ?thesis
      by (auto simp: compare_operands_def rv_decimal_def)
  next
    case (7 a b)
    from term_CDec [OF fo jl(2) [unfolded 7]] term_KStr [OF fo jr(2) [unfolded 7]] mem 7 show ?thesis
      by (auto simp: compare_operands_def rv_decimal_def)
  next
    case (8 a b)
    from term_CDec [OF fo jl(2) [unfolded 8]] term_KInt [OF jr(2) [unfolded 8]] mem 8 show ?thesis
      by (auto simp: compare_operands_def rv_decimal_def)
  next
    case (9 a b)
    from term_CStr [OF fo jr(2) [unfolded 9]] term_KStr [OF fo jl(2) [unfolded 9]] mem 9 show ?thesis
      by (auto simp: compare_operands_def rv_of_constant_def)
  next
    case (10 a b)
    from term_CDec [OF fo jr(2) [unfolded 10]] term_KStr [OF fo jl(2) [unfolded 10]] mem 10 show ?thesis
      by (auto simp: compare_operands_def rv_of_constant_def)
  qed simp_all
qed

lemma clause_operands_Some:
  assumes "clause_operands names fs p c = Some ops"
  obtains jl l jr r where "json_member c ''LV'' = Inr jl" "term_value names fs jl = Some l"
    "json_member c ''RV'' = Inr jr" "term_value names fs jr = Some r" "spec_operands p l r = Some ops"
  using assms by (auto simp: clause_operands_def member_term_def split: option.splits sum.splits)

lemma rv_big_for_ok:
  assumes "row_reader cap typedata names fs base d fo" "term_value names fs jr = Some r"
    and "spec_operands p (CStr a) r = Some ops"
  shows "\<exists>b fo'. ops = Strs a b \<and> rv_big_for p typedata d jr fo = Inr (b, fo') \<and> row_reader cap typedata names fs base d fo'"
proof (cases r)
  case (CStr b)
  from term_CStr [OF assms(1) assms(2) [unfolded CStr]] assms(3) CStr show ?thesis
    by (auto simp: rv_big_for_def rv_big_checked_def rv_big_ET_def rv_big_plain_def)
next
  case (KStr b)
  from term_KStr [OF assms(1) assms(2) [unfolded KStr]] assms(1,3) KStr show ?thesis
    by (auto simp: rv_big_for_def rv_big_checked_def rv_big_ET_def split: if_splits)
qed (use assms(3) in simp_all)

lemma compare_operands_ok:
  assumes fo: "row_reader cap typedata names fs base d fo" and ops: "clause_operands names fs p c = Some ops"
  shows "\<exists>fo'. compare_operands (rv_big_for p typedata d) typedata d c fo = Inr (ops, fo') \<and>
    row_reader cap typedata names fs base d fo'"
proof -
  from clause_operands_Some [OF ops] obtain jl l jr r where
    *: "json_member c ''LV'' = Inr jl" "term_value names fs jl = Some l"
      "json_member c ''RV'' = Inr jr" "term_value names fs jr = Some r" "spec_operands p l r = Some ops" .
  show ?thesis by (rule compare_operands_read [OF fo *(1-4,5)]) (use rv_big_for_ok *(4,5) in blast)+
qed

section \<open>Filters in disjunctive normal form\<close>

definition literal_ops :: "opertype list" where
  "literal_ops = compare_ops @ [LIKE, BETWEEN, IN_OP]"

inductive lit_toks :: "json list \<Rightarrow> bool \<times> json \<Rightarrow> bool" where
  lit_plain: "has_op p c \<Longrightarrow> p \<in> set literal_ops \<Longrightarrow> lit_toks [c] (False, c)"
| lit_not: "has_op NOT_OP t \<Longrightarrow> lit_toks ts (n, c) \<Longrightarrow> lit_toks (t # ts) (\<not> n, c)"

inductive conj_toks :: "json list \<Rightarrow> (bool \<times> json) list \<Rightarrow> bool" where
  conj_one: "lit_toks ts l \<Longrightarrow> conj_toks ts [l]"
| conj_and: "lit_toks ts l \<Longrightarrow> has_op AND_OP t \<Longrightarrow> conj_toks us ls \<Longrightarrow> conj_toks (ts @ t # us) (l # ls)"

inductive dnf_toks :: "json list \<Rightarrow> (bool \<times> json) list list \<Rightarrow> bool" where
  dnf_one: "conj_toks ts D \<Longrightarrow> dnf_toks ts [D]"
| dnf_or: "conj_toks ts D \<Longrightarrow> has_op OR_OP t \<Longrightarrow> dnf_toks us Ds \<Longrightarrow> dnf_toks (ts @ t # us) (D # Ds)"

inductive_cases lit_toksE: "lit_toks ts l"

text \<open>
  The value of a literal comes with a mark: a \<open>loud\<close> literal sets \<open>canSaved\<close> (the comparisons,
  and every negated literal), a quiet one (LIKE and BETWEEN) leaves it as it was.
  \<open>select_row\<close> is what the flags amount to.
\<close>

fun eval_conj :: "bool \<Rightarrow> (bool \<times> bool) list \<Rightarrow> bool \<times> bool" where
  "eval_conj cs [] = (True, cs)"
| "eval_conj cs ((loud, b) # ls) =
     (let cs' = (if loud then b else cs) in if b then eval_conj cs' ls else (False, cs'))"

fun select_row :: "bool \<Rightarrow> (bool \<times> bool) list list \<Rightarrow> bool" where
  "select_row cs [] = False"
| "select_row cs [D] = (case eval_conj cs D of (b, cs') \<Rightarrow> b \<and> cs')"
| "select_row cs (D # Ds) = (case eval_conj cs D of (b, cs') \<Rightarrow> b \<or> select_row cs' Ds)"

lemma eval_conj_fst: "fst (eval_conj cs D) \<longleftrightarrow> (\<forall>l\<in>set D. snd l)"
  by (induction cs D rule: eval_conj.induct) (auto simp: Let_def)

lemma eval_conj_loud:
  "fst (eval_conj cs D) \<Longrightarrow> cs \<or> (\<exists>l\<in>set D. fst l) \<Longrightarrow> snd (eval_conj cs D)"
  by (induction cs D rule: eval_conj.induct) (auto simp: Let_def split: if_splits)

lemma eval_conj_quiet: "\<forall>l\<in>set D. \<not> fst l \<Longrightarrow> snd (eval_conj cs D) = cs"
  by (induction cs D rule: eval_conj.induct) (auto simp: Let_def)

lemma select_row_loud:
  assumes "Ds \<noteq> []" "\<exists>l\<in>set (last Ds). fst l"
  shows "select_row cs Ds \<longleftrightarrow> (\<exists>D\<in>set Ds. \<forall>l\<in>set D. snd l)"
  using assms
proof (induction cs Ds rule: select_row.induct)
  case (2 cs D)
  then show ?case using eval_conj_fst [of cs D] eval_conj_loud [of cs D] by (auto split: prod.splits)
next
  case (3 cs D D' Ds)
  obtain b cs' where e: "eval_conj cs D = (b, cs')" by (cases "eval_conj cs D")
  then have b: "b \<longleftrightarrow> (\<forall>l\<in>set D. snd l)" using eval_conj_fst [of cs D] by simp
  from 3 e have "select_row cs' (D' # Ds) \<longleftrightarrow> (\<exists>D\<in>set (D' # Ds). \<forall>l\<in>set D. snd l)" by simp
  with e b show ?case by auto
qed simp

lemma select_row_quiet: "\<forall>l\<in>set D. \<not> fst l \<Longrightarrow> \<not> select_row False [D]"
  using eval_conj_quiet [of D False] by (auto split: prod.splits)

section \<open>The row machine\<close>

text \<open>
  The meaning of a filter, given the mark and the value of each of its literals (\<open>lit\<close>, which has
  no value for a literal without a meaning): the formula, and the rows the flags select.
\<close>

definition literal_mark :: "(json \<Rightarrow> (bool \<times> bool) option) \<Rightarrow> bool \<times> json \<Rightarrow> bool \<times> bool" where
  "literal_mark lit l = (case l of (n, c) \<Rightarrow> case lit c of
      Some (loud, b) \<Rightarrow> (loud \<or> n, b \<noteq> n) | None \<Rightarrow> (False, False))"

definition literal_true :: "(json \<Rightarrow> (bool \<times> bool) option) \<Rightarrow> bool \<times> json \<Rightarrow> bool" where
  "literal_true lit l = (case l of (n, c) \<Rightarrow> case lit c of Some (loud, b) \<Rightarrow> b \<noteq> n | None \<Rightarrow> False)"

definition dnf_defined :: "(json \<Rightarrow> (bool \<times> bool) option) \<Rightarrow> (bool \<times> json) list list \<Rightarrow> bool" where
  "dnf_defined lit Ds = list_all (list_all (\<lambda>(n, c). lit c \<noteq> None)) Ds"

definition dnf_true :: "(json \<Rightarrow> (bool \<times> bool) option) \<Rightarrow> (bool \<times> json) list list \<Rightarrow> bool" where
  "dnf_true lit Ds = list_ex (list_all (literal_true lit)) Ds"

definition dnf_selects :: "(json \<Rightarrow> (bool \<times> bool) option) \<Rightarrow> (bool \<times> json) list list \<Rightarrow> bool" where
  "dnf_selects lit Ds = select_row False (map (map (literal_mark lit)) Ds)"

lemma snd_literal_mark: "snd (literal_mark lit l) = literal_true lit l"
  by (auto simp: literal_mark_def literal_true_def split: option.splits prod.splits)

lemma dnf_defined_iff: "dnf_defined lit Ds \<longleftrightarrow> (\<forall>D\<in>set Ds. \<forall>l\<in>set D. lit (snd l) \<noteq> None)"
  by (simp add: dnf_defined_def list_all_iff case_prod_unfold)

lemma dnf_selects_loud:
  assumes "Ds \<noteq> []" "\<exists>l\<in>set (last Ds). fst (literal_mark lit l)"
  shows "dnf_selects lit Ds = dnf_true lit Ds"
proof -
  have "\<exists>m\<in>set (last (map (map (literal_mark lit)) Ds)). fst m" using assms by (auto simp: last_map)
  from select_row_loud [OF _ this] assms(1) show ?thesis
    by (auto simp: dnf_selects_def dnf_true_def snd_literal_mark list_ex_iff list_all_iff)
qed

text \<open>
  The contract between the loop and the cases: what each kind of filter element does to the
  flags, given that the columns can be read (\<open>ok\<close>) and that \<open>substringflag\<close> is as the literals need it
  (\<open>sub_ok\<close>).
\<close>

locale row_machine =
  fixes step :: "json \<Rightarrow> row_vars \<times> 'f \<Rightarrow> (row_vars \<times> 'f) res"
    and ok :: "'f \<Rightarrow> bool"
    and lit :: "json \<Rightarrow> (bool \<times> bool) option"
    and sub_ok :: "bool \<Rightarrow> bool"
  assumes loud: "lit c = Some (True, b) \<Longrightarrow> ok fo \<Longrightarrow> \<not> Passed v \<Longrightarrow> TmpV v \<Longrightarrow> sub_ok (substringflag v) \<Longrightarrow>
      \<exists>fo'. step c (v, fo) = Inr (compare_flags b v, fo') \<and> ok fo'"
    and quiet: "lit c = Some (False, b) \<Longrightarrow> ok fo \<Longrightarrow> \<not> Passed v \<Longrightarrow> sub_ok (substringflag v) \<Longrightarrow>
      \<exists>fo'. step c (v, fo) = Inr (negate_if_not (v\<lparr>CV := b\<rparr>), fo') \<and> ok fo'"
    and step_not: "has_op NOT_OP t \<Longrightarrow> \<not> Passed v \<Longrightarrow> step t (v, fo) = Inr (clause_NOT v, fo)"
    and step_and: "has_op AND_OP t \<Longrightarrow> \<not> Passed v \<Longrightarrow> step t (v, fo) = Inr (clause_AND v, fo)"
    and step_or: "has_op OR_OP t \<Longrightarrow> step t (v, fo) = Inr (clause_OR v, fo)"
    and step_skip: "has_op p t \<Longrightarrow> p \<noteq> OR_OP \<Longrightarrow> Passed v \<Longrightarrow> step t (v, fo) = Inr (v, fo)"
begin

abbreviation loop :: "json list \<Rightarrow> row_vars \<times> 'f \<Rightarrow> (row_vars \<times> 'f) res" where
  "loop \<equiv> break_loop step (\<lambda>st. isSaved (fst st))"

abbreviation mark :: "bool \<times> json \<Rightarrow> bool \<times> bool" where
  "mark \<equiv> literal_mark lit"

definition after_lit :: "bool \<Rightarrow> bool \<Rightarrow> bool \<Rightarrow> row_vars \<Rightarrow> row_vars" where
  "after_lit loud b n v = v\<lparr>isnot := n, CV := (b \<noteq> n),
     canSaved := (if loud \<or> n then b \<noteq> n else canSaved v)\<rparr>"

lemma lit_run:
  assumes "lit_toks ts (n, c)" "lit c = Some (loud, b)" "ok fo" "\<not> Passed v" "\<not> isSaved v" "TmpV v" "sub_ok (substringflag v)"
  shows "\<exists>fo'. loop ts (v, fo) = Inr (after_lit loud b (isnot v \<noteq> n) v, fo') \<and> ok fo'"
  using assms
proof (induction ts "(n, c)" arbitrary: n v rule: lit_toks.induct)
  case (lit_plain p)
  show ?case
  proof (cases loud)
    case True
    with lit_plain loud [of c b fo v] obtain fo' where
      "step c (v, fo) = Inr (compare_flags b v, fo')" "ok fo'" by auto
    moreover have "compare_flags b v = after_lit loud b (isnot v) v"
      using True lit_plain by (cases v) (simp add: compare_flags_eq after_lit_def)
    moreover have "\<not> isSaved (after_lit loud b (isnot v) v)" using lit_plain by (simp add: after_lit_def)
    ultimately show ?thesis by simp
  next
    case False
    with lit_plain quiet [of c b fo v] obtain fo' where
      "step c (v, fo) = Inr (negate_if_not (v\<lparr>CV := b\<rparr>), fo')" "ok fo'" by auto
    moreover have "negate_if_not (v\<lparr>CV := b\<rparr>) = after_lit loud b (isnot v) v"
      using False by (cases v) (simp add: negate_if_not_def after_lit_def)
    moreover have "\<not> isSaved (after_lit loud b (isnot v) v)" using lit_plain by (simp add: after_lit_def)
    ultimately show ?thesis by simp
  qed
next
  case (lit_not t ts n)
  let ?v = "clause_NOT v"
  have not: "step t (v, fo) = Inr (?v, fo)" using lit_not.hyps(1) lit_not.prems(3) by (rule step_not)
  have v: "?v = v\<lparr>isnot := \<not> isnot v\<rparr>" by (simp add: clause_NOT_def)
  obtain fo' where "loop ts (?v, fo) = Inr (after_lit loud b (isnot ?v \<noteq> n) ?v, fo')" "ok fo'"
    using lit_not.hyps(3) [of ?v] lit_not.prems by (auto simp: v)
  moreover have "after_lit loud b (isnot ?v \<noteq> n) ?v = after_lit loud b (isnot v \<noteq> (\<not> n)) v"
    unfolding v after_lit_def by simp
  ultimately show ?case using not lit_not.prems(4) by (auto simp: v)
qed

lemma lit_toks_ops: "lit_toks ts l \<Longrightarrow> t \<in> set ts \<Longrightarrow> \<exists>p. has_op p t \<and> p \<noteq> OR_OP"
  by (induction rule: lit_toks.induct) (auto simp: literal_ops_def compare_ops_def)

lemma conj_toks_ops: "conj_toks ts D \<Longrightarrow> t \<in> set ts \<Longrightarrow> \<exists>p. has_op p t \<and> p \<noteq> OR_OP"
  by (induction rule: conj_toks.induct) (auto dest: lit_toks_ops)

lemma skip_run:
  assumes "\<forall>t\<in>set ts. \<exists>p. has_op p t \<and> p \<noteq> OR_OP" "Passed v" "\<not> isSaved v"
  shows "loop ts (v, fo) = Inr (v, fo)"
  using assms by (induction ts) (auto simp: step_skip)

text \<open>The flags the row loop relies on between two disjuncts.\<close>

definition fresh :: "row_vars \<Rightarrow> bool" where
  "fresh v \<longleftrightarrow> TmpV v \<and> \<not> Passed v \<and> \<not> isSaved v \<and> \<not> isnot v \<and> sub_ok (substringflag v)"

definition conj_done :: "bool \<Rightarrow> bool \<Rightarrow> row_vars \<Rightarrow> bool" where
  "conj_done b cs v \<longleftrightarrow> CV v = b \<and> canSaved v = cs \<and> TmpV v \<and> \<not> isSaved v \<and> (b \<longrightarrow> \<not> Passed v) \<and>
     sub_ok (substringflag v)"

lemma conj_run:
  assumes "conj_toks ts D" "\<forall>(n, c)\<in>set D. lit c \<noteq> None" "ok fo" "fresh v"
  shows "\<exists>v' fo'. loop ts (v, fo) = Inr (v', fo') \<and> ok fo' \<and>
    conj_done (fst (eval_conj (canSaved v) (map mark D))) (snd (eval_conj (canSaved v) (map mark D))) v'"
  using assms
proof (induction arbitrary: v fo rule: conj_toks.induct)
  case (conj_one ts l)
  obtain n c where l: "l = (n, c)" by (cases l)
  with conj_one.prems(1) obtain loud b where lit: "lit c = Some (loud, b)" by auto
  from lit_run [OF conj_one.hyps [unfolded l] lit conj_one.prems(2), of v] conj_one.prems(3)
  obtain fo' where "loop ts (v, fo) = Inr (after_lit loud b n v, fo')" "ok fo'"
    by (auto simp: fresh_def)
  with conj_one.prems(3) l lit show ?case
    by (auto simp: conj_done_def after_lit_def fresh_def literal_mark_def Let_def)
next
  case (conj_and ts l t us ls)
  obtain n c where l: "l = (n, c)" by (cases l)
  with conj_and.prems(1) obtain loud b where lit: "lit c = Some (loud, b)" by auto
  let ?v = "after_lit loud b n v" and ?w = "clause_AND (after_lit loud b n v)"
  from lit_run [OF conj_and.hyps(1) [unfolded l] lit conj_and.prems(2), of v] conj_and.prems(3)
  obtain fo1 where run: "loop ts (v, fo) = Inr (?v, fo1)" and ok1: "ok fo1" by (auto simp: fresh_def)
  have flags: "\<not> isSaved v" "\<not> isSaved ?v" "\<not> Passed ?v" "\<not> isSaved ?w"
    using conj_and.prems(3) by (auto simp: fresh_def after_lit_def clause_AND_def Let_def)
  have "loop (ts @ t # us) (v, fo) = loop us (?w, fo1)"
    using run flags step_and [OF conj_and.hyps(2) flags(3), of fo1] by (simp add: break_loop_append)
  moreover have mk: "mark l = (loud \<or> n, b \<noteq> n)" using l lit by (simp add: literal_mark_def)
  moreover have "\<exists>v' fo'. loop us (?w, fo1) = Inr (v', fo') \<and> ok fo' \<and>
      conj_done (fst (eval_conj (canSaved v) (map mark (l # ls)))) (snd (eval_conj (canSaved v) (map mark (l # ls)))) v'"
  proof (cases "b \<noteq> n")
    case True
    then have "fresh ?w"
      using conj_and.prems(3) by (simp add: fresh_def after_lit_def clause_AND_def Let_def)
    moreover have "eval_conj (canSaved v) (map mark (l # ls)) = eval_conj (canSaved ?w) (map mark ls)"
      using True by (simp add: mk clause_AND_def after_lit_def Let_def)
    ultimately show ?thesis using conj_and.IH [OF _ ok1] conj_and.prems(1) by auto
  next
    case False
    then have "Passed ?w" by (simp add: after_lit_def clause_AND_def Let_def)
    then have "loop us (?w, fo1) = Inr (?w, fo1)"
      using flags conj_toks_ops [OF conj_and.hyps(3)] by (intro skip_run) auto
    moreover have "conj_done False (canSaved ?w) ?w"
      using False conj_and.prems(3) by (simp add: conj_done_def after_lit_def clause_AND_def Let_def fresh_def)
    moreover have "eval_conj (canSaved v) (map mark (l # ls)) = (False, canSaved ?w)"
      using False by (simp add: mk clause_AND_def after_lit_def Let_def)
    ultimately show ?thesis using ok1 by simp
  qed
  ultimately show ?case by simp
qed

lemma dnf_run:
  assumes "dnf_toks ts Ds" "\<forall>D\<in>set Ds. \<forall>(n, c)\<in>set D. lit c \<noteq> None" "ok fo" "fresh v"
  shows "\<exists>v' fo'. loop ts (v, fo) = Inr (v', fo') \<and> ok fo' \<and> sub_ok (substringflag v') \<and>
    row_saved v' = select_row (canSaved v) (map (map mark) Ds)"
  using assms
proof (induction arbitrary: v fo rule: dnf_toks.induct)
  case (dnf_one ts D)
  from conj_run [OF dnf_one.hyps, of fo v] dnf_one.prems show ?case
    by (fastforce simp: row_saved_def conj_done_def split: prod.splits)
next
  case (dnf_or ts D t us Ds)
  let ?e = "eval_conj (canSaved v) (map mark D)"
  from conj_run [OF dnf_or.hyps(1), of fo v] dnf_or.prems obtain v1 fo1 where
    run: "loop ts (v, fo) = Inr (v1, fo1)" and ok1: "ok fo1" and d: "conj_done (fst ?e) (snd ?e) v1" by auto
  let ?w = "clause_OR v1"
  have flags: "\<not> isSaved v" "\<not> isSaved v1"
    using dnf_or.prems(3) d by (auto simp: fresh_def conj_done_def)
  have split: "loop (ts @ t # us) (v, fo) = (if isSaved ?w then Inr (?w, fo1) else loop us (?w, fo1))"
    using run flags step_or [OF dnf_or.hyps(2), of v1 fo1] by (simp add: break_loop_append)
  obtain E Es where Ds: "Ds = E # Es" using dnf_or.hyps(3) by (auto elim: dnf_toks.cases)
  show ?case
  proof (cases "fst ?e")
    case True
    then have "isSaved ?w" "sub_ok (substringflag ?w)" using d by (simp_all add: clause_OR_def conj_done_def Let_def)
    with split ok1 True Ds show ?thesis by (auto simp: row_saved_def split: prod.splits)
  next
    case False
    then have w: "fresh ?w" "canSaved ?w = snd ?e" "\<not> isSaved ?w"
      using d by (auto simp: clause_OR_def conj_done_def Let_def fresh_def)
    from dnf_or.IH [OF _ ok1 w(1)] dnf_or.prems(1) split w False Ds show ?thesis
      by (auto split: prod.splits)
  qed
qed

end

section \<open>The meaning of LIKE and BETWEEN\<close>

fun like_text :: "sqlval \<Rightarrow> string option" where
  "like_text (CInt a) = Some (std_to_string a)"
| "like_text (CStr a) = Some a"
| "like_text (CDec a) = Some a"
| "like_text (KStr a) = Some a"
| "like_text (KInt a) = None"

fun like_pattern :: "sqlval \<Rightarrow> string option" where
  "like_pattern (CStr a) = Some a"
| "like_pattern (CDec a) = Some a"
| "like_pattern (KStr a) = Some a"
| "like_pattern _ = None"

definition like_value :: "string list \<Rightarrow> field list \<Rightarrow> json \<Rightarrow> bool option" where
  "like_value names fs c =
     (case (Option.bind (member_term names fs c ''LV'') like_text,
            Option.bind (member_term names fs c ''RV'') like_pattern) of
        (Some l, Some r) \<Rightarrow> (case LikeSubString_v2 l r of Inr b \<Rightarrow> Some b | Inl _ \<Rightarrow> None)
      | _ \<Rightarrow> None)"

text \<open>
  BETWEEN with two integer constants on an integer column, or with two constants on a DECIMAL
  column. (The bounds of a CHAR column are not compared as intended, see \<open>between_big_loop\<close>.)
\<close>

fun between_spec :: "sqlval \<Rightarrow> sqlval \<Rightarrow> sqlval \<Rightarrow> bool option" where
  "between_spec (CInt a) (KInt lo) (KInt hi) = Some (lo \<le> a \<and> a \<le> hi)"
| "between_spec (CDec a) (KStr lo) (KStr hi) = Some (lo \<le> a \<and> a \<le> hi)"
| "between_spec _ _ _ = None"

definition between_value :: "string list \<Rightarrow> field list \<Rightarrow> json \<Rightarrow> bool option" where
  "between_value names fs c =
     (case (member_term names fs c ''LV'', json_member c ''EXTRA'') of
        (Some l, Inr (JArr [x, y])) \<Rightarrow>
          (case (term_value names fs x, term_value names fs y) of
             (Some lo, Some hi) \<Rightarrow> between_spec l lo hi | _ \<Rightarrow> None)
      | _ \<Rightarrow> None)"

definition clause_lit :: "string list \<Rightarrow> field list \<Rightarrow> json \<Rightarrow> (bool \<times> bool) option" where
  "clause_lit names fs c =
     (case json_member c ''OPERATOR'' of
        Inr (JInt n) \<Rightarrow>
          (case oper_of n of
             Some p \<Rightarrow>
               if n \<noteq> oper_code p then None
               else if p \<in> set compare_ops then
                 map_option (\<lambda>ops. (True, oper_holds p ops)) (clause_operands names fs p c)
               else if p = LIKE then map_option (Pair False) (like_value names fs c)
               else if p = BETWEEN then map_option (Pair False) (between_value names fs c)
               else None
           | None \<Rightarrow> None)
      | _ \<Rightarrow> None)"

lemma is_int32_oper_code [simp]: "is_int32 (oper_code p)"
  by (cases p) (simp_all add: is_int32_def)

lemma filter_case_op:
  assumes "has_op p c" "\<not> Passed v"
  shows "filter_case typedata rowbuf c (v, fo) =
    (case p of
       GE \<Rightarrow> clause_GE typedata rowbuf c (v, fo)
     | LE \<Rightarrow> clause_LE typedata rowbuf c (v, fo)
     | GT \<Rightarrow> clause_GT typedata rowbuf c (v, fo)
     | LT \<Rightarrow> clause_LT typedata rowbuf c (v, fo)
     | ET \<Rightarrow> clause_ET typedata rowbuf c (v, fo)
     | NE \<Rightarrow> clause_NE typedata rowbuf c (v, fo)
     | LIKE \<Rightarrow> clause_LIKE typedata rowbuf c (v, fo)
     | BETWEEN \<Rightarrow> clause_BETWEEN typedata rowbuf c (v, fo)
     | IN_OP \<Rightarrow> clause_IN typedata rowbuf c (v, fo)
     | IS_OP \<Rightarrow> Inr (v, fo)
     | ISNOT \<Rightarrow> Inr (v, fo)
     | NOT_OP \<Rightarrow> Inr (clause_NOT v, fo)
     | AND_OP \<Rightarrow> Inr (clause_AND v, fo)
     | OR_OP \<Rightarrow> Inr (clause_OR v, fo)
     | SUBSTRING \<Rightarrow> clause_SUBSTRING typedata rowbuf c (v, fo))"
  using assms by (cases p) (simp_all only: filter_case_def has_op_def prod.case if_False bindE_simps
      GetInt.simps is_int32_oper_code if_True oper_of_code option.case opertype.case)

lemma passed_case_op:
  assumes "has_op p c" "Passed v"
  shows "filter_case typedata rowbuf c (v, fo) = Inr (if p = OR_OP then clause_OR v else v, fo)"
  using assms
  by (cases p) (simp_all only: filter_case_def passed_case_def has_op_def prod.case if_True bindE_simps
      GetInt.simps is_int32_oper_code oper_of_code option.case opertype.case opertype.distinct if_False simp_thms)

lemma clause_compare_ok:
  assumes fo: "row_reader cap typedata names fs base d fo" and p: "has_op p c" "p \<in> set compare_ops"
    and ops: "clause_operands names fs p c = Some ops" and v: "\<not> Passed v"
  shows "\<exists>fo'. filter_case typedata d c (v, fo) = Inr (compare_flags (oper_holds p ops) v, fo') \<and>
    row_reader cap typedata names fs base d fo'"
proof -
  from compare_operands_ok [OF fo ops] obtain fo' where
    fo': "compare_operands (rv_big_for p typedata d) typedata d c fo = Inr (ops, fo')"
    "row_reader cap typedata names fs base d fo'" by blast
  note case_op = filter_case_op [OF p(1) v, of typedata d fo]
  from p(2) consider "p = GE" | "p = LE" | "p = GT" | "p = LT" | "p = ET" | "p = NE"
    by (auto simp: compare_ops_def)
  then show ?thesis
    using fo' case_op
    by cases (cases ops; simp add: rv_big_for_def clause_GE_def clause_LE_def clause_GT_def
        clause_LT_def clause_ET_def clause_NE_def apply_compare_def compare_defs)+
qed

lemma like_lv_ok:
  assumes fo: "row_reader cap typedata names fs base d fo" and t: "term_value names fs j = Some t" "like_text t = Some l"
  shows "\<exists>s fo'. j = JStr s \<and> like_lv typedata d s fo = Inr (l, fo') \<and> row_reader cap typedata names fs base d fo'"
proof (cases t)
  case (CInt a)
  with t term_CInt [OF fo t(1) [unfolded CInt]] show ?thesis by (auto simp: like_lv_def)
next
  case (CStr a)
  with t term_CStr [OF fo t(1) [unfolded CStr]] show ?thesis by (auto simp: like_lv_def)
next
  case (CDec a)
  with t term_CDec [OF fo t(1) [unfolded CDec]] show ?thesis by (auto simp: like_lv_def)
next
  case (KStr a)
  from term_KStr [OF fo t(1) [unfolded KStr]] obtain s where
    s: "j = JStr s" "\<not> little_type typedata s" "\<not> big_type typedata s" "\<not> decimal_type typedata s"
      "std_substr_from s 1 = Inr a" by blast
  have "like_lv typedata d s fo = Inr (l, fo)"
    using s(2-5) t(2) KStr by (simp add: like_lv_def)
  with s(1) fo show ?thesis by blast
qed (use t in simp)

lemma not_short: "\<not> little_type typedata s \<Longrightarrow> \<not> short_little_type typedata s"
  by (auto simp: type_tests)

lemma like_rv_ok:
  assumes fo: "row_reader cap typedata names fs base d fo" and t: "term_value names fs j = Some t" "like_pattern t = Some l"
  shows "\<exists>s fo'. j = JStr s \<and> like_rv typedata d s fo = Inr (l, fo') \<and> row_reader cap typedata names fs base d fo'"
proof (cases t)
  case (CStr a)
  with t term_CStr [OF fo t(1) [unfolded CStr]] show ?thesis by (auto simp: like_rv_def not_short)
next
  case (CDec a)
  with t term_CDec [OF fo t(1) [unfolded CDec]] show ?thesis by (auto simp: like_rv_def not_short)
next
  case (KStr a)
  from term_KStr [OF fo t(1) [unfolded KStr]] obtain s where
    s: "j = JStr s" "\<not> little_type typedata s" "\<not> big_type typedata s" "\<not> decimal_type typedata s"
      "std_substr_from s 1 = Inr a" by blast
  have "like_rv typedata d s fo = Inr (l, fo)"
    using s(2-5) t(2) KStr by (simp add: like_rv_def not_short)
  with s(1) fo show ?thesis by blast
qed (use t in simp_all)

lemma like_result_ok:
  assumes fo: "row_reader cap typedata names fs base d fo" and b: "like_value names fs c = Some b"
  shows "\<exists>fo'. like_result typedata d c fo = Inr (b, fo') \<and> row_reader cap typedata names fs base d fo'"
proof -
  from b obtain jl l ls jr r rs where
    l: "json_member c ''LV'' = Inr jl" "term_value names fs jl = Some l" "like_text l = Some ls" and
    r: "json_member c ''RV'' = Inr jr" "term_value names fs jr = Some r" "like_pattern r = Some rs" and
    like: "LikeSubString_v2 ls rs = Inr b"
    by (auto simp: like_value_def member_term_def Option.bind_eq_Some_conv split: option.splits sum.splits)
  from like_lv_ok [OF fo l(2,3)] obtain s fo1 where
    s: "jl = JStr s" "like_lv typedata d s fo = Inr (ls, fo1)" "row_reader cap typedata names fs base d fo1" by blast
  from like_rv_ok [OF s(3) r(2,3)] s l r like show ?thesis by (auto simp: like_result_def)
qed

lemma between_result_ok:
  assumes fo: "row_reader cap typedata names fs base d fo" and b: "between_value names fs c = Some b"
  shows "\<exists>fo'. between_result typedata d c cv fo = Inr (b, fo') \<and> row_reader cap typedata names fs base d fo'"
proof -
  from b obtain jl l x y lo hi where
    l: "json_member c ''LV'' = Inr jl" "term_value names fs jl = Some l" and
    x: "json_member c ''EXTRA'' = Inr (JArr [x, y])" "term_value names fs x = Some lo"
      "term_value names fs y = Some hi" and spec: "between_spec l lo hi = Some b"
    by (auto simp: between_value_def member_term_def
        split: option.splits sum.splits json.splits list.splits)
  from spec show ?thesis
  proof (cases rule: between_spec.elims)
    case (1 a i j)
    from term_CInt [OF fo l(2) [unfolded 1]] term_KInt [OF x(2) [unfolded 1]] term_KInt [OF x(3) [unfolded 1]]
      l(1) x(1) 1 show ?thesis
      by (auto simp: between_result_def between_little_def BetweenOperator_int_def)
  next
    case (2 a i j)
    from term_CDec [OF fo l(2) [unfolded 2]] term_KStr [OF fo x(2) [unfolded 2]]
      term_KStr [OF fo x(3) [unfolded 2]] l(1) x(1) 2 show ?thesis
      by (auto simp: between_result_def between_decimal_def BetweenOperator_str_def not_short)
  qed simp_all
qed

lemma clause_LIKE_ok:
  assumes "row_reader cap typedata names fs base d fo" "like_value names fs c = Some b"
  shows "\<exists>fo'. clause_LIKE typedata d c (v, fo) = Inr (negate_if_not (v\<lparr>CV := b\<rparr>), fo') \<and>
    row_reader cap typedata names fs base d fo'"
  using like_result_ok [OF assms] by (auto simp: clause_LIKE_def)

lemma clause_BETWEEN_ok:
  assumes "row_reader cap typedata names fs base d fo" "between_value names fs c = Some b"
  shows "\<exists>fo'. clause_BETWEEN typedata d c (v, fo) = Inr (negate_if_not (v\<lparr>CV := b\<rparr>), fo') \<and>
    row_reader cap typedata names fs base d fo'"
  using between_result_ok [OF assms, of "CV v"] by (auto simp: clause_BETWEEN_def)

interpretation machine: row_machine "filter_case typedata d" "row_reader cap typedata names fs base d"
    "clause_lit names fs" "\<lambda>_. True"
  for cap typedata names fs base d
proof
  fix c b fo and v :: row_vars
  assume lit: "clause_lit names fs c = Some (True, b)" and ok: "row_reader cap typedata names fs base d fo"
    and v: "\<not> Passed v"
  from lit obtain p ops where "has_op p c" "p \<in> set compare_ops" "clause_operands names fs p c = Some ops"
    "b = oper_holds p ops"
    by (auto simp: clause_lit_def has_op_def split: sum.splits json.splits option.splits if_splits)
  with clause_compare_ok [OF ok _ _ _ v]
  show "\<exists>fo'. filter_case typedata d c (v, fo) = Inr (compare_flags b v, fo') \<and>
      row_reader cap typedata names fs base d fo'" by blast
next
  fix c b fo and v :: row_vars
  assume lit: "clause_lit names fs c = Some (False, b)" and ok: "row_reader cap typedata names fs base d fo"
    and v: "\<not> Passed v"
  from lit have "has_op LIKE c \<and> like_value names fs c = Some b \<or>
      has_op BETWEEN c \<and> between_value names fs c = Some b"
    by (auto simp: clause_lit_def has_op_def split: sum.splits json.splits option.splits if_splits)
  with clause_LIKE_ok [OF ok] clause_BETWEEN_ok [OF ok] v
  show "\<exists>fo'. filter_case typedata d c (v, fo) = Inr (negate_if_not (v\<lparr>CV := b\<rparr>), fo') \<and>
      row_reader cap typedata names fs base d fo'" by (auto simp: filter_case_op)
next
  fix t fo and v :: row_vars
  assume "has_op OR_OP t"
  then show "filter_case typedata d t (v, fo) = Inr (clause_OR v, fo)"
    by (cases "Passed v") (simp_all add: passed_case_op filter_case_op)
qed (simp_all add: passed_case_op filter_case_op)

end
