(* ===== verification/Filter_Block.thy ===== *)
theory Filter_Block
  imports Filter_Row Work_Queue
begin

text \<open>
  \<open>Filter::BlockFilter\<close> as a whole (\<open>filter.cc\<close>): the set-up of the \<open>Filter\<close> object from the
  scan result, the loop over the rows, \<open>SavedRow\<close>, \<open>sendfilterresult\<close> and one turn of
  \<open>Filtering\<close>.

  The operations take the size \<open>cap\<close> of the data buffers and the \<open>switch\<close> over the operator (\<open>fcase\<close>) as
  arguments where the block version of the worker (\<open>Pba_Filter\<close>) differs only in these; the locale
  \<open>block_filter\<close> holds what both rely on.

  Parameters: \<open>parse\<close> is rapidjson's \<open>Document::Parse\<close> (a document that is not an object when
  the text is malformed), \<open>junk\<close> the memory the result object is constructed in, \<open>v0\<close> the
  contents of the uninitialised locals \<open>CV\<close> and \<open>substringflag\<close>.

  The main lemmas show that the result holds exactly the selected rows, byte for byte and in
  order, with the identification and the block count of the scan result.
\<close>

section \<open>Operations\<close>

definition SavedRow :: "nat \<Rightarrow> string \<Rightarrow> nat \<Rightarrow> 'a Result_scheme \<Rightarrow> 'a Result_scheme res" where
  "SavedRow cap row startoff fr =
     bindE (memcpy_to_in cap (rs_data fr) (int (rs_length fr)) row) (\<lambda>d.
       Inr (fr\<lparr> rs_row_count := rs_row_count fr + 1,
                rs_row_offset := rs_row_offset fr @ [startoff],
                rs_data := d,
                rs_length := rs_length fr + length row \<rparr>))"

text \<open>The copy of row \<open>i\<close> into \<open>tmpsave\<close>, up to the next row or to the end of the data.\<close>

definition row_bytes :: "nat \<Rightarrow> 'a Result_scheme \<Rightarrow> nat \<Rightarrow> string res" where
  "row_bytes cap sr i =
     bindE (vec_at (rs_row_offset sr) (int i)) (\<lambda>off.
       if int i = int (rs_row_count sr) - 1 then
         memcpy_from_in cap (rs_data sr) (int off) (int (rs_length sr) - int off)
       else
         bindE (vec_at (rs_row_offset sr) (int i + 1)) (\<lambda>next_off.
           memcpy_from_in cap (rs_data sr) (int off) (int next_off - int off)))"

type_synonym 'a block_state = "row_vars \<times> Filter_obj \<times> nat \<times> 'a Result_scheme"

type_synonym filter_switch = "(string \<rightharpoonup> int) \<Rightarrow> buffer \<Rightarrow> json \<Rightarrow> row_state \<Rightarrow> row_state res"

definition start_row :: "int \<Rightarrow> Filter_obj \<Rightarrow> Filter_obj" where
  "start_row iter fo =
     fo\<lparr> rowfilterdata := (rowfilterdata fo)\<lparr> rf_offsetcount := 0, rf_rowoffset := iter \<rparr>,
         newstartptr := Map.empty, newlengthraw := Map.empty \<rparr>"

definition filter_row ::
  "nat \<Rightarrow> filter_switch \<Rightarrow> (string \<rightharpoonup> int) \<Rightarrow> json \<Rightarrow> 'a Result_scheme \<Rightarrow> nat \<Rightarrow> 'a block_state \<Rightarrow> 'a block_state res" where
  "filter_row cap fcase typedata filterarray sr i st = (case st of (v, fo, filteroffset, fr) \<Rightarrow>
     bindE (vec_at (rs_row_offset sr) (int i)) (\<lambda>iter.
     bindE (json_array filterarray) (\<lambda>cs.
     bindE (row_loop (fcase typedata (rs_data sr)) cs (row_init v, start_row (int iter) fo)) (\<lambda>(v, fo).
       if row_saved v then
         bindE (row_bytes cap sr i) (\<lambda>row.
         bindE (SavedRow cap row filteroffset fr) (\<lambda>fr.
           Inr (v, fo\<lparr> rownum := rownum fo + 1 \<rparr>, filteroffset + length row, fr)))
       else Inr (v, fo, filteroffset, fr)))))"

definition make_typedata :: "string list \<Rightarrow> int list \<Rightarrow> nat \<Rightarrow> (string \<rightharpoonup> int) res" where
  "make_typedata ColName datatype ColNum =
     foldE (\<lambda>i m. bindE (vec_at ColName (int i)) (\<lambda>n. bindE (vec_at datatype (int i)) (\<lambda>t.
       Inr (map_insert m n t)))) [0..<ColNum] Map.empty"

definition setup_filter :: "nat \<Rightarrow> 'a Result_scheme \<Rightarrow> nat list \<Rightarrow> Filter_obj \<Rightarrow> Filter_obj" where
  "setup_filter cap sr varcharlist fo =
     (let fi = rs_filter_info sr in
      fo\<lparr> rowfilterdata := (rowfilterdata fo)\<lparr>
            rf_ColIndexmap := colindexmap fi, rf_ColName := table_col fi,
            rf_datatype := table_datatype fi, rf_offlen := table_offlen fi,
            rf_startoff := table_offset fi, rf_rowbuf := rs_data sr, rf_bufsize := cap,
            rf_varcharlist := varcharlist \<rparr> \<rparr>)"

text \<open>What comes before the loop over the rows.\<close>

definition prepare_filter ::
  "nat \<Rightarrow> (string \<Rightarrow> json) \<Rightarrow> 'a Result_scheme \<Rightarrow> Filter_obj \<Rightarrow> (json \<times> (string \<rightharpoonup> int) \<times> Filter_obj) res" where
  "prepare_filter cap parse sr fo =
     (let fi = rs_filter_info sr; ColNum = length (table_col fi) in
      bindE (json_member (parse (table_filter fi)) ''tableFilter'') (\<lambda>filterarray.
      bindE (isvarc (table_datatype fi) ColNum) (\<lambda>(isvarchar, varcharlist).
      let fo = setup_filter cap sr varcharlist fo in
      bindE (make_typedata (table_col fi) (table_datatype fi) ColNum) (\<lambda>typedata.
        Inr (filterarray, typedata, fo)))))"

definition sendfilterresult :: "'a Result_scheme \<Rightarrow> 'a Result_scheme WorkQueue \<Rightarrow> 'a Result_scheme WorkQueue" where
  "sendfilterresult fr mq = push_work fr mq"

definition BlockFilter ::
  "(string \<Rightarrow> json) \<Rightarrow> buffer \<Rightarrow> row_vars \<Rightarrow> Result \<Rightarrow> Filter_obj \<Rightarrow> Result WorkQueue \<Rightarrow>
   (Filter_obj \<times> Result WorkQueue) res" where
  "BlockFilter parse junk v0 sr fo mq =
     (let fi = rs_filter_info sr;
          fr = new_Result junk (rs_query_id sr) (rs_work_id sr) (rs_csd_name sr)
                 (rs_total_block_count sr) fi (rs_result_block_count sr);
          RowNum = rs_row_count sr
      in bindE (prepare_filter BUFF_SIZE parse sr fo) (\<lambda>(filterarray, typedata, fo).
         let fo = fo\<lparr> saverowcount := saverowcount fo + int RowNum \<rparr> in
         bindE (foldE (filter_row BUFF_SIZE filter_case typedata filterarray sr) [0..<RowNum] (v0, fo, 0, fr))
           (\<lambda>(v, fo, filteroffset, fr). Inr (fo, sendfilterresult fr mq))))"

text \<open>
  One turn of the loop of \<open>Filtering\<close> by thread \<open>c\<close>: nothing to do while the queue is empty.
\<close>

definition Filtering ::
  "nat \<Rightarrow> (string \<Rightarrow> json) \<Rightarrow> buffer \<Rightarrow> row_vars \<Rightarrow>
   Filter_obj \<times> Result WorkQueue \<times> Result WorkQueue \<Rightarrow>
   (Filter_obj \<times> Result WorkQueue \<times> Result WorkQueue) res" where
  "Filtering c parse junk v0 st = (case st of (fo, fq, mq) \<Rightarrow>
     (case wait_and_pop c fq of
        (None, fq') \<Rightarrow> Inr (fo, fq', mq)
      | (Some sr, fq') \<Rightarrow> bindE (BlockFilter parse junk v0 sr fo mq) (\<lambda>(fo, mq). Inr (fo, fq', mq))))"

section \<open>The result buffer\<close>

interpretation saved: row_buffer "result_rows_in cap :: 'r Result_scheme \<Rightarrow> _" rs_length
    "\<lambda>row r. SavedRow cap row (rs_length r) r" InitResult cap
  for cap
proof
  fix b :: "'r Result_scheme" and rows :: "string list" and row :: string
  show "result_rows_in cap (InitResult b) []"
    by (simp add: result_rows_def InitResult_def row_layout_def)
  assume rep: "result_rows_in cap b rows"
  then show "rs_length b = length (concat rows)" "rs_length b \<le> cap"
    by (simp_all add: result_rows_def row_layout_def)
  show "\<exists>b'. SavedRow cap row (rs_length b) b = Inr b' \<and> result_rows_in cap b' (rows @ [row])"
    if "rs_length b + length row \<le> cap"
    using row_layout_append [OF rep [unfolded result_rows_def] that] that
    by (simp add: SavedRow_def memcpy_to_ok result_rows_def)
  show "SavedRow cap row (rs_length b) b = Inl OutOfBounds" if "cap < rs_length b + length row"
    using that by (simp add: SavedRow_def memcpy_to_def)
qed

section \<open>The schema and the rows of a block\<close>

definition block_schema :: "FilterInfo \<Rightarrow> bool" where
  "block_schema fi \<longleftrightarrow>
     table_col fi \<noteq> [] \<and> distinct (table_col fi) \<and>
     length (table_datatype fi) = length (table_col fi) \<and>
     length (table_offlen fi) = length (table_col fi) \<and>
     (\<exists>so. table_offset fi = 0 # so) \<and>
     (\<forall>i<length (table_col fi). colindexmap fi (table_col fi ! i) = Some (int i)) \<and>
     dom (colindexmap fi) \<subseteq> set (table_col fi)"

definition fits_schema :: "FilterInfo \<Rightarrow> field list \<Rightarrow> bool" where
  "fits_schema fi fs \<longleftrightarrow>
     map fst fs = table_datatype fi \<and> map (\<lambda>f. fst (snd f)) fs = table_offlen fi \<and> list_all wf_field fs"

abbreviation typedata_of :: "FilterInfo \<Rightarrow> string \<rightharpoonup> int" where
  "typedata_of fi \<equiv> map_of (zip (table_col fi) (table_datatype fi))"

definition filter_ready :: "nat \<Rightarrow> FilterInfo \<Rightarrow> buffer \<Rightarrow> Filter_obj \<Rightarrow> bool" where
  "filter_ready cap fi d fo \<longleftrightarrow> (let rf = rowfilterdata fo in
     rf_ColName rf = table_col fi \<and> rf_offlen rf = table_offlen fi \<and> (\<exists>so. rf_startoff rf = 0 # so) \<and>
     (\<forall>i<length (table_col fi). i \<in> set (rf_varcharlist rf) \<longleftrightarrow> table_datatype fi ! i = 15) \<and>
     (\<forall>i<length (table_col fi). rf_ColIndexmap rf (table_col fi ! i) = Some (int i)) \<and>
     (\<forall>s. s \<notin> set (table_col fi) \<longrightarrow> rf_ColIndexmap rf s = None) \<and>
     rf_rowbuf rf = d \<and> rf_bufsize rf = cap)"

lemma start_row_reader:
  assumes "filter_ready cap fi d fo" "block_schema fi" "fits_schema fi fs" "row_at cap d base (enc_row fs)"
  shows "row_reader cap (typedata_of fi) (table_col fi) fs base d (start_row (int base) fo)"
proof -
  have len: "length fs = length (table_col fi)"
    using assms(2,3) by (metis block_schema_def fits_schema_def length_map)
  have ne: "fs \<noteq> []" using len assms(2) by (auto simp: block_schema_def)
  have ty: "table_datatype fi ! i = fst (fs ! i)" if "i < length fs" for i
    using assms(3) that by (metis fits_schema_def nth_map)
  have "row_ctx fs base (rowfilterdata (start_row (int base) fo))"
    using assms len ne ty
    by (auto simp: row_ctx_def start_row_def filter_ready_def block_schema_def fits_schema_def
        list_all_iff Let_def)
  moreover have "cache_ok fs base 0 (start_row (int base) fo)"
    by (simp add: cache_ok_def start_row_def)
  ultimately show ?thesis
    using assms(1,3)
    by (simp add: row_reader_def reader_ok_def start_row_def filter_ready_def fits_schema_def Let_def)
qed

lemma row_reader_ready:
  assumes "row_reader cap (typedata_of fi) (table_col fi) fs base d fo" "fits_schema fi fs"
  shows "filter_ready cap fi d fo"
proof -
  have len: "length fs = length (table_col fi)" using row_reader_schema(1) [OF assms(1)] by simp
  have ty: "table_datatype fi ! i = fst (fs ! i)" if "i < length fs" for i
    using assms(2) that by (metis fits_schema_def nth_map)
  show ?thesis using assms len ty
    by (auto simp: row_reader_def reader_ok_def row_ctx_def filter_ready_def Let_def fits_schema_def)
qed

lemma make_typedata_ok:
  assumes "block_schema fi"
  shows "make_typedata (table_col fi) (table_datatype fi) (length (table_col fi)) = Inr (typedata_of fi)"
proof -
  let ?c = "table_col fi" and ?t = "table_datatype fi"
  have len: "length ?t = length ?c" and dist: "distinct ?c" using assms by (simp_all add: block_schema_def)
  have "make_typedata ?c ?t n = Inr (map_of (zip (take n ?c) (take n ?t)))" if "n \<le> length ?c" for n
    using that
  proof (induction n)
    case (Suc n)
    let ?m = "map_of (zip (take n ?c) (take n ?t))"
    have "?c ! n \<notin> set (take n ?c)"
      using dist Suc.prems by (metis Suc_le_lessD distinct_take not_distinct_conv_prefix take_Suc_conv_app_nth)
    then have none: "?m (?c ! n) = None" using len by (simp add: map_of_zip_is_None)
    have "map_of (zip (take (Suc n) ?c) (take (Suc n) ?t)) = ?m(?c ! n \<mapsto> ?t ! n)"
      using Suc.prems len map_add_fresh [where m = ?m, OF none, where v = "?t ! n"]
      by (simp add: take_Suc_conv_app_nth map_of_append)
    with Suc none len show ?case by (simp add: make_typedata_def foldE_append fun_eq_iff)
  qed (simp add: make_typedata_def)
  from this [of "length ?c"] len show ?thesis by simp
qed

section \<open>The rows that are selected\<close>

text \<open>
  What the loop over the rows relies on: the \<open>switch\<close> treats the literals as the row machine
  expects, on every row whose columns can be read.
\<close>

locale block_filter =
  fixes cap :: nat
    and fcase :: filter_switch
    and lit :: "string list \<Rightarrow> field list \<Rightarrow> json \<Rightarrow> (bool \<times> bool) option"
    and sub_ok :: "bool \<Rightarrow> bool"
  assumes machine: "row_machine (fcase typedata d) (row_reader cap typedata names fs base d) (lit names fs) sub_ok"

interpretation csd_filter: block_filter BUFF_SIZE filter_case clause_lit "\<lambda>_. True"
  by unfold_locales

lemma row_bytes_ok:
  assumes "result_rows_in cap sr rows" "i < length rows"
  shows "row_bytes cap sr i = Inr (rows ! i)"
proof -
  note lay = assms(1) [unfolded result_rows_def]
  note nth = row_layout_nth [OF lay assms(2)]
  let ?o = "rs_row_offset sr ! i"
  have cnt: "rs_row_count sr = length rows" "length (rs_row_offset sr) = length rows" "rs_length sr \<le> cap"
    using lay by (simp_all add: row_layout_def)
  have rd: "memcpy_from_in cap (rs_data sr) (int ?o) (int (length (rows ! i))) = Inr (rows ! i)"
    using nth(1,2) cnt(3) by (simp add: memcpy_from_ok)
  show ?thesis
  proof (cases "Suc i = length rows")
    case True
    with nth(3) cnt have "int (rs_length sr) - int ?o = int (length (rows ! i))" by (simp add: nth_append)
    with rd True cnt assms(2) show ?thesis by (simp add: row_bytes_def)
  next
    case False
    with assms(2) have i: "Suc i < length rows" by simp
    with nth(3) cnt have "int (rs_row_offset sr ! Suc i) - int ?o = int (length (rows ! i))"
      by (simp add: nth_append)
    moreover have "vec_at (rs_row_offset sr) (int i + 1) = Inr (rs_row_offset sr ! Suc i)"
      using i cnt vec_at_nat [of "Suc i" "rs_row_offset sr"] by (simp add: add.commute)
    ultimately show ?thesis using rd i cnt assms(2) by (simp add: row_bytes_def)
  qed
qed

text \<open>One row: it is appended to the result if and only if it is selected.\<close>

definition same_ids :: "'a Result_scheme \<Rightarrow> 'a Result_scheme \<Rightarrow> bool" where
  \<comment> \<open>everything but the rows\<close>
  "same_ids sr fr \<longleftrightarrow> rs_query_id fr = rs_query_id sr \<and> rs_work_id fr = rs_work_id sr \<and>
     rs_csd_name fr = rs_csd_name sr \<and> rs_total_block_count fr = rs_total_block_count sr \<and>
     rs_filter_info fr = rs_filter_info sr \<and> rs_result_block_count fr = rs_result_block_count sr \<and>
     Result.more fr = Result.more sr"

definition block_inv :: "nat \<Rightarrow> (bool \<Rightarrow> bool) \<Rightarrow> 'a Result_scheme \<Rightarrow> string list \<Rightarrow> 'a block_state \<Rightarrow> bool" where
  "block_inv cap sub_ok sr out st \<longleftrightarrow> (case st of (v, fo, off, fr) \<Rightarrow>
     filter_ready cap (rs_filter_info sr) (rs_data sr) fo \<and> sub_ok (substringflag v) \<and>
     result_rows_in cap fr out \<and> off = rs_length fr \<and> same_ids sr fr)"

lemma SavedRow_frame:
  assumes "SavedRow cap row off r = Inr r'"
  shows "same_ids sr r' = same_ids sr r" "rs_length r' = rs_length r + length row"
  using assms by (auto simp: SavedRow_def same_ids_def)

context block_filter
begin

lemma row_loop_selects:
  assumes "row_reader cap typedata names fs base d fo" "dnf_toks ts Ds" "dnf_defined (lit names fs) Ds"
    and "sub_ok (substringflag v)"
  shows "\<exists>v' fo'. row_loop (fcase typedata d) ts (row_init v, fo) = Inr (v', fo') \<and> sub_ok (substringflag v') \<and>
    row_saved v' = dnf_selects (lit names fs) Ds \<and> row_reader cap typedata names fs base d fo'"
proof -
  have def: "\<forall>D\<in>set Ds. \<forall>(n, c)\<in>set D. lit names fs c \<noteq> None"
    using assms(3) by (simp add: dnf_defined_def list_all_iff)
  have "row_machine.fresh sub_ok (row_init v)" "canSaved (row_init v) = False"
    using assms(4) by (simp_all add: row_machine.fresh_def [OF machine] row_init_def)
  with row_machine.dnf_run [OF machine assms(2) def assms(1)] show ?thesis
    unfolding row_loop_def dnf_selects_def by fastforce
qed

lemma filter_row_ok:
  assumes inv: "block_inv cap sub_ok sr out st" and lay: "result_rows_in cap sr (map enc_row F)" and i: "i < length F"
    and schema: "block_schema (rs_filter_info sr)" "fits_schema (rs_filter_info sr) (F ! i)"
    and toks: "dnf_toks ts Ds" "dnf_defined (lit (table_col (rs_filter_info sr)) (F ! i)) Ds"
    and room: "length (concat out) + length (enc_row (F ! i)) \<le> cap"
  shows "\<exists>st'. filter_row cap fcase (typedata_of (rs_filter_info sr)) (JArr ts) sr i st = Inr st' \<and>
    block_inv cap sub_ok sr (if dnf_selects (lit (table_col (rs_filter_info sr)) (F ! i)) Ds
                  then out @ [enc_row (F ! i)] else out) st'"
proof -
  obtain v fo off fr where st: "st = (v, fo, off, fr)" by (cases st) auto
  let ?fi = "rs_filter_info sr" and ?fs = "F ! i" and ?base = "rs_row_offset sr ! i"
  note lay' = lay [unfolded result_rows_def]
  have ready: "filter_ready cap ?fi (rs_data sr) fo" and out: "result_rows_in cap fr out" and off: "off = rs_length fr"
    and sub: "sub_ok (substringflag v)"
    using inv st by (simp_all add: block_inv_def)
  have len: "length (rs_row_offset sr) = length F" "rs_length sr \<le> cap" using lay' by (simp_all add: row_layout_def)
  have "row_at cap (rs_data sr) ?base (enc_row ?fs)"
    using row_layout_nth [OF lay', of i] i len(2) by (simp add: row_at_def)
  note rd = start_row_reader [OF ready schema this]
  from row_loop_selects [OF rd toks sub] obtain v' fo' where
    run: "row_loop (fcase (typedata_of ?fi) (rs_data sr)) ts (row_init v, start_row (int ?base) fo) = Inr (v', fo')"
    and sel: "row_saved v' = dnf_selects (lit (table_col ?fi) ?fs) Ds" and sub': "sub_ok (substringflag v')"
    and rd': "row_reader cap (typedata_of ?fi) (table_col ?fi) ?fs ?base (rs_data sr) fo'" by blast
  have ready': "filter_ready cap ?fi (rs_data sr) fo'" using rd' schema(2) by (rule row_reader_ready)
  then have ready'': "filter_ready cap ?fi (rs_data sr) (fo'\<lparr> rownum := rownum fo' + 1 \<rparr>)"
    by (simp add: filter_ready_def)
  have "rs_length fr + length (enc_row ?fs) \<le> cap" using room saved.used_rep [OF out] by simp
  from saved.append_fits [OF out this] obtain fr' where
    fr': "SavedRow cap (enc_row ?fs) (rs_length fr) fr = Inr fr'" "result_rows_in cap fr' (out @ [enc_row ?fs])" by blast
  have row: "row_bytes cap sr i = Inr (enc_row ?fs)" using row_bytes_ok [OF lay, of i] i by simp
  show ?thesis
  proof (cases "row_saved v'")
    case True
    then show ?thesis using st run sel sub' row fr' off inv ready'' i len SavedRow_frame [OF fr'(1)]
      by (simp add: filter_row_def block_inv_def)
  next
    case False
    then show ?thesis using st run sel sub' inv ready' i len
      by (simp add: filter_row_def block_inv_def)
  qed
qed

lemma filter_rows_ok:
  assumes inv: "block_inv cap sub_ok sr [] st" and lay: "result_rows_in cap sr (map enc_row F)"
    and schema: "block_schema (rs_filter_info sr)" "\<forall>fs\<in>set F. fits_schema (rs_filter_info sr) fs"
    and toks: "dnf_toks ts Ds" "\<forall>fs\<in>set F. dnf_defined (lit (table_col (rs_filter_info sr)) fs) Ds"
  shows "k \<le> length F \<Longrightarrow>
    \<exists>st'. foldE (filter_row cap fcase (typedata_of (rs_filter_info sr)) (JArr ts) sr) [0..<k] st = Inr st' \<and>
      block_inv cap sub_ok sr
        (map enc_row (filter (\<lambda>fs. dnf_selects (lit (table_col (rs_filter_info sr)) fs) Ds) (take k F))) st'"
proof (induction k)
  case 0
  then show ?case using inv by simp
next
  case (Suc k)
  let ?sel = "\<lambda>fs. dnf_selects (lit (table_col (rs_filter_info sr)) fs) Ds"
  let ?out = "map enc_row (filter ?sel (take k F))"
  from Suc obtain st1 where st1:
    "foldE (filter_row cap fcase (typedata_of (rs_filter_info sr)) (JArr ts) sr) [0..<k] st = Inr st1"
    "block_inv cap sub_ok sr ?out st1" by auto
  have k: "k < length F" using Suc.prems by simp
  have "length (concat (map enc_row (filter P xs))) \<le> length (concat (map enc_row xs))" for P xs
    by (induction xs) auto
  then have "length (concat ?out) + length (enc_row (F ! k)) \<le> length (concat (map enc_row (take (Suc k) F)))"
    using k by (simp add: take_Suc_conv_app_nth)
  also have "\<dots> \<le> length (concat (map enc_row F))"
    by (metis append_take_drop_id concat_append length_append le_add1 map_append)
  also have "\<dots> \<le> cap" using lay by (simp add: result_rows_def row_layout_def)
  finally have room: "length (concat ?out) + length (enc_row (F ! k)) \<le> cap" .
  from filter_row_ok [OF st1(2) lay k schema(1) _ toks(1) _ room] schema(2) toks(2) k st1(1)
  show ?case by (auto simp: foldE_append take_Suc_conv_app_nth)
qed

text \<open>The whole loop over the rows of a scan result, from an empty result with the same identification.\<close>

lemma filter_block_ok:
  assumes lay: "result_rows_in cap sr (map enc_row F)"
    and schema: "block_schema (rs_filter_info sr)" "\<forall>fs\<in>set F. fits_schema (rs_filter_info sr) fs"
    and toks: "dnf_toks ts Ds" "\<forall>fs\<in>set F. dnf_defined (lit (table_col (rs_filter_info sr)) fs) Ds"
    and start: "filter_ready cap (rs_filter_info sr) (rs_data sr) fo" "sub_ok (substringflag v)"
    and empty: "result_rows_in cap fr []" "same_ids sr fr"
  shows "\<exists>v' fo' off fr'. foldE (filter_row cap fcase (typedata_of (rs_filter_info sr)) (JArr ts) sr)
      [0..<rs_row_count sr] (v, fo, 0, fr) = Inr (v', fo', off, fr') \<and> same_ids sr fr' \<and>
    result_rows_in cap fr' (map enc_row (filter (\<lambda>fs. dnf_selects (lit (table_col (rs_filter_info sr)) fs) Ds) F))"
proof -
  have "block_inv cap sub_ok sr [] (v, fo, 0, fr)"
    using start empty saved.used_rep [OF empty(1)] by (simp add: block_inv_def)
  moreover have "rs_row_count sr = length F" using lay by (simp add: result_rows_def row_layout_def)
  ultimately show ?thesis
    using filter_rows_ok [OF _ lay schema toks order_refl] by (fastforce simp: block_inv_def)
qed

end

lemma prepare_filter_ok:
  assumes "block_schema (rs_filter_info sr)"
    and "json_member (parse (table_filter (rs_filter_info sr))) ''tableFilter'' = Inr (JArr ts)"
  shows "\<exists>fo'. prepare_filter cap parse sr fo = Inr (JArr ts, typedata_of (rs_filter_info sr), fo') \<and>
    filter_ready cap (rs_filter_info sr) (rs_data sr) fo'"
proof -
  let ?fi = "rs_filter_info sr"
  let ?vc = "filter (\<lambda>i. table_datatype ?fi ! i = 15) [0..<length (table_col ?fi)]"
  have var: "isvarc (table_datatype ?fi) (length (table_col ?fi)) =
      Inr (\<exists>i<length (table_col ?fi). table_datatype ?fi ! i = 15, ?vc)"
    using assms(1) by (intro isvarc_eq) (simp add: block_schema_def)
  have "filter_ready cap ?fi (rs_data sr) (setup_filter cap sr ?vc fo)"
    using assms(1) by (auto simp: filter_ready_def setup_filter_def block_schema_def Let_def)
  then show ?thesis using var assms(2) make_typedata_ok [OF assms(1)] by (simp add: prepare_filter_def Let_def)
qed

lemma BlockFilter_selects:
  assumes lay: "result_rows sr (map enc_row F)"
    and schema: "block_schema (rs_filter_info sr)" "\<forall>fs\<in>set F. fits_schema (rs_filter_info sr) fs"
    and doc: "json_member (parse (table_filter (rs_filter_info sr))) ''tableFilter'' = Inr (JArr ts)"
    and toks: "dnf_toks ts Ds" "\<forall>fs\<in>set F. dnf_defined (clause_lit (table_col (rs_filter_info sr)) fs) Ds"
  shows "\<exists>fo' fr. BlockFilter parse junk v0 sr fo mq = Inr (fo', push_work fr mq) \<and> same_ids sr fr \<and>
    result_rows fr (map enc_row (filter (\<lambda>fs. dnf_selects (clause_lit (table_col (rs_filter_info sr)) fs) Ds) F))"
proof -
  let ?fi = "rs_filter_info sr"
  let ?fr = "new_Result junk (rs_query_id sr) (rs_work_id sr) (rs_csd_name sr)
                 (rs_total_block_count sr) ?fi (rs_result_block_count sr)"
  from prepare_filter_ok [where parse = parse, OF schema(1) doc] obtain fo1 where
    prep: "prepare_filter BUFF_SIZE parse sr fo = Inr (JArr ts, typedata_of ?fi, fo1)"
      "filter_ready BUFF_SIZE ?fi (rs_data sr) fo1" by blast
  have ready: "filter_ready BUFF_SIZE ?fi (rs_data sr) (fo1\<lparr> saverowcount := saverowcount fo1 + int (rs_row_count sr) \<rparr>)"
    using prep(2) by (simp add: filter_ready_def)
  have "result_rows ?fr []" "same_ids sr ?fr" by (simp_all add: result_rows_def new_Result_def same_ids_def)
  from csd_filter.filter_block_ok [OF lay schema toks ready TrueI this, of v0] prep(1) show ?thesis
    by (auto simp: BlockFilter_def sendfilterresult_def Let_def)
qed

section \<open>What a filter selects\<close>

text \<open>The filter as a formula over the fields of a row: all its literals have a meaning; it is true.\<close>

abbreviation typed_filter :: "string list \<Rightarrow> (bool \<times> json) list list \<Rightarrow> field list \<Rightarrow> bool" where
  "typed_filter names Ds fs \<equiv> dnf_defined (clause_lit names fs) Ds"

abbreviation row_matches :: "string list \<Rightarrow> (bool \<times> json) list list \<Rightarrow> field list \<Rightarrow> bool" where
  "row_matches names Ds fs \<equiv> dnf_true (clause_lit names fs) Ds"

definition loud_literal :: "bool \<times> json \<Rightarrow> bool" where
  "loud_literal l = (fst l \<or> list_ex (\<lambda>p. has_op p (snd l)) compare_ops)"

lemma fst_literal_mark:
  assumes "clause_lit names fs (snd l) \<noteq> None"
  shows "fst (literal_mark (clause_lit names fs) l) = loud_literal l"
proof -
  obtain n c where l: "l = (n, c)" by (cases l)
  with assms obtain ld b where lit: "clause_lit names fs c = Some (ld, b)" by auto
  then have "ld \<longleftrightarrow> list_ex (\<lambda>p. has_op p c) compare_ops"
    by (auto simp: clause_lit_def has_op_def compare_ops_def
        split: sum.splits json.splits option.splits if_splits)
  with l lit show ?thesis by (auto simp: literal_mark_def loud_literal_def)
qed

lemma row_selected_loud:
  assumes "typed_filter names Ds fs" "Ds \<noteq> []" "list_ex loud_literal (last Ds)"
  shows "dnf_selects (clause_lit names fs) Ds = row_matches names Ds fs"
proof (rule dnf_selects_loud [OF assms(2)])
  from assms(3) obtain l where l: "l \<in> set (last Ds)" "loud_literal l" by (auto simp: list_ex_iff)
  then have "clause_lit names fs (snd l) \<noteq> None"
    using assms(1) last_in_set [OF assms(2)] unfolding dnf_defined_iff by blast
  with l show "\<exists>l\<in>set (last Ds). fst (literal_mark (clause_lit names fs) l)"
    using fst_literal_mark by blast
qed

lemma row_selected_quiet:
  assumes "typed_filter names [D] fs" "\<not> list_ex loud_literal D"
  shows "\<not> dnf_selects (clause_lit names fs) [D]"
proof -
  have "\<forall>m\<in>set (map (literal_mark (clause_lit names fs)) D). \<not> fst m"
    using assms fst_literal_mark [of names fs] by (auto simp: dnf_defined_iff list_ex_iff)
  from select_row_quiet [OF this] show ?thesis by (simp add: dnf_selects_def)
qed

lemma dnf_toks_nonempty: "dnf_toks ts Ds \<Longrightarrow> Ds \<noteq> []"
  by (auto elim: dnf_toks.cases)

section \<open>A concrete block\<close>

definition ex_info :: "FilterInfo" where
  "ex_info = \<lparr> table_col = [''id'', ''nm''], table_offset = [0, 4], table_offlen = [4, 10],
     table_datatype = [3, 15], colindexmap = [''id'' \<mapsto> 0, ''nm'' \<mapsto> 1], table_filter = [],
     column_projection = [], projection_datatype = [], groupby_col = [] \<rparr>"

definition ex_rows :: "field list list" where
  "ex_rows = [[(3, 4, int_bytes 4 5), (15, 10, ''ab'')], [(3, 4, int_bytes 4 9), (15, 10, ''cd'')]]"

definition ex_scan :: "Result" where
  "ex_scan = \<lparr> rs_query_id = 1, rs_work_id = 2, rs_csd_name = ''1'', rs_total_block_count = 3,
     rs_filter_info = ex_info, rs_row_count = 2, rs_length = 14,
     rs_data = buf_write (\<lambda>_. CHR 0x00) 0 (concat (map enc_row ex_rows)),
     rs_row_offset = [0, 7], rs_result_block_count = 1 \<rparr>"

definition ex_ge :: json where
  \<comment> \<open>\<open>id >= 6\<close>\<close>
  "ex_ge = JObj [(''LV'', JStr ''id''), (''OPERATOR'', JInt 1), (''RV'', JInt 6)]"

definition ex_like :: json where
  \<comment> \<open>\<open>nm LIKE '%b'\<close>\<close>
  "ex_like = JObj [(''LV'', JStr ''nm''), (''OPERATOR'', JInt 7), (''RV'', JStr ''+%b'')]"

definition ex_parse :: "json \<Rightarrow> string \<Rightarrow> json" where
  "ex_parse c s = JObj [(''tableFilter'', JArr [c])]"

lemma ex_length: "length (concat (map enc_row ex_rows)) = 14"
  by (simp add: ex_rows_def enc_row_def enc_field_def hdr_len_def)

lemma ex_layout: "result_rows ex_scan (map enc_row ex_rows)"
proof -
  have offs: "offsets 0 (map enc_row ex_rows) = [0, 7]"
    by (simp add: ex_rows_def enc_row_def enc_field_def hdr_len_def)
  have "buf_read (buf_write (\<lambda>_. CHR 0x00) 0 (concat (map enc_row ex_rows))) 0 14 = concat (map enc_row ex_rows)"
    using buf_read_write_same [of "\<lambda>_. CHR 0x00" 0 "concat (map enc_row ex_rows)"] by (simp only: ex_length)
  then show ?thesis
    by (simp only: result_rows_def row_layout_def ex_scan_def Result.simps ex_length offs)
      (simp add: ex_rows_def csd_sizes)
qed

lemma ex_schema: "block_schema (rs_filter_info ex_scan)" "list_all (fits_schema (rs_filter_info ex_scan)) ex_rows"
proof -
  have info: "rs_filter_info ex_scan = ex_info" by (simp add: ex_scan_def)
  show "block_schema (rs_filter_info ex_scan)"
    unfolding info by (simp add: block_schema_def ex_info_def less_Suc_eq)
  show "list_all (fits_schema (rs_filter_info ex_scan)) ex_rows"
    unfolding info by (simp add: fits_schema_def ex_info_def ex_rows_def wf_field_def hdr_len_def)
qed

lemma ex_has_op: "has_op GE ex_ge" "has_op LIKE ex_like"
  by (simp_all add: has_op_def ex_ge_def ex_like_def)

lemma ex_toks: "dnf_toks [ex_ge] [[(False, ex_ge)]]" "dnf_toks [ex_like] [[(False, ex_like)]]"
  by (auto intro!: dnf_one conj_one lit_plain ex_has_op simp: literal_ops_def compare_ops_def)

lemma ex_like_values: "LikeSubString_v2 ''ab'' ''%b'' = Inr True" "LikeSubString_v2 ''cd'' ''%b'' = Inr False"
proof -
  have "split ''%b'' (CHR ''%'') = [[], ''b'']"
    using getline_all_delim [of "CHR ''%''" "''b''"] getline_all_last [of "CHR ''%''" "''b''"]
    by (simp add: split_def)
  then show "LikeSubString_v2 ''ab'' ''%b'' = Inr True" "LikeSubString_v2 ''cd'' ''%b'' = Inr False"
    by (simp_all add: LikeSubString_v2_def usub_def like_loop.simps std_substr_def)
qed

lemmas clause_eval = clause_lit_def oper_of_def all_opers_def compare_ops_def clause_operands_def
  member_term_def term_value_def field_value_def little_field_def little_value_int32 is_int32_def
  like_value_def between_value_def

lemma ex_row_lits:
  "clause_lit [''id'', ''nm''] (ex_rows ! 0) ex_ge = Some (True, False)"
  "clause_lit [''id'', ''nm''] (ex_rows ! 1) ex_ge = Some (True, True)"
  "clause_lit [''id'', ''nm''] (ex_rows ! 0) ex_like = Some (False, True)"
  "clause_lit [''id'', ''nm''] (ex_rows ! 1) ex_like = Some (False, False)"
  by (simp_all add: ex_rows_def ex_ge_def ex_like_def ex_like_values clause_eval)

lemma BlockFilter_loud:
  assumes "result_rows sr (map enc_row F)"
    and "block_schema (rs_filter_info sr)" "list_all (fits_schema (rs_filter_info sr)) F"
    and "json_member (parse (table_filter (rs_filter_info sr))) ''tableFilter'' = Inr (JArr ts)"
    and "dnf_toks ts Ds" "list_all (typed_filter (table_col (rs_filter_info sr)) Ds) F"
    and "list_ex loud_literal (last Ds)"
  shows "\<exists>fo' fr. BlockFilter parse junk v0 sr fo mq = Inr (fo', push_work fr mq) \<and>
    result_rows fr (map enc_row (filter (row_matches (table_col (rs_filter_info sr)) Ds) F)) \<and>
    rs_query_id fr = rs_query_id sr \<and> rs_work_id fr = rs_work_id sr \<and>
    rs_csd_name fr = rs_csd_name sr \<and> rs_filter_info fr = rs_filter_info sr \<and>
    rs_total_block_count fr = rs_total_block_count sr \<and>
    rs_result_block_count fr = rs_result_block_count sr"
proof -
  have "filter (\<lambda>fs. dnf_selects (clause_lit (table_col (rs_filter_info sr)) fs) Ds) F =
      filter (row_matches (table_col (rs_filter_info sr)) Ds) F"
    using assms(6,7) dnf_toks_nonempty [OF assms(5)]
    by (intro filter_cong) (simp_all add: row_selected_loud list_all_iff)
  with BlockFilter_selects [where parse = parse and junk = junk and ?v0.0 = v0 and fo = fo and mq = mq,
      OF assms(1,2) _ assms(4,5)] assms(3,6) show ?thesis
    by (fastforce simp: list_all_iff same_ids_def)
qed



text \<open>
  A filter that is one conjunction of LIKE and BETWEEN conditions, none of them negated,
  drops every row of every block, whatever the rows contain: these two cases never set
  \<open>canSaved\<close>.
\<close>

theorem quiet_filter_drops_all:
  assumes "result_rows sr (map enc_row F)"
    and "block_schema (rs_filter_info sr)" "list_all (fits_schema (rs_filter_info sr)) F"
    and "json_member (parse (table_filter (rs_filter_info sr))) ''tableFilter'' = Inr (JArr ts)"
    and "dnf_toks ts [D]" "list_all (typed_filter (table_col (rs_filter_info sr)) [D]) F"
    and "\<not> list_ex loud_literal D"
  shows "\<exists>fo' fr. BlockFilter parse junk v0 sr fo mq = Inr (fo', push_work fr mq) \<and> result_rows fr []"
proof -
  have "filter (\<lambda>fs. dnf_selects (clause_lit (table_col (rs_filter_info sr)) fs) [D]) F = []"
    using assms(6,7) by (auto simp: filter_empty_conv list_all_iff row_selected_quiet)
  with BlockFilter_selects [where parse = parse and junk = junk and ?v0.0 = v0 and fo = fo and mq = mq,
      OF assms(1,2) _ assms(4,5)] assms(3,6) show ?thesis
    by (fastforce simp: list_all_iff)
qed

theorem quiet_filter_drops_all_witness:
  "literal_true (clause_lit [''id'', ''nm''] (ex_rows ! 0)) (False, ex_like) \<and>
   (\<exists>fo' fr. BlockFilter (ex_parse ex_like) (\<lambda>_. CHR 0x2A) (undefined :: row_vars) ex_scan (undefined :: Filter_obj)
      (new_WorkQueue 1) = Inr (fo', push_work fr (new_WorkQueue 1)) \<and> result_rows fr [])"
proof -
  have rows: "ex_rows = [ex_rows ! 0, ex_rows ! 1]" by (simp add: ex_rows_def)
  have col: "table_col (rs_filter_info ex_scan) = [''id'', ''nm'']" by (simp add: ex_scan_def ex_info_def)
  have typed: "list_all (typed_filter (table_col (rs_filter_info ex_scan)) [[(False, ex_like)]]) ex_rows"
    by (subst rows) (simp only: list.pred_inject dnf_defined_def col prod.case ex_row_lits option.distinct simp_thms)
  have quiet: "\<not> list_ex loud_literal [(False, ex_like)]"
    by (simp add: loud_literal_def compare_ops_def has_op_def ex_like_def)
  have doc: "json_member (ex_parse ex_like (table_filter (rs_filter_info ex_scan))) ''tableFilter'' = Inr (JArr [ex_like])"
    by (simp add: ex_parse_def)
  have "literal_true (clause_lit [''id'', ''nm''] (ex_rows ! 0)) (False, ex_like)"
    by (simp only: literal_true_def prod.case ex_row_lits option.case simp_thms)
  with quiet_filter_drops_all [where parse = "ex_parse ex_like", OF ex_layout ex_schema doc ex_toks(2) typed quiet]
  show ?thesis by fast
qed

end
