(* ===== verification/Cpp_Double.thy ===== *)
theory Cpp_Double
  imports Complex_Main Cpp_Strings
begin

text \<open>
  Binary floating point, as the merge layer uses it: finite values are rational numbers, and every
  operation rounds its exact result to the nearest value with a significand of 53 bits
  (\<open>double\<close>) or 24 bits (\<open>float\<close>), ties to even. Exponents are unbounded: overflow, infinities,
  NaNs, subnormal numbers and the sign of zero are outside the model, and a division by zero is a
  failure of its own (\<open>FloatRange\<close>).
\<close>

section \<open>Rounding\<close>

fun nbits :: "nat \<Rightarrow> nat" where
  "nbits n = (if n = 0 then 0 else Suc (nbits (n div 2)))"

declare nbits.simps [simp del]

definition pow2 :: "int \<Rightarrow> rat" where
  "pow2 e = (if 0 \<le> e then 2 ^ nat e else 1 / 2 ^ nat (- e))"

definition rne :: "rat \<Rightarrow> int" where
  \<comment> \<open>nearest integer, ties to even\<close>
  "rne x = (let f = \<lfloor>x\<rfloor>; d = x - of_int f
            in if d < 1 / 2 then f else if 1 / 2 < d then f + 1 else if even f then f else f + 1)"

definition ulp_exp :: "int \<Rightarrow> rat \<Rightarrow> int" where
  \<comment> \<open>the exponent \<open>e\<close> with \<open>2^(prec-1) \<le> \<bar>x\<bar> / 2^e < 2^prec\<close>\<close>
  "ulp_exp prec x = (case quotient_of \<bar>x\<bar> of (p, q) \<Rightarrow>
     let k = int (nbits (nat p)) - int (nbits (nat q))
     in if \<bar>x\<bar> < pow2 k then k - prec else k - prec + 1)"

definition fl :: "int \<Rightarrow> rat \<Rightarrow> rat" where
  "fl prec x = (if x = 0 then 0
     else let e = ulp_exp prec x in of_int (rne (x / pow2 e)) * pow2 e)"

abbreviation dbl :: "rat \<Rightarrow> rat" where "dbl \<equiv> fl 53"
abbreviation flt :: "rat \<Rightarrow> rat" where "flt \<equiv> fl 24"

section \<open>Operations\<close>

definition d_add :: "rat \<Rightarrow> rat \<Rightarrow> rat" where "d_add x y = dbl (x + y)"
definition d_sub :: "rat \<Rightarrow> rat \<Rightarrow> rat" where "d_sub x y = dbl (x - y)"
definition d_mul :: "rat \<Rightarrow> rat \<Rightarrow> rat" where "d_mul x y = dbl (x * y)"

definition d_div :: "rat \<Rightarrow> rat \<Rightarrow> rat res" where
  "d_div x y = (if y = 0 then Inl FloatRange else Inr (dbl (x / y)))"

definition d_of_int :: "int \<Rightarrow> rat" where "d_of_int i = dbl (of_int i)"

definition d_trunc :: "rat \<Rightarrow> int" where
  \<comment> \<open>conversion to an integer type\<close>
  "d_trunc x = (if 0 \<le> x then \<lfloor>x\<rfloor> else - \<lfloor>- x\<rfloor>)"

text \<open>\<open>stod\<close> and \<open>stof\<close> on decimal text: digits, a fraction and an exponent.\<close>

definition digits_nat :: "string \<Rightarrow> nat" where
  "digits_nat ds = nat (digits_value 0 ds)"

definition parse_exponent :: "string \<Rightarrow> int" where
  "parse_exponent s = (case s of
       c # r \<Rightarrow> if c = CHR ''e'' \<or> c = CHR ''E'' then
           (case parse_sign r of (neg, t) \<Rightarrow>
              let ds = takeWhile is_digit_char t; v = int (digits_nat ds) in if neg then - v else v)
         else 0
     | [] \<Rightarrow> 0)"

definition pow10 :: "int \<Rightarrow> rat" where
  "pow10 e = (if 0 \<le> e then 10 ^ nat e else 1 / 10 ^ nat (- e))"

definition parse_decimal :: "string \<Rightarrow> rat option" where
  "parse_decimal s = (case parse_sign (dropWhile is_space s) of (neg, r) \<Rightarrow>
     let ip = takeWhile is_digit_char r;
         r1 = dropWhile is_digit_char r;
         (fp, r2) = (case r1 of c # t \<Rightarrow> if c = CHR ''.'' then (takeWhile is_digit_char t, dropWhile is_digit_char t)
                                         else ([], r1)
                     | [] \<Rightarrow> ([], []));
         v = of_nat (digits_nat (ip @ fp)) * pow10 (parse_exponent r2 - int (length fp))
     in if ip = [] \<and> fp = [] then None else Some (if neg then - v else v))"

definition stod :: "string \<Rightarrow> rat res" where
  "stod s = (case parse_decimal s of None \<Rightarrow> Inl InvalidArgument | Some v \<Rightarrow> Inr (dbl v))"

definition stof :: "string \<Rightarrow> rat res" where
  "stof s = (case parse_decimal s of None \<Rightarrow> Inl InvalidArgument | Some v \<Rightarrow> Inr (flt v))"

section \<open>Rounding facts\<close>

lemma nbits_bounds: "0 < n \<Longrightarrow> 2 ^ (nbits n - 1) \<le> n \<and> n < 2 ^ nbits n \<and> 0 < nbits n"
proof (induction n rule: nbits.induct)
  case (1 n)
  show ?case
  proof (cases "n div 2 = 0")
    case True
    with 1 have "n = 1" by simp
    then show ?thesis by (simp add: nbits.simps)
  next
    case False
    with 1 have IH: "2 ^ (nbits (n div 2) - 1) \<le> n div 2" "n div 2 < 2 ^ nbits (n div 2)" "0 < nbits (n div 2)"
      by auto
    have n: "nbits n = Suc (nbits (n div 2))" using 1(2) by (simp add: nbits.simps [of n])
    have "(2 :: nat) ^ nbits (n div 2) = 2 * 2 ^ (nbits (n div 2) - 1)"
      using IH(3) by (metis Suc_diff_1 power_Suc)
    then have "2 ^ nbits (n div 2) \<le> n" "n < 2 * 2 ^ nbits (n div 2)" using IH(1,2) by linarith+
    with n show ?thesis by simp
  qed
qed

lemma pow2_pos [simp]: "0 < pow2 e"
  by (simp add: pow2_def)

lemma pow2_nonzero [simp]: "pow2 e \<noteq> 0"
  using pow2_pos [of e] by (metis less_irrefl)

lemma pow2_0 [simp]: "pow2 0 = 1"
  by (simp add: pow2_def)

lemma pow2_powi: "pow2 e = 2 powi e"
  by (cases "0 \<le> e") (simp_all add: pow2_def power_int_def power_one_over inverse_eq_divide)

lemma pow2_add: "pow2 (a + b) = pow2 a * pow2 b"
  by (simp add: pow2_powi power_int_add)

lemma pow2_mono: "a \<le> b \<Longrightarrow> pow2 a \<le> pow2 b"
  by (simp add: pow2_powi power_int_increasing)

lemma pow2_less_iff: "pow2 a < pow2 b \<longleftrightarrow> a < b"
proof
  assume "pow2 a < pow2 b"
  then show "a < b" using pow2_mono [of b a] by linarith
qed (simp add: pow2_powi power_int_strict_increasing)

lemma pow2_nat: "pow2 (int n) = 2 ^ n"
  by (simp add: pow2_def)

lemma rne_of_int [simp]: "rne (of_int i) = i"
  by (simp add: rne_def)

lemma rne_error: "\<bar>of_int (rne x) - x\<bar> \<le> 1 / 2"
proof -
  have "of_int \<lfloor>x\<rfloor> \<le> x" "x < of_int \<lfloor>x\<rfloor> + 1" by linarith+
  then show ?thesis by (simp add: rne_def Let_def abs_if) linarith
qed

lemma ulp_exp_lower:
  assumes "x \<noteq> 0"
  shows "pow2 (ulp_exp prec x + prec - 1) \<le> \<bar>x\<bar>"
proof -
  obtain p q where pq: "quotient_of \<bar>x\<bar> = (p, q)" by (cases "quotient_of \<bar>x\<bar>")
  have q: "0 < q" and x: "\<bar>x\<bar> = of_int p / of_int q"
    using quotient_of_denom_pos [OF pq] quotient_of_div [OF pq] by simp_all
  have p: "0 < p" using x q assms by (metis abs_ge_zero abs_of_pos divide_eq_0_iff leD linorder_neqE_linordered_idom
        of_int_0 of_int_0_less_iff of_int_pos zero_le_divide_iff zero_less_abs_iff)
  let ?bp = "nbits (nat p)" and ?bq = "nbits (nat q)"
  let ?k = "int ?bp - int ?bq"
  have bp: "2 ^ (?bp - 1) \<le> nat p" "0 < ?bp" using nbits_bounds [of "nat p"] p by simp_all
  have bq: "nat q < 2 ^ ?bq" using nbits_bounds [of "nat q"] q by simp
  have lp: "pow2 (int ?bp - 1) \<le> of_int p"
  proof -
    have "pow2 (int ?bp - 1) = of_nat (2 ^ (?bp - 1))" using bp(2) pow2_nat [of "?bp - 1"] by (simp add: of_nat_diff)
    also have "\<dots> \<le> of_nat (nat p)" using bp(1) by (simp only: of_nat_le_iff)
    finally show ?thesis using p by simp
  qed
  have lq: "of_int q \<le> pow2 (int ?bq)"
  proof -
    have "of_nat (nat q) \<le> (of_nat (2 ^ ?bq) :: rat)" using bq by (simp only: of_nat_le_iff)
    then show ?thesis using q by (simp add: pow2_nat)
  qed
  have "pow2 (?k - 1) * pow2 (int ?bq) = pow2 (int ?bp - 1)" by (simp flip: pow2_add add: algebra_simps)
  moreover have "pow2 (?k - 1) * of_int q \<le> pow2 (?k - 1) * pow2 (int ?bq)"
    by (rule mult_left_mono [OF lq]) (simp add: less_imp_le)
  ultimately have "pow2 (?k - 1) * of_int q \<le> of_int p" using lp by linarith
  then have low: "pow2 (?k - 1) \<le> \<bar>x\<bar>" using q x by (simp add: pos_le_divide_eq)
  show ?thesis
  proof (cases "\<bar>x\<bar> < pow2 ?k")
    case True
    then have "ulp_exp prec x + prec - 1 = ?k - 1" using pq by (simp add: ulp_exp_def Let_def)
    with low show ?thesis by simp
  next
    case False
    then have "ulp_exp prec x + prec - 1 = ?k" using pq by (simp add: ulp_exp_def Let_def)
    with False show ?thesis by simp
  qed
qed

lemma fl_exact:
  assumes "\<bar>m\<bar> < 2 ^ nat prec" "0 < prec"
  shows "fl prec (of_int m * pow2 k) = of_int m * pow2 k"
proof (cases "m = 0")
  case False
  let ?x = "of_int m * pow2 k" and ?e = "ulp_exp prec (of_int m * pow2 k)"
  have x0: "?x \<noteq> 0" using False pow2_pos [of k] by (simp del: pow2_pos)
  have "\<bar>?x\<bar> = of_int \<bar>m\<bar> * pow2 k" using pow2_pos [of k] by (simp add: abs_mult abs_of_pos del: pow2_pos)
  moreover have "(of_int \<bar>m\<bar> :: rat) < pow2 prec"
  proof -
    have "(of_int \<bar>m\<bar> :: rat) < of_int (2 ^ nat prec)" using assms(1) by (simp only: of_int_less_iff)
    with assms(2) show ?thesis by (simp add: pow2_def)
  qed
  ultimately have "\<bar>?x\<bar> < pow2 (prec + k)" by (simp add: pow2_add)
  with ulp_exp_lower [OF x0, of prec] have "pow2 (?e + prec - 1) < pow2 (prec + k)" by linarith
  then have e: "?e \<le> k" by (simp add: pow2_less_iff)
  have "pow2 k = pow2 (k - ?e) * pow2 ?e" by (simp flip: pow2_add)
  then have "?x = of_int m * pow2 (k - ?e) * pow2 ?e" by (simp only: mult.assoc)
  then have "?x / pow2 ?e = of_int m * pow2 (k - ?e)"
    using pow2_pos [of ?e] by (metis nonzero_mult_div_cancel_right less_irrefl)
  also have "\<dots> = of_int (m * 2 ^ nat (k - ?e))" using e by (simp add: pow2_def)
  finally have int: "?x / pow2 ?e = of_int (m * 2 ^ nat (k - ?e))" .
  have "fl prec ?x = of_int (rne (?x / pow2 ?e)) * pow2 ?e" using x0 by (simp add: fl_def Let_def)
  also have "rne (?x / pow2 ?e) = m * 2 ^ nat (k - ?e)" unfolding int by (rule rne_of_int)
  also have "of_int (m * 2 ^ nat (k - ?e)) * pow2 ?e = ?x / pow2 ?e * pow2 ?e" by (simp only: int)
  also have "\<dots> = ?x" using pow2_pos [of ?e] by (metis nonzero_divide_eq_eq less_irrefl)
  finally show ?thesis .
qed (simp add: fl_def)

lemma fl_error: "\<bar>fl prec x - x\<bar> \<le> \<bar>x\<bar> * pow2 (- prec)"
proof (cases "x = 0")
  case False
  let ?e = "ulp_exp prec x"
  have pos: "0 < pow2 ?e" by simp
  have "fl prec x - x = (of_int (rne (x / pow2 ?e)) - x / pow2 ?e) * pow2 ?e"
    using False pos by (simp add: fl_def Let_def left_diff_distrib)
  then have "\<bar>fl prec x - x\<bar> = \<bar>of_int (rne (x / pow2 ?e)) - x / pow2 ?e\<bar> * pow2 ?e"
    using pos by (simp add: abs_mult abs_of_pos)
  also have "\<dots> \<le> 1 / 2 * pow2 ?e"
    by (rule mult_right_mono [OF rne_error]) (simp add: less_imp_le)
  also have "1 / 2 * pow2 ?e = pow2 (?e + prec - 1) * pow2 (- prec)"
  proof -
    have "pow2 (?e + prec - 1) * pow2 (- prec) = pow2 (?e + (- 1))" by (simp flip: pow2_add)
    also have "\<dots> = pow2 ?e * (1 / 2)" by (simp only: pow2_add) (simp add: pow2_def [of "- 1"])
    finally show ?thesis by (simp only: mult.commute)
  qed
  also have "\<dots> \<le> \<bar>x\<bar> * pow2 (- prec)"
    by (rule mult_right_mono [OF ulp_exp_lower [OF False]]) (simp add: less_imp_le)
  finally show ?thesis .
qed (simp add: fl_def)

corollary dbl_error: "\<bar>dbl x - x\<bar> \<le> \<bar>x\<bar> / 2 ^ 53"
  using fl_error [of 53 x] by (simp add: pow2_def)

lemma dbl_0 [simp]: "dbl 0 = 0"
  by (simp add: fl_def)

corollary d_of_int_exact: "\<bar>i\<bar> < 2 ^ 53 \<Longrightarrow> d_of_int i = of_int i"
  using fl_exact [of i 53 0] by (simp add: d_of_int_def)

text \<open>The value of a rounding, by exhibiting its significand and exponent.\<close>

lemma ulp_exp_upper:
  assumes "x \<noteq> 0"
  shows "\<bar>x\<bar> < pow2 (ulp_exp prec x + prec)"
proof -
  obtain p q where pq: "quotient_of \<bar>x\<bar> = (p, q)" by (cases "quotient_of \<bar>x\<bar>")
  have q: "0 < q" and x: "\<bar>x\<bar> = of_int p / of_int q"
    using quotient_of_denom_pos [OF pq] quotient_of_div [OF pq] by simp_all
  have "0 < \<bar>x\<bar>" using assms by simp
  with x q have p: "0 < p" by (simp add: zero_less_divide_iff)
  let ?bp = "nbits (nat p)" and ?bq = "nbits (nat q)"
  let ?k = "int ?bp - int ?bq"
  have bp: "nat p < 2 ^ ?bp" using nbits_bounds [of "nat p"] p by simp
  have bq: "2 ^ (?bq - 1) \<le> nat q" "0 < ?bq" using nbits_bounds [of "nat q"] q by simp_all
  have lp: "of_int p < pow2 (int ?bp)"
  proof -
    have "of_nat (nat p) < (of_nat (2 ^ ?bp) :: rat)" using bp by (simp only: of_nat_less_iff)
    then show ?thesis using p by (simp add: pow2_nat)
  qed
  have lq: "pow2 (int ?bq - 1) \<le> of_int q"
  proof -
    have "pow2 (int ?bq - 1) = of_nat (2 ^ (?bq - 1))" using bq(2) pow2_nat [of "?bq - 1"] by (simp add: of_nat_diff)
    also have "\<dots> \<le> of_nat (nat q)" using bq(1) by (simp only: of_nat_le_iff)
    finally show ?thesis using q by simp
  qed
  have "pow2 (?k + 1) * pow2 (int ?bq - 1) = pow2 (int ?bp)" by (simp flip: pow2_add add: algebra_simps)
  moreover have "pow2 (?k + 1) * pow2 (int ?bq - 1) \<le> pow2 (?k + 1) * of_int q"
    by (rule mult_left_mono [OF lq]) (simp add: less_imp_le)
  ultimately have "of_int p < pow2 (?k + 1) * of_int q" using lp by linarith
  then have up: "\<bar>x\<bar> < pow2 (?k + 1)" using q x by (simp add: pos_divide_less_eq)
  show ?thesis
  proof (cases "\<bar>x\<bar> < pow2 ?k")
    case True
    then have "ulp_exp prec x + prec = ?k" using pq by (simp add: ulp_exp_def Let_def)
    with True show ?thesis by simp
  next
    case False
    then have "ulp_exp prec x + prec = ?k + 1" using pq by (simp add: ulp_exp_def Let_def)
    with up show ?thesis by simp
  qed
qed

lemma pow2_le_abs_nonzero:
  assumes "pow2 k \<le> \<bar>x\<bar>"
  shows "x \<noteq> 0"
proof
  assume "x = 0"
  with assms have "pow2 k \<le> 0" by simp
  with pow2_pos [of k] show False by linarith
qed

lemma ulp_exp_eqI:
  assumes "pow2 (e + prec - 1) \<le> \<bar>x\<bar>" "\<bar>x\<bar> < pow2 (e + prec)"
  shows "ulp_exp prec x = e"
proof -
  have x: "x \<noteq> 0" by (rule pow2_le_abs_nonzero [OF assms(1)])
  have "pow2 (ulp_exp prec x + prec - 1) < pow2 (e + prec)" "pow2 (e + prec - 1) < pow2 (ulp_exp prec x + prec)"
    using ulp_exp_lower [OF x, of prec] ulp_exp_upper [OF x, of prec] assms by linarith+
  then show ?thesis by (simp add: pow2_less_iff)
qed

lemma rne_eqI:
  assumes "\<bar>x - of_int m\<bar> < 1 / 2"
  shows "rne x = m"
proof -
  have "\<bar>of_int (rne x) - (of_int m :: rat)\<bar> < 1" using rne_error [of x] assms by linarith
  then have "\<bar>rne x - m\<bar> < 1" by (metis of_int_abs of_int_diff of_int_less_1_iff)
  then show ?thesis by linarith
qed

lemma fl_eqI:
  assumes "pow2 (e + prec - 1) \<le> \<bar>x\<bar>" "\<bar>x\<bar> < pow2 (e + prec)" "\<bar>x / pow2 e - of_int m\<bar> < 1 / 2"
  shows "fl prec x = of_int m * pow2 e"
proof -
  have "x \<noteq> 0" by (rule pow2_le_abs_nonzero [OF assms(1)])
  with ulp_exp_eqI [OF assms(1,2)] rne_eqI [OF assms(3)] show ?thesis by (simp add: fl_def Let_def)
qed

text \<open>The double nearest to 0.29 times 100 is the double just below 29.\<close>

lemma cents_29:
  "d_mul 29 (dbl (1 / 100)) = 5224175567749775 / 2 ^ 54"
  "d_mul (5224175567749775 / 2 ^ 54) 100 = 8162774324609023 / 2 ^ 48"
  "d_trunc (8162774324609023 / 2 ^ 48) = 28"
proof -
  have c: "dbl (1 / 100) = of_int 5764607523034235 * pow2 (- 59)"
    by (rule fl_eqI) (simp_all add: pow2_def)
  have "dbl (29 * (of_int 5764607523034235 * pow2 (- 59))) = of_int 5224175567749775 * pow2 (- 54)"
    by (rule fl_eqI) (simp_all add: pow2_def)
  then show "d_mul 29 (dbl (1 / 100)) = 5224175567749775 / 2 ^ 54"
    unfolding d_mul_def c by (simp add: pow2_def)
  have "dbl (5224175567749775 / 2 ^ 54 * 100) = of_int 8162774324609023 * pow2 (- 48)"
    by (rule fl_eqI) (simp_all add: pow2_def)
  then show "d_mul (5224175567749775 / 2 ^ 54) 100 = 8162774324609023 / 2 ^ 48"
    unfolding d_mul_def by (simp add: pow2_def)
  show "d_trunc (8162774324609023 / 2 ^ 48) = 28" by (simp add: d_trunc_def floor_eq_iff)
qed

section \<open>Rounding is monotone\<close>

lemma rne_mono: "x \<le> y \<Longrightarrow> rne x \<le> rne y"
proof -
  assume xy: "x \<le> y"
  have f: "of_int \<lfloor>x\<rfloor> \<le> x" "x < of_int \<lfloor>x\<rfloor> + 1" "of_int \<lfloor>y\<rfloor> \<le> y" "y < of_int \<lfloor>y\<rfloor> + 1" by linarith+
  have le: "\<lfloor>x\<rfloor> \<le> \<lfloor>y\<rfloor>" using xy by (rule floor_mono)
  show ?thesis
  proof (cases "\<lfloor>x\<rfloor> = \<lfloor>y\<rfloor>")
    case True
    with xy show ?thesis by (auto simp: rne_def Let_def)
  next
    case False
    with le have "\<lfloor>x\<rfloor> + 1 \<le> \<lfloor>y\<rfloor>" by simp
    moreover have "rne x \<le> \<lfloor>x\<rfloor> + 1" "\<lfloor>y\<rfloor> \<le> rne y" by (auto simp: rne_def Let_def)
    ultimately show ?thesis by linarith
  qed
qed

lemma rne_ge: "of_int n \<le> x \<Longrightarrow> n \<le> rne x"
  using rne_mono [of "of_int n" x] by simp

lemma rne_le: "x \<le> of_int n \<Longrightarrow> rne x \<le> n"
  using rne_mono [of x "of_int n"] by simp

lemma fl_between:
  assumes "0 < x" "0 < prec"
  shows "pow2 (ulp_exp prec x + prec - 1) \<le> fl prec x" "fl prec x \<le> pow2 (ulp_exp prec x + prec)"
proof -
  let ?e = "ulp_exp prec x"
  obtain n where n: "prec = int (Suc n)" using assms(2) by (metis gr0_implies_Suc int_nat_eq le_less nat_0_iff nat_eq_iff2 not_gr_zero not_le)
  have split: "pow2 (?e + prec - 1) = of_int (2 ^ n) * pow2 ?e" "pow2 (?e + prec) = of_int (2 ^ Suc n) * pow2 ?e"
    using pow2_add [of "int n" ?e] pow2_add [of "int (Suc n)" ?e] pow2_nat [of n] pow2_nat [of "Suc n"]
    by (simp_all add: n add.commute)
  have "of_int (2 ^ n) \<le> x / pow2 ?e" "x / pow2 ?e \<le> of_int (2 ^ Suc n)"
    using ulp_exp_lower [of x prec] ulp_exp_upper [of x prec] assms(1) unfolding split
    by (simp_all add: pos_le_divide_eq pos_divide_le_eq)
  then have "2 ^ n \<le> rne (x / pow2 ?e)" "rne (x / pow2 ?e) \<le> 2 ^ Suc n"
    using rne_ge [of "2 ^ n" "x / pow2 ?e"] rne_le [of "x / pow2 ?e" "2 ^ Suc n"] by blast+
  then have "(2 :: rat) ^ n \<le> of_int (rne (x / pow2 ?e))" "of_int (rne (x / pow2 ?e)) \<le> (2 :: rat) ^ Suc n"
    by (metis of_int_le_iff of_int_numeral of_int_power)+
  then show "pow2 (?e + prec - 1) \<le> fl prec x" "fl prec x \<le> pow2 (?e + prec)"
    unfolding split fl_def using assms(1) by (simp_all add: Let_def mult_right_mono del: power_Suc)
qed

lemma fl_nonneg: "0 \<le> x \<Longrightarrow> 0 < prec \<Longrightarrow> 0 \<le> fl prec x"
  using fl_between(1) [of x prec] pow2_pos by (cases "x = 0") (simp add: fl_def, metis less_le_trans less_le order.order_iff_strict)

lemma ulp_exp_mono:
  assumes "0 < x" "x \<le> y"
  shows "ulp_exp prec x \<le> ulp_exp prec y"
proof -
  have "pow2 (ulp_exp prec x + prec - 1) < pow2 (ulp_exp prec y + prec)"
    using ulp_exp_lower [of x prec] ulp_exp_upper [of y prec] assms by simp
  then show ?thesis by (simp add: pow2_less_iff)
qed

lemma fl_mono:
  assumes "0 \<le> x" "x \<le> y" "0 < prec"
  shows "fl prec x \<le> fl prec y"
proof (cases "x = 0")
  case True
  with fl_nonneg [of y prec] assms show ?thesis by (simp add: fl_def)
next
  case False
  with assms have x: "0 < x" "0 < y" by simp_all
  let ?e = "ulp_exp prec x" and ?f = "ulp_exp prec y"
  have "?e \<le> ?f" by (rule ulp_exp_mono [OF x(1) assms(2)])
  show ?thesis
  proof (cases "?e = ?f")
    case True
    have "rne (x / pow2 ?e) \<le> rne (y / pow2 ?e)" using assms(2) by (intro rne_mono divide_right_mono) (simp_all add: less_imp_le)
    with True x show ?thesis by (simp add: fl_def Let_def mult_right_mono less_imp_le)
  next
    case False
    with \<open>?e \<le> ?f\<close> have "pow2 (?e + prec) \<le> pow2 (?f + prec - 1)" by (intro pow2_mono) simp
    with fl_between(2) [OF x(1) assms(3)] fl_between(1) [OF x(2) assms(3)] show ?thesis by linarith
  qed
qed

end
