(* ===== verification/Filter_Semantics.thy ===== *)
theory Filter_Semantics
  imports Filter_Block
begin

text \<open>
  What single conditions mean: comparisons with DECIMAL columns, IN lists, and the conditions that do
  not mean what the same condition means in SQL (string constants in \<open>LE\<close>, \<open>GT\<close>, \<open>LT\<close>,
  \<open>NE\<close> and \<open>BETWEEN\<close>, trailing blanks, negative integers compared with a DECIMAL column).
\<close>

section \<open>Hexadecimal text and byte order\<close>

lemma show_width_add:
  assumes "0 < b"
  shows "show_width b (j + k) n = show_width b j (n div b ^ k) @ show_width b k (n mod b ^ k)"
proof (induction k arbitrary: n)
  case (Suc k)
  have split: "n mod b ^ Suc k = b * (n div b mod b ^ k) + n mod b" by (simp add: mod_mult2_eq)
  have "n mod b ^ Suc k div b = n div b mod b ^ k" "n mod b ^ Suc k mod b = n mod b"
    unfolding split using assms by simp_all
  moreover have "n div b div b ^ k = n div b ^ Suc k" by (simp add: div_mult2_eq)
  ultimately show ?case using Suc [of "n div b"] by simp
qed simp

lemma hex_byte_width: "hex_byte b = show_width 16 2 (of_char b)"
proof -
  let ?n = "of_char b :: nat"
  have n: "?n < 16 ^ 2" using of_char_less_256 [of b] by simp
  have hex: "stream_hex (of_char b) = show_base 16 ?n"
  proof -
    have "(of_char b :: int) = int ?n" by (simp only: of_nat_of_char)
    moreover have "nat (int ?n mod 2 ^ 32) = ?n"
    proof -
      have "m < 256 \<Longrightarrow> nat (int m mod 2 ^ 32) = m" for m by simp
      from this [OF of_char_less_256] show ?thesis .
    qed
    ultimately show ?thesis by (simp only: stream_hex_def)
  qed
  from show_base_pad [of 16 ?n 2] n
  have len: "length (show_base 16 ?n) \<le> 2"
    and pad: "replicate (2 - length (show_base 16 ?n)) (CHR ''0'') @ show_base 16 ?n = show_width 16 2 ?n"
    by simp_all
  have pos: "show_base 16 ?n \<noteq> []" by (subst show_base.simps) simp
  show ?thesis
  proof (cases "length (show_base 16 ?n) \<le> 1")
    case True
    with pos have "length (show_base 16 ?n) = 1" by (cases "show_base 16 ?n") auto
    with pad hex show ?thesis by (simp add: hex_byte_def Let_def)
  next
    case False
    with len have "length (show_base 16 ?n) = 2" by simp
    with pad hex show ?thesis by (simp add: hex_byte_def Let_def)
  qed
qed

lemma dec_text_width: "dec_text bs = show_width 16 (2 * length bs) (be_nat bs)"
proof (induction bs)
  case (Cons b bs)
  have p: "(16 :: nat) ^ (2 * length bs) = 256 ^ length bs" by (simp add: power_mult)
  have "show_width 16 (2 + 2 * length bs) (be_nat (b # bs)) =
      show_width 16 2 (of_char b) @ show_width 16 (2 * length bs) (be_nat bs)"
    using show_width_add [of 16 2 "2 * length bs" "be_nat (b # bs)"] p be_nat_less [of bs] by simp
  with Cons show ?case by (simp add: dec_text_def hex_byte_width)
qed (simp add: dec_text_def)

text \<open>The text of two DECIMAL columns of the same length orders as their bytes do.\<close>

lemma dec_text_le_iff:
  assumes "length xs = length ys"
  shows "dec_text xs \<le> dec_text ys \<longleftrightarrow> be_nat xs \<le> be_nat ys"
proof -
  have "(16 :: nat) ^ (2 * n) = 256 ^ n" for n by (simp add: power_mult)
  with assms be_nat_less [of xs] be_nat_less [of ys] show ?thesis
    by (simp add: dec_text_width show_width_le)
qed

section \<open>DECIMAL(15,2)\<close>

text \<open>
  MySQL's binary form of a non-negative DECIMAL(15,2): two bytes for the four leading integer
  digits (with the sign bit set), four bytes for the nine others, one byte for the fraction, each
  group big-endian.
\<close>

definition dec15_2 :: "nat \<Rightarrow> nat \<Rightarrow> string" where
  \<comment> \<open>integer part below \<open>10 ^ 13\<close>, hundredths below 100\<close>
  "dec15_2 n f = be_bytes 2 (2 ^ 15 + n div 10 ^ 9) @ be_bytes 4 (n mod 10 ^ 9) @ be_bytes 1 f"

lemma be_nat_dec15_2:
  assumes "n < 10 ^ 9" "f < 100"
  shows "be_nat (dec15_2 n f) = 2 ^ 55 + n * 256 + f" "length (dec15_2 n f) = 7"
  using assms by (simp_all add: dec15_2_def be_nat_append)

lemma ItoDec_text:
  assumes "is_int32 k"
  shows "ItoDec k = show_width 16 14 (2 ^ 55 + nat (k mod 2 ^ 32) * 256)"
proof -
  define m where "m = nat (k mod 2 ^ 32)"
  have lt: "m < 2 ^ 32"
    using pos_mod_bound [of "2 ^ 32 :: int" k] by (simp add: m_def nat_less_iff)
  let ?v = "2 ^ 55 + m * 256" and ?w = "2 ^ 47 + m"
  have v: "?v mod 16 ^ 2 = 0" "?v div 16 ^ 2 = ?w"
    using mod_mult_self1_is_0 [of 256 ?w] by simp_all
  have "?w = m + 128 * 16 ^ 10" by simp
  then have "?w mod 16 ^ 10 = m mod 16 ^ 10" by (simp only: mod_mult_self1)
  then have w: "?w mod 16 ^ 10 = m" "?w div 16 ^ 10 = 128" using lt by simp_all
  have "show_width 16 (2 + 10 + 2) ?v = (show_width 16 2 128 @ show_width 16 10 (m)) @ show_width 16 2 0"
    by (simp only: show_width_add [of 16 "2 + 10" 2] show_width_add [of 16 2 10] v w zero_less_numeral)
  moreover have "show_width 16 2 128 = ''80''" "show_width 16 2 0 = ''00''"
    by (simp_all add: numeral_2_eq_2 digit_char_def)
  moreover have "2 + 10 + 2 = (14 :: nat)" by simp
  ultimately show ?thesis
    by (simp only: ItoDec_width [OF assms] m_def [symmetric] append_assoc)
qed

text \<open>The text of a DECIMAL(15,2) and the text of a non-negative integer constant order as the numbers do.\<close>

lemma dec15_2_order:
  assumes "n < 10 ^ 9" "f < 100" "0 \<le> k" "k < 2 ^ 31"
  shows "ItoDec k \<le> dec_text (dec15_2 n f) \<longleftrightarrow> 100 * k \<le> int (100 * n + f)"
    "dec_text (dec15_2 n f) \<le> ItoDec k \<longleftrightarrow> int (100 * n + f) \<le> 100 * k"
proof -
  let ?a = "2 ^ 55 + n * 256 + f" and ?b = "2 ^ 55 + nat k * 256"
  have lt: "nat k < 2 ^ 31" using assms(3,4) by (simp add: nat_less_iff)
  have k: "is_int32 k" "k mod 2 ^ 32 = k" using assms(3,4) by (simp_all add: is_int32_def)
  have a: "dec_text (dec15_2 n f) = show_width 16 14 ?a"
    using be_nat_dec15_2 [OF assms(1,2)] by (simp add: dec_text_width)
  have b: "ItoDec k = show_width 16 14 ?b" using ItoDec_text [OF k(1)] k(2) by simp
  have bound: "?a < 16 ^ 14" "?b < 16 ^ 14" using assms(1,2) lt by simp_all
  have text_le: "show_width 16 14 ?b \<le> show_width 16 14 ?a \<longleftrightarrow> ?b \<le> ?a"
    "show_width 16 14 ?a \<le> show_width 16 14 ?b \<longleftrightarrow> ?a \<le> ?b"
    using bound by (simp_all add: show_width_le)
  have "c + x * 256 \<le> c + n * 256 + f \<longleftrightarrow> 100 * x \<le> 100 * n + f"
    "c + n * 256 + f \<le> c + x * 256 \<longleftrightarrow> 100 * n + f \<le> 100 * x" for c x :: nat
    using assms(2) by (cases "x \<le> n"; linarith)+
  moreover have "int (100 * nat k) = 100 * k" using assms(3) by simp
  ultimately show "ItoDec k \<le> dec_text (dec15_2 n f) \<longleftrightarrow> 100 * k \<le> int (100 * n + f)"
    "dec_text (dec15_2 n f) \<le> ItoDec k \<longleftrightarrow> int (100 * n + f) \<le> 100 * k"
    unfolding a b text_le by (metis of_nat_le_iff)+
qed

text \<open>Hexadecimal text has nothing to trim.\<close>

lemma trim_hex: "trim (show_width 16 k n) = show_width 16 k n"
proof -
  have "digit_char d \<notin> set trim_chars" if "d < 16" for d
  proof -
    have "\<forall>d<16. digit_char d \<notin> set trim_chars"
      by (simp add: All_less_Suc eval_nat_numeral digit_char_def trim_chars_def)
    with that show ?thesis by blast
  qed
  then have "\<forall>c\<in>set (show_width 16 k n). c \<notin> set trim_chars" by (induction k arbitrary: n) auto
  then have "dropWhile (\<lambda>c. c \<in> set trim_chars) xs = xs" if "set xs = set (show_width 16 k n)" for xs
    using that by (cases xs) auto
  then show ?thesis by (simp add: trim_def ltrim_dropWhile rtrim_dropWhile)
qed

fun compares :: "opertype \<Rightarrow> int \<Rightarrow> int \<Rightarrow> bool" where
  "compares GE a b = (b \<le> a)"
| "compares LE a b = (a \<le> b)"
| "compares GT a b = (b < a)"
| "compares LT a b = (a < b)"
| "compares ET a b = (a = b)"
| "compares NE a b = (a \<noteq> b)"
| "compares _ a b = False"

lemma dec15_2_compares:
  assumes "n < 10 ^ 9" "f < 100" "0 \<le> k" "k < 2 ^ 31" "p \<in> set compare_ops"
  shows "oper_holds p (Strs (dec_text (dec15_2 n f)) (ItoDec k)) = compares p (int (100 * n + f)) (100 * k)"
proof -
  let ?a = "dec_text (dec15_2 n f)" and ?b = "ItoDec k"
  note order = dec15_2_order [OF assms(1-4)]
  have "is_int32 k" using assms(3,4) by (simp add: is_int32_def)
  then have trim: "trim ?a = ?a" "trim ?b = ?b" by (simp_all only: dec_text_width ItoDec_text trim_hex)
  have less: "?b < ?a \<longleftrightarrow> 100 * k < int (100 * n + f)" "?a < ?b \<longleftrightarrow> int (100 * n + f) < 100 * k"
    using order by (simp_all only: less_le_not_le)
  have eq: "?a = ?b \<longleftrightarrow> int (100 * n + f) = 100 * k" using order by (metis order.antisym order.refl)
  from assms(5) show ?thesis
    by (auto simp only: compare_ops_def list.set insert_iff empty_iff oper_holds.simps compares.simps order less eq trim)
qed

text \<open>
  The same comparison with a negative integer constant goes the wrong way: every
  non-negative column value with an integer part of at most nine digits is below it.
\<close>

theorem decimal_negative_constant:
  assumes "n < 10 ^ 9" "f < 100" "- (2 ^ 31) \<le> k" "k < 0"
  shows "\<not> oper_holds GE (Strs (dec_text (dec15_2 n f)) (ItoDec k)) \<and>
         oper_holds LE (Strs (dec_text (dec15_2 n f)) (ItoDec k))"
proof -
  let ?a = "2 ^ 55 + n * 256 + f" and ?m = "nat (k + 2 ^ 32)"
  have k: "is_int32 k" using assms(3,4) by (simp add: is_int32_def)
  have "k mod 2 ^ 32 = (k + 2 ^ 32) mod 2 ^ 32" by simp
  also have "\<dots> = k + 2 ^ 32" using assms(3,4) by (intro mod_pos_pos_trivial) simp_all
  finally have b: "ItoDec k = show_width 16 14 (2 ^ 55 + ?m * 256)" using ItoDec_text [OF k] by simp
  have m: "2 ^ 31 \<le> ?m" "?m < 2 ^ 32" using assms(3,4) by (simp_all add: nat_less_iff le_nat_iff)
  have a: "dec_text (dec15_2 n f) = show_width 16 14 ?a"
    using be_nat_dec15_2 [OF assms(1,2)] by (simp add: dec_text_width)
  have bound: "?a < 16 ^ 14" "2 ^ 55 + ?m * 256 < 16 ^ 14" using assms(1,2) m by simp_all
  have lt: "?a < 2 ^ 55 + ?m * 256" using assms(1,2) m by simp
  have "show_width 16 14 ?a < show_width 16 14 (2 ^ 55 + ?m * 256)"
    using show_width_order [of 16, OF _ _ bound] lt by simp
  then have "\<not> ItoDec k \<le> dec_text (dec15_2 n f)" "dec_text (dec15_2 n f) \<le> ItoDec k"
    unfolding a b by (simp_all only: not_le less_imp_le)
  then show ?thesis unfolding oper_holds.simps by blast
qed

theorem decimal_negative_constant_witness:
  "\<not> oper_holds GE (Strs (dec_text (dec15_2 7 0)) (ItoDec (- 1)))"
  using decimal_negative_constant [of 7 0 "- 1"] by simp

section \<open>A concrete reader\<close>

definition ex_vars :: row_vars where
  "ex_vars = \<lparr> CV = False, TmpV = True, Passed = False, isSaved = False, canSaved = False,
     isnot = False, substringflag = False, tmpsubstring = [] \<rparr>"

definition ex_fo :: Filter_obj where
  "ex_fo = \<lparr> newstartptr = Map.empty, newlengthraw = Map.empty, joinmap = Map.empty,
     rowfilterdata = \<lparr> rf_startoff = [0, 4], rf_offlen = [4, 10], rf_datatype = [3, 15],
       rf_ColName = [''id'', ''nm''], rf_varcharlist = [1], rf_ColIndexmap = [''id'' \<mapsto> 0, ''nm'' \<mapsto> 1],
       rf_offsetcount = 0, rf_rowoffset = 0, rf_rowbuf = rs_data ex_scan,
       rf_bufsize = BUFF_SIZE \<rparr>,
     rownum = 0, saverowcount = 0 \<rparr>"

abbreviation ex_types :: "string \<rightharpoonup> int" where
  "ex_types \<equiv> map_of (zip [''id'', ''nm''] [3, 15])"

lemma ex_reader: "row_reader BUFF_SIZE ex_types [''id'', ''nm''] (ex_rows ! 0) 0 (rs_data ex_scan) (start_row 0 ex_fo)"
proof -
  have info: "rs_filter_info ex_scan = ex_info" by (simp add: ex_scan_def)
  have ready: "filter_ready BUFF_SIZE ex_info (rs_data ex_scan) ex_fo"
    by (simp add: filter_ready_def ex_fo_def ex_info_def Let_def less_Suc_eq)
  have fits: "fits_schema ex_info (ex_rows ! 0)"
    using ex_schema(2) unfolding info by (simp add: ex_rows_def)
  note lay = ex_layout [unfolded result_rows_def]
  have "0 < length (map enc_row ex_rows)" by (simp add: ex_rows_def)
  from row_layout_nth [OF lay this] have "row_at BUFF_SIZE (rs_data ex_scan) 0 (enc_row (ex_rows ! 0))"
    by (simp add: row_at_def ex_scan_def ex_rows_def enc_row_def enc_field_def hdr_len_def csd_sizes)
  from start_row_reader [OF ready ex_schema(1) [unfolded info] fits this]
  show ?thesis by (simp add: ex_info_def)
qed

lemma ex_terms:
  "term_value [''id'', ''nm''] (ex_rows ! 0) (JStr ''nm'') = Some (CStr ''ab'')"
  "term_value [''id'', ''nm''] (ex_rows ! 0) (JStr ''id'') = Some (CInt 5)"
  "term_value [''id'', ''nm''] (ex_rows ! 0) (JStr (CHR ''+'' # s)) = Some (KStr s)"
  by (simp_all add: ex_rows_def term_value_def field_value_def little_field_def little_value_int32 is_int32_def)

section \<open>Comparisons with a DECIMAL column\<close>

text \<open>
  C29. A comparison between a DECIMAL(15,2) column and an integer constant, by any of the six operators of \<open>BlockFilter\<close>, for a
  non-negative constant that fits into an \<open>int\<close> and a non-negative column value whose integer part has at most nine digits.
  The operator's case reads the column, turns both sides into hexadecimal text and compares these; it does not fail, and sets
  \<open>CV\<close> and \<open>canSaved\<close> to what the comparison of the numbers gives, combined with the conjunction before it (\<open>TmpV\<close>) and a
  NOT (\<open>isnot\<close>). The other variables of the row stay as they are, and the columns can still be read.
\<close>

theorem decimal_compare_correct:
  assumes "row_reader cap typedata names fs base d fo" "\<not> Passed v"
    and "has_op p c" "p \<in> {GE, LE, GT, LT, ET, NE}"
    and "json_member c ''LV'' = Inr (JStr (names ! i))" "json_member c ''RV'' = Inr (JInt k)"
    and "i < length fs" "fs ! i = (246, 7, dec15_2 n f)" "n < 10 ^ 9" "f < 100" "0 \<le> k" "k < 2 ^ 31"
  shows "\<exists>fo'. filter_case typedata d c (v, fo) =
      (let r = (TmpV v \<and> compares p (int (100 * n + f)) (100 * k)) \<noteq> isnot v
       in Inr (v\<lparr>CV := r, canSaved := r\<rparr>, fo')) \<and>
    row_reader cap typedata names fs base d fo'"
proof -
  have p: "p \<in> set compare_ops" using assms(4) by (simp add: compare_ops_def)
  have "map_of (zip names fs) (names ! i) = Some (fs ! i)"
    using row_reader_schema(1,2) [OF assms(1)] assms(7) by (simp add: map_of_zip_nth)
  then have "term_value names fs (JStr (names ! i)) = Some (CDec (dec_text (dec15_2 n f)))"
    using assms(8) by (simp add: term_value_def field_value_def little_field_def)
  moreover have "term_value names fs (JInt k) = Some (KInt k)" using assms(11,12) by (simp add: term_value_def is_int32_def)
  ultimately have "clause_operands names fs p c = Some (Strs (dec_text (dec15_2 n f)) (ItoDec k))"
    using assms(5,6) by (simp add: clause_operands_def member_term_def)
  from clause_compare_ok [OF assms(1,3) p this assms(2)] show ?thesis
    unfolding dec15_2_compares [OF assms(9-12) p] compare_flags_eq Let_def by (simp add: conj_commute)
qed

text \<open>A table with the one column \<open>p\<close>, and a row that holds 12.05 in it.\<close>

definition ex_dec_info :: FilterInfo where
  "ex_dec_info = \<lparr> table_col = [''p''], table_offset = [0], table_offlen = [7], table_datatype = [246],
     colindexmap = [''p'' \<mapsto> 0], table_filter = [], column_projection = [], projection_datatype = [], groupby_col = [] \<rparr>"

definition ex_dec_fo :: Filter_obj where
  "ex_dec_fo = ex_fo\<lparr> rowfilterdata := \<lparr> rf_startoff = [0], rf_offlen = [7], rf_datatype = [246],
       rf_ColName = [''p''], rf_varcharlist = [], rf_ColIndexmap = [''p'' \<mapsto> 0],
       rf_offsetcount = 0, rf_rowoffset = 0, rf_rowbuf = buf_write (\<lambda>_. CHR 0x00) 0 (dec15_2 12 5),
       rf_bufsize = BUFF_SIZE \<rparr> \<rparr>"

lemma ex_dec_reader:
  "row_reader BUFF_SIZE (map_of (zip [''p''] [246])) [''p''] [(246, 7, dec15_2 12 5)] 0 (buf_write (\<lambda>_. CHR 0x00) 0 (dec15_2 12 5))
     (start_row 0 ex_dec_fo)"
proof -
  let ?d = "buf_write (\<lambda>_. CHR 0x00) 0 (dec15_2 12 5)" and ?fs = "[(246, 7, dec15_2 12 5)]"
  have len: "length (dec15_2 12 5) = 7" by (simp add: be_nat_dec15_2(2))
  have ready: "filter_ready BUFF_SIZE ex_dec_info ?d ex_dec_fo"
    by (simp add: filter_ready_def ex_dec_fo_def ex_dec_info_def Let_def)
  have schema: "block_schema ex_dec_info" "fits_schema ex_dec_info ?fs"
    using len by (simp_all add: block_schema_def fits_schema_def ex_dec_info_def wf_field_def)
  have "enc_row ?fs = dec15_2 12 5" by (simp add: enc_row_def enc_field_def hdr_len_def)
  then have "row_at BUFF_SIZE ?d 0 (enc_row ?fs)"
    using buf_read_write_same [of "\<lambda>_. CHR 0x00" 0 "dec15_2 12 5"] len by (simp add: row_at_def csd_sizes)
  from start_row_reader [OF ready schema this] show ?thesis by (simp add: ex_dec_info_def)
qed

theorem decimal_compare_correct_witness:
  "\<exists>fo'. filter_case (map_of (zip [''p''] [246])) (buf_write (\<lambda>_. CHR 0x00) 0 (dec15_2 12 5))
      (JObj [(''LV'', JStr ''p''), (''OPERATOR'', JInt 1), (''RV'', JInt 12)]) (ex_vars, start_row 0 ex_dec_fo) =
    Inr (ex_vars\<lparr>CV := True, canSaved := True\<rparr>, fo')"
  using decimal_compare_correct [OF ex_dec_reader, where v = ex_vars and p = GE and i = 0 and k = 12 and n = 12 and f = 5 and
      c = "JObj [(''LV'', JStr ''p''), (''OPERATOR'', JInt 1), (''RV'', JInt 12)]"]
  by (auto simp: has_op_def ex_vars_def)

section \<open>String constants\<close>

text \<open>
  \<open>LE\<close>, \<open>GT\<close>, \<open>LT\<close> and \<open>NE\<close> between a CHAR or VARSTRING column and a string constant do
  not compare with the constant: it is looked up as a column name, and the column is compared
  with the empty string.
\<close>

theorem string_constant_lost:
  assumes "row_reader cap typedata names fs base d fo" "has_op p c" "p \<in> {LE, GT, LT, NE}"
    and "member_term names fs c ''LV'' = Some (CStr a)" "member_term names fs c ''RV'' = Some (KStr b)"
    and "\<not> Passed v"
  shows "\<exists>fo'. filter_case typedata d c (v, fo) = Inr (compare_flags (oper_holds p (Strs a [])) v, fo')"
proof -
  from assms(4,5) obtain jl jr where jl: "json_member c ''LV'' = Inr jl" "term_value names fs jl = Some (CStr a)"
    and jr: "json_member c ''RV'' = Inr jr" "term_value names fs jr = Some (KStr b)"
    by (metis member_term_Some)
  from term_CStr [OF assms(1) jl(2)] obtain s fo1 where
    s: "jl = JStr s" "\<not> little_type typedata s" "big_type typedata s" "typeBig s d fo = Inr (a, fo1)"
    "row_reader cap typedata names fs base d fo1" by blast
  from jr(2) obtain r where r: "jr = JStr r" "map_of (zip names fs) r = None"
    by (auto simp: term_value_def field_value_def split: json.splits option.splits if_splits)
  with row_reader_schema(1) [OF s(5)] have "r \<notin> set names" by (simp add: map_of_zip_is_None)
  from typeBig_unknown [OF s(5) this] obtain fo2 where fo2: "typeBig r d fo1 = Inr ([], fo2)" by blast
  have ops: "compare_operands (rv_big_plain typedata d) typedata d c fo = Inr (Strs a [], fo2)"
    using jl(1) jr(1) s(1-4) r(1) fo2 by (simp add: compare_operands_def rv_big_plain_def)
  note case_op = filter_case_op [OF assms(2,6), of typedata d fo]
  from assms(3) consider "p = LE" | "p = GT" | "p = LT" | "p = NE" by auto
  then show ?thesis
    using ops case_op
    by cases (simp_all add: clause_LE_def clause_GT_def clause_LT_def clause_NE_def apply_compare_def compare_defs)
qed

theorem string_constant_lost_witness:
  "\<exists>fo'. filter_case ex_types (rs_data ex_scan)
      (JObj [(''LV'', JStr ''nm''), (''OPERATOR'', JInt 4), (''RV'', JStr ''+zz'')]) (ex_vars, start_row 0 ex_fo)
    = Inr (ex_vars\<lparr>CV := False, canSaved := False\<rparr>, fo')"
  using string_constant_lost [OF ex_reader, where p = LT and v = ex_vars and a = "''ab''" and b = "''zz''" and
      c = "JObj [(''LV'', JStr ''nm''), (''OPERATOR'', JInt 4), (''RV'', JStr ''+zz'')]"]
  by (simp add: has_op_def member_term_def ex_terms ex_vars_def compare_flags_eq)

text \<open>
  BETWEEN on a CHAR or VARSTRING column with two string constants ignores the upper bound:
  the value is compared with the lower bound and with the lower bound without its first
  character.
\<close>

theorem between_string_upper_bound_lost:
  assumes "row_reader cap typedata names fs base d fo" "has_op BETWEEN c"
    and "member_term names fs c ''LV'' = Some (CStr a)"
    and "json_member c ''EXTRA'' = Inr (JArr [x, y])"
    and "term_value names fs x = Some (KStr lo)" "term_value names fs y = Some (KStr hi)"
    and "lo \<noteq> []" "\<not> Passed v" "\<not> isnot v"
  shows "\<exists>fo'. filter_case typedata d c (v, fo) = Inr (v\<lparr>CV := (lo \<le> a \<and> a \<le> tl lo)\<rparr>, fo')"
proof -
  from assms(3) obtain jl where jl: "json_member c ''LV'' = Inr jl" "term_value names fs jl = Some (CStr a)"
    by (metis member_term_Some)
  from term_CStr [OF assms(1) jl(2)] obtain s fo1 where
    s: "jl = JStr s" "\<not> little_type typedata s" "big_type typedata s" "typeBig s d fo = Inr (a, fo1)" by blast
  from term_KStr [OF assms(1,5)] obtain r where
    r: "x = JStr r" "\<not> little_type typedata r" "std_substr_from r 1 = Inr lo" by blast
  from term_KStr [OF assms(1,6)] obtain q where q: "y = JStr q" "\<not> little_type typedata q" by blast
  have sub: "std_substr_from lo 1 = Inr (tl lo)"
    using assms(7) by (cases lo) (simp_all add: std_substr_from_def)
  show ?thesis
    using assms(2,4,8,9) jl(1) s r q sub
    by (simp add: filter_case_op clause_BETWEEN_def between_result_def between_big_def not_short BetweenOperator_str_def
        negate_if_not_def)
qed

theorem between_string_upper_bound_lost_witness:
  "\<exists>fo'. filter_case ex_types (rs_data ex_scan)
      (JObj [(''LV'', JStr ''nm''), (''OPERATOR'', JInt 8), (''EXTRA'', JArr [JStr ''+aa'', JStr ''+az''])])
      (ex_vars, start_row 0 ex_fo) = Inr (ex_vars\<lparr>CV := False\<rparr>, fo')"
  using between_string_upper_bound_lost [OF ex_reader, where v = ex_vars and a = "''ab''" and
      c = "JObj [(''LV'', JStr ''nm''), (''OPERATOR'', JInt 8), (''EXTRA'', JArr [JStr ''+aa'', JStr ''+az''])]" and
      x = "JStr ''+aa''" and y = "JStr ''+az''" and lo = "''aa''" and hi = "''az''"]
  by (simp add: has_op_def member_term_def ex_terms ex_vars_def less_char_def less_eq_char_def)

text \<open>
  Equality of strings ignores leading and trailing blanks and inequality does not: for two
  different strings with the same trimmed text both conditions are true.
\<close>

theorem trimmed_equal_and_not_equal:
  assumes "trim a = trim b" "a \<noteq> b" "TmpV v" "\<not> isnot v"
  shows "CV (compareET_str a b v) \<and> CV (compareNE_str a b v)"
  using assms by (simp add: compare_defs compare_flags_eq)

theorem trimmed_equal_and_not_equal_witness:
  "CV (compareET_str ''AIR '' ''AIR'' ex_vars) \<and> CV (compareNE_str ''AIR '' ''AIR'' ex_vars)"
  by (rule trimmed_equal_and_not_equal)
    (simp_all add: ex_vars_def trim_def ltrim_dropWhile rtrim_dropWhile trim_chars_def)

section \<open>IN lists\<close>

lemma InOperator_int_constants:
  assumes "list_all is_int32 ks"
  shows "InOperator_int lv (map JInt ks) typedata rowbuf fo = Inr (lv \<in> set ks, fo)"
  using assms by (induction ks) (auto simp: in_elem_int_def)

lemma InOperator_str_constants:
  assumes "list_all (\<lambda>s. s \<noteq> [] \<and> typedata s = None) ss"
  shows "InOperator_str lv (map JStr ss) typedata rowbuf fo = Inr (lv \<in> tl ` set ss, fo)"
  using assms
proof (induction ss)
  case (Cons s ss)
  then obtain ch r where s: "s = ch # r" by (cases s) auto
  with Cons have "in_elem_str typedata rowbuf (JStr s) fo = Inr (r, fo)"
    by (simp add: in_elem_str_def type_tests std_substr_from_def)
  with Cons s show ?case by simp
qed simp

text \<open>
  IN with a list of integer constants on an integer column: \<open>CV\<close> becomes membership in the
  list. Nothing else changes: a NOT before it is ignored, and \<open>canSaved\<close> is not set.
\<close>

theorem in_list_of_integers:
  assumes "row_reader cap typedata names fs base d fo" "has_op IN_OP c"
    and "member_term names fs c ''LV'' = Some (CInt a)"
    and "json_member c ''EXTRA'' = Inr (JArr (map JInt ks))" "list_all is_int32 ks"
    and "\<not> Passed v" "\<not> substringflag v"
  shows "\<exists>fo'. filter_case typedata d c (v, fo) = Inr (v\<lparr>CV := (a \<in> set ks)\<rparr>, fo') \<and>
    row_reader cap typedata names fs base d fo'"
proof -
  from assms(3) obtain jl where jl: "json_member c ''LV'' = Inr jl" "term_value names fs jl = Some (CInt a)"
    by (metis member_term_Some)
  from term_CInt [OF assms(1) jl(2)] obtain s fo1 where
    s: "jl = JStr s" "little_type typedata s" "typeLittle typedata s d fo = Inr (a, fo1)"
    "row_reader cap typedata names fs base d fo1" by blast
  show ?thesis
    using assms(2,4,6,7) jl(1) s InOperator_int_constants [OF assms(5)]
    by (simp add: filter_case_op clause_IN_def in_result_def set_in_flags_def)
qed

theorem in_list_of_integers_witness:
  "\<exists>fo'. filter_case ex_types (rs_data ex_scan)
      (JObj [(''LV'', JStr ''id''), (''OPERATOR'', JInt 9), (''EXTRA'', JArr [JInt 3, JInt 5])])
      (ex_vars\<lparr>isnot := True\<rparr>, start_row 0 ex_fo) = Inr (ex_vars\<lparr>isnot := True, CV := True\<rparr>, fo')"
  using in_list_of_integers [OF ex_reader, where v = "ex_vars\<lparr>isnot := True\<rparr>" and a = 5 and ks = "[3, 5]" and
      c = "JObj [(''LV'', JStr ''id''), (''OPERATOR'', JInt 9), (''EXTRA'', JArr [JInt 3, JInt 5])]"]
  by (auto simp: has_op_def member_term_def ex_terms ex_vars_def is_int32_def)

end
