(* ===== verification/Merge_Values.thy ===== *)
theory Merge_Values
  imports Cpp_Double Filter_Ops Filter_Like Filter_Semantics
begin

text \<open>
  The values of the merge layer's projection machine (\<open>merge_manager.h\<close>, \<open>merge_manager.cc\<close>):
  the tagged value \<open>T\<close>, the conversions \<open>stack_charToValue\<close> and \<open>stack_valueToChar\<close> between the bytes
  of a column and a \<open>T\<close>, and the arithmetic, equality and \<open>LIKE\<close> operators of \<open>calculPostfix\<close>.

  A member of a local \<open>T t\<close> that was not assigned is \<open>None\<close>; reading it is \<open>Uninitialised\<close>. A
  function that writes through \<open>char *dest\<close> returns the bytes it writes, and its caller knows how
  many bytes \<open>dest\<close> has. Strings that come from columns or from JSON hold no NUL.
\<close>

section \<open>Tagged values\<close>

record T =
  varString :: string
  varInt :: "int option"
  varLong :: "int option"
  varFloat :: "rat option"
  varDouble :: "rat option"
  real_size :: "int option"

definition T_new :: T where
  "T_new = \<lparr> varString = [], varInt = None, varLong = None, varFloat = None, varDouble = None,
             real_size = None \<rparr>"

datatype STACK_TYPE = T_INT | T_Long | T_FLOAT | T_DOUBLE | T_STRING | T_DECIMAL | T_None

text \<open>\<open>T_None\<close> is the tag 0 of the pair that \<open>stack_charToValue\<close> value-initialises.\<close>

type_synonym operand = "T \<times> STACK_TYPE"

definition read_var :: "'a option \<Rightarrow> 'a res" where
  "read_var v = (case v of None \<Rightarrow> Inl Uninitialised | Some x \<Rightarrow> Inr x)"

lemma read_var_simps [simp]: "read_var None = Inl Uninitialised" "read_var (Some x) = Inr x"
  by (simp_all add: read_var_def)

section \<open>Columns to values\<close>

text \<open>IEEE 754 interchange formats; infinities and NaNs are outside the model.\<close>

definition ieee :: "nat \<Rightarrow> nat \<Rightarrow> nat \<Rightarrow> rat res" where
  "ieee eb mb v =
     (let m = v mod 2 ^ mb; e = v div 2 ^ mb mod 2 ^ eb; neg = odd (v div 2 ^ (mb + eb));
          bias = 2 ^ (eb - 1) - 1 :: int;
          a = (if e = 0 then of_nat m * pow2 (1 - bias - int mb)
               else of_nat (2 ^ mb + m) * pow2 (int e - bias - int mb))
      in if e = 2 ^ eb - 1 then Inl FloatRange else Inr (if neg then - a else a))"

definition take_bytes :: "nat \<Rightarrow> string \<Rightarrow> string res" where
  \<comment> \<open>a read of \<open>n\<close> bytes at the start of an array\<close>
  "take_bytes n src = (if n \<le> length src then Inr (take n src) else Inl OutOfBounds)"

definition signed :: "nat \<Rightarrow> nat \<Rightarrow> int" where
  "signed bits v = (int v + 2 ^ (bits - 1)) mod 2 ^ bits - 2 ^ (bits - 1)"

definition complement :: "char \<Rightarrow> char" where
  "complement c = char_of (255 - of_char c :: nat)"

definition C_0_01 :: rat where
  \<comment> \<open>the literal \<open>0.01\<close>\<close>
  "C_0_01 = dbl (1 / 100)"

definition decimal_value :: "string \<Rightarrow> rat" where
  \<comment> \<open>the \<open>MySQL_NEWDECIMAL\<close> case, on the seven bytes of a DECIMAL(15,2)\<close>
  "decimal_value src =
     (let is_negative = (of_char (src ! 0) < (128 :: nat));
          s = (if is_negative then map complement src else src);
          ivalue = le_nat [s ! 5, s ! 4, s ! 3, s ! 2, s ! 1];
          rvalue = d_mul (d_of_int (signed 8 (of_char (s ! 6)))) C_0_01;
          v = d_add (d_of_int (int ivalue)) rvalue
      in if is_negative then - v else v)"

definition stack_charToValue :: "string \<Rightarrow> int \<Rightarrow> operand res" where
  "stack_charToValue src type =
     (if type = mysql_code MySQL_BYTE then
        bindE (take_bytes 1 src) (\<lambda>b. Inr (T_new\<lparr> varInt := Some (signed 8 (le_nat b)) \<rparr>, T_INT))
      else if type = mysql_code MySQL_INT16 then
        bindE (take_bytes 2 src) (\<lambda>b. Inr (T_new\<lparr> varInt := Some (signed 16 (le_nat b)) \<rparr>, T_INT))
      else if type = mysql_code MySQL_INT32 then
        bindE (take_bytes 4 src) (\<lambda>b. Inr (T_new\<lparr> varInt := Some (signed 32 (le_nat b)) \<rparr>, T_INT))
      else if type = mysql_code MySQL_INT64 then
        bindE (take_bytes 8 src) (\<lambda>b.
          Inr (T_new\<lparr> varInt := Some (to_int32 (signed 64 (le_nat b))) \<rparr>, T_Long))
      else if type = mysql_code MySQL_FLOAT32 then
        bindE (take_bytes 4 src) (\<lambda>b. bindE (ieee 8 23 (le_nat b)) (\<lambda>v.
          Inr (T_new\<lparr> varFloat := Some v \<rparr>, T_FLOAT)))
      else if type = mysql_code MySQL_DOUBLE then
        bindE (take_bytes 8 src) (\<lambda>b. bindE (ieee 11 52 (le_nat b)) (\<lambda>v.
          Inr (T_new\<lparr> varFloat := Some (flt v) \<rparr>, T_DOUBLE)))
      else if type = mysql_code MySQL_NEWDECIMAL then
        bindE (take_bytes 7 src) (\<lambda>b.
          Inr (T_new\<lparr> varDouble := Some (decimal_value b), real_size := Some 1 \<rparr>, T_DOUBLE))
      else if type = mysql_code MySQL_DATE then
        bindE (take_bytes 3 src) (\<lambda>b. Inr (T_new\<lparr> varInt := Some (int (le_nat b)) \<rparr>, T_INT))
      else if type = mysql_code MySQL_TIMESTAMP then
        bindE (take_bytes 4 src) (\<lambda>b. Inr (T_new\<lparr> varInt := Some (signed 32 (le_nat b)) \<rparr>, T_INT))
      else if type = mysql_code MySQL_STRING \<or> type = mysql_code MySQL_VARSTRING then
        Inr (T_new\<lparr> varString := trim (takeWhile (\<lambda>c. c \<noteq> CHR 0x00) src) \<rparr>, T_STRING)
      else Inr (\<lparr> varString = [], varInt = Some 0, varLong = Some 0, varFloat = Some 0,
                  varDouble = Some 0, real_size = Some 0 \<rparr>, T_None))"

section \<open>Values to columns\<close>

definition decimal_fraction :: "rat \<Rightarrow> int \<Rightarrow> int \<Rightarrow> int" where
  \<comment> \<open>\<open>(value.varDouble - integer) * scale\<close>, converted to \<open>int\<close>\<close>
  "decimal_fraction v integer scale = d_trunc (d_mul (d_sub v (d_of_int integer)) (of_int scale))"

definition negate_decimal :: "string \<Rightarrow> string" where
  "negate_decimal dest =
     (let d = map complement (take 7 dest) @ drop 7 dest
      in d[6 := char_of (of_char (d ! 6) + 1 :: nat)])"

definition decimal_chars :: "rat \<Rightarrow> int option \<Rightarrow> string res" where
  \<comment> \<open>the \<open>MySQL_NEWDECIMAL\<close> branch of \<open>stack_valueToChar\<close>\<close>
  "decimal_chars d rs =
     (let is_negative = (d < 0); v = \<bar>d\<bar>
      in if 2 ^ 63 \<le> v then Inl FloatRange
         else let integer = d_trunc (dbl (v / 1));
                  head = CHR 0x80 # be_bytes 5 (nat (integer mod 2 ^ 40))
         in bindE (read_var rs) (\<lambda>n.
            bindE (if n = 1 then Inr (take 1 (int_bytes 4 (decimal_fraction v integer 100)))
                   else if n = 2 then Inr (take 2 (int_bytes 4 (decimal_fraction v integer 10000)))
                   else Inl Uninitialised) (\<lambda>real.
            Inr (if is_negative then negate_decimal (head @ real) else head @ real))))"

definition string_chars :: "string \<Rightarrow> string res" where
  \<comment> \<open>\<open>strcpy\<close> of an \<open>l\<close>-character string into \<open>char char_array[l]\<close>, then \<open>memcpy\<close> of \<open>l\<close> bytes\<close>
  "string_chars src =
     (if CHR 0x00 \<notin> set src then Inl OutOfBounds
      else if length (takeWhile (\<lambda>c. c \<noteq> CHR 0x00) src) + 1 = length src then Inr src
      else Inl Uninitialised)"

definition stack_valueToChar :: "int \<Rightarrow> operand \<Rightarrow> string res" where
  "stack_valueToChar dest_type v =
     (case snd v of
        T_INT \<Rightarrow> bindE (read_var (varInt (fst v))) (\<lambda>i. Inr (int_bytes 4 i))
      | T_Long \<Rightarrow> bindE (read_var (varLong (fst v))) (\<lambda>i. Inr (int_bytes 8 i))
      | T_STRING \<Rightarrow> string_chars (varString (fst v))
      | T_DECIMAL \<Rightarrow> Inl Uninitialised
      | T_None \<Rightarrow> Inl Uninitialised
      | _ \<Rightarrow> if dest_type = mysql_code MySQL_NEWDECIMAL then
                bindE (read_var (varDouble (fst v))) (\<lambda>d. decimal_chars d (real_size (fst v)))
              else Inr [])"

section \<open>Operators\<close>

definition double_result :: "rat \<Rightarrow> int option \<Rightarrow> operand" where
  "double_result v rs = (T_new\<lparr> varDouble := Some v, real_size := rs \<rparr>, T_DOUBLE)"

text \<open>
  Arithmetic on a pair of tags the code handles; \<open>None\<close> for every other pair, for which the code
  prints a message and pushes nothing.
\<close>

definition on_int_double :: "(rat \<Rightarrow> rat \<Rightarrow> rat res) \<Rightarrow> operand \<Rightarrow> operand \<Rightarrow> rat res" where
  "on_int_double f op1 op2 = bindE (read_var (varInt (fst op1))) (\<lambda>i.
     bindE (read_var (varDouble (fst op2))) (\<lambda>d. f (d_of_int i) d))"

definition on_double_int :: "(rat \<Rightarrow> rat \<Rightarrow> rat res) \<Rightarrow> operand \<Rightarrow> operand \<Rightarrow> rat res" where
  "on_double_int f op1 op2 = bindE (read_var (varDouble (fst op1))) (\<lambda>d.
     bindE (read_var (varInt (fst op2))) (\<lambda>i. f d (d_of_int i)))"

definition on_double_double :: "(rat \<Rightarrow> rat \<Rightarrow> rat res) \<Rightarrow> operand \<Rightarrow> operand \<Rightarrow> rat res" where
  "on_double_double f op1 op2 = bindE (read_var (varDouble (fst op1))) (\<lambda>a.
     bindE (read_var (varDouble (fst op2))) (\<lambda>b. f a b))"

definition push_double :: "int option \<Rightarrow> rat res \<Rightarrow> operand option res" where
  "push_double rs r = bindE r (\<lambda>v. Inr (Some (double_result v rs)))"

definition oper_plus :: "operand \<Rightarrow> operand \<Rightarrow> operand option res" where
  "oper_plus op1 op2 = (case (snd op1, snd op2) of
       (T_INT, T_DOUBLE) \<Rightarrow> push_double None (on_int_double (\<lambda>a b. Inr (d_add a b)) op1 op2)
     | (T_DOUBLE, T_INT) \<Rightarrow> push_double None (on_double_int (\<lambda>a b. Inr (d_add a b)) op1 op2)
     | _ \<Rightarrow> Inr None)"

definition oper_minus :: "operand \<Rightarrow> operand \<Rightarrow> operand option res" where
  "oper_minus op1 op2 = (case (snd op1, snd op2) of
       (T_INT, T_DOUBLE) \<Rightarrow> push_double None (on_int_double (\<lambda>a b. Inr (d_sub a b)) op1 op2)
     | (T_DOUBLE, T_INT) \<Rightarrow> push_double None (on_double_int (\<lambda>a b. Inr (d_sub a b)) op1 op2)
     | (T_DOUBLE, T_DOUBLE) \<Rightarrow> push_double None (on_double_double (\<lambda>a b. Inr (d_sub a b)) op1 op2)
     | _ \<Rightarrow> Inr None)"

definition oper_times :: "operand \<Rightarrow> operand \<Rightarrow> operand option res" where
  "oper_times op1 op2 = (case (snd op1, snd op2) of
       (T_DOUBLE, T_DOUBLE) \<Rightarrow> push_double None (on_double_double (\<lambda>a b. Inr (d_mul a b)) op1 op2)
     | (T_DOUBLE, T_INT) \<Rightarrow> push_double (Some 2) (on_double_int (\<lambda>a b. Inr (d_mul a b)) op1 op2)
     | _ \<Rightarrow> Inr None)"

definition oper_divide :: "operand \<Rightarrow> operand \<Rightarrow> operand option res" where
  "oper_divide op1 op2 = (case (snd op1, snd op2) of
       (T_INT, T_DOUBLE) \<Rightarrow> push_double None (on_int_double d_div op1 op2)
     | (T_DOUBLE, T_INT) \<Rightarrow> push_double None (on_double_int d_div op1 op2)
     | _ \<Rightarrow> Inr None)"

definition std_contains :: "string \<Rightarrow> string \<Rightarrow> bool" where
  \<comment> \<open>\<open>target.find(s) != npos\<close>\<close>
  "std_contains target s =
     list_ex (\<lambda>k. take (length s) (drop k target) = s) [0..<Suc (length target)]"

text \<open>\<open>None\<close>: the pattern has no \<open>%\<close> at either end, and no branch is taken.\<close>

definition oper_like :: "string \<Rightarrow> string \<Rightarrow> bool option res" where
  "oper_like target str =
     bindE (std_substr str 0 1) (\<lambda>first.
     bindE (if first = ''%'' then bindE (std_substr_from str (usub (length str) 1)) (\<lambda>l. Inr (l = ''%''))
            else Inr False) (\<lambda>both.
     if both then
       bindE (std_substr str 1 (usub (length str) 2)) (\<lambda>find. Inr (Some (std_contains target find)))
     else if first = ''%'' then
       bindE (std_substr_from str 1) (\<lambda>find.
       bindE (std_substr_from target (usub (length target) (length find))) (\<lambda>comp.
         Inr (Some (find = comp))))
     else
       bindE (std_substr_from str (usub (length str) 1)) (\<lambda>l.
       if l = ''%'' then
         bindE (std_substr str 0 (usub (length str) 1)) (\<lambda>find.
         bindE (std_substr target 0 (length find)) (\<lambda>comp. Inr (Some (find = comp))))
       else Inr None)))"

section \<open>DECIMAL(15,2) through a double\<close>

lemma bytes_unfold:
  "be_bytes 1 n = [char_of (n mod 256)]"
  "be_bytes 2 n = [char_of (n div 256 mod 256), char_of (n mod 256)]"
  "be_bytes 4 n = [char_of (n div 256 div 256 div 256 mod 256), char_of (n div 256 div 256 mod 256),
     char_of (n div 256 mod 256), char_of (n mod 256)]"
  "be_bytes 5 n = char_of (n div 256 div 256 div 256 div 256 mod 256) # be_bytes 4 n"
  "le_bytes 5 n = rev (be_bytes 5 n)"
proof -
  have suc: "(1 :: nat) = Suc 0" "(2 :: nat) = Suc (Suc 0)" "(4 :: nat) = Suc (Suc (Suc (Suc 0)))"
    "(5 :: nat) = Suc (Suc (Suc (Suc (Suc 0))))" by simp_all
  show "be_bytes 1 n = [char_of (n mod 256)]"
    "be_bytes 2 n = [char_of (n div 256 mod 256), char_of (n mod 256)]"
    "be_bytes 4 n = [char_of (n div 256 div 256 div 256 mod 256), char_of (n div 256 div 256 mod 256),
     char_of (n div 256 mod 256), char_of (n mod 256)]"
    "be_bytes 5 n = char_of (n div 256 div 256 div 256 div 256 mod 256) # be_bytes 4 n"
    "le_bytes 5 n = rev (be_bytes 5 n)"
    unfolding suc be_bytes.simps le_bytes.simps by simp_all
qed

lemma dec15_2_bytes:
  assumes "n < 10 ^ 9"
  shows "dec15_2 n f = CHR 0x80 # be_bytes 5 n @ [char_of (f mod 256)]"
proof -
  have "n div 256 div 256 div 256 div 256 = 0" using assms by (simp add: div_mult2_eq [symmetric])
  moreover have "n div 10 ^ 9 = 0" "n mod 10 ^ 9 = n" using assms by simp_all
  moreover have "be_bytes 2 (2 ^ 15 + 0) = [CHR 0x80, CHR 0x00]" unfolding bytes_unfold by (simp add: char_of_def bit_0)
  moreover have "char_of (0 :: nat) = CHR 0x00" by (simp add: char_of_def)
  ultimately show ?thesis unfolding dec15_2_def bytes_unfold(1,4) by simp
qed

lemma decimal_value_dec15_2:
  assumes "n < 10 ^ 9" "c < 100"
  shows "decimal_value (dec15_2 n c) = d_add (of_nat n) (d_mul (of_nat c) C_0_01)"
proof -
  let ?s = "dec15_2 n c"
  have s: "?s = CHR 0x80 # rev (le_bytes 5 n) @ [char_of c]"
    using assms(2) by (simp add: dec15_2_bytes [OF assms(1)] bytes_unfold(5))
  obtain a b d e f where l: "le_bytes 5 n = [a, b, d, e, f]"
    using bytes_unfold(3,4,5) [of n] by simp
  have "le_nat [a, b, d, e, f] = n" using le_nat_le_bytes [of 5 n] assms(1) by (simp add: l)
  moreover have "[?s ! 5, ?s ! 4, ?s ! 3, ?s ! 2, ?s ! 1] = [a, b, d, e, f]" "?s ! 0 = CHR 0x80" "?s ! 6 = char_of c"
    by (simp_all add: s l)
  moreover have "d_of_int (int n) = of_nat n" using d_of_int_exact [of "int n"] assms(1) by simp
  moreover have "d_of_int (int c) = of_nat c" using d_of_int_exact [of "int c"] assms(2) by simp
  moreover have "signed 8 (of_char (char_of c :: char)) = int c" using assms(2) by (simp add: signed_def)
  ultimately show ?thesis by (simp add: decimal_value_def Let_def)
qed

lemma decimal_double_error:
  assumes "n < 10 ^ 9" "c < 100"
  shows "\<bar>d_add (of_nat n) (d_mul (of_nat c) C_0_01) - (of_nat n + of_nat c / 100)\<bar> \<le> 1 / 1000000"
proof -
  let ?k = C_0_01
  let ?r = "dbl (of_nat c * ?k)"
  have k: "\<bar>?k - 1 / 100\<bar> \<le> 1 / 10 ^ 15" using dbl_error [of "1 / 100"] by (simp add: C_0_01_def)
  have c: "(of_nat c :: rat) \<le> 99" "0 \<le> (of_nat c :: rat)" using assms(2) by simp_all
  have n: "(of_nat n :: rat) \<le> 10 ^ 9" "0 \<le> (of_nat n :: rat)" using assms(1) of_nat_mono [of n "10 ^ 9"] by simp_all
  have "of_nat c * ?k - of_nat c / 100 = of_nat c * (?k - 1 / 100)" by (simp add: right_diff_distrib)
  then have "\<bar>of_nat c * ?k - of_nat c / 100\<bar> = of_nat c * \<bar>?k - 1 / 100\<bar>"
    using c(2) by (simp only: abs_mult abs_of_nonneg)
  also have "\<dots> \<le> 99 * (1 / 10 ^ 15)" using c k by (intro mult_mono) simp_all
  finally have ck: "\<bar>of_nat c * ?k - of_nat c / 100\<bar> \<le> 99 / 10 ^ 15" by simp
  then have "\<bar>of_nat c * ?k\<bar> \<le> 1" using c by (simp add: abs_if split: if_splits)
  then have "\<bar>?r - of_nat c * ?k\<bar> \<le> 1 / 2 ^ 53"
    using dbl_error [of "of_nat c * ?k"] by (simp add: field_simps)
  with ck have r: "\<bar>?r - of_nat c / 100\<bar> \<le> 1 / 10 ^ 12" by (simp add: abs_if split: if_splits)
  then have "\<bar>of_nat n + ?r\<bar> \<le> 10 ^ 9 + 1" using n c by (simp add: abs_if split: if_splits)
  then have "\<bar>dbl (of_nat n + ?r) - (of_nat n + ?r)\<bar> \<le> 1 / 1000000 - 1 / 10 ^ 12"
    using dbl_error [of "of_nat n + ?r"] by simp
  with r show ?thesis unfolding d_add_def d_mul_def by linarith
qed

lemma d_trunc_eqI: "of_int i \<le> v \<Longrightarrow> v < of_int i + 1 \<Longrightarrow> 0 \<le> i \<Longrightarrow> d_trunc v = i"
proof -
  assume v: "of_int i \<le> v" "v < of_int i + 1" and i: "0 \<le> i"
  from i have "(0 :: rat) \<le> of_int i" by simp
  with v(1) have "0 \<le> v" by linarith
  moreover have "\<lfloor>v\<rfloor> = i" using v by linarith
  ultimately show ?thesis by (simp add: d_trunc_def)
qed

lemma decimal_chars_nat:
  assumes "n < 10 ^ 9"
  shows "decimal_chars (of_nat n) (Some 1) = Inr (dec15_2 n 0)"
proof -
  have n: "dbl (of_nat n) = of_nat n" using d_of_int_exact [of "int n"] assms by (simp add: d_of_int_def)
  have "(of_nat n :: rat) < 10 ^ 9" using assms of_nat_less_iff [of n "10 ^ 9", where 'a = rat] by simp
  moreover have "nat (int n mod 2 ^ 40) = n" using assms by (simp add: nat_mod_distrib)
  moreover have "take 1 (int_bytes 4 0) = [char_of (0 :: nat)]"
    using le_bytes.simps(2) [of 3 0] by (simp add: int_bytes_def)
  moreover have "decimal_fraction (of_nat n) (int n) 100 = 0"
    by (simp add: decimal_fraction_def d_of_int_def n d_sub_def d_mul_def d_trunc_def)
  moreover have "d_trunc (of_nat n) = int n" by (simp add: d_trunc_def)
  ultimately show ?thesis using assms by (simp add: decimal_chars_def Let_def n dec15_2_bytes)
qed

text \<open>A double close to \<open>n + c / 100\<close> is written as \<open>n\<close> and \<open>c\<close> or \<open>c - 1\<close> hundredths.\<close>

lemma decimal_chars_near:
  assumes n: "n < 10 ^ 9" and c: "0 < c" "c < 100"
    and v: "\<bar>v - (of_nat n + of_nat c / 100)\<bar> \<le> 1 / 1000000"
  shows "\<exists>c'. (c' = c \<or> c' = c - 1) \<and> decimal_chars v (Some 1) = Inr (dec15_2 n c')"
proof -
  have bc: "(1 :: rat) \<le> of_nat c" "(of_nat c :: rat) \<le> 99" using c by simp_all
  have bn: "(of_nat n :: rat) \<le> 10 ^ 9" "0 \<le> (of_nat n :: rat)" using n of_nat_mono [of n "10 ^ 9"] by simp_all
  have lo: "of_nat n + of_nat c / 100 - 1 / 1000000 \<le> v" and hi: "v \<le> of_nat n + of_nat c / 100 + 1 / 1000000"
    using v by (simp_all only: abs_le_iff, linarith+)
  have range: "of_nat n \<le> v" "v < of_nat n + 1" using lo hi bc by simp_all
  have "\<bar>v\<bar> \<le> 10 ^ 9 + 1" using range bn by (simp add: abs_if)
  then have "\<bar>dbl v - v\<bar> \<le> 1 / 1000000" using dbl_error [of v] by simp
  then have "of_nat n \<le> dbl v" "dbl v < of_nat n + 1" using lo hi bc by (simp_all only: abs_le_iff, linarith+)
  then have int: "d_trunc (dbl (v / 1)) = int n" by (intro d_trunc_eqI) simp_all
  let ?x = "dbl (v - of_nat n)"
  let ?y = "dbl (?x * 100)"
  have x: "\<bar>?x - (v - of_nat n)\<bar> \<le> 1 / 1000000"
    using dbl_error [of "v - of_nat n"] range by simp
  have xr: "of_nat c / 100 - 2 / 1000000 \<le> ?x" "?x \<le> of_nat c / 100 + 2 / 1000000"
    using x lo hi by (simp_all only: abs_le_iff, linarith+)
  have "\<bar>?x * 100\<bar> \<le> 100" using xr bc by (simp add: abs_if)
  then have "\<bar>?y - ?x * 100\<bar> \<le> 1 / 1000000" using dbl_error [of "?x * 100"] by simp
  then have y: "of_nat c - 1 \<le> ?y" "?y < of_nat c + 1" using xr by (simp_all only: abs_le_iff, linarith+)
  define c' where "c' = nat (d_trunc ?y)"
  have "d_trunc ?y = int c - 1 \<or> d_trunc ?y = int c"
  proof (cases "?y < of_nat c")
    case True
    with y(1) c have "d_trunc ?y = int c - 1" by (intro d_trunc_eqI) simp_all
    then show ?thesis ..
  next
    case False
    with y(2) have "d_trunc ?y = int c" by (intro d_trunc_eqI) simp_all
    then show ?thesis ..
  qed
  then have c': "c' = c \<or> c' = c - 1" and real: "d_trunc ?y = int c'" using c by (auto simp: c'_def)
  have "c' < 100" using c' c by auto
  have frac: "decimal_fraction v (int n) 100 = int c'"
    using real d_of_int_exact [of "int n"] n by (simp add: decimal_fraction_def d_mul_def d_sub_def)
  have byte: "take 1 (int_bytes 4 (int c')) = [char_of c']"
    using \<open>c' < 100\<close> le_bytes.simps(2) [of 3 c'] by (simp add: int_bytes_def nat_mod_distrib)
  have pos: "0 \<le> v" using range(1) bn by linarith
  have "\<not> 2 ^ 63 \<le> v" "\<not> v < 0" "nat (int n mod 2 ^ 40) = n"
    using range(2) bn pos n by (simp_all add: nat_mod_distrib)
  then have "decimal_chars v (Some 1) = Inr (CHR 0x80 # be_bytes 5 n @ [char_of c'])"
    using int frac byte pos by (simp add: decimal_chars_def Let_def)
  then show ?thesis using c' n \<open>c' < 100\<close> by (auto simp: dec15_2_bytes)
qed

section \<open>Properties\<close>

text \<open>
  C26. A non-negative DECIMAL(15,2) below \<open>10 ^ 9\<close> that is turned into a \<open>double\<close> by \<open>stack_charToValue\<close>
  and back into a column by \<open>stack_valueToChar\<close> keeps its integer part, and its hundredths come
  back as they were or one lower: the conversion to \<open>int\<close> truncates a \<open>double\<close> that may lie just
  below the whole number.
\<close>

theorem decimal_round_trip:
  assumes "n < 10 ^ 9" "c < 100"
  shows "\<exists>v c'. stack_charToValue (dec15_2 n c) 246 = Inr v \<and>
    stack_valueToChar 246 v = Inr (dec15_2 n c') \<and> (c' = c \<or> c' = c - 1)"
proof -
  let ?d = "d_add (of_nat n) (d_mul (of_nat c) C_0_01)"
  let ?v = "(T_new\<lparr> varDouble := Some ?d, real_size := Some 1 \<rparr>, T_DOUBLE)"
  have "length (dec15_2 n c) = 7" using be_nat_dec15_2(2) [OF assms] .
  then have v: "stack_charToValue (dec15_2 n c) 246 = Inr ?v"
    by (simp add: stack_charToValue_def take_bytes_def decimal_value_dec15_2 [OF assms])
  have "\<exists>c'. (c' = c \<or> c' = c - 1) \<and> decimal_chars ?d (Some 1) = Inr (dec15_2 n c')"
  proof (cases "c = 0")
    case True
    then have "?d = of_nat n" using d_of_int_exact [of "int n"] assms(1) by (simp add: d_add_def d_mul_def d_of_int_def)
    then show ?thesis using decimal_chars_nat [OF assms(1)] True by simp
  next
    case False
    then show ?thesis using decimal_chars_near [OF assms(1) _ assms(2)] decimal_double_error [OF assms] by blast
  qed
  then show ?thesis using v by (fastforce simp: stack_valueToChar_def)
qed

theorem decimal_round_trip_witness:
  "\<exists>v c'. stack_charToValue (dec15_2 0 29) 246 = Inr v \<and>
     stack_valueToChar 246 v = Inr (dec15_2 0 c') \<and> (c' = 29 \<or> c' = 28)"
  using decimal_round_trip [of 0 29] by simp

text \<open>
  The loss happens: 0.29 is read from its column and written back as 0.28.
\<close>

theorem cent_lost:
  "bindE (stack_charToValue (dec15_2 0 29) 246) (stack_valueToChar 246) = Inr (dec15_2 0 28)"
proof -
  let ?d = "5224175567749775 / 2 ^ 54 :: rat"
  have id: "dbl ?d = ?d" using fl_exact [of 5224175567749775 53 "- 54"] by (simp add: pow2_def)
  have d: "d_add 0 (d_mul 29 C_0_01) = ?d"
    unfolding C_0_01_def cents_29(1) d_add_def using id by simp
  have frac: "decimal_fraction ?d 0 100 = 28"
    unfolding decimal_fraction_def d_sub_def d_of_int_def using id cents_29(2,3) by (simp only: of_int_0 dbl_0 diff_zero of_int_numeral)
  have abs: "\<bar>?d\<bar> = ?d" by (rule abs_of_pos) simp
  have zero: "d_trunc ?d = 0" by (rule d_trunc_eqI) simp_all
  have guard: "\<not> 2 ^ 63 \<le> ?d" "\<not> ?d < 0" by simp_all
  have "take 1 (int_bytes 4 28) = [char_of (28 :: nat)]"
    using le_bytes.simps(2) [of 3 28] by (simp add: int_bytes_def)
  then have "decimal_chars ?d (Some 1) = Inr (dec15_2 0 28)"
    unfolding decimal_chars_def Let_def abs div_by_1 id zero frac using guard by (simp add: dec15_2_bytes)
  moreover have "decimal_value (dec15_2 0 29) = d_add 0 (d_mul 29 C_0_01)"
    using decimal_value_dec15_2 [of 0 29] by simp
  ultimately have "decimal_chars (decimal_value (dec15_2 0 29)) (Some 1) = Inr (dec15_2 0 28)" by (simp only: d)
  moreover have "length (dec15_2 0 29) = 7" using be_nat_dec15_2(2) [of 0 29] by simp
  ultimately show ?thesis by (simp add: stack_charToValue_def take_bytes_def stack_valueToChar_def)
qed

text \<open>
  A whole negative amount is written wrongly: after the seven bytes are complemented, as
  MySQL's format asks, the code adds one to the last of them, so the bytes are not the
  complement of the encoding of the absolute value.
\<close>

theorem negative_decimal_off_by_one:
  assumes "0 < n" "n < 10 ^ 9"
  shows "decimal_chars (- of_nat n) (Some 1) = Inr (map complement (take 6 (dec15_2 n 0)) @ [CHR 0x00]) \<and>
    map complement (dec15_2 n 0) = map complement (take 6 (dec15_2 n 0)) @ [CHR 0xFF]"
proof -
  have "dec15_2 n 0 = (CHR 0x80 # be_bytes 5 n) @ [CHR 0x00]"
    using dec15_2_bytes [OF assms(2), of 0] by (simp add: char_of_def)
  moreover have len: "length (CHR 0x80 # be_bytes 5 n) = 6" by simp
  ultimately obtain xs where xs: "dec15_2 n 0 = xs @ [CHR 0x00]" "length xs = 6" by blast
  have ff: "complement (CHR 0x00) = CHR 0xFF" "char_of (256 :: nat) = CHR 0x00"
    by (simp_all add: complement_def char_of_def bit_0)
  have "decimal_chars (- of_nat n) (Some 1) = Inr (negate_decimal (dec15_2 n 0))"
    using decimal_chars_nat [OF assms(2)] assms(1) by (auto simp: decimal_chars_def Let_def split: if_splits)
  moreover have "negate_decimal (dec15_2 n 0) = map complement xs @ [CHR 0x00]"
    using xs ff by (simp add: negate_decimal_def Let_def nth_append list_update_append)
  ultimately show ?thesis using xs ff by simp
qed

theorem negative_decimal_off_by_one_witness:
  "decimal_chars (- of_nat 5) (Some 1) = Inr (map complement (take 6 (dec15_2 5 0)) @ [CHR 0x00]) \<and>
   map complement (dec15_2 5 0) = map complement (take 6 (dec15_2 5 0)) @ [CHR 0xFF]"
  using negative_decimal_off_by_one [of 5] by simp

section \<open>LIKE in a CASE condition\<close>

lemma std_contains_iff: "std_contains t s \<longleftrightarrow> (\<exists>k\<le>length t. take (length s) (drop k t) = s)"
proof -
  have "set [0..<Suc (length t)] = {k. k \<le> length t}" by (auto simp: less_Suc_eq_le)
  then show ?thesis unfolding std_contains_def list_ex_iff by blast
qed

lemma usub_wrap: "a < b \<Longrightarrow> b < 2 ^ 64 \<Longrightarrow> a < usub a b"
proof -
  assume ab: "a < b" "b < 2 ^ 64"
  then have "usub a b = a + (2 ^ 64 - b)" unfolding usub_def by (simp add: mod_less)
  with ab(2) show ?thesis by simp
qed

lemma oper_like_infix:
  assumes "length s + 2 < 2 ^ 64"
  shows "oper_like t (CHR ''%'' # s @ ''%'') = Inr (Some (std_contains t s))"
proof -
  let ?p = "CHR ''%'' # s @ ''%''"
  have "std_substr ?p 0 1 = Inr ''%''" by (simp add: std_substr_def)
  moreover have "usub (length ?p) 1 = length s + 1" "usub (length ?p) 2 = length s"
    using assms usub_le [of 1 "length ?p"] usub_le [of 2 "length ?p"] by simp_all
  moreover have "std_substr_from ?p (length s + 1) = Inr ''%''" by (simp add: std_substr_from_def)
  moreover have "std_substr ?p 1 (length s) = Inr s" by (simp add: std_substr_def)
  ultimately show ?thesis by (simp only: oper_like_def bindE_simps simp_thms if_True)
qed

lemma oper_like_prefix:
  assumes "CHR ''%'' \<notin> set s" "s \<noteq> []" "length s + 2 < 2 ^ 64"
  shows "oper_like t (s @ ''%'') = Inr (Some (take (length s) t = s))"
proof -
  let ?p = "s @ ''%''"
  obtain a r where s: "s = a # r" "a \<noteq> CHR ''%''" using assms(1,2) by (cases s) auto
  then have "std_substr ?p 0 1 = Inr [a]" "[a] \<noteq> ''%''" by (simp_all add: std_substr_def)
  moreover have "usub (length ?p) 1 = length s" using assms(3) usub_le [of 1 "length ?p"] by simp
  moreover have "std_substr_from ?p (length s) = Inr ''%''" "std_substr ?p 0 (length s) = Inr s"
    "std_substr t 0 (length s) = Inr (take (length s) t)"
    by (simp_all add: std_substr_def std_substr_from_def)
  ultimately have "oper_like t ?p = Inr (Some (s = take (length s) t))"
    by (simp only: oper_like_def bindE_simps simp_thms if_False if_True)
  then show ?thesis by (simp only: eq_commute)
qed

lemma oper_like_suffix:
  assumes "CHR ''%'' \<notin> set s" "s \<noteq> []" "length s + 2 < 2 ^ 64" "length t < 2 ^ 64"
  shows "oper_like t (CHR ''%'' # s) =
    (if length s \<le> length t then Inr (Some (drop (length t - length s) t = s)) else Inl OutOfRange)"
proof -
  let ?p = "CHR ''%'' # s"
  have lst: "last s \<noteq> CHR ''%''" using assms(1,2) last_in_set by metis
  have "?p = (CHR ''%'' # butlast s) @ [last s]" "length s = length (CHR ''%'' # butlast s)"
    using assms(2) by simp_all
  then have "drop (length s) ?p = [last s]" by (metis append_eq_conv_conj)
  then have "std_substr_from ?p (length s) = Inr [last s]" by (simp add: std_substr_from_def)
  moreover have "usub (length ?p) 1 = length s" using assms(3) usub_le [of 1 "length ?p"] by simp
  moreover have "std_substr ?p 0 1 = Inr ''%''" "std_substr_from ?p 1 = Inr s"
    by (simp_all add: std_substr_def std_substr_from_def)
  ultimately have "oper_like t ?p = bindE (std_substr_from t (usub (length t) (length s))) (\<lambda>comp. Inr (Some (s = comp)))"
    using lst by (simp add: oper_like_def)
  also have "\<dots> = (if length s \<le> length t then Inr (Some (drop (length t - length s) t = s)) else Inl OutOfRange)"
  proof (cases "length s \<le> length t")
    case True
    then show ?thesis using assms(4) by (auto simp: std_substr_from_def usub_le)
  next
    case False
    then have "length t < usub (length t) (length s)" using assms(3) by (intro usub_wrap) simp_all
    with False show ?thesis by (simp add: std_substr_from_def)
  qed
  finally show ?thesis .
qed

text \<open>
  On patterns of the three supported shapes \<open>%s%\<close>, \<open>%s\<close> and \<open>s%\<close> (with \<open>s\<close> not empty and free
  of \<open>%\<close>) the merge layer's LIKE agrees with SQL's, except that \<open>%s\<close> throws \<open>std::out_of_range\<close>
  instead of answering no when the value is shorter than \<open>s\<close>.
\<close>

theorem merge_like_correct:
  assumes "CHR ''%'' \<notin> set s" "s \<noteq> []" "length s + 2 < 2 ^ 64" "length t < 2 ^ 64"
  shows "oper_like t (CHR ''%'' # s @ ''%'') = Inr (Some (like_sem (CHR ''%'' # s @ ''%'') t)) \<and>
    oper_like t (s @ ''%'') = Inr (Some (like_sem (s @ ''%'') t)) \<and>
    oper_like t (CHR ''%'' # s) =
      (if length s \<le> length t then Inr (Some (like_sem (CHR ''%'' # s) t)) else Inl OutOfRange)"
  unfolding oper_like_infix [OF assms(3)] oper_like_prefix [OF assms(1-3)] oper_like_suffix [OF assms]
    std_contains_iff like_sem_infix [OF assms(1)] like_sem_prefix [OF assms(1)] like_sem_suffix [OF assms(1)]
  by simp

theorem merge_like_correct_witness:
  "oper_like ''abc'' ''%bc'' = Inr (Some True) \<and> oper_like ''c'' ''%bc'' = Inl OutOfRange"
  using merge_like_correct [of "''bc''" "''abc''"] merge_like_correct [of "''bc''" "''c''"]
    like_sem_suffix [of "''bc''" "''abc''"]
  by (simp del: like_sem.simps)

end
