(* ===== verification/Merge_Project.thy ===== *)
theory Merge_Project
  imports Merge_Values Filter_Block
begin

text \<open>
  The projection of one row (\<open>merge_manager.cc\<close>): \<open>getColOffset\<close>, the postfix machine
  \<open>calculPostfix\<close>, the expressions \<open>calculCase\<close>, \<open>calculSubstring\<close> and \<open>calculExtract\<close>, and the loop of
  \<open>MergeBlock\<close> over the projections of a row.

  A row is the array \<open>origin_row_data\<close>, of \<open>origin_row_len\<close> bytes; \<open>col_data\<close> and \<open>new_row_data\<close> are
  arrays of the same size, and \<open>passed_\<close> is an array of one byte. \<open>store\<close> is the write of a
  result into such an array. The lemmas show that \<open>getColOffset\<close> finds the fields of an encoded
  row, so that a list of column names projects to those columns.
\<close>

section \<open>Operations\<close>

definition store :: "nat \<Rightarrow> string \<Rightarrow> string res" where
  "store cap bs = (if length bs \<le> cap then Inr bs else Inl OutOfBounds)"

definition row_slice :: "string \<Rightarrow> int \<Rightarrow> int \<Rightarrow> string res" where
  \<comment> \<open>\<open>memcpy(_, origin_row_data + off, len)\<close>\<close>
  "row_slice row off len =
     (if 0 \<le> off \<and> 0 \<le> len \<and> off + len \<le> int (length row)
      then Inr (take (nat len) (drop (nat off) row)) else Inl OutOfBounds)"

text \<open>One round of \<open>getColOffset\<close>; the state is \<open>tune\<close> and the offsets found so far.\<close>

definition col_offset_round :: "FilterInfo \<Rightarrow> string \<Rightarrow> nat \<Rightarrow> int \<times> int list \<Rightarrow> (int \<times> int list) res" where
  "col_offset_round fi row i st = (case st of (tune, offs) \<Rightarrow>
     bindE (vec_at (table_datatype fi) (int i)) (\<lambda>col_type.
     bindE (vec_at (table_offlen fi) (int i)) (\<lambda>col_len.
     bindE (vec_at (table_offset fi) (int i)) (\<lambda>col_off.
       let new_col_offset = col_off + tune in
       if col_type = mysql_code MySQL_VARSTRING then
         (if col_len < 256 then
            bindE (vec_at row new_col_offset) (\<lambda>b.
              Inr (tune + (int (le_nat [b]) + 1 - col_len), offs @ [new_col_offset]))
          else
            bindE (vec_at row new_col_offset) (\<lambda>b0.
            bindE (vec_at row (new_col_offset + 1)) (\<lambda>b1.
              Inr (tune + (int (le_nat [b0, b1]) + 2 - col_len), offs @ [new_col_offset]))))
       else Inr (tune, offs @ [new_col_offset])))))"

definition getColOffset :: "string \<Rightarrow> FilterInfo \<Rightarrow> int list res" where
  "getColOffset row fi =
     bindE (foldE (col_offset_round fi row) [0..<length (table_col fi)] (0, [])) (\<lambda>(tune, offs). Inr offs)"

text \<open>The bytes of the column named \<open>value\<close>, with its index.\<close>

definition column_slice :: "FilterInfo \<Rightarrow> string \<Rightarrow> int list \<Rightarrow> string \<Rightarrow> (int \<times> string) res" where
  "column_slice fi row col_offset name =
     (let idx = lookup0 (colindexmap fi) name in
      bindE (vec_at col_offset idx) (\<lambda>off.
      bindE (vec_at col_offset (idx + 1)) (\<lambda>off'.
      bindE (row_slice row off (off' - off)) (\<lambda>bs. Inr (idx, bs)))))"

definition push_operand ::
  "FilterInfo \<Rightarrow> string \<Rightarrow> int list \<Rightarrow> string \<Rightarrow> int \<Rightarrow> operand list \<Rightarrow> operand list res" where
  "push_operand fi row col_offset v ty st =
     (if ty = value_code V_INT8 \<or> ty = value_code V_INT16 \<or> ty = value_code V_INT32 then
        bindE (stoi v) (\<lambda>i. Inr ((T_new\<lparr> varInt := Some i \<rparr>, T_INT) # st))
      else if ty = value_code V_INT64 then
        bindE (stoll v) (\<lambda>i. Inr ((T_new\<lparr> varLong := Some i \<rparr>, T_Long) # st))
      else if ty = value_code V_FLOAT32 then
        bindE (stof v) (\<lambda>d. Inr ((T_new\<lparr> varDouble := Some d \<rparr>, T_DOUBLE) # st))
      else if ty = value_code V_FLOAT64 then
        bindE (stod v) (\<lambda>d. Inr ((T_new\<lparr> varDouble := Some d \<rparr>, T_DOUBLE) # st))
      else if ty = value_code V_STRING then
        Inr ((T_new\<lparr> varString := v \<rparr>, T_STRING) # st)
      else if ty = value_code V_COLUMN then
        bindE (column_slice fi row col_offset v) (\<lambda>(idx, bs).
        bindE (vec_at (table_datatype fi) idx) (\<lambda>dt.
        bindE (stack_charToValue bs dt) (\<lambda>x. Inr (x # st))))
      else Inr st)"

text \<open>
  An operator pops two operands; the arithmetic ones may push a result, the comparisons of two
  strings end the function with one byte.
\<close>

datatype postfix_step = Go "operand list" | Return string

definition bool_byte :: "bool \<Rightarrow> string" where
  "bool_byte b = (if b then [CHR 0x01] else [CHR 0x00])"

definition pushed_result :: "operand list \<Rightarrow> operand option res \<Rightarrow> postfix_step res" where
  "pushed_result st r = bindE r (\<lambda>x. Inr (Go (case x of None \<Rightarrow> st | Some v \<Rightarrow> v # st)))"

definition apply_operator :: "string \<Rightarrow> operand list \<Rightarrow> postfix_step res" where
  "apply_operator v stk =
     (case stk of op2 # op1 # st \<Rightarrow>
        let strings = (snd op1 = T_STRING \<and> snd op2 = T_STRING);
            s1 = varString (fst op1); s2 = varString (fst op2)
        in if v = ''+'' then pushed_result st (oper_plus op1 op2)
           else if v = ''-'' then pushed_result st (oper_minus op1 op2)
           else if v = ''*'' then pushed_result st (oper_times op1 op2)
           else if v = ''/'' then pushed_result st (oper_divide op1 op2)
           else if v = ''='' then
             Inr (if strings then Return (bool_byte (s1 = s2)) else Go st)
           else if v = ''<>'' then
             Inr (if strings then Return (bool_byte (s1 \<noteq> s2)) else Go st)
           else if v = ''LIKE'' then
             (if strings then bindE (oper_like s1 s2) (\<lambda>r.
                Inr (case r of None \<Rightarrow> Go st | Some b \<Rightarrow> Return (bool_byte b)))
              else Inr (Go st))
           else Inr (Go st)
      | _ \<Rightarrow> Inl EmptyStack)"

fun postfix_loop ::
  "FilterInfo \<Rightarrow> string \<Rightarrow> int list \<Rightarrow> (string \<times> int) list \<Rightarrow> operand list \<Rightarrow> postfix_step res" where
  "postfix_loop fi row co [] st = Inr (Go st)"
| "postfix_loop fi row co ((v, ty) # ts) st =
     (if ty \<noteq> value_code V_OPERATOR then
        bindE (push_operand fi row co v ty st) (postfix_loop fi row co ts)
      else bindE (apply_operator v st) (\<lambda>r. case r of
        Go st' \<Rightarrow> postfix_loop fi row co ts st' | Return bs \<Rightarrow> Inr (Return bs)))"

definition calculPostfix ::
  "(string \<times> int) list \<Rightarrow> FilterInfo \<Rightarrow> string \<Rightarrow> int list \<Rightarrow> nat \<Rightarrow> int \<Rightarrow> string res" where
  "calculPostfix toks fi row co cap projection_dt =
     bindE (postfix_loop fi row co toks []) (\<lambda>r. case r of
       Return bs \<Rightarrow> store cap bs
     | Go [] \<Rightarrow> Inl EmptyStack
     | Go (x # st) \<Rightarrow> bindE (stack_valueToChar projection_dt x) (store cap))"

text \<open>\<open>values[i]\<close> and \<open>types[i]\<close> of projection \<open>p\<close>.\<close>

definition token_at :: "Projection \<Rightarrow> int \<Rightarrow> (string \<times> int) res" where
  "token_at p i = bindE (vec_at (proj_values p) i) (\<lambda>v. bindE (vec_at (proj_types p) i) (\<lambda>t. Inr (v, t)))"

section \<open>CASE\<close>

text \<open>The scan for WHEN, THEN and ELSE: the last WHEN, the pairs, and the last ELSE.\<close>

definition case_marks_round ::
  "Projection \<Rightarrow> nat \<Rightarrow> nat option \<times> (nat \<times> nat) list \<times> nat option \<Rightarrow>
   (nat option \<times> (nat \<times> nat) list \<times> nat option) res" where
  "case_marks_round p i st = (case st of (wh, wts, el) \<Rightarrow>
     bindE (vec_at (proj_values p) (int i)) (\<lambda>v.
       if v = ''WHEN'' then Inr (Some i, wts, el)
       else if v = ''THEN'' then bindE (read_var wh) (\<lambda>w. Inr (wh, wts @ [(w, i)], el))
       else if v = ''ELSE'' then Inr (wh, wts, Some i)
       else Inr st))"

definition case_marks :: "Projection \<Rightarrow> ((nat \<times> nat) list \<times> nat option) res" where
  "case_marks p =
     bindE (foldE (case_marks_round p) [1..<length (proj_values p)] (None, [], None)) (\<lambda>(wh, wts, el).
       Inr (wts, el))"

text \<open>
  \<open>calculPostfix(values, types, ..., passed_, 0)\<close>: the byte \<open>passed_[0]\<close> afterwards. A result of no
  bytes leaves it as it was.
\<close>

definition eval_passed ::
  "FilterInfo \<Rightarrow> string \<Rightarrow> int list \<Rightarrow> (string \<times> int) list \<Rightarrow> char option \<Rightarrow> char option res" where
  "eval_passed fi row co toks old =
     bindE (calculPostfix toks fi row co 1 0) (\<lambda>bs. Inr (case bs of [] \<Rightarrow> old | b # _ \<Rightarrow> Some b))"

text \<open>
  The loop over the tokens between WHEN and THEN. \<open>toks\<close> are \<open>values\<close> and \<open>types\<close>, \<open>pb\<close> is \<open>passed_[0]\<close>.
\<close>

fun case_when ::
  "FilterInfo \<Rightarrow> string \<Rightarrow> int list \<Rightarrow> Projection \<Rightarrow> nat list \<Rightarrow> (string \<times> int) list \<Rightarrow> char option \<Rightarrow> bool res" where
  "case_when fi row co p [] toks pb = Inr True"
| "case_when fi row co p (i # is) toks pb =
     bindE (vec_at (proj_values p) (int i)) (\<lambda>v.
       if v = ''AND'' then
         bindE (eval_passed fi row co toks pb) (\<lambda>pb.
         bindE (read_var pb) (\<lambda>b.
           if b = CHR 0x01 then case_when fi row co p is [] pb else Inr False))
       else if v = ''OR'' then
         bindE (eval_passed fi row co toks pb) (\<lambda>pb.
         bindE (read_var pb) (\<lambda>b.
           if b = CHR 0x01 then Inr True else case_when fi row co p is [] pb))
       else
         bindE (token_at p (int i)) (\<lambda>t.
           let toks = toks @ [t] in
           if is = [] then
             bindE (eval_passed fi row co toks pb) (\<lambda>pb.
             bindE (read_var pb) (\<lambda>b. Inr (b \<noteq> CHR 0x00)))
           else case_when fi row co p is toks pb))"

text \<open>The tokens after THEN, up to the next WHEN, ELSE or END; running off the end is an error.\<close>

fun then_tokens :: "Projection \<Rightarrow> nat list \<Rightarrow> (string \<times> int) list res" where
  "then_tokens p [] = Inl OutOfBounds"
| "then_tokens p (i # is) =
     bindE (vec_at (proj_values p) (int i)) (\<lambda>v.
       if v = ''WHEN'' \<or> v = ''ELSE'' \<or> v = ''END'' then Inr []
       else bindE (token_at p (int i)) (\<lambda>t. bindE (then_tokens p is) (\<lambda>ts. Inr (t # ts))))"

definition case_then ::
  "FilterInfo \<Rightarrow> string \<Rightarrow> int list \<Rightarrow> Projection \<Rightarrow> nat \<Rightarrow> int \<Rightarrow> nat \<Rightarrow> string res" where
  "case_then fi row co p cap dest_type th =
     bindE (then_tokens p [Suc th..<length (proj_values p)]) (\<lambda>toks. case toks of
       [(v, t)] \<Rightarrow> bindE (stoi v) (\<lambda>n. store cap (int_bytes 4 n))
     | _ \<Rightarrow> calculPostfix toks fi row co cap dest_type)"

fun case_branches ::
  "FilterInfo \<Rightarrow> string \<Rightarrow> int list \<Rightarrow> Projection \<Rightarrow> nat \<Rightarrow> int \<Rightarrow> (nat \<times> nat) list \<Rightarrow> string option res" where
  "case_branches fi row co p cap dt [] = Inr None"
| "case_branches fi row co p cap dt ((wh, th) # wts) =
     bindE (case_when fi row co p [Suc wh..<th] [] None) (\<lambda>passed.
       if passed then bindE (case_then fi row co p cap dt th) (\<lambda>bs. Inr (Some bs))
       else case_branches fi row co p cap dt wts)"

definition case_else :: "Projection \<Rightarrow> nat \<Rightarrow> int \<Rightarrow> nat option \<Rightarrow> string res" where
  "case_else p cap dest_type el =
     bindE (read_var el) (\<lambda>e.
     bindE (vec_at (proj_values p) (int e + 1)) (\<lambda>v.
     bindE (stoi v) (\<lambda>n.
       if dest_type = mysql_code MySQL_NEWDECIMAL then store cap (CHR 0x80 # replicate 6 (CHR 0x00))
       else if dest_type = mysql_code MySQL_INT32 then store cap (int_bytes 4 n)
       else Inr [])))"

definition calculCase :: "FilterInfo \<Rightarrow> string \<Rightarrow> int list \<Rightarrow> nat \<Rightarrow> nat \<Rightarrow> string res" where
  "calculCase fi row co l cap =
     bindE (vec_at (column_projection fi) (int l)) (\<lambda>p.
     bindE (vec_at (projection_datatype fi) (int l)) (\<lambda>dt.
     bindE (case_marks p) (\<lambda>(wts, el).
     bindE (case_branches fi row co p cap dt wts) (\<lambda>r. case r of
       Some bs \<Rightarrow> Inr bs
     | None \<Rightarrow> case_else p cap dt el))))"

section \<open>SUBSTRING and EXTRACT\<close>

definition read_length_of :: "Projection \<Rightarrow> int \<Rightarrow> int \<Rightarrow> int res" where
  "read_length_of p col_len start =
     (if length (proj_values p) = 4 then bindE (vec_at (proj_values p) 3) stoi
      else Inr (col_len - start))"

definition calculSubstring :: "FilterInfo \<Rightarrow> string \<Rightarrow> int list \<Rightarrow> nat \<Rightarrow> nat \<Rightarrow> string res" where
  "calculSubstring fi row co l cap =
     bindE (vec_at (column_projection fi) (int l)) (\<lambda>p.
     bindE (token_at p 1) (\<lambda>(str, ty).
     bindE (vec_at (proj_values p) 2) (\<lambda>v2.
     bindE (stoi v2) (\<lambda>n.
       let start = n - 1 in
       if ty = value_code V_COLUMN then
         bindE (column_slice fi row co str) (\<lambda>(idx, bs).
         bindE (read_length_of p (int (length bs)) start) (\<lambda>len.
         bindE (row_slice bs start len) (store cap)))
       else if ty = value_code V_STRING then
         bindE (read_length_of p (int (length str)) start) (\<lambda>len.
         bindE (string_chars str) (\<lambda>bs.
         bindE (row_slice bs start len) (store cap)))
       else Inl Uninitialised))))"

definition calculExtract :: "FilterInfo \<Rightarrow> string \<Rightarrow> int list \<Rightarrow> nat \<Rightarrow> nat \<Rightarrow> string res" where
  "calculExtract fi row co l cap =
     bindE (vec_at (column_projection fi) (int l)) (\<lambda>p.
     bindE (vec_at (proj_values p) 1) (\<lambda>unit.
     bindE (token_at p 2) (\<lambda>(col, ty).
       if ty = value_code V_COLUMN then
         bindE (column_slice fi row co col) (\<lambda>(idx, bs).
         bindE (take_bytes 3 bs) (\<lambda>b.
           let v = le_nat b in
           if unit = ''YEAR'' then store cap (int_bytes 4 (int (v div 512)))
           else if unit = ''MONTH'' then store cap (int_bytes 4 (int (v mod 512 div 32)))
           else if unit = ''DAY'' then store cap (int_bytes 4 (int (v mod 512 mod 32)))
           else Inl Uninitialised))
       else Inl Uninitialised)))"

section \<open>The projections of a row\<close>

definition project_value :: "FilterInfo \<Rightarrow> string \<Rightarrow> int list \<Rightarrow> nat \<Rightarrow> string res" where
  \<comment> \<open>\<open>col_data\<close> and \<open>col_len\<close> of projection \<open>l\<close>, a \<open>COL_NAME\<close>\<close>
  "project_value fi row co l =
     bindE (vec_at (column_projection fi) (int l)) (\<lambda>p.
       if length (proj_values p) = 1 then
         bindE (vec_at (proj_types p) 0) (\<lambda>ty.
           if ty = value_code V_COLUMN then
             bindE (column_slice fi row co (proj_values p ! 0)) (\<lambda>(idx, bs). store (length row) bs)
           else Inl Uninitialised)
       else
         bindE (vec_at (proj_values p) 0) (\<lambda>first_operator.
           if first_operator = ''CASE'' then calculCase fi row co l (length row)
           else if first_operator = ''SUBSTRING'' then calculSubstring fi row co l (length row)
           else if first_operator = ''EXTRACT'' then calculExtract fi row co l (length row)
           else
             bindE (mapE (\<lambda>k. token_at p (int k)) [0..<length (proj_values p)]) (\<lambda>toks.
             bindE (vec_at (projection_datatype fi) (int l)) (\<lambda>dt.
               calculPostfix toks fi row co (length row) dt))))"

definition project_round :: "FilterInfo \<Rightarrow> string \<Rightarrow> int list \<Rightarrow> nat \<Rightarrow> string \<Rightarrow> string res" where
  \<comment> \<open>appends projection \<open>l\<close> to \<open>new_row_data\<close>\<close>
  "project_round fi row co l new_row =
     bindE (vec_at (column_projection fi) (int l)) (\<lambda>p.
       if projection p \<noteq> select_code COL_NAME then Inr new_row
       else bindE (project_value fi row co l) (\<lambda>bs. store (length row) (new_row @ bs)))"

definition project_row :: "FilterInfo \<Rightarrow> string \<Rightarrow> string res" where
  "project_row fi row =
     bindE (getColOffset row fi) (\<lambda>offs.
       let co = offs @ [int (length row)] in
       foldE (project_round fi row co) [0..<length (column_projection fi)] [])"

section \<open>The columns of an encoded row\<close>

text \<open>
  The offsets of the schema are those of a row in which every field takes its declared length;
  \<open>getColOffset\<close> corrects them by the actual lengths of the VARSTRING fields before.
\<close>

definition packed_offsets :: "FilterInfo \<Rightarrow> bool" where
  "packed_offsets fi \<longleftrightarrow> length (table_offset fi) = length (table_col fi) \<and>
     (\<forall>i<length (table_col fi). table_offset fi ! i = sum_list (take i (table_offlen fi)))"

definition merge_schema :: "FilterInfo \<Rightarrow> field list \<Rightarrow> bool" where
  "merge_schema fi fs \<longleftrightarrow> block_schema fi \<and> packed_offsets fi \<and> fits_schema fi fs"

definition true_offset :: "field list \<Rightarrow> nat \<Rightarrow> int" where
  "true_offset fs i = int (length (enc_row (take i fs)))"

lemma true_offset_Suc:
  "i < length fs \<Longrightarrow> true_offset fs (Suc i) = true_offset fs i + int (length (enc_field (fs ! i)))"
  by (simp add: true_offset_def enc_row_def take_Suc_conv_app_nth)

lemma enc_row_byte:
  assumes "i < length fs" "k < length (enc_field (fs ! i))"
  shows "vec_at (enc_row fs) (true_offset fs i + int k) = Inr (enc_field (fs ! i) ! k)"
proof -
  have row: "enc_row fs = enc_row (take i fs) @ enc_field (fs ! i) @ enc_row (drop (Suc i) fs)"
    by (rule enc_row_split [OF assms(1)])
  let ?n = "length (enc_row (take i fs))"
  have "?n + k < length (enc_row fs)" using assms(2) by (subst row) simp
  moreover have "enc_row fs ! (?n + k) = enc_field (fs ! i) ! k"
    using assms(2) by (subst row) (simp add: nth_append)
  moreover have "true_offset fs i + int k = int (?n + k)" by (simp add: true_offset_def)
  ultimately show ?thesis by (simp only: vec_at_nat)
qed

lemma merge_schema_lengths:
  assumes "merge_schema fi fs"
  shows "length (table_col fi) = length fs" "length (table_datatype fi) = length fs"
    "length (table_offlen fi) = length fs" "length (table_offset fi) = length fs"
proof -
  have "map fst fs = table_datatype fi" "length (table_datatype fi) = length (table_col fi)"
    "length (table_offlen fi) = length (table_col fi)" "length (table_offset fi) = length (table_col fi)"
    using assms by (simp_all add: merge_schema_def block_schema_def fits_schema_def packed_offsets_def)
  moreover from this(1) have "length (table_datatype fi) = length fs" by (metis length_map)
  ultimately show "length (table_col fi) = length fs" "length (table_datatype fi) = length fs"
    "length (table_offlen fi) = length fs" "length (table_offset fi) = length fs" by simp_all
qed

lemma merge_schema_field:
  assumes "merge_schema fi fs" "i < length fs"
  shows "table_datatype fi ! i = fst (fs ! i)" "table_offlen fi ! i = fst (snd (fs ! i))" "wf_field (fs ! i)"
    "table_offset fi ! i = sum_list (take i (table_offlen fi))"
    "lookup0 (colindexmap fi) (table_col fi ! i) = int i"
proof -
  have "table_datatype fi = map fst fs" "table_offlen fi = map (\<lambda>f. fst (snd f)) fs" "list_all wf_field fs"
    using assms(1) by (simp_all add: merge_schema_def fits_schema_def)
  then show "table_datatype fi ! i = fst (fs ! i)" "table_offlen fi ! i = fst (snd (fs ! i))" "wf_field (fs ! i)"
    using assms(2) by (simp_all add: list_all_length)
  show "table_offset fi ! i = sum_list (take i (table_offlen fi))" "lookup0 (colindexmap fi) (table_col fi ! i) = int i"
    using assms merge_schema_lengths(1) [OF assms(1)]
    by (simp_all add: merge_schema_def block_schema_def packed_offsets_def)
qed

lemma col_offset_round_ok:
  assumes "merge_schema fi fs" "i < length fs"
    "tune = true_offset fs i - sum_list (take i (table_offlen fi))"
  shows "col_offset_round fi (enc_row fs) i (tune, offs) =
    Inr (true_offset fs (Suc i) - sum_list (take (Suc i) (table_offlen fi)), offs @ [true_offset fs i])"
proof -
  obtain dt ol b where f: "fs ! i = (dt, ol, b)" by (cases "fs ! i")
  note len = merge_schema_lengths [OF assms(1)] and fld = merge_schema_field [OF assms(1,2)]
  have cols: "vec_at (table_datatype fi) (int i) = Inr dt" "vec_at (table_offlen fi) (int i) = Inr ol"
    "vec_at (table_offset fi) (int i) = Inr (sum_list (take i (table_offlen fi)))"
    using assms(2) len fld f by simp_all
  have sum: "sum_list (take (Suc i) (table_offlen fi)) = sum_list (take i (table_offlen fi)) + ol"
    using assms(2) len fld f by (simp add: take_Suc_conv_app_nth)
  have next_off: "true_offset fs (Suc i) = true_offset fs i + int (hdr_len (fs ! i)) + int (length b)"
    using true_offset_Suc [OF assms(2)] f by (simp add: length_enc_field)
  have hdr: "vec_at (enc_row fs) (true_offset fs i + int k) = Inr (le_bytes (hdr_len (fs ! i)) (length b) ! k)"
    if "k < hdr_len (fs ! i)" for k
    using enc_row_byte [OF assms(2), of k] that f by (simp add: enc_field_def nth_append)
  consider (fixed) "dt \<noteq> 15" | (one) "dt = 15" "ol < 256" | (two) "dt = 15" "\<not> ol < 256" by blast
  then show ?thesis
  proof cases
    case fixed
    then have "ol = int (length b)" "hdr_len (fs ! i) = 0" using fld(3) f by (auto simp: wf_field_def hdr_len_def)
    then show ?thesis using cols fixed assms(3) sum next_off by (simp add: col_offset_round_def Let_def)
  next
    case one
    then have h: "hdr_len (fs ! i) = 1" and b: "length b < 256"
      using fld(3) f by (auto simp: wf_field_def hdr_len_def)
    have "vec_at (enc_row fs) (true_offset fs i) = Inr (char_of (length b))" using hdr [of 0] h b by simp
    then show ?thesis using cols one assms(3) sum next_off h b by (simp add: col_offset_round_def Let_def)
  next
    case two
    then have h: "hdr_len (fs ! i) = Suc (Suc 0)" and b: "length b < 65536"
      using fld(3) f by (auto simp: wf_field_def hdr_len_def)
    have "vec_at (enc_row fs) (true_offset fs i) = Inr (char_of (length b mod 256))"
      "vec_at (enc_row fs) (true_offset fs i + 1) = Inr (char_of (length b div 256 mod 256))"
      using hdr [of 0] hdr [of 1] h by simp_all
    moreover have "length b mod 256 + 256 * (length b div 256) = length b" by simp
    then have "int (length b mod 256) + 256 * int (length b div 256) = int (length b)" by linarith
    ultimately show ?thesis using cols two assms(3) sum next_off h b by (simp add: col_offset_round_def Let_def)
  qed
qed

lemma getColOffset_ok:
  assumes "merge_schema fi fs"
  shows "getColOffset (enc_row fs) fi = Inr (map (true_offset fs) [0..<length fs])"
proof -
  let ?P = "\<lambda>k. (true_offset fs k - sum_list (take k (table_offlen fi)), map (true_offset fs) [0..<k])"
  have "foldE (col_offset_round fi (enc_row fs)) [0..<k] (0, []) = Inr (?P k)" if "k \<le> length fs" for k
    using that
  proof (induction k)
    case 0
    then show ?case by (simp add: true_offset_def enc_row_def)
  next
    case (Suc k)
    then show ?case using col_offset_round_ok [OF assms, of k] by (simp add: foldE_append)
  qed
  then show ?thesis using merge_schema_lengths(1) [OF assms] by (simp add: getColOffset_def)
qed

text \<open>Every column of the row is found, in whatever order the projections ask for them.\<close>

definition col_offsets :: "field list \<Rightarrow> int list" where
  "col_offsets fs = map (true_offset fs) [0..<length fs] @ [int (length (enc_row fs))]"

definition row_columns :: "FilterInfo \<Rightarrow> field list \<Rightarrow> string \<times> int list \<Rightarrow> bool" where
  "row_columns fi fs s \<longleftrightarrow> merge_schema fi fs \<and> fst s = enc_row fs \<and>
     snd s = col_offsets fs"

lemma row_columnsI: "merge_schema fi fs \<Longrightarrow> row_columns fi fs (enc_row fs, col_offsets fs)"
  by (simp add: row_columns_def)

lemma row_columns_offset:
  assumes "row_columns fi fs (row, co)" "i \<le> length fs"
  shows "vec_at co (int i) = Inr (true_offset fs i)"
proof (cases "i < length fs")
  case True
  with assms show ?thesis by (simp add: row_columns_def col_offsets_def nth_append)
next
  case False
  with assms have "i = length fs" by simp
  with assms show ?thesis by (simp add: row_columns_def col_offsets_def nth_append true_offset_def)
qed

lemma column_slice_ok:
  assumes "row_columns fi fs (row, co)" "i < length fs"
  shows "column_slice fi row co (table_col fi ! i) = Inr (int i, enc_field (fs ! i))"
proof -
  have schema: "merge_schema fi fs" and row: "row = enc_row fs" using assms(1) by (simp_all add: row_columns_def)
  have split: "enc_row fs = enc_row (take i fs) @ enc_field (fs ! i) @ enc_row (drop (Suc i) fs)"
    by (rule enc_row_split [OF assms(2)])
  have "length (enc_row fs) = length (enc_row (take i fs)) + length (enc_field (fs ! i)) + length (enc_row (drop (Suc i) fs))"
    by (subst split) simp
  moreover have "take (length (enc_field (fs ! i))) (drop (length (enc_row (take i fs))) (enc_row fs)) = enc_field (fs ! i)"
    by (subst split) simp
  ultimately have "row_slice row (true_offset fs i) (true_offset fs (Suc i) - true_offset fs i) = Inr (enc_field (fs ! i))"
    using row true_offset_Suc [OF assms(2)] by (simp add: row_slice_def true_offset_def)
  moreover have "vec_at co (int i) = Inr (true_offset fs i)" "vec_at co (int i + 1) = Inr (true_offset fs (Suc i))"
    using row_columns_offset [OF assms(1), of i] row_columns_offset [OF assms(1), of "Suc i"] assms(2)
    by (simp_all add: add.commute)
  ultimately show ?thesis using merge_schema_field(5) [OF schema assms(2)] by (simp add: column_slice_def)
qed

interpretation cols: column_reader "row_columns fi fs" "table_col fi" "\<lambda>i. i < length fs"
    "\<lambda>i. (int i, enc_field (fs ! i))" "\<lambda>c s. bindE (column_slice fi (fst s) (snd s) c) (\<lambda>x. Inr (x, s))"
  for fi fs
proof
  fix s i
  assume "row_columns fi fs s" "i < length fs"
  then show "\<exists>s'. bindE (column_slice fi (fst s) (snd s) (table_col fi ! i)) (\<lambda>x. Inr (x, s)) =
      Inr ((int i, enc_field (fs ! i)), s') \<and> row_columns fi fs s'"
    using column_slice_ok [of fi fs "fst s" "snd s" i] by simp
qed

lemma column_slice_read:
  "row_columns fi fs (row, co) \<Longrightarrow> i < length fs \<Longrightarrow>
     column_slice fi row co (table_col fi ! i) = Inr (int i, enc_field (fs ! i))"
  using cols.read_ok [of fi fs "(row, co)" i] merge_schema_lengths(1)
  by (auto simp: row_columns_def bindE_Inr_conv)

lemma foldE_Nil_fun [simp]: "foldE f [] = Inr"
  by (rule ext) simp

section \<open>A list of columns\<close>

definition column_item :: "FilterInfo \<Rightarrow> nat \<Rightarrow> Projection" where
  "column_item fi i = \<lparr> projection = 0, proj_values = [table_col fi ! i], proj_types = [10] \<rparr>"

definition projects_columns :: "FilterInfo \<Rightarrow> nat list \<Rightarrow> bool" where
  "projects_columns fi is \<longleftrightarrow>
     column_projection fi = map (column_item fi) is \<and> list_all (\<lambda>i. i < length (table_col fi)) is"

definition columns_bytes :: "field list \<Rightarrow> nat list \<Rightarrow> string" where
  "columns_bytes fs is = concat (map (\<lambda>i. enc_field (fs ! i)) is)"

lemma length_enc_field_le:
  assumes "i < length fs"
  shows "length (enc_field (fs ! i)) \<le> length (enc_row fs)"
  by (subst enc_row_split [OF assms]) simp

lemma project_round_column:
  assumes "row_columns fi fs (row, co)" "projects_columns fi is" "l < length is"
  shows "project_round fi row co l new_row = store (length row) (new_row @ enc_field (fs ! (is ! l)))"
proof -
  have schema: "merge_schema fi fs" "row = enc_row fs" using assms(1) by (simp_all add: row_columns_def)
  have p: "vec_at (column_projection fi) (int l) = Inr (column_item fi (is ! l))" and i: "is ! l < length fs"
    using assms(2,3) merge_schema_lengths(1) [OF schema(1)] by (simp_all add: projects_columns_def list_all_length)
  have "project_value fi row co l = Inr (enc_field (fs ! (is ! l)))"
    using p column_slice_read [OF assms(1) i] length_enc_field_le [OF i] schema(2)
    by (simp add: project_value_def column_item_def store_def)
  then show ?thesis using p by (simp add: project_round_def column_item_def)
qed

lemma store_Inr [simp]: "length bs \<le> cap \<Longrightarrow> store cap bs = Inr bs"
  by (simp add: store_def)

lemma project_rounds_columns:
  assumes "row_columns fi fs (row, co)" "projects_columns fi is" "n \<le> length is"
  shows "foldE (project_round fi row co) [0..<n] [] = store (length row) (columns_bytes fs (take n is))"
  using assms(3)
proof (induction n)
  case 0
  then show ?case by (simp add: columns_bytes_def)
next
  case (Suc n)
  have step: "columns_bytes fs (take (Suc n) is) = columns_bytes fs (take n is) @ enc_field (fs ! (is ! n))"
    using Suc.prems by (simp add: columns_bytes_def take_Suc_conv_app_nth)
  show ?case
  proof (cases "length (columns_bytes fs (take n is)) \<le> length row")
    case True
    then show ?thesis using Suc project_round_column [OF assms(1,2), of n] step by (simp add: foldE_append)
  next
    case False
    then show ?thesis using Suc step by (simp add: foldE_append store_def)
  qed
qed

lemma project_row_columns:
  assumes "merge_schema fi fs" "projects_columns fi is"
  shows "project_row fi (enc_row fs) = store (length (enc_row fs)) (columns_bytes fs is)"
proof -
  from project_rounds_columns [OF row_columnsI [OF assms(1)] assms(2), of "length is"]
    getColOffset_ok [OF assms(1)] assms(2)
  show ?thesis by (simp add: project_row_def projects_columns_def col_offsets_def)
qed

lemma columns_bytes_distinct:
  assumes "distinct is" "\<forall>i\<in>set is. i < length fs"
  shows "length (columns_bytes fs is) \<le> length (enc_row fs)"
proof -
  have "length (columns_bytes fs is) = (\<Sum>i\<leftarrow>is. length (enc_field (fs ! i)))"
    by (simp add: columns_bytes_def length_concat comp_def)
  also have "\<dots> = (\<Sum>i\<in>set is. length (enc_field (fs ! i)))"
    using assms(1) by (simp add: sum_list_distinct_conv_sum_set)
  also have "\<dots> \<le> (\<Sum>i\<in>{0..<length fs}. length (enc_field (fs ! i)))"
    using assms(2) by (intro sum_mono2) auto
  also have "\<dots> = length (enc_row fs)"
    by (simp add: enc_row_def length_concat comp_def sum_list_sum_nth)
  finally show ?thesis .
qed

text \<open>A projected row never exceeds the row it came from: the array it is built in has that size.\<close>

lemma project_round_bound:
  assumes "project_round fi row co l new_row = Inr new_row'" "length new_row \<le> length row"
  shows "length new_row' \<le> length row"
  using assms by (auto simp: project_round_def store_def bindE_Inr_conv split: if_splits)

lemma project_row_bound: "project_row fi row = Inr new_row \<Longrightarrow> length new_row \<le> length row"
  by (auto simp: project_row_def bindE_Inr_conv
      elim!: foldE_invariant [where P = "\<lambda>r. length r \<le> length row"] dest: project_round_bound)

section \<open>Properties\<close>

text \<open>An example: \<open>(id INT, nm VARCHAR(10), day DATE)\<close>.\<close>

definition ex_minfo :: "Projection list \<Rightarrow> FilterInfo" where
  "ex_minfo ps = \<lparr> table_col = [''id'', ''nm'', ''day''], table_offset = [0, 4, 14], table_offlen = [4, 10, 3],
     table_datatype = [3, 15, 14], colindexmap = [''id'' \<mapsto> 0, ''nm'' \<mapsto> 1, ''day'' \<mapsto> 2], table_filter = [],
     column_projection = ps, projection_datatype = map (\<lambda>p. 3) ps, groupby_col = [] \<rparr>"

definition ex_mrow :: "field list" where
  "ex_mrow = [(3, 4, ''abcd''), (15, 10, ''xyz''), (14, 3, ''123'')]"

lemma all_less_3: "(\<forall>i<3. P i) \<longleftrightarrow> P 0 \<and> P (Suc 0) \<and> P (Suc (Suc 0))" for P :: "nat \<Rightarrow> bool"
  by (simp add: All_less_Suc numeral_3_eq_3 conj_ac)

lemma ex_merge_schema: "merge_schema (ex_minfo ps) ex_mrow"
  by (auto simp: merge_schema_def block_schema_def packed_offsets_def fits_schema_def ex_minfo_def ex_mrow_def
      all_less_3 wf_field_def hdr_len_def simp flip: numeral_3_eq_3)

lemma ex_projects: "projects_columns (ex_minfo [column_item (ex_minfo []) 1, column_item (ex_minfo []) 0]) [1, 0]"
  by (simp add: projects_columns_def column_item_def ex_minfo_def)

text \<open>
  C21. A projection that lists columns, on a row encoded by the schema: the new row is those columns,
  in that order, each with its length bytes, found behind VARSTRING columns of any actual
  length. It succeeds exactly when the new row is not longer than the old one, which is always
  so when no column is listed twice; otherwise the copy runs past the array \<open>new_row_data\<close>.
\<close>

theorem columns_projected:
  assumes "merge_schema fi fs" "projects_columns fi is"
  shows "project_row fi (enc_row fs) =
      (if length (columns_bytes fs is) \<le> length (enc_row fs) then Inr (columns_bytes fs is) else Inl OutOfBounds) \<and>
    (distinct is \<longrightarrow> length (columns_bytes fs is) \<le> length (enc_row fs))"
proof
  show "project_row fi (enc_row fs) =
      (if length (columns_bytes fs is) \<le> length (enc_row fs) then Inr (columns_bytes fs is) else Inl OutOfBounds)"
    using project_row_columns [OF assms] by (simp add: store_def)
  show "distinct is \<longrightarrow> length (columns_bytes fs is) \<le> length (enc_row fs)"
    using assms(2) merge_schema_lengths(1) [OF assms(1)]
    by (auto intro!: columns_bytes_distinct simp: projects_columns_def list_all_iff)
qed

theorem columns_projected_witness:
  "project_row (ex_minfo [column_item (ex_minfo []) 1, column_item (ex_minfo []) 0]) (enc_row ex_mrow) =
     Inr (CHR 0x03 # ''xyzabcd'')"
proof -
  have "columns_bytes ex_mrow [1, 0] = CHR 0x03 # ''xyzabcd''"
    by (simp add: columns_bytes_def ex_mrow_def enc_field_def hdr_len_def char_of_def bit_0)
  with columns_projected [OF ex_merge_schema ex_projects] show ?thesis by simp
qed

end
