(* ===== verification/Merge_Manager.thy ===== *)
theory Merge_Manager
  imports Merge_Project Work_Queue "HOL-Library.Multiset"
begin

text \<open>
  \<open>MergeManager\<close> (\<open>merge_manager.cc\<close>): the buffers, one per query and work id, that collect the
  projected rows of a work unit. \<open>MergeBlock\<close> takes one result from the scan or the filter layer,
  projects its rows, appends them to the buffer (sending the buffer to the return layer first when
  the row does not fit), adds the result's blocks to the counts, and sends and erases the buffer
  when the current count equals the total. \<open>Merging\<close> is one turn of the layer's loop.

  The buffer obeys the contracts \<open>row_buffer\<close> and \<open>flush_buffer\<close>, so rows are neither lost nor
  reordered; the properties lift this to all results of a work unit and to every order in which
  the two filter threads may deliver them.
\<close>

section \<open>Operations\<close>

type_synonym pair_key = "int \<times> int"

type_synonym 'm merge_state_scheme = "(pair_key \<rightharpoonup> 'm MergeResult_scheme) \<times> 'm MergeResult_scheme WorkQueue"

type_synonym merge_state = "unit merge_state_scheme"

definition append_merged_in :: "nat \<Rightarrow> string \<Rightarrow> 'm MergeResult_scheme \<Rightarrow> 'm MergeResult_scheme res" where
  "append_merged_in cap new_row m =
     bindE (memcpy_to_in cap (mr_data m) (int (mr_length m)) new_row) (\<lambda>d.
       Inr (m\<lparr> mr_row_offset := mr_row_offset m @ [mr_length m], mr_row_count := mr_row_count m + 1,
               mr_data := d, mr_length := mr_length m + length new_row \<rparr>))"

definition merge_append_in ::
  "nat \<Rightarrow> string \<Rightarrow> 'm MergeResult_scheme \<times> 'm MergeResult_scheme WorkQueue \<Rightarrow> ('m MergeResult_scheme \<times> 'm MergeResult_scheme WorkQueue) res" where
  "merge_append_in cap new_row st = (case st of (m, rq) \<Rightarrow>
     let (m, rq) = (if cap < mr_length m + length new_row
                    then (InitMergeResult m, push_work m rq) else (m, rq))
     in bindE (append_merged_in cap new_row m) (\<lambda>m. Inr (m, rq)))"

text \<open>Row \<open>i\<close> of a result; the offsets are extended by the length.\<close>

definition origin_row_in :: "nat \<Rightarrow> 'r Result_scheme \<Rightarrow> nat \<Rightarrow> string res" where
  "origin_row_in cap r i =
     (let new_row_offset = rs_row_offset r @ [rs_length r] in
      bindE (vec_at new_row_offset (int i + 1)) (\<lambda>e.
      bindE (vec_at new_row_offset (int i)) (\<lambda>s.
      bindE (vec_at (rs_row_offset r) (int i)) (\<lambda>off.
        memcpy_from_in cap (rs_data r) (int off) (int e - int s)))))"

text \<open>With the \<open>BUFF_SIZE\<close> of this version.\<close>

abbreviation append_merged :: "string \<Rightarrow> 'm MergeResult_scheme \<Rightarrow> 'm MergeResult_scheme res" where
  "append_merged \<equiv> append_merged_in BUFF_SIZE"

abbreviation merge_append :: "string \<Rightarrow> 'm MergeResult_scheme \<times> 'm MergeResult_scheme WorkQueue \<Rightarrow> ('m MergeResult_scheme \<times> 'm MergeResult_scheme WorkQueue) res" where
  "merge_append \<equiv> merge_append_in BUFF_SIZE"

abbreviation origin_row :: "'r Result_scheme \<Rightarrow> nat \<Rightarrow> string res" where
  "origin_row \<equiv> origin_row_in BUFF_SIZE"

lemmas append_merged_def = append_merged_in_def
lemmas merge_append_def = merge_append_in_def
lemmas origin_row_def = origin_row_in_def

definition merge_row ::
  "Result \<Rightarrow> nat \<Rightarrow> MergeResult \<times> MergeResult WorkQueue \<Rightarrow> (MergeResult \<times> MergeResult WorkQueue) res" where
  "merge_row r i st =
     bindE (origin_row r i) (\<lambda>row.
     bindE (project_row (rs_filter_info r) row) (\<lambda>new_row. merge_append new_row st))"

definition count_blocks :: "'r Result_scheme \<Rightarrow> 'm MergeResult_scheme \<Rightarrow> 'm MergeResult_scheme" where
  "count_blocks r m =
     m\<lparr> mr_current_block_count := mr_current_block_count m + rs_result_block_count r,
        mr_result_block_count := mr_result_block_count m + rs_result_block_count r \<rparr>"

definition MergeBlock :: "buffer \<Rightarrow> Result \<Rightarrow> merge_state \<Rightarrow> merge_state res" where
  "MergeBlock junk r st = (case st of (mm, rq) \<Rightarrow>
     let key = (rs_query_id r, rs_work_id r);
         m = (case mm key of
                None \<Rightarrow> new_MergeResult junk (rs_query_id r) (rs_work_id r) (rs_csd_name r) (rs_total_block_count r)
              | Some m \<Rightarrow> m)
     in bindE (if rs_row_count r \<noteq> 0 then foldE (merge_row r) [0..<rs_row_count r] (m, rq) else Inr (m, rq)) (\<lambda>(m, rq).
        let m = count_blocks r m
        in if mr_total_block_count m = mr_current_block_count m
           then Inr (mm(key := None), push_work m rq)
           else Inr (mm(key \<mapsto> m), rq)))"

definition Merging ::
  "buffer \<Rightarrow> Result WorkQueue \<times> merge_state \<Rightarrow> (Result WorkQueue \<times> merge_state) res" where
  "Merging junk st = (case st of (mq, ms) \<Rightarrow>
     (case wait_and_pop 0 mq of
        (None, mq') \<Rightarrow> Inr (mq', ms)
      | (Some r, mq') \<Rightarrow> bindE (MergeBlock junk r ms) (\<lambda>ms. Inr (mq', ms))))"

section \<open>The buffer contracts\<close>

interpretation mergebuf: row_buffer "merge_rows_in cap :: 'm MergeResult_scheme \<Rightarrow> _" mr_length "append_merged_in cap" InitMergeResult cap for cap
proof
  fix b :: "'m MergeResult_scheme" and rows :: "string list" and row :: string
  show "merge_rows_in cap (InitMergeResult b) []"
    by (simp add: merge_rows_in_def InitMergeResult_def row_layout_in_def)
  assume rep: "merge_rows_in cap b rows"
  then show "mr_length b = length (concat rows)" "mr_length b \<le> cap"
    by (simp_all add: merge_rows_in_def row_layout_in_def)
  show "\<exists>b'. append_merged_in cap row b = Inr b' \<and> merge_rows_in cap b' (rows @ [row])"
    if "mr_length b + length row \<le> cap"
    using row_layout_append [OF rep [unfolded merge_rows_in_def] that] that
    by (simp add: append_merged_in_def memcpy_to_ok merge_rows_in_def)
  show "append_merged_in cap row b = Inl OutOfBounds" if "cap < mr_length b + length row"
    using that by (simp add: append_merged_in_def memcpy_to_in_def)
qed

interpretation merge: flush_buffer "merge_rows_in cap :: 'm MergeResult_scheme \<Rightarrow> _" mr_length "append_merged_in cap" InitMergeResult cap cap fst
    "\<lambda>s. work (snd s)" "merge_append_in cap" for cap
proof
  fix s :: "'m MergeResult_scheme \<times> 'm MergeResult_scheme WorkQueue" and rows :: "string list" and row :: string
  show "cap \<le> cap" by simp
  assume rep: "merge_rows_in cap (fst s) rows"
  obtain m rq where s: "s = (m, rq)" by (cases s)
  show "\<exists>s'. merge_append_in cap row s = Inr s' \<and> merge_rows_in cap (fst s') (rows @ [row]) \<and> work (snd s') = work (snd s)"
    if "mr_length (fst s) + length row \<le> cap"
    using mergebuf.append_fits [OF rep that] that by (auto simp: merge_append_in_def s)
  show "\<exists>s' e. merge_append_in cap row s = Inr s' \<and> merge_rows_in cap (fst s') [row] \<and> work (snd s') = work (snd s) @ [e] \<and> merge_rows_in cap e rows"
    if "cap < mr_length (fst s) + length row" "length row \<le> cap"
  proof -
    have "mr_length (InitMergeResult m) + length row \<le> cap" using that(2) by (simp add: InitMergeResult_def)
    from mergebuf.append_fits [OF mergebuf.reset_rep this] that(1) rep show ?thesis
      by (auto simp: merge_append_in_def s push_work_def Let_def)
  qed
  show "merge_append_in cap row s = Inl OutOfBounds" if "cap < length row"
  proof -
    have "cap < mr_length (InitMergeResult m) + length row" "cap < mr_length m + length row" using that by simp_all
    with mergebuf.append_overflow [OF mergebuf.reset_rep this(1)] show ?thesis by (simp add: merge_append_in_def s)
  qed
qed

section \<open>One result\<close>

text \<open>The result \<open>r\<close> holds rows whose projections by \<open>project\<close> are \<open>ps\<close>.\<close>

definition delivers_in :: "nat \<Rightarrow> (FilterInfo \<Rightarrow> string \<Rightarrow> string res) \<Rightarrow> 'r Result_scheme \<Rightarrow> string list \<Rightarrow> bool" where
  "delivers_in cap project r ps \<longleftrightarrow> (\<exists>rows. result_rows_in cap r rows \<and> mapE (project (rs_filter_info r)) rows = Inr ps)"

lemma origin_row_ok:
  assumes "result_rows_in cap r rows" "i < length rows"
  shows "origin_row_in cap r i = Inr (rows ! i)"
proof -
  have lay: "row_layout_in cap (rs_row_count r) (rs_length r) (rs_row_offset r) (rs_data r) rows"
    using assms(1) by (simp add: result_rows_in_def)
  then have len: "length (rs_row_offset r) = length rows" "rs_length r \<le> cap" by (auto simp: row_layout_in_def)
  note nth = row_layout_nth [OF lay assms(2)]
  have "vec_at (rs_row_offset r @ [rs_length r]) (int i + 1) = Inr (rs_row_offset r ! i + length (rows ! i))"
    using vec_at_nat [of "Suc i" "rs_row_offset r @ [rs_length r]"] nth(3) assms(2) len by (simp add: add.commute)
  moreover have "vec_at (rs_row_offset r @ [rs_length r]) (int i) = Inr (rs_row_offset r ! i)"
    "vec_at (rs_row_offset r) (int i) = Inr (rs_row_offset r ! i)"
    using assms(2) len by (simp_all add: nth_append)
  moreover have "memcpy_from_in cap (rs_data r) (int (rs_row_offset r ! i)) (int (length (rows ! i))) = Inr (rows ! i)"
    using nth(1,2) len(2) by (simp add: memcpy_from_ok)
  ultimately show ?thesis by (simp add: origin_row_in_def Let_def)
qed

lemma mapE_nth: "mapE f xs = Inr ys \<Longrightarrow> i < length xs \<Longrightarrow> f (xs ! i) = Inr (ys ! i)"
  by (induction xs arbitrary: ys i) (auto simp: bindE_Inr_conv nth_Cons split: nat.splits)

section \<open>A work unit\<close>

definition unit_of :: "int \<Rightarrow> int \<Rightarrow> int \<Rightarrow> 'm MergeResult_scheme \<Rightarrow> bool" where
  "unit_of q w t m \<longleftrightarrow> mr_query_id m = q \<and> mr_work_id m = w \<and> mr_total_block_count m = t"

definition blocks_sent :: "'m MergeResult_scheme list \<Rightarrow> int" where
  "blocks_sent es = sum_list (map mr_result_block_count es)"

lemma blocks_sent_simps [simp]: "blocks_sent [] = 0" "blocks_sent (es @ es') = blocks_sent es + blocks_sent es'"
  "blocks_sent [e] = mr_result_block_count e"
  by (simp_all add: blocks_sent_def)

lemma work_push_work [simp]: "work (push_work x q) = work q @ [x]"
  by (simp add: push_work_def Let_def)

text \<open>Appending rows moves the count of blocks along with the buffers that are sent.\<close>

definition frame :: "'m MergeResult_scheme \<Rightarrow> 'm MergeResult_scheme list \<Rightarrow> 'm MergeResult_scheme \<times> 'm MergeResult_scheme WorkQueue \<Rightarrow> bool" where
  "frame m w0 s \<longleftrightarrow> (\<exists>es. work (snd s) = w0 @ es \<and> blocks_sent es + mr_result_block_count (fst s) = mr_result_block_count m \<and>
     mr_current_block_count (fst s) = mr_current_block_count m \<and>
     (\<forall>q w t. unit_of q w t m \<longrightarrow> unit_of q w t (fst s) \<and> list_all (unit_of q w t) es))"

lemma merge_append_frame:
  assumes "merge_append_in cap row s = Inr s'" "frame m w0 s"
  shows "frame m w0 s'"
proof -
  obtain n rq where s: "s = (n, rq)" by (cases s)
  from assms(2) obtain es where es: "work rq = w0 @ es" "blocks_sent es + mr_result_block_count n = mr_result_block_count m"
    "mr_current_block_count n = mr_current_block_count m"
    "\<And>q w t. unit_of q w t m \<Longrightarrow> unit_of q w t n \<and> list_all (unit_of q w t) es"
    unfolding frame_def s by auto
  show ?thesis
  proof (cases "cap < mr_length n + length row")
    case True
    with assms(1) s obtain d where "s' = ((InitMergeResult n)\<lparr> mr_row_offset := [0], mr_row_count := 1, mr_data := d,
        mr_length := length row \<rparr>, push_work n rq)"
      by (auto simp: merge_append_in_def append_merged_in_def bindE_Inr_conv InitMergeResult_def)
    then show ?thesis unfolding frame_def using es
      by (intro exI [of _ "es @ [n]"]) (simp add: InitMergeResult_def unit_of_def)
  next
    case False
    with assms(1) s obtain d where "s' = (n\<lparr> mr_row_offset := mr_row_offset n @ [mr_length n],
        mr_row_count := mr_row_count n + 1, mr_data := d, mr_length := mr_length n + length row \<rparr>, rq)"
      by (auto simp: merge_append_in_def append_merged_in_def bindE_Inr_conv)
    then show ?thesis unfolding frame_def using es by (intro exI [of _ es]) (simp add: unit_of_def)
  qed
qed

text \<open>The state after some results of the unit \<open>(q, w)\<close>: \<open>c\<close> blocks counted, \<open>rows\<close> received.\<close>

definition in_progress_in :: "nat \<Rightarrow> 'm merge_state_scheme \<Rightarrow> int \<Rightarrow> int \<Rightarrow> int \<Rightarrow> int \<Rightarrow> string list \<Rightarrow> 'm merge_state_scheme \<Rightarrow> bool" where
  "in_progress_in cap base q w t c rows s \<longleftrightarrow> (\<exists>m es rss lst. fst s = (fst base)((q, w) \<mapsto> m) \<and> work (snd s) = work (snd base) @ es \<and>
     list_all2 (merge_rows_in cap) es rss \<and> merge_rows_in cap m lst \<and> concat rss @ lst = rows \<and>
     blocks_sent es + mr_result_block_count m = c \<and> mr_current_block_count m = c \<and>
     unit_of q w t m \<and> list_all (unit_of q w t) es)"

definition finished_in :: "nat \<Rightarrow> 'm merge_state_scheme \<Rightarrow> int \<Rightarrow> int \<Rightarrow> int \<Rightarrow> string list \<Rightarrow> 'm merge_state_scheme \<Rightarrow> bool" where
  "finished_in cap base q w t rows s \<longleftrightarrow> (\<exists>es rss. fst s = (fst base)((q, w) := None) \<and> work (snd s) = work (snd base) @ es \<and>
     list_all2 (merge_rows_in cap) es rss \<and> concat rss = rows \<and> blocks_sent es = t \<and> list_all (unit_of q w t) es)"

definition outcome_in :: "nat \<Rightarrow> 'm merge_state_scheme \<Rightarrow> int \<Rightarrow> int \<Rightarrow> int \<Rightarrow> int \<Rightarrow> string list \<Rightarrow> 'm merge_state_scheme \<Rightarrow> bool" where
  "outcome_in cap base q w t c rows s \<longleftrightarrow>
     (if c = t then finished_in cap base q w t rows s else in_progress_in cap base q w t c rows s)"

definition unit_result :: "int \<Rightarrow> int \<Rightarrow> int \<Rightarrow> 'r Result_scheme \<Rightarrow> bool" where
  "unit_result q w t r \<longleftrightarrow> rs_query_id r = q \<and> rs_work_id r = w \<and> rs_total_block_count r = t"

lemma merge_appends:
  assumes "merge_rows_in cap m old" "\<forall>p\<in>set ps. length p \<le> cap" "unit_of q w t m"
  shows "\<exists>m' rq' es rss lst. foldE (merge_append_in cap) ps (m, rq) = Inr (m', rq') \<and> work rq' = work rq @ es \<and>
    list_all2 (merge_rows_in cap) es rss \<and> merge_rows_in cap m' lst \<and> concat rss @ lst = old @ ps \<and>
    blocks_sent es + mr_result_block_count m' = mr_result_block_count m \<and>
    mr_current_block_count m' = mr_current_block_count m \<and> unit_of q w t m' \<and> list_all (unit_of q w t) es"
proof -
  have "merge_rows_in cap (fst (m, rq)) old" using assms(1) by simp
  from merge.run_conserves [OF this assms(2)] obtain s' es rss lst
    where run: "foldE (merge_append_in cap) ps (m, rq) = Inr s'" "work (snd s') = work rq @ es"
      "list_all2 (merge_rows_in cap) es rss" "merge_rows_in cap (fst s') lst" "concat rss @ lst = old @ ps" by auto
  have "frame m (work rq) (m, rq)" unfolding frame_def by (intro exI [of _ "[]"]) simp
  then have "frame m (work rq) s'" using foldE_invariant [OF run(1)] merge_append_frame by metis
  then show ?thesis using run assms(3) by (cases s') (fastforce simp: frame_def)
qed

text \<open>A list of results with what they deliver; \<open>blocks xs\<close> is the number of blocks they account for.\<close>

definition blocks :: "('r Result_scheme \<times> string list) list \<Rightarrow> int" where
  "blocks xs = sum_list (map (\<lambda>x. rs_result_block_count (fst x)) xs)"

definition unit_work_in ::
  "nat \<Rightarrow> (FilterInfo \<Rightarrow> string \<Rightarrow> string res) \<Rightarrow> int \<Rightarrow> int \<Rightarrow> int \<Rightarrow> ('r Result_scheme \<times> string list) list \<Rightarrow> bool" where
  "unit_work_in cap project q w t xs \<longleftrightarrow> list_all (\<lambda>(r, ps). unit_result q w t r \<and> delivers_in cap project r ps) xs"

lemma blocks_simps [simp]: "blocks [] = 0" "blocks (x # xs) = rs_result_block_count (fst x) + blocks xs"
  by (simp_all add: blocks_def)

lemma positive_prefix:
  fixes cs :: "int list"
  assumes "\<forall>c\<in>set cs. 0 < c" "k < length cs"
  shows "sum_list (take k cs) < sum_list cs"
  using assms
proof (induction cs arbitrary: k)
  case (Cons c cs)
  have "0 \<le> sum_list cs" using Cons.prems(1) by (intro sum_list_nonneg) (auto intro: less_imp_le)
  with Cons show ?case by (cases k) (auto intro: add_pos_nonneg)
qed simp

lemma blocks_positive:
  assumes "\<forall>x\<in>set xs. 0 < rs_result_block_count (fst x)" "k < length xs"
  shows "blocks (take k xs) < blocks xs"
  using positive_prefix [of "map (\<lambda>x. rs_result_block_count (fst x)) xs" k] assms
  by (simp add: blocks_def take_map)

lemma sum_list_mset_cong:
  fixes f :: "'a \<Rightarrow> 'b :: comm_monoid_add"
  assumes "mset ys = mset xs"
  shows "sum_list (map f ys) = sum_list (map f xs)"
  by (simp only: sum_mset_sum_list [symmetric] mset_map assms)

text \<open>With the \<open>BUFF_SIZE\<close> of this version.\<close>

abbreviation delivers :: "(FilterInfo \<Rightarrow> string \<Rightarrow> string res) \<Rightarrow> 'r Result_scheme \<Rightarrow> string list \<Rightarrow> bool" where
  "delivers \<equiv> delivers_in BUFF_SIZE"

abbreviation in_progress :: "'m merge_state_scheme \<Rightarrow> int \<Rightarrow> int \<Rightarrow> int \<Rightarrow> int \<Rightarrow> string list \<Rightarrow> 'm merge_state_scheme \<Rightarrow> bool" where
  "in_progress \<equiv> in_progress_in BUFF_SIZE"

abbreviation finished :: "'m merge_state_scheme \<Rightarrow> int \<Rightarrow> int \<Rightarrow> int \<Rightarrow> string list \<Rightarrow> 'm merge_state_scheme \<Rightarrow> bool" where
  "finished \<equiv> finished_in BUFF_SIZE"

abbreviation outcome :: "'m merge_state_scheme \<Rightarrow> int \<Rightarrow> int \<Rightarrow> int \<Rightarrow> int \<Rightarrow> string list \<Rightarrow> 'm merge_state_scheme \<Rightarrow> bool" where
  "outcome \<equiv> outcome_in BUFF_SIZE"

abbreviation unit_work :: "(FilterInfo \<Rightarrow> string \<Rightarrow> string res) \<Rightarrow> int \<Rightarrow> int \<Rightarrow> int \<Rightarrow> ('r Result_scheme \<times> string list) list \<Rightarrow> bool" where
  "unit_work \<equiv> unit_work_in BUFF_SIZE"

lemmas delivers_def = delivers_in_def
lemmas in_progress_def = in_progress_in_def
lemmas finished_def = finished_in_def
lemmas outcome_def = outcome_in_def
lemmas unit_work_def = unit_work_in_def

section \<open>The contract of a merge layer\<close>

text \<open>
  A merge layer projects the rows of a result one by one and appends them to the buffer of the
  result's unit, a fresh one if there is none, then counts the blocks; when the count reaches the
  total it sends the buffer and forgets the unit. The size \<open>cap\<close> of a buffer, \<open>project\<close> and \<open>fresh\<close> are
  what a version of the program chooses; what follows holds for all of them.
\<close>

locale merge_layer =
  fixes cap :: nat
    and project :: "FilterInfo \<Rightarrow> string \<Rightarrow> string res"
    and fresh :: "buffer \<Rightarrow> 'r Result_scheme \<Rightarrow> 'm MergeResult_scheme"
    and block :: "buffer \<Rightarrow> 'r Result_scheme \<Rightarrow> 'm merge_state_scheme \<Rightarrow> 'm merge_state_scheme res"
  assumes project_bound: "project fi row = Inr new_row \<Longrightarrow> length new_row \<le> length row"
    and fresh_rows: "merge_rows_in cap (fresh junk r) []"
    and fresh_counts: "mr_result_block_count (fresh junk r) = 0" "mr_current_block_count (fresh junk r) = 0"
    and fresh_unit: "unit_of (rs_query_id r) (rs_work_id r) (rs_total_block_count r) (fresh junk r)"
    and block_eq: "block junk r (mm, rq) =
      bindE (foldE (\<lambda>i st. bindE (origin_row_in cap r i) (\<lambda>row. bindE (project (rs_filter_info r) row) (\<lambda>new_row. merge_append_in cap new_row st)))
        [0..<rs_row_count r] (case mm (rs_query_id r, rs_work_id r) of None \<Rightarrow> fresh junk r | Some m \<Rightarrow> m, rq)) (\<lambda>(m, rq).
        let m = count_blocks r m
        in if mr_total_block_count m = mr_current_block_count m
           then Inr (mm((rs_query_id r, rs_work_id r) := None), push_work m rq)
           else Inr (mm((rs_query_id r, rs_work_id r) \<mapsto> m), rq))"
begin

abbreviation row_step where
  "row_step r i st \<equiv> bindE (origin_row_in cap r i) (\<lambda>row. bindE (project (rs_filter_info r) row) (\<lambda>new_row. merge_append_in cap new_row st))"

lemma merge_rows_eq:
  fixes st :: "'m MergeResult_scheme \<times> 'm MergeResult_scheme WorkQueue"
  assumes "result_rows_in cap r rows" "mapE (project (rs_filter_info r)) rows = Inr ps" "n \<le> length rows"
  shows "foldE (row_step r) [0..<n] st = foldE (merge_append_in cap) (take n ps) st"
  using assms(3)
proof (induction n)
  case (Suc n)
  have "row_step r n s = merge_append_in cap (ps ! n) s"
    for s :: "'m MergeResult_scheme \<times> 'm MergeResult_scheme WorkQueue"
    using origin_row_ok [OF assms(1), of n] mapE_nth [OF assms(2), of n] Suc.prems by (simp)
  moreover have "n < length ps" using Suc.prems mapE_length [OF assms(2)] by simp
  ultimately show ?case
    using Suc by (auto simp: foldE_append take_Suc_conv_app_nth intro!: bindE_cong)
qed simp

lemma delivers_loop:
  fixes st :: "'m MergeResult_scheme \<times> 'm MergeResult_scheme WorkQueue"
  assumes "delivers_in cap project r ps"
  shows "foldE (row_step r) [0..<rs_row_count r] st = foldE (merge_append_in cap) ps st"
    and "\<forall>p\<in>set ps. length p \<le> cap"
proof -
  obtain rows where rows: "result_rows_in cap r rows" "mapE (project (rs_filter_info r)) rows = Inr ps"
    using assms by (auto simp: delivers_in_def)
  then have n: "rs_row_count r = length rows" "length ps = length rows"
    using mapE_length by (auto simp: result_rows_in_def row_layout_in_def)
  show "foldE (row_step r) [0..<rs_row_count r] st = foldE (merge_append_in cap) ps st"
    using merge_rows_eq [OF rows, of "length rows" st] n by simp
  show "\<forall>p\<in>set ps. length p \<le> cap"
  proof
    fix p assume "p \<in> set ps"
    then obtain i where i: "i < length ps" "p = ps ! i" by (metis in_set_conv_nth)
    then have "length p \<le> length (rows ! i)"
      using mapE_nth [OF rows(2), of i] n project_bound by simp
    moreover have "rs_row_offset r ! i + length (rows ! i) \<le> rs_length r" "rs_length r \<le> cap"
      using row_layout_nth(1) [of _ _ _ _ _ rows i] rows(1) i n by (auto simp: result_rows_in_def row_layout_in_def)
    ultimately show "length p \<le> cap" by linarith
  qed
qed

lemma block_core:
  assumes "delivers_in cap project r ps" "unit_result q w t r"
    and m: "(case mm (q, w) of None \<Rightarrow> fresh junk r | Some m \<Rightarrow> m) = m"
    and rep: "merge_rows_in cap m lst" "concat rss @ lst = rows" "blocks_sent es + mr_result_block_count m = c"
      "mr_current_block_count m = c" "unit_of q w t m" "list_all2 (merge_rows_in cap) es rss" "list_all (unit_of q w t) es"
    and base: "mm((q, w) := x) = (fst base)((q, w) := x)" "work rq = work (snd base) @ es"
  shows "\<exists>s. block junk r (mm, rq) = Inr s \<and>
    outcome_in cap base q w t (c + rs_result_block_count r) (rows @ ps) s"
proof -
  have upd: "mm((q, w) := y) = (fst base)((q, w) := y)" for y using base(1) by (metis fun_upd_upd)
  from merge_appends [OF rep(1) delivers_loop(2) [OF assms(1)] rep(5), of rq] obtain m' rq' es' rss' lst'
    where run: "foldE (merge_append_in cap) ps (m, rq) = Inr (m', rq')" "work rq' = work rq @ es'"
      "list_all2 (merge_rows_in cap) es' rss'" "merge_rows_in cap m' lst'" "concat rss' @ lst' = lst @ ps"
      "blocks_sent es' + mr_result_block_count m' = mr_result_block_count m"
      "mr_current_block_count m' = mr_current_block_count m" "unit_of q w t m'" "list_all (unit_of q w t) es'" by blast
  let ?m = "count_blocks r m'"
  have cnt: "merge_rows_in cap ?m lst'" "unit_of q w t ?m" "mr_current_block_count ?m = c + rs_result_block_count r"
    "blocks_sent (es @ es') + mr_result_block_count ?m = c + rs_result_block_count r"
    "mr_total_block_count ?m = t"
    using run rep(3,4) by (simp_all add: count_blocks_def merge_rows_in_def unit_of_def)
  have all: "list_all2 (merge_rows_in cap) (es @ es') (rss @ rss')" "list_all (unit_of q w t) (es @ es')"
    using rep run by (simp_all add: list_all2_appendI)
  have cat: "concat (rss @ rss') @ lst' = rows @ ps" using rep(2) run(5) by auto
  have ids: "rs_query_id r = q" "rs_work_id r = w" "rs_total_block_count r = t"
    using assms(2) by (simp_all add: unit_result_def)
  have eq: "block junk r (mm, rq) = (if t = c + rs_result_block_count r then Inr (mm((q, w) := None), push_work ?m rq')
      else Inr (mm((q, w) \<mapsto> ?m), rq'))"
    unfolding block_eq ids m delivers_loop(1) [OF assms(1)] run(1)
    using cnt by simp
  show ?thesis
  proof (cases "c + rs_result_block_count r = t")
    case True
    have "list_all2 (merge_rows_in cap) ((es @ es') @ [?m]) ((rss @ rss') @ [lst'])"
      by (rule list_all2_appendI [OF all(1)]) (simp add: cnt(1))
    moreover have "concat ((rss @ rss') @ [lst']) = rows @ ps" using cat by simp
    moreover have "blocks_sent ((es @ es') @ [?m]) = t" using cnt(4) True by simp
    moreover have "list_all (unit_of q w t) ((es @ es') @ [?m])" using all(2) cnt(2) by simp
    moreover have "work (push_work ?m rq') = work (snd base) @ ((es @ es') @ [?m])" using run(2) base(2) by simp
    ultimately have "finished_in cap base q w t (rows @ ps) (mm((q, w) := None), push_work ?m rq')"
      unfolding finished_in_def fst_conv snd_conv using upd [of None] by blast
    with eq True show ?thesis by (simp add: outcome_in_def)
  next
    case False
    have "work rq' = work (snd base) @ (es @ es')" using run(2) base(2) by simp
    then have "in_progress_in cap base q w t (c + rs_result_block_count r) (rows @ ps) (mm((q, w) \<mapsto> ?m), rq')"
      unfolding in_progress_in_def fst_conv snd_conv using upd [of "Some ?m"] all cat cnt by blast
    with eq False show ?thesis by (simp add: outcome_in_def)
  qed
qed

lemma block_first:
  assumes "delivers_in cap project r ps" "unit_result q w t r" "fst base (q, w) = None"
  shows "\<exists>s. block junk r base = Inr s \<and>
    outcome_in cap base q w t (rs_result_block_count r) ps s"
proof -
  let ?m = "fresh junk r"
  have "merge_rows_in cap ?m []" "mr_result_block_count ?m = 0" "mr_current_block_count ?m = 0" "unit_of q w t ?m"
    using fresh_rows fresh_counts fresh_unit [of r junk] assms(2) by (simp_all add: unit_result_def)
  then show ?thesis
    using block_core [OF assms(1,2), where mm = "fst base" and m = ?m and base = base and rq = "snd base"
        and es = "[]" and rss = "[]" and lst = "[]" and rows = "[]" and c = 0 and junk = junk] assms(3) by simp
qed

lemma block_next:
  assumes "delivers_in cap project r ps" "unit_result q w t r" "in_progress_in cap base q w t c rows s"
  shows "\<exists>s'. block junk r s = Inr s' \<and>
    outcome_in cap base q w t (c + rs_result_block_count r) (rows @ ps) s'"
proof -
  obtain mm rq where s: "s = (mm, rq)" by (cases s)
  from assms(3) obtain m es rss lst where m: "mm = (fst base)((q, w) \<mapsto> m)" "work rq = work (snd base) @ es"
    "list_all2 (merge_rows_in cap) es rss" "merge_rows_in cap m lst" "concat rss @ lst = rows"
    "blocks_sent es + mr_result_block_count m = c" "mr_current_block_count m = c"
    "unit_of q w t m" "list_all (unit_of q w t) es"
    unfolding in_progress_in_def s fst_conv snd_conv by blast
  then have "(case mm (q, w) of None \<Rightarrow> fresh junk r | Some m \<Rightarrow> m) = m"
    "mm((q, w) := None) = (fst base)((q, w) := None)" by simp_all
  from block_core [OF assms(1,2) this(1) m(4-8,3,9) this(2) m(2)] show ?thesis unfolding s .
qed

lemma block_continue:
  assumes "in_progress_in cap base q w t c rows s" "unit_work_in cap project q w t xs" "\<forall>k<length xs. 0 < k \<longrightarrow> c + blocks (take k xs) \<noteq> t"
    "xs \<noteq> []"
  shows "\<exists>s'. foldE (block junk) (map fst xs) s = Inr s' \<and>
    outcome_in cap base q w t (c + blocks xs) (rows @ concat (map snd xs)) s'"
  using assms
proof (induction xs arbitrary: c rows s)
  case (Cons x xs)
  obtain r ps where x: "x = (r, ps)" by (cases x)
  have r: "delivers_in cap project r ps" "unit_result q w t r" and rest: "unit_work_in cap project q w t xs"
    using Cons.prems(2) x by (simp_all add: unit_work_in_def)
  from block_next [OF r Cons.prems(1)] obtain s1 where s1: "block junk r s = Inr s1"
    "outcome_in cap base q w t (c + rs_result_block_count r) (rows @ ps) s1" by blast
  show ?case
  proof (cases "xs = []")
    case True
    with s1 x show ?thesis by simp
  next
    case False
    then have "c + rs_result_block_count r \<noteq> t" using Cons.prems(3) x by (auto dest: spec [of _ 1])
    with s1 have prog: "in_progress_in cap base q w t (c + rs_result_block_count r) (rows @ ps) s1" by (simp add: outcome_in_def)
    have "\<forall>k<length xs. 0 < k \<longrightarrow> (c + rs_result_block_count r) + blocks (take k xs) \<noteq> t"
    proof (intro allI impI)
      fix k assume "k < length xs" "0 < k"
      then have "c + blocks (take (Suc k) (x # xs)) \<noteq> t" using Cons.prems(3) by (metis length_Cons not_less_eq zero_less_Suc)
      then show "(c + rs_result_block_count r) + blocks (take k xs) \<noteq> t" using x by (simp add: add.assoc)
    qed
    from Cons.IH [OF prog rest this False] s1(1) x show ?thesis by (simp add: add.assoc)
  qed
qed simp

lemma block_unit:
  assumes "fst base (q, w) = None" "unit_work_in cap project q w t xs" "xs \<noteq> []"
    "\<forall>k<length xs. 0 < k \<longrightarrow> blocks (take k xs) \<noteq> t"
  shows "\<exists>s. foldE (block junk) (map fst xs) base = Inr s \<and>
    outcome_in cap base q w t (blocks xs) (concat (map snd xs)) s"
proof -
  obtain r ps ys where xs: "xs = (r, ps) # ys" using assms(3) by (metis list.exhaust surj_pair)
  have r: "delivers_in cap project r ps" "unit_result q w t r" and rest: "unit_work_in cap project q w t ys"
    using assms(2) xs by (simp_all add: unit_work_in_def)
  from block_first [OF r assms(1)] obtain s1 where s1: "block junk r base = Inr s1"
    "outcome_in cap base q w t (rs_result_block_count r) ps s1" by blast
  show ?thesis
  proof (cases "ys = []")
    case True
    with s1 xs show ?thesis by simp
  next
    case False
    then have "rs_result_block_count r \<noteq> t" using assms(4) xs by (auto dest: spec [of _ 1])
    with s1 have prog: "in_progress_in cap base q w t (rs_result_block_count r) ps s1" by (simp add: outcome_in_def)
    have "\<forall>k<length ys. 0 < k \<longrightarrow> rs_result_block_count r + blocks (take k ys) \<noteq> t"
    proof (intro allI impI)
      fix k assume "k < length ys" "0 < k"
      then have "blocks (take (Suc k) xs) \<noteq> t" using assms(4) xs by (metis length_Cons not_less_eq zero_less_Suc)
      then show "rs_result_block_count r + blocks (take k ys) \<noteq> t" using xs by simp
    qed
    from block_continue [OF prog rest this False, of junk] obtain s' where
      s': "foldE (block junk) (map fst ys) s1 = Inr s'"
      "outcome_in cap base q w t (rs_result_block_count r + blocks ys) (ps @ concat (map snd ys)) s'" by blast
    show ?thesis by (rule exI [of _ s']) (use s' s1(1) xs in simp)
  qed
qed

text \<open>What a complete unit, a unit in any order and an incomplete unit come to.\<close>

lemma unit_merged:
  assumes "mm (q, w) = None" "unit_work_in cap project q w t xs" "xs \<noteq> []" "blocks xs = t"
    "\<forall>k<length xs. 0 < k \<longrightarrow> blocks (take k xs) \<noteq> t"
  shows "\<exists>rq' es rss. foldE (block junk) (map fst xs) (mm, rq) = Inr (mm, rq') \<and> work rq' = work rq @ es \<and>
    list_all2 (merge_rows_in cap) es rss \<and> concat rss = concat (map snd xs) \<and> blocks_sent es = t \<and> list_all (unit_of q w t) es"
proof -
  have none: "fst (mm, rq) (q, w) = None" using assms(1) by simp
  have same: "mm((q, w) := None) = mm" using assms(1) by auto
  from block_unit [OF none assms(2,3,5), of junk] assms(4) obtain s where
    "foldE (block junk) (map fst xs) (mm, rq) = Inr s" "finished_in cap (mm, rq) q w t (concat (map snd xs)) s"
    by (auto simp: outcome_in_def)
  then show ?thesis using same by (cases s) (auto simp: finished_in_def)
qed

lemma unit_merged_any_order:
  assumes "mm (q, w) = None" "unit_work_in cap project q w t xs" "xs \<noteq> []" "blocks xs = t"
    "\<forall>x\<in>set xs. 0 < rs_result_block_count (fst x)" "mset ys = mset xs"
  shows "\<exists>rq' es rss. foldE (block junk) (map fst ys) (mm, rq) = Inr (mm, rq') \<and> work rq' = work rq @ es \<and>
    list_all2 (merge_rows_in cap) es rss \<and> mset (concat rss) = mset (concat (map snd xs)) \<and> blocks_sent es = t"
proof -
  have set: "set ys = set xs" and ne: "ys \<noteq> []" using assms(3,6) by (metis set_mset_mset) (use assms(3,6) in auto)
  have work: "unit_work_in cap project q w t ys" using assms(2) set by (simp add: unit_work_in_def list_all_iff)
  have sum: "blocks ys = t" unfolding assms(4) [symmetric] blocks_def by (rule sum_list_mset_cong [OF assms(6)])
  have pre: "\<forall>k<length ys. 0 < k \<longrightarrow> blocks (take k ys) \<noteq> t"
  proof (intro allI impI)
    fix k assume "k < length ys"
    with blocks_positive [of ys k] assms(5) set sum show "blocks (take k ys) \<noteq> t" by simp
  qed
  have "mset (concat (map snd ys)) = mset (concat (map snd xs))"
    unfolding mset_concat map_map by (rule sum_list_mset_cong [OF assms(6)])
  with unit_merged [where mm = mm, OF assms(1) work ne sum pre, of junk rq] show ?thesis by metis
qed

lemma unit_incomplete:
  assumes "mm (q, w) = None" "unit_work_in cap project q w t xs" "xs \<noteq> []"
    "\<forall>k\<le>length xs. 0 < k \<longrightarrow> blocks (take k xs) \<noteq> t"
  shows "\<exists>mm' rq' m es rss lst. foldE (block junk) (map fst xs) (mm, rq) = Inr (mm', rq') \<and>
    mm' = mm((q, w) \<mapsto> m) \<and> merge_rows_in cap m lst \<and> work rq' = work rq @ es \<and> list_all2 (merge_rows_in cap) es rss \<and>
    concat rss @ lst = concat (map snd xs)"
proof -
  have none: "fst (mm, rq) (q, w) = None" using assms(1) by simp
  have pre: "\<forall>k<length xs. 0 < k \<longrightarrow> blocks (take k xs) \<noteq> t" and all: "blocks xs \<noteq> t"
    using assms(3,4) by (auto dest: spec [of _ "length xs"])
  from block_unit [OF none assms(2,3) pre, of junk] all obtain s where
    "foldE (block junk) (map fst xs) (mm, rq) = Inr s"
    "in_progress_in cap (mm, rq) q w t (blocks xs) (concat (map snd xs)) s"
    by (auto simp: outcome_in_def)
  then show ?thesis by (cases s) (fastforce simp: in_progress_in_def)
qed

end

section \<open>The merge layer of this version\<close>

interpretation csd_merge: merge_layer BUFF_SIZE project_row
    "\<lambda>junk r. new_MergeResult junk (rs_query_id r) (rs_work_id r) (rs_csd_name r) (rs_total_block_count r)" MergeBlock
  by unfold_locales
    (simp_all add: project_row_bound new_MergeResult_def merge_rows_def unit_of_def MergeBlock_def merge_row_def [abs_def] Let_def)

section \<open>Properties\<close>

text \<open>One row of the example table, as a result that accounts for \<open>c\<close> of two blocks.\<close>

definition ex_result :: "int \<Rightarrow> Result" where
  "ex_result c = \<lparr> rs_query_id = 7, rs_work_id = 1, rs_csd_name = ''1'', rs_total_block_count = 2,
     rs_filter_info = ex_minfo [column_item (ex_minfo []) 0], rs_row_count = 1, rs_length = 11,
     rs_data = buf_write (\<lambda>_. CHR 0x00) 0 (enc_row ex_mrow), rs_row_offset = [0], rs_result_block_count = c \<rparr>"

lemma ex_delivers: "delivers project_row (ex_result c) [''abcd'']"
proof -
  let ?fi = "ex_minfo [column_item (ex_minfo []) 0]"
  have len: "length (enc_row ex_mrow) = 11" by (simp add: enc_row_def ex_mrow_def enc_field_def hdr_len_def)
  have "buf_read (buf_write (\<lambda>_. CHR 0x00) 0 (enc_row ex_mrow)) 0 11 = enc_row ex_mrow"
    using buf_read_write_same [of "\<lambda>_. CHR 0x00" 0 "enc_row ex_mrow"] by (simp only: len)
  then have "result_rows (ex_result c) [enc_row ex_mrow]"
    using len by (simp add: result_rows_def row_layout_def ex_result_def csd_sizes)
  moreover have "projects_columns ?fi [0]" by (simp add: projects_columns_def column_item_def ex_minfo_def)
  then have "project_row ?fi (enc_row ex_mrow) = store 11 (columns_bytes ex_mrow [0])"
    using project_row_columns [OF ex_merge_schema] len by metis
  then have "project_row ?fi (enc_row ex_mrow) = Inr ''abcd''"
    by (simp add: columns_bytes_def ex_mrow_def enc_field_def hdr_len_def)
  ultimately show ?thesis unfolding delivers_def by (intro exI [of _ "[enc_row ex_mrow]"]) (simp add: ex_result_def)
qed

lemma ex_unit_work: "unit_work project_row 7 1 2 (map (\<lambda>c. (ex_result c, [''abcd''])) cs)"
  by (simp add: unit_work_def list_all_iff unit_result_def ex_delivers) (simp add: ex_result_def)

text \<open>
  A work unit from its first result to its last: when the block counts reach the total with the
  last result and not before, the merge layer does not fail, the buffer of the unit is gone, and
  the buffers it sent to the return layer hold exactly the projected rows of all results, in the
  order they arrived, carry the ids of the unit, and account for exactly the unit's blocks.
\<close>

theorem work_unit_merged:
  assumes "mm (q, w) = None" "unit_work project_row q w t xs" "xs \<noteq> []" "blocks xs = t"
    "\<forall>k<length xs. 0 < k \<longrightarrow> blocks (take k xs) \<noteq> t"
  shows "\<exists>rq' es rss. foldE (MergeBlock junk) (map fst xs) (mm, rq) = Inr (mm, rq') \<and> work rq' = work rq @ es \<and>
    list_all2 merge_rows es rss \<and> concat rss = concat (map snd xs) \<and> blocks_sent es = t \<and> list_all (unit_of q w t) es"
  using assms by (rule csd_merge.unit_merged)

theorem work_unit_merged_witness:
  "\<exists>rq' es rss. foldE (MergeBlock (\<lambda>_. CHR 0x2A)) [ex_result 1, ex_result 1] (Map.empty, new_WorkQueue 1) = Inr (Map.empty, rq') \<and>
     work rq' = es \<and> list_all2 merge_rows es rss \<and> concat rss = [''abcd'', ''abcd''] \<and> blocks_sent es = 2"
proof -
  let ?xs = "map (\<lambda>c. (ex_result c, [''abcd''])) [1, 1]"
  have "\<exists>rq' es rss. foldE (MergeBlock (\<lambda>_. CHR 0x2A)) (map fst ?xs) (Map.empty, new_WorkQueue 1) = Inr (Map.empty, rq') \<and>
    work rq' = work (new_WorkQueue 1) @ es \<and> list_all2 merge_rows es rss \<and> concat rss = concat (map snd ?xs) \<and>
    blocks_sent es = 2 \<and> list_all (unit_of 7 1 2) es"
    by (rule work_unit_merged [OF _ ex_unit_work]) (simp_all add: ex_result_def less_Suc_eq)
  then show ?thesis by (auto simp: new_WorkQueue_def)
qed

text \<open>
  C12. The order of arrival does not matter for the contents: with two filter threads the results of
  a unit may reach the merge layer in any order. If every result accounts for at least one block
  and together they account for the total, every order is merged without failure and the
  buffers sent hold the same rows, counted with multiplicity, and the same number of blocks.
\<close>

theorem arrival_order_irrelevant:
  assumes "mm (q, w) = None" "unit_work project_row q w t xs" "xs \<noteq> []" "blocks xs = t"
    "\<forall>x\<in>set xs. 0 < rs_result_block_count (fst x)" "mset ys = mset xs"
  shows "\<exists>rq' es rss. foldE (MergeBlock junk) (map fst ys) (mm, rq) = Inr (mm, rq') \<and> work rq' = work rq @ es \<and>
    list_all2 merge_rows es rss \<and> mset (concat rss) = mset (concat (map snd xs)) \<and> blocks_sent es = t"
  using assms by (rule csd_merge.unit_merged_any_order)

theorem arrival_order_irrelevant_witness:
  "\<exists>rq' es rss. foldE (MergeBlock (\<lambda>_. CHR 0x2A)) [ex_result 1, ex_result 1] (Map.empty, new_WorkQueue 1) = Inr (Map.empty, rq') \<and>
     work rq' = es \<and> list_all2 merge_rows es rss \<and> mset (concat rss) = mset [''abcd'', ''abcd''] \<and> blocks_sent es = 2"
proof -
  let ?xs = "map (\<lambda>c. (ex_result c, [''abcd''])) [1, 1]"
  have "\<exists>rq' es rss. foldE (MergeBlock (\<lambda>_. CHR 0x2A)) (map fst (rev ?xs)) (Map.empty, new_WorkQueue 1) = Inr (Map.empty, rq') \<and>
    work rq' = work (new_WorkQueue 1) @ es \<and> list_all2 merge_rows es rss \<and> mset (concat rss) = mset (concat (map snd ?xs)) \<and>
    blocks_sent es = 2"
    by (rule arrival_order_irrelevant [OF _ ex_unit_work]) (simp_all add: ex_result_def)
  then show ?thesis by (auto simp: new_WorkQueue_def)
qed

text \<open>
  A unit whose counts reach the total too early: results that arrive after that open a new
  buffer, and as long as the counts do not reach the total again the rows stay in it; the
  buffer remains in the map and only the rows that overflowed it are sent.
\<close>

theorem late_rows_stay:
  assumes "mm (q, w) = None" "unit_work project_row q w t xs" "xs \<noteq> []"
    "\<forall>k\<le>length xs. 0 < k \<longrightarrow> blocks (take k xs) \<noteq> t"
  shows "\<exists>mm' rq' m es rss lst. foldE (MergeBlock junk) (map fst xs) (mm, rq) = Inr (mm', rq') \<and>
    mm' = mm((q, w) \<mapsto> m) \<and> merge_rows m lst \<and> work rq' = work rq @ es \<and> list_all2 merge_rows es rss \<and>
    concat rss @ lst = concat (map snd xs)"
  using assms by (rule csd_merge.unit_incomplete)

theorem late_rows_stay_witness:
  "\<exists>mm' rq' m es rss lst. foldE (MergeBlock (\<lambda>_. CHR 0x2A)) [ex_result 0] (Map.empty, new_WorkQueue 1) = Inr (mm', rq') \<and>
     mm' = [(7, 1) \<mapsto> m] \<and> merge_rows m lst \<and> work rq' = es \<and> list_all2 merge_rows es rss \<and> concat rss @ lst = [''abcd'']"
proof -
  let ?xs = "map (\<lambda>c. (ex_result c, [''abcd''])) [0]"
  have "\<exists>mm' rq' m es rss lst. foldE (MergeBlock (\<lambda>_. CHR 0x2A)) (map fst ?xs) (Map.empty, new_WorkQueue 1) = Inr (mm', rq') \<and>
    mm' = Map.empty((7, 1) \<mapsto> m) \<and> merge_rows m lst \<and> work rq' = work (new_WorkQueue 1) @ es \<and> list_all2 merge_rows es rss \<and>
    concat rss @ lst = concat (map snd ?xs)"
    by (rule late_rows_stay [OF _ ex_unit_work]) (simp_all add: ex_result_def le_Suc_eq)
  then show ?thesis by (simp add: new_WorkQueue_def)
qed


end
