(* ===== verification/Return_Model.thy ===== *)
theory Return_Model
  imports Work_Queue
begin

text \<open>
  The return interface (\<open>return.cc\<close>): \<open>SendDataToBufferManager\<close> describes a merged buffer as a JSON
  object, sends the length of the text, the text, waits for an acknowledgement, and sends the
  length and the contents of the buffer. \<open>ReturnResult\<close> is one turn of the layer's loop.

  Parameters: \<open>write\<close> is rapidjson's \<open>PrettyWriter\<close>; \<open>ack\<close> is what \<open>recv\<close> returns. Opening and
  connecting the socket are not modelled. \<open>receive\<close> is the reading of the byte stream the protocol
  asks of the buffer manager: a length, so many bytes of text, a length, so many bytes of data.
\<close>

section \<open>Operations\<close>

definition c_str :: "string \<Rightarrow> string" where
  \<comment> \<open>a \<open>std::string\<close> read through \<open>c_str()\<close> ends at its first NUL\<close>
  "c_str s = takeWhile (\<lambda>c. c \<noteq> CHR 0x00) s"

definition result_doc :: "MergeResult \<Rightarrow> json" where
  "result_doc m = JObj
     [(''queryID'', JInt (mr_query_id m)),
      (''workID'', JInt (mr_work_id m)),
      (''rowCount'', JInt (int (mr_row_count m))),
      (''rowOffset'', JArr (map (\<lambda>off. JInt (int off)) (mr_row_offset m))),
      (''length'', JInt (int (mr_length m))),
      (''csdName'', JStr (c_str (mr_csd_name m))),
      (''resultBlockCount'', JInt (mr_result_block_count m))]"

datatype sock_op = Send string | Recv | Close

definition SendDataToBufferManager :: "(json \<Rightarrow> string) \<Rightarrow> int \<Rightarrow> MergeResult \<Rightarrow> sock_op list" where
  "SendDataToBufferManager write ack m =
     (let block_buf = c_str (write (result_doc m)) in
      [Send (le_bytes 8 (length block_buf)), Send block_buf, Recv] @
      (if ack = 0 then []
       else [Send (le_bytes 8 (mr_length m)), Send (buf_read (mr_data m) 0 BUFF_SIZE), Close]))"

definition ReturnResult ::
  "(json \<Rightarrow> string) \<Rightarrow> int \<Rightarrow> MergeResult WorkQueue \<Rightarrow> sock_op list \<times> MergeResult WorkQueue" where
  "ReturnResult write ack rq =
     (case wait_and_pop 0 rq of
        (None, rq') \<Rightarrow> ([], rq')
      | (Some m, rq') \<Rightarrow> (SendDataToBufferManager write ack m, rq'))"

section \<open>The stream and its reader\<close>

fun sent_bytes :: "sock_op list \<Rightarrow> string" where
  "sent_bytes [] = []"
| "sent_bytes (Send bs # ops) = bs @ sent_bytes ops"
| "sent_bytes (_ # ops) = sent_bytes ops"

definition receive :: "string \<Rightarrow> string \<times> string" where
  "receive bs =
     (let n = le_nat (take 8 bs); txt = take n (drop 8 bs); rest = drop (8 + n) bs;
          len = le_nat (take 8 rest)
      in (txt, take len (drop 8 rest)))"

definition cut_rows :: "nat list \<Rightarrow> string \<Rightarrow> string list" where
  \<comment> \<open>the rows of the data, by their offsets\<close>
  "cut_rows offs d = map (\<lambda>(a, b). take (b - a) (drop a d)) (zip offs (drop 1 offs @ [length d]))"

lemma take8_le_bytes: "take 8 (le_bytes 8 n @ xs) = le_bytes 8 n" "drop 8 (le_bytes 8 n @ xs) = xs"
  by simp_all

lemma receive_stream:
  assumes "length txt < 2 ^ 64" "len < 2 ^ 64" "len \<le> length d"
  shows "receive (le_bytes 8 (length txt) @ txt @ le_bytes 8 len @ d) = (txt, take len d)"
  using assms by (simp add: receive_def Let_def)

lemma zip_offsets:
  "zip (offsets n rows) (drop 1 (offsets n rows) @ [n + length (concat rows)]) =
     map (\<lambda>i. (n + length (concat (take i rows)), n + length (concat (take (Suc i) rows)))) [0..<length rows]"
proof (rule nth_equalityI)
  show "length (zip (offsets n rows) (drop 1 (offsets n rows) @ [n + length (concat rows)])) =
      length (map (\<lambda>i. (n + length (concat (take i rows)), n + length (concat (take (Suc i) rows)))) [0..<length rows])"
    by (cases rows) simp_all
  fix i assume "i < length (zip (offsets n rows) (drop 1 (offsets n rows) @ [n + length (concat rows)]))"
  then have i: "i < length rows" by simp
  have "(drop 1 (offsets n rows) @ [n + length (concat rows)]) ! i = n + length (concat (take (Suc i) rows))"
  proof (cases "Suc i < length rows")
    case True
    then have "i < length rows - 1" by simp
    with True show ?thesis by (simp add: nth_append offsets_nth)
  next
    case False
    with i have "Suc i = length rows" "\<not> i < length rows - 1" "i - (length rows - 1) = 0" by simp_all
    then show ?thesis by (simp add: nth_append)
  qed
  then show "zip (offsets n rows) (drop 1 (offsets n rows) @ [n + length (concat rows)]) ! i =
      map (\<lambda>i. (n + length (concat (take i rows)), n + length (concat (take (Suc i) rows)))) [0..<length rows] ! i"
    using i by (simp add: offsets_nth)
qed

lemma cut_rows_offsets: "cut_rows (offsets 0 rows) (concat rows) = rows"
proof (rule nth_equalityI)
  show "length (cut_rows (offsets 0 rows) (concat rows)) = length rows"
    unfolding cut_rows_def using zip_offsets [of 0 rows] by simp
  fix i assume "i < length (cut_rows (offsets 0 rows) (concat rows))"
  then have i: "i < length rows" unfolding cut_rows_def using zip_offsets [of 0 rows] by simp
  have cat: "concat rows = concat (take i rows) @ rows ! i @ concat (drop (Suc i) rows)"
    by (metis Cons_nth_drop_Suc append_take_drop_id concat.simps(2) concat_append i)
  have "cut_rows (offsets 0 rows) (concat rows) ! i =
      take (length (concat (take (Suc i) rows)) - length (concat (take i rows))) (drop (length (concat (take i rows))) (concat rows))"
    unfolding cut_rows_def using zip_offsets [of 0 rows] i by simp
  also have "\<dots> = rows ! i" using i by (subst cat) (simp add: take_Suc_conv_app_nth)
  finally show "cut_rows (offsets 0 rows) (concat rows) ! i = rows ! i" .
qed

lemma stream_readable:
  assumes "parse (write (result_doc m)) = result_doc m" "CHR 0x00 \<notin> set (write (result_doc m))"
    "length (write (result_doc m)) < 2 ^ 64"
    and "merge_rows m rows" "ack \<noteq> 0"
  shows "\<exists>txt d. receive (sent_bytes (SendDataToBufferManager write ack m)) = (txt, d) \<and>
    parse txt = result_doc m \<and> d = concat rows \<and> cut_rows (mr_row_offset m) d = rows"
proof -
  have body: "c_str (write (result_doc m)) = write (result_doc m)"
    using assms(2) by (auto simp: c_str_def takeWhile_eq_all_conv)
  have m: "mr_length m = length (concat rows)" "mr_length m \<le> BUFF_SIZE" "mr_row_offset m = offsets 0 rows"
    "buf_read (mr_data m) 0 (mr_length m) = concat rows"
    using assms(4) by (auto simp: merge_rows_def row_layout_def)
  have "sent_bytes (SendDataToBufferManager write ack m) =
      le_bytes 8 (length (write (result_doc m))) @ write (result_doc m) @ le_bytes 8 (mr_length m) @ buf_read (mr_data m) 0 BUFF_SIZE"
    using assms(5) body by (simp add: SendDataToBufferManager_def Let_def)
  then have "receive (sent_bytes (SendDataToBufferManager write ack m)) =
      (write (result_doc m), take (mr_length m) (buf_read (mr_data m) 0 BUFF_SIZE))"
    using receive_stream [of "write (result_doc m)" "mr_length m" "buf_read (mr_data m) 0 BUFF_SIZE"] assms(3) m(2)
    by (simp add: csd_sizes)
  also have "take (mr_length m) (buf_read (mr_data m) 0 BUFF_SIZE) = concat rows"
    using take_buf_read [OF m(2)] m(4) by simp
  finally show ?thesis using assms(1) m(3) cut_rows_offsets by simp
qed

section \<open>Properties\<close>

text \<open>
  What the return layer sends can be read back: for a writer whose text a parser reads back and
  which holds no NUL, a reader that follows the lengths gets the description of the buffer and
  exactly its data, and cutting the data at the described offsets gives exactly the rows of the
  merged buffer.
\<close>

theorem returned_rows_readable:
  assumes "parse (write (result_doc m)) = result_doc m" "CHR 0x00 \<notin> set (write (result_doc m))"
    "length (write (result_doc m)) < 2 ^ 64"
    and "merge_rows m rows" "ack \<noteq> 0"
  shows "\<exists>txt d. receive (sent_bytes (SendDataToBufferManager write ack m)) = (txt, d) \<and>
    parse txt = result_doc m \<and> cut_rows (mr_row_offset m) d = rows"
  using stream_readable [of parse "write" m, OF assms] by blast

definition ex_merged :: MergeResult where
  "ex_merged = \<lparr> mr_query_id = 7, mr_work_id = 1, mr_csd_name = ''1'', mr_row_offset = [0, 2], mr_row_count = 2,
     mr_data = buf_write (\<lambda>_. CHR 0x2A) 0 ''abcde'', mr_length = 5, mr_total_block_count = 1,
     mr_result_block_count = 1, mr_current_block_count = 1 \<rparr>"

lemma ex_merged_data: "buf_read (buf_write (\<lambda>_. CHR 0x2A) 0 ''abcde'') 0 5 = ''abcde''"
proof -
  have "length ''abcde'' = 5" by simp
  with buf_read_write_same [of "\<lambda>_. CHR 0x2A" 0 "''abcde''"] show ?thesis by (simp only:)
qed

lemma ex_merged_rows: "merge_rows ex_merged [''ab'', ''cde'']"
  using ex_merged_data
  by (simp add: merge_rows_def row_layout_def ex_merged_def csd_sizes)

text \<open>A writer and a parser that agree on the description of this buffer.\<close>

definition ex_write :: "json \<Rightarrow> string" where
  "ex_write j = ''{...}''"

definition ex_read :: "string \<Rightarrow> json" where
  "ex_read s = (if s = ''{...}'' then result_doc ex_merged else JNull)"

theorem returned_rows_readable_witness:
  "\<exists>txt d. receive (sent_bytes (SendDataToBufferManager ex_write 36 ex_merged)) = (txt, d) \<and>
    ex_read txt = result_doc ex_merged \<and> cut_rows (mr_row_offset ex_merged) d = [''ab'', ''cde'']"
  by (rule returned_rows_readable [OF _ _ _ ex_merged_rows]) (simp_all add: ex_write_def ex_read_def)

text \<open>
  The whole array is sent, whatever the length: behind the rows follow the bytes that happen to
  lie in the rest of the buffer, which neither the constructor nor \<open>InitMergeResult\<close> clears.
\<close>

theorem stale_bytes_sent:
  assumes "ack \<noteq> 0" "mr_length m \<le> BUFF_SIZE"
  shows "\<exists>pre. SendDataToBufferManager write ack m =
    pre @ [Send (buf_read (mr_data m) 0 (mr_length m) @ buf_read (mr_data m) (mr_length m) (BUFF_SIZE - mr_length m)), Close]"
proof -
  have "buf_read (mr_data m) 0 BUFF_SIZE =
      buf_read (mr_data m) 0 (mr_length m) @ buf_read (mr_data m) (mr_length m) (BUFF_SIZE - mr_length m)"
    using buf_read_append [of "mr_data m" 0 "mr_length m" "BUFF_SIZE - mr_length m"] assms(2) by simp
  then show ?thesis using assms(1) by (simp add: SendDataToBufferManager_def Let_def)
qed

theorem stale_bytes_sent_witness:
  "\<exists>pre. SendDataToBufferManager ex_write 36 ex_merged =
     pre @ [Send (''abcde'' @ replicate (BUFF_SIZE - 5) (CHR 0x2A)), Close]"
proof -
  have len: "mr_length ex_merged = 5" "mr_data ex_merged = buf_write (\<lambda>_. CHR 0x2A) 0 ''abcde''"
    by (simp_all add: ex_merged_def)
  have "buf_read (mr_data ex_merged) 5 (BUFF_SIZE - 5) = replicate (BUFF_SIZE - 5) (CHR 0x2A)"
    unfolding len by (rule nth_equalityI) (simp_all add: buf_write_def)
  moreover have "buf_read (mr_data ex_merged) 0 5 = ''abcde''"
    using ex_merged_data by (simp only: len)
  moreover have "mr_length ex_merged \<le> BUFF_SIZE" by (simp add: len csd_sizes)
  ultimately show ?thesis using stale_bytes_sent [of 36 ex_merged ex_write] by (simp add: len)
qed

end
