(* ===== verification/Queries.thy ===== *)
theory Queries
  imports Scan_Model Filter_Block Merge_Manager Return_Model
begin

text \<open>
  What a query is, on the level of the data: the table file of its snippet holds the rows \<open>Fs\<close>, its
  filter is the disjunctive normal form \<open>Ds\<close>, its projection lists the columns \<open>is\<close>. The lemmas
  carry a \<^emph>\<open>block\<close>, a result together with the rows it holds, through the layers: the scan sends the
  rows as blocks (\<open>scan_blocks\<close>), the filter turns a block into the block of the rows that satisfy
  the formula (\<open>query_filters\<close>), and the merge layer projects the rows of all blocks
  (\<open>projected_unit_work\<close>, \<open>merge_query\<close>).
\<close>

section \<open>Blocks\<close>

type_synonym block = "Result \<times> field list list"

definition query_block :: "(Result \<Rightarrow> bool) \<Rightarrow> (field list \<Rightarrow> bool) \<Rightarrow> block \<Rightarrow> bool" where
  "query_block ident good b \<longleftrightarrow> ident (fst b) \<and> list_all good (snd b) \<and> result_rows (fst b) (map enc_row (snd b))"

text \<open>What the filter does with a block of the query.\<close>

definition filters_blocks :: "(string \<Rightarrow> json) \<Rightarrow> (Result \<Rightarrow> bool) \<Rightarrow> (field list \<Rightarrow> bool) \<Rightarrow> (field list \<Rightarrow> bool) \<Rightarrow> bool" where
  "filters_blocks parse ident good p \<longleftrightarrow> (\<forall>junk v0 r F fo mq. query_block ident good (r, F) \<longrightarrow>
     (\<exists>fo' fr. BlockFilter parse junk v0 r fo mq = Inr (fo', push_work fr mq) \<and>
        query_block ident good (fr, filter p F) \<and> rs_result_block_count fr = rs_result_block_count r))"

lemma empty_block:
  assumes "query_block ident good (r, F)" "rs_length r = 0" "\<forall>fs. good fs \<longrightarrow> enc_row fs \<noteq> []"
  shows "F = []"
proof (rule ccontr)
  assume "F \<noteq> []"
  then obtain fs F' where F: "F = fs # F'" by (cases F) auto
  have "concat (map enc_row F) = []" using assms(1,2) by (simp add: query_block_def result_rows_def row_layout_def)
  with F assms(1,3) show False by (simp add: query_block_def)
qed

section \<open>A query\<close>

text \<open>
  The static side of a query: the table file of the snippet holds the rows \<open>Fs\<close> in the snippet's
  schema, its filter is the disjunctive normal form \<open>Ds\<close>, its projection lists the columns \<open>is\<close>.
\<close>

definition table_file :: "(string \<Rightarrow> sst_entry list) \<Rightarrow> table_rep \<Rightarrow> Snippet \<Rightarrow> sst_entry list" where
  "table_file reader tm sn = reader (fst (GetTableRep (sn_csd_name sn) (sn_table_name sn) tm))"

definition table_holds :: "(string \<Rightarrow> sst_entry list) \<Rightarrow> table_rep \<Rightarrow> Snippet \<Rightarrow> field list list \<Rightarrow> bool" where
  "table_holds reader tm sn Fs \<longleftrightarrow>
     (\<exists>p. list_all (good_entry sn p) (table_file reader tm sn)) \<and>
     list_all (\<lambda>e. length (sst_value e) \<le> BUFF_SIZE) (table_file reader tm sn) \<and>
     map sst_value (table_file reader tm sn) = map enc_row Fs \<and>
     list_all (\<lambda>fs. merge_schema (filter_info_of sn) fs \<and> enc_row fs \<noteq> []) Fs \<and>
     block_schema (filter_info_of sn) \<and> sn_primary_length sn = Some 0"

definition filter_is :: "(string \<Rightarrow> json) \<Rightarrow> Snippet \<Rightarrow> (bool \<times> json) list list \<Rightarrow> field list list \<Rightarrow> bool" where
  "filter_is parse sn Ds Fs \<longleftrightarrow>
     (\<exists>ts. json_member (parse (sn_table_filter sn)) ''tableFilter'' = Inr (JArr ts) \<and> dnf_toks ts Ds) \<and>
     list_all (typed_filter (sn_table_col sn) Ds) Fs \<and> list_ex loud_literal (last Ds) \<and>
     sn_scan_type sn = Full_Scan_Filter"

definition projection_is :: "Snippet \<Rightarrow> nat list \<Rightarrow> bool" where
  "projection_is sn is \<longleftrightarrow> projects_columns (filter_info_of sn) is \<and> distinct is"

definition good_row :: "Snippet \<Rightarrow> (bool \<times> json) list list \<Rightarrow> field list \<Rightarrow> bool" where
  "good_row sn Ds fs \<longleftrightarrow> merge_schema (filter_info_of sn) fs \<and> enc_row fs \<noteq> [] \<and> typed_filter (sn_table_col sn) Ds fs"

lemma query_filters:
  assumes "filter_is parse sn Ds Fs" "block_schema (filter_info_of sn)"
  shows "filters_blocks parse (of_snippet sn) (good_row sn Ds) (row_matches (sn_table_col sn) Ds)"
  unfolding filters_blocks_def
proof (intro allI impI)
  fix junk v0 r F fo mq
  assume b: "query_block (of_snippet sn) (good_row sn Ds) (r, F)"
  from assms(1) obtain ts where ts: "json_member (parse (sn_table_filter sn)) ''tableFilter'' = Inr (JArr ts)" "dnf_toks ts Ds"
    "list_ex loud_literal (last Ds)" unfolding filter_is_def by blast
  have fi: "rs_filter_info r = filter_info_of sn" and rows: "result_rows r (map enc_row F)" and good: "list_all (good_row sn Ds) F"
    using b by (simp_all add: query_block_def of_snippet_def)
  have F: "list_all (fits_schema (filter_info_of sn)) F" "list_all (typed_filter (sn_table_col sn) Ds) F"
    using good by (auto simp: list_all_iff good_row_def merge_schema_def)
  have sn: "table_col (filter_info_of sn) = sn_table_col sn" "table_filter (filter_info_of sn) = sn_table_filter sn"
    by (simp_all add: filter_info_of_def)
  obtain fo' fr where fr: "BlockFilter parse junk v0 r fo mq = Inr (fo', push_work fr mq)"
    "result_rows fr (map enc_row (filter (row_matches (sn_table_col sn) Ds) F))"
    "rs_query_id fr = rs_query_id r" "rs_work_id fr = rs_work_id r" "rs_csd_name fr = rs_csd_name r"
    "rs_filter_info fr = rs_filter_info r" "rs_total_block_count fr = rs_total_block_count r"
    "rs_result_block_count fr = rs_result_block_count r"
    using BlockFilter_loud [of r F parse ts Ds junk v0 fo mq] rows assms(2) F ts unfolding fi sn by blast
  then have "query_block (of_snippet sn) (good_row sn Ds) (fr, filter (row_matches (sn_table_col sn) Ds) F)"
    using b by (auto simp: query_block_def of_snippet_def list_all_iff)
  with fr(1,8) show "\<exists>fo' fr. BlockFilter parse junk v0 r fo mq = Inr (fo', push_work fr mq) \<and>
      query_block (of_snippet sn) (good_row sn Ds) (fr, filter (row_matches (sn_table_col sn) Ds) F) \<and>
      rs_result_block_count fr = rs_result_block_count r" by blast
qed

lemma split_concat:
  "concat rss = map f Fs \<Longrightarrow> \<exists>Fss. rss = map (map f) Fss \<and> concat Fss = Fs"
proof (induction rss arbitrary: Fs)
  case (Cons rs rss)
  then obtain xs ys where xy: "Fs = xs @ ys" "rs = map f xs" "concat rss = map f ys"
    by (auto simp: append_eq_map_conv)
  with Cons.IH [OF xy(3)] obtain Fss where "rss = map (map f) Fss" "concat Fss = ys" by blast
  with xy show ?case by (intro exI [of _ "xs # Fss"]) simp
qed auto

text \<open>The counts of the results the scan sends.\<close>

lemma full_scan_sends:
  assumes "table_holds reader tm sn Fs" "sn_scan_type sn = Full_Scan_Filter \<or> sn_scan_type sn = Full_Scan"
  shows "\<exists>tm' st. scan_snippet reader junk tm sn origin fq mq = Inr (tm', st) \<and>
    (let n = buffers_filled (table_file reader tm sn)
     in map rs_result_block_count (ss_sent st) = replicate n 15 @ [sn_total_block_count sn - 15 * int n])"
proof -
  from assms(1) obtain p where p: "list_all (good_entry sn p) (table_file reader tm sn)"
    "list_all (\<lambda>e. length (sst_value e) \<le> BUFF_SIZE) (table_file reader tm sn)" "sn_primary_length sn = Some 0"
    by (auto simp: table_holds_def)
  from scan_snippet_sends [where sn = sn and reader = reader and p = p and tm = tm, OF p(1,2) [unfolded table_file_def] p(3) assms(2)]
  show ?thesis unfolding table_file_def by blast
qed

lemma full_scan_queue: "work (snd (fold (\<lambda>r. EnQueueData r Full_Scan) rs (fq, mq))) = work mq @ rs"
  by (induction rs arbitrary: mq) (simp_all add: EnQueueData_def)

text \<open>What the scan sends, as blocks of the query.\<close>

lemma scan_blocks:
  assumes "scan_snippet reader junk tm sn origin fq mq = Inr (tm', st)" "table_holds reader tm sn Fs"
    "sn_scan_type sn = Full_Scan_Filter \<or> sn_scan_type sn = Full_Scan" "list_all good Fs"
  obtains A where "map fst A = ss_sent st" "list_all (query_block (of_snippet sn) good) A" "concat (map snd A) = Fs" "A \<noteq> []"
proof -
  from assms(2) obtain p where p: "list_all (good_entry sn p) (table_file reader tm sn)"
    "list_all (\<lambda>e. length (sst_value e) \<le> BUFF_SIZE) (table_file reader tm sn)" "sn_primary_length sn = Some 0"
    "map sst_value (table_file reader tm sn) = map enc_row Fs" unfolding table_holds_def by blast
  from scan_snippet_rows [where sn = sn and reader = reader and tm = tm and p = p,
      OF p(1,2) [unfolded table_file_def] p(3) assms(3)] assms(1) obtain rss where
    rss: "list_all2 result_rows (ss_sent st) rss" "concat rss = map enc_row Fs"
    using p(4) unfolding table_file_def by (metis Inr_inject prod.inject)
  from split_concat [OF rss(2)] obtain Fss where Fss: "rss = map (map enc_row) Fss" "concat Fss = Fs" by blast
  have len: "length (ss_sent st) = length Fss" using rss(1) Fss(1) by (auto dest: list_all2_lengthD)
  have ids: "list_all (of_snippet sn) (ss_sent st)" using scan_snippet_counts [OF assms(1)] by blast
  have "ss_sent st \<noteq> []"
  proof -
    from assms(1) obtain st0 where "st = finish_scan sn st0"
      by (auto simp: scan_snippet_def bindE_Inr_conv split: prod.splits)
    then show ?thesis by (simp add: finish_scan_def Let_def)
  qed
  show thesis
  proof (rule that [of "zip (ss_sent st) Fss"])
    show "map fst (zip (ss_sent st) Fss) = ss_sent st" "concat (map snd (zip (ss_sent st) Fss)) = Fs"
      using len Fss(2) by simp_all
    show "zip (ss_sent st) Fss \<noteq> []" using \<open>ss_sent st \<noteq> []\<close> len by (cases Fss) auto
    show "list_all (query_block (of_snippet sn) good) (zip (ss_sent st) Fss)" unfolding list_all_length
    proof (intro allI impI)
      fix i assume "i < length (zip (ss_sent st) Fss)"
      then have i: "i < length (ss_sent st)" "i < length Fss" using len by simp_all
      then have "result_rows (ss_sent st ! i) (map enc_row (Fss ! i))"
        using rss(1) Fss(1) by (auto dest: list_all2_nthD)
      moreover have "of_snippet sn (ss_sent st ! i)" using ids i by (simp add: list_all_length)
      moreover have "list_all good (Fss ! i)"
        using assms(4) Fss(2) nth_mem [OF i(2)] by (auto simp: list_all_iff)
      ultimately show "query_block (of_snippet sn) good (zip (ss_sent st) Fss ! i)" using i by (simp add: query_block_def)
    qed
  qed
qed

text \<open>Merging blocks of a query.\<close>

definition projected :: "nat list \<Rightarrow> block \<Rightarrow> Result \<times> string list" where
  "projected is b = (fst b, map (\<lambda>fs. columns_bytes fs is) (snd b))"

lemma projected_unit_work:
  assumes "list_all (query_block (of_snippet sn) good) B" "projection_is sn is"
    "\<forall>fs. good fs \<longrightarrow> merge_schema (filter_info_of sn) fs"
  shows "unit_work project_row (sn_query_id sn) (sn_work_id sn) (sn_total_block_count sn) (map (projected is) B)"
  unfolding unit_work_def list_all_iff
proof
  fix x assume "x \<in> set (map (projected is) B)"
  then obtain r F where b: "(r, F) \<in> set B" "x = projected is (r, F)" by auto
  then have q: "query_block (of_snippet sn) good (r, F)" using assms(1) by (auto simp: list_all_iff)
  have "project_row (filter_info_of sn) (enc_row fs) = Inr (columns_bytes fs is)" if "fs \<in> set F" for fs
  proof -
    have "merge_schema (filter_info_of sn) fs" using q that assms(3) by (simp add: query_block_def list_all_iff)
    moreover have "length (columns_bytes fs is) \<le> length (enc_row fs)"
      using assms(2) merge_schema_lengths(1) [OF calculation]
      by (intro columns_bytes_distinct) (auto simp: projection_is_def projects_columns_def list_all_iff)
    ultimately show ?thesis using project_row_columns [of "filter_info_of sn" fs "is"] assms(2) by (simp add: projection_is_def)
  qed
  then have "mapE (project_row (filter_info_of sn)) (map enc_row F) = Inr (map (\<lambda>fs. columns_bytes fs is) F)"
    by (induction F) simp_all
  then show "case x of (r, ps) \<Rightarrow> unit_result (sn_query_id sn) (sn_work_id sn) (sn_total_block_count sn) r \<and> delivers project_row r ps"
    using b(2) q by (auto simp: projected_def unit_result_def of_snippet_def delivers_def query_block_def)
qed

lemma blocks_projected: "blocks (map (projected is) B) = sum_list (map (\<lambda>b. rs_result_block_count (fst b)) B)"
  by (simp add: blocks_def projected_def comp_def)

lemma merge_query:
  assumes "list_all (query_block (of_snippet sn) good) B" "projection_is sn is"
    "\<forall>fs. good fs \<longrightarrow> merge_schema (filter_info_of sn) fs" "B \<noteq> []"
    "sum_list (map (\<lambda>b. rs_result_block_count (fst b)) B) = sn_total_block_count sn"
    "\<forall>k<length B. 0 < k \<longrightarrow> sum_list (map (\<lambda>b. rs_result_block_count (fst b)) (take k B)) \<noteq> sn_total_block_count sn"
    "mm (sn_query_id sn, sn_work_id sn) = None"
  shows "\<exists>rq' es rss. foldE (MergeBlock junk) (map fst B) (mm, rq) = Inr (mm, rq') \<and> work rq' = work rq @ es \<and>
    list_all2 merge_rows es rss \<and> concat rss = map (\<lambda>fs. columns_bytes fs is) (concat (map snd B)) \<and>
    blocks_sent es = sn_total_block_count sn"
proof -
  let ?xs = "map (projected is) B" and ?q = "sn_query_id sn" and ?w = "sn_work_id sn" and ?t = "sn_total_block_count sn"
  have work: "unit_work project_row ?q ?w ?t ?xs" by (rule projected_unit_work [OF assms(1-3)])
  have none: "fst (mm, rq) (?q, ?w) = None" "mm((?q, ?w) := None) = mm" using assms(7) by auto
  have pre: "\<forall>k<length ?xs. 0 < k \<longrightarrow> blocks (take k ?xs) \<noteq> ?t" and all: "blocks ?xs = ?t"
    using assms(5,6) by (simp_all add: take_map blocks_projected)
  have ne: "?xs \<noteq> []" using assms(4) by simp
  have fst: "map fst ?xs = map fst B" by (simp add: projected_def comp_def)
  from csd_merge.block_unit [OF none(1) work ne pre, of junk] all obtain s where
    s: "foldE (MergeBlock junk) (map fst B) (mm, rq) = Inr s" "finished (mm, rq) ?q ?w ?t (concat (map snd ?xs)) s"
    unfolding fst by (auto simp: outcome_def)
  moreover have "concat (map snd ?xs) = map (\<lambda>fs. columns_bytes fs is) (concat (map snd B))"
    by (simp add: projected_def comp_def map_concat)
  ultimately show ?thesis using none(2) by (cases s) (auto simp: finished_def)
qed

end
