(* ===== verification/Merge_Units.thy ===== *)
theory Merge_Units
  imports Merge_Manager
begin

text \<open>
  The merge layer with several work units at once: results of different queries arrive
  interleaved, and every result may hold anything. \<open>mm_inv\<close> is the invariant of the whole
  \<open>m_MergeManager\<close> map and of the return queue; \<open>units_independent\<close> shows that a work unit is
  merged as if it were alone.
\<close>

section \<open>The invariant of the merge manager\<close>

definition unit_key :: "'m MergeResult_scheme \<Rightarrow> pair_key" where
  "unit_key m = (mr_query_id m, mr_work_id m)"

definition result_key :: "'r Result_scheme \<Rightarrow> pair_key" where
  "result_key r = (rs_query_id r, rs_work_id r)"

definition sound_buffer_in :: "nat \<Rightarrow> 'm MergeResult_scheme \<Rightarrow> bool" where
  "sound_buffer_in cap m \<longleftrightarrow> (\<exists>rows. merge_rows_in cap m rows)"

definition mm_inv_in :: "nat \<Rightarrow> 'm merge_state_scheme \<Rightarrow> bool" where
  "mm_inv_in cap s \<longleftrightarrow>
     (\<forall>k m. fst s k = Some m \<longrightarrow> unit_key m = k \<and> sound_buffer_in cap m \<and> mr_current_block_count m \<noteq> mr_total_block_count m) \<and>
     (\<forall>e\<in>set (work (snd s)). sound_buffer_in cap e)"

text \<open>With the \<open>BUFF_SIZE\<close> of this version.\<close>

abbreviation sound_buffer :: "'m MergeResult_scheme \<Rightarrow> bool" where
  "sound_buffer \<equiv> sound_buffer_in BUFF_SIZE"

abbreviation mm_inv :: "'m merge_state_scheme \<Rightarrow> bool" where
  "mm_inv \<equiv> mm_inv_in BUFF_SIZE"

lemmas sound_buffer_def = sound_buffer_in_def
lemmas mm_inv_def = mm_inv_in_def

text \<open>One row: the buffer stays sound and keeps its unit, what is sent is the sound buffer of that unit.\<close>

definition emits_in ::
  "nat \<Rightarrow> pair_key \<Rightarrow> 'm MergeResult_scheme \<times> 'm MergeResult_scheme WorkQueue \<Rightarrow> 'm MergeResult_scheme \<times> 'm MergeResult_scheme WorkQueue \<Rightarrow> 'm MergeResult_scheme list \<Rightarrow> bool" where
  "emits_in cap k s s' es \<longleftrightarrow> work (snd s') = work (snd s) @ es \<and> list_all (\<lambda>e. unit_key e = k \<and> sound_buffer_in cap e) es \<and>
     unit_key (fst s') = k \<and> sound_buffer_in cap (fst s')"

lemma emits_trans: "emits_in cap k s s' es \<Longrightarrow> emits_in cap k s' s'' es' \<Longrightarrow> emits_in cap k s s'' (es @ es')"
  by (simp add: emits_in_def)

lemma append_merged_sound:
  assumes "append_merged_in cap row m = Inr m'" "sound_buffer_in cap m"
  shows "sound_buffer_in cap m' \<and> unit_key m' = unit_key m"
proof -
  from assms(2) obtain rows where rows: "merge_rows_in cap m rows" by (auto simp: sound_buffer_in_def)
  have fits: "mr_length m + length row \<le> cap"
    using mergebuf.append_overflow [OF rows, of row] assms(1) by (metis not_less Inl_Inr_False)
  from mergebuf.append_fits [OF rows this] assms(1) show ?thesis
    by (auto simp: sound_buffer_in_def append_merged_in_def bindE_Inr_conv unit_key_def)
qed

lemma init_sound: "sound_buffer_in cap (InitMergeResult m)" "unit_key (InitMergeResult m) = unit_key m"
  using mergebuf.reset_rep by (auto simp: sound_buffer_in_def unit_key_def InitMergeResult_def)

text \<open>What a row does, for every queue behind the buffer.\<close>

lemma merge_append_emits:
  assumes "merge_append_in cap row (m, rq) = Inr (m', rq')" "sound_buffer_in cap m"
  shows "\<exists>es. emits_in cap (unit_key m) (m, rq) (m', rq') es \<and>
    (\<forall>rq2. \<exists>rq2'. merge_append_in cap row (m, rq2) = Inr (m', rq2') \<and> work rq2' = work rq2 @ es)"
proof (cases "cap < mr_length m + length row")
  case True
  with assms(1) have "append_merged_in cap row (InitMergeResult m) = Inr m'" "rq' = push_work m rq"
    by (auto simp: merge_append_in_def bindE_Inr_conv)
  with True assms(2) append_merged_sound [OF _ init_sound(1)] show ?thesis
    by (intro exI [of _ "[m]"]) (auto simp: merge_append_in_def emits_in_def init_sound(2))
next
  case False
  with assms(1) have "append_merged_in cap row m = Inr m'" "rq' = rq" by (auto simp: merge_append_in_def bindE_Inr_conv)
  with False append_merged_sound [OF _ assms(2)] show ?thesis
    by (intro exI [of _ "[]"]) (auto simp: merge_append_in_def emits_in_def)
qed

lemma empty_mm_inv: "mm_inv_in cap (Map.empty, new_WorkQueue n)"
  by (simp add: mm_inv_in_def new_WorkQueue_def)

context merge_layer
begin

lemma row_emits:
  assumes "row_step r i (m, rq) = Inr (m', rq')" "sound_buffer_in cap m"
  shows "\<exists>es. emits_in cap (unit_key m) (m, rq) (m', rq') es \<and>
    (\<forall>rq2. \<exists>rq2'. row_step r i (m, rq2) = Inr (m', rq2') \<and> work rq2' = work rq2 @ es)"
proof -
  from assms(1) obtain row new_row where "origin_row_in cap r i = Inr row" "project (rs_filter_info r) row = Inr new_row"
    "merge_append_in cap new_row (m, rq) = Inr (m', rq')" by (auto simp: bindE_Inr_conv)
  with merge_append_emits [OF this(3) assms(2)] show ?thesis by simp
qed

lemma loop_emits:
  assumes "foldE (row_step r) is (m, rq) = Inr (m', rq')" "sound_buffer_in cap m"
  shows "\<exists>es. emits_in cap (unit_key m) (m, rq) (m', rq') es \<and>
    (\<forall>rq2. \<exists>rq2'. foldE (row_step r) is (m, rq2) = Inr (m', rq2') \<and> work rq2' = work rq2 @ es)"
  using assms
proof (induction "is" arbitrary: m rq)
  case Nil
  then show ?case by (intro exI [of _ "[]"]) (simp add: emits_in_def)
next
  case (Cons i "is")
  from Cons.prems(1) obtain m1 rq1 where step: "row_step r i (m, rq) = Inr (m1, rq1)"
    "foldE (row_step r) is (m1, rq1) = Inr (m', rq')" by (auto simp: bindE_Inr_conv)
  from row_emits [OF step(1) Cons.prems(2)] obtain es where es: "emits_in cap (unit_key m) (m, rq) (m1, rq1) es"
    "\<And>rq2. \<exists>rq2'. row_step r i (m, rq2) = Inr (m1, rq2') \<and> work rq2' = work rq2 @ es" by blast
  then have "unit_key m1 = unit_key m" "sound_buffer_in cap m1" by (simp_all add: emits_in_def)
  with Cons.IH [OF step(2)] obtain es' where es': "emits_in cap (unit_key m) (m1, rq1) (m', rq') es'"
    "\<And>rq2. \<exists>rq2'. foldE (row_step r) is (m1, rq2) = Inr (m', rq2') \<and> work rq2' = work rq2 @ es'" by auto
  have "\<exists>rq2'. foldE (row_step r) (i # is) (m, rq2) = Inr (m', rq2') \<and> work rq2' = work rq2 @ es @ es'" for rq2
  proof -
    obtain q1 where q1: "row_step r i (m, rq2) = Inr (m1, q1)" "work q1 = work rq2 @ es" using es(2) by blast
    obtain q2 where "foldE (row_step r) is (m1, q1) = Inr (m', q2)" "work q2 = work q1 @ es'" using es'(2) by blast
    with q1 show ?thesis by simp
  qed
  with emits_trans [OF es(1) es'(1)] show ?case by blast
qed

text \<open>One result. Only the unit of the result is touched, and only its old buffer matters.\<close>

abbreviation buffer_for where
  "buffer_for junk r b \<equiv> (case b of None \<Rightarrow> fresh junk r | Some m \<Rightarrow> m)"

lemma block_emits:
  assumes "block junk r (mm, rq) = Inr (mm', rq')" "mm_inv_in cap (mm, rq)"
  shows "\<exists>b es. mm' = mm(result_key r := b) \<and> work rq' = work rq @ es \<and>
    list_all (\<lambda>e. unit_key e = result_key r \<and> sound_buffer_in cap e) es \<and>
    (\<forall>m. b = Some m \<longrightarrow> unit_key m = result_key r \<and> sound_buffer_in cap m \<and> mr_current_block_count m \<noteq> mr_total_block_count m) \<and>
    (\<forall>mm2 rq2. mm2 (result_key r) = mm (result_key r) \<longrightarrow>
      (\<exists>rq2'. block junk r (mm2, rq2) = Inr (mm2(result_key r := b), rq2') \<and> work rq2' = work rq2 @ es))"
proof -
  let ?k = "result_key r" let ?m = "buffer_for junk r (mm ?k)" let ?is = "[0..<rs_row_count r]"
  have block: "block junk r (mm2, rq2) = bindE (foldE (row_step r) ?is (buffer_for junk r (mm2 ?k), rq2)) (\<lambda>(m, rq).
      let m = count_blocks r m in if mr_total_block_count m = mr_current_block_count m
      then Inr (mm2(?k := None), push_work m rq) else Inr (mm2(?k \<mapsto> m), rq))" for mm2 rq2
    unfolding result_key_def by (rule block_eq)
  have new: "sound_buffer_in cap (fresh junk r)" using fresh_rows unfolding sound_buffer_in_def by blast
  have m: "sound_buffer_in cap ?m \<and> unit_key ?m = ?k"
  proof (cases "mm ?k")
    case None
    with new fresh_unit show ?thesis by (simp add: unit_key_def result_key_def unit_of_def)
  next
    case (Some b)
    with assms(2) show ?thesis by (cases "result_key r") (simp add: mm_inv_in_def)
  qed
  note m = conjunct1 [OF m] conjunct2 [OF m]
  from assms(1) obtain m1 q1 where loop: "foldE (row_step r) ?is (?m, rq) = Inr (m1, q1)"
    unfolding block bindE_Inr_conv by auto
  from loop_emits [OF this m(1)] m(2) obtain es where es: "emits_in cap ?k (?m, rq) (m1, q1) es"
    "\<And>rq2. \<exists>rq2'. foldE (row_step r) ?is (?m, rq2) = Inr (m1, rq2') \<and> work rq2' = work rq2 @ es" by auto
  have count: "sound_buffer_in cap (count_blocks r m1)" "unit_key (count_blocks r m1) = ?k"
    using es(1) by (auto simp: emits_in_def sound_buffer_in_def merge_rows_in_def count_blocks_def unit_key_def)
  let ?done = "mr_total_block_count (count_blocks r m1) = mr_current_block_count (count_blocks r m1)"
  have all: "\<exists>rq2'. block junk r (mm2, rq2) = Inr (mm2(?k := if ?done then None else Some (count_blocks r m1)), rq2') \<and>
      work rq2' = work rq2 @ es @ (if ?done then [count_blocks r m1] else [])" if k: "mm2 ?k = mm ?k" for mm2 rq2
    using es(2) [of rq2] unfolding block k by (auto simp: Let_def)
  from all [of mm rq, OF refl] assms(1) have now: "mm' = mm(?k := if ?done then None else Some (count_blocks r m1))"
    "work rq' = work rq @ es @ (if ?done then [count_blocks r m1] else [])" by auto
  moreover have "list_all (\<lambda>e. unit_key e = ?k \<and> sound_buffer_in cap e) (es @ (if ?done then [count_blocks r m1] else []))"
    using es(1) count by (simp add: emits_in_def)
  moreover have "\<forall>m. (if ?done then None else Some (count_blocks r m1)) = Some m \<longrightarrow>
      unit_key m = ?k \<and> sound_buffer_in cap m \<and> mr_current_block_count m \<noteq> mr_total_block_count m" using count by auto
  ultimately show ?thesis using all by blast
qed

lemma block_inv:
  assumes "block junk r s = Inr s'" "mm_inv_in cap s"
  shows "mm_inv_in cap s'"
  using block_emits [of junk r "fst s" "snd s" "fst s'" "snd s'"] assms
  by (auto simp: mm_inv_in_def list_all_iff split: if_splits)

lemma run_inv:
  assumes "foldE (block junk) rs s = Inr s'" "mm_inv_in cap s"
  shows "mm_inv_in cap s'"
  using assms by (rule foldE_invariant) (rule block_inv)

text \<open>A run restricted to one unit.\<close>

lemma run_unit:
  assumes "foldE (block junk) rs (mm, rq) = Inr (mm', rq')" "mm_inv_in cap (mm, rq)" "mm2 k = mm k"
  shows "\<exists>es mm2' rq2'. work rq' = work rq @ es \<and>
    foldE (block junk) (filter (\<lambda>r. result_key r = k) rs) (mm2, rq2) = Inr (mm2', rq2') \<and> mm2' k = mm' k \<and>
    work rq2' = work rq2 @ filter (\<lambda>e. unit_key e = k) es"
  using assms
proof (induction rs arbitrary: mm rq mm2 rq2)
  case (Cons r rs)
  from Cons.prems(1) obtain mm1 rq1 where step: "block junk r (mm, rq) = Inr (mm1, rq1)"
    "foldE (block junk) rs (mm1, rq1) = Inr (mm', rq')" by (auto simp: bindE_Inr_conv)
  have inv: "mm_inv_in cap (mm1, rq1)" by (rule block_inv [OF step(1) Cons.prems(2)])
  from block_emits [OF step(1) Cons.prems(2)] obtain b es where
    es: "mm1 = mm(result_key r := b)" "work rq1 = work rq @ es" "list_all (\<lambda>e. unit_key e = result_key r) es"
    "\<And>mm2 rq2. mm2 (result_key r) = mm (result_key r) \<Longrightarrow>
      \<exists>rq2'. block junk r (mm2, rq2) = Inr (mm2(result_key r := b), rq2') \<and> work rq2' = work rq2 @ es"
    by (fastforce simp: list_all_iff)
  show ?case
  proof (cases "result_key r = k")
    case True
    with es(4) Cons.prems(3) obtain q2 where q2: "block junk r (mm2, rq2) = Inr (mm2(k := b), q2)" "work q2 = work rq2 @ es"
      by metis
    have "(mm2(k := b)) k = mm1 k" using es(1) True by simp
    from Cons.IH [OF step(2) inv, of "mm2(k := b)", OF this, of q2] obtain es' mm2' rq2' where
      "work rq' = work rq1 @ es'" "foldE (block junk) (filter (\<lambda>r. result_key r = k) rs) (mm2(k := b), q2) = Inr (mm2', rq2')"
      "mm2' k = mm' k" "work rq2' = work q2 @ filter (\<lambda>e. unit_key e = k) es'" by blast
    moreover have "filter (\<lambda>e. unit_key e = k) es = es" using es(3) True by (simp add: filter_id_conv list_all_iff)
    ultimately show ?thesis using q2 es(2) True by (intro exI [of _ "es @ es'"] exI [of _ mm2'] exI [of _ rq2']) simp
  next
    case False
    then have "filter (\<lambda>e. unit_key e = k) es = []" "mm2 k = mm1 k"
      using es(1,3) Cons.prems(3) by (auto simp: filter_empty_conv list_all_iff)
    with Cons.IH [OF step(2) inv, of mm2, OF this(2), of rq2] es(2) False show ?thesis by auto
  qed
qed auto

end

section \<open>A unit within the merge manager\<close>

text \<open>
  What the merge layer has done for one unit: its buffer and the buffers sent for it, as if it had
  been alone. \<open>hist\<close> is everything ever put on the return queue.
\<close>

definition unit_view :: "pair_key \<Rightarrow> (pair_key \<rightharpoonup> 'm MergeResult_scheme) \<Rightarrow> 'm MergeResult_scheme list \<Rightarrow> 'm merge_state_scheme" where
  "unit_view k mm hist = (Map.empty(k := mm k), (new_WorkQueue 0)\<lparr> work := filter (\<lambda>e. unit_key e = k) hist \<rparr>)"

definition unit_status ::
  "nat \<Rightarrow> pair_key \<Rightarrow> int \<Rightarrow> int \<Rightarrow> string list \<Rightarrow> (pair_key \<rightharpoonup> 'm MergeResult_scheme) \<Rightarrow> 'm MergeResult_scheme list \<Rightarrow> bool" where
  "unit_status cap k t c rows mm hist \<longleftrightarrow>
     (let v = unit_view k mm hist; base = (Map.empty, new_WorkQueue 0) in
      c = 0 \<and> rows = [] \<and> mm k = None \<and> work (snd v) = [] \<or>
      0 < c \<and> c < t \<and> in_progress_in cap base (fst k) (snd k) t c rows v \<or>
      c = t \<and> finished_in cap base (fst k) (snd k) t rows v)"

definition sound_history :: "nat \<Rightarrow> (pair_key \<rightharpoonup> 'm MergeResult_scheme) \<Rightarrow> 'm MergeResult_scheme list \<Rightarrow> bool" where
  "sound_history cap mm hist \<longleftrightarrow> mm_inv_in cap (mm, (new_WorkQueue 0)\<lparr> work := hist \<rparr>)"

lemma sound_history_alt:
  "sound_history cap mm hist \<longleftrightarrow> (\<forall>k m. mm k = Some m \<longrightarrow>
     unit_key m = k \<and> sound_buffer_in cap m \<and> mr_current_block_count m \<noteq> mr_total_block_count m) \<and> list_all (sound_buffer_in cap) hist"
  by (simp add: sound_history_def mm_inv_in_def list_all_iff)

lemma view_inv: "sound_history cap mm hist \<Longrightarrow> mm_inv_in cap (unit_view k mm hist)"
  by (cases k) (auto simp: sound_history_alt unit_view_def mm_inv_in_def list_all_iff)

lemma status_start: "unit_status cap k t 0 [] Map.empty []"
  by (simp add: unit_status_def unit_view_def)

lemma status_other:
  assumes "unit_status cap k t c rows mm hist" "mm' k = mm k" "filter (\<lambda>e. unit_key e = k) es = []"
  shows "unit_status cap k t c rows mm' (hist @ es)"
  using assms by (simp add: unit_status_def unit_view_def)

lemma status_complete:
  assumes "unit_status cap k t t rows mm hist" "0 < t"
  shows "mm k = None \<and> (\<exists>rss. list_all2 (merge_rows_in cap) (filter (\<lambda>m. unit_key m = k) hist) rss \<and> concat rss = rows \<and>
    blocks_sent (filter (\<lambda>m. unit_key m = k) hist) = t)"
proof -
  have "finished_in cap (Map.empty, new_WorkQueue 0) (fst k) (snd k) t rows (unit_view k mm hist)"
    using assms by (auto simp: unit_status_def Let_def)
  then show ?thesis
    by (cases k) (auto simp: finished_in_def unit_view_def new_WorkQueue_def fun_eq_iff split: if_splits)
qed

lemma outcome_cong:
  "fst s = fst s' \<Longrightarrow> work (snd s) = work (snd s') \<Longrightarrow> outcome_in cap base q w t c rows s = outcome_in cap base q w t c rows s'"
  by (simp add: outcome_in_def finished_in_def in_progress_in_def)

context merge_layer
begin

lemma view_step:
  assumes "unit_status cap k t c rows mm hist" "delivers_in cap project r ps" "unit_result (fst k) (snd k) t r" "0 < rs_result_block_count r"
    "c + rs_result_block_count r \<le> t" "0 \<le> c"
  shows "\<exists>s. block junk r (unit_view k mm hist) = Inr s \<and>
    outcome_in cap (Map.empty, new_WorkQueue 0) (fst k) (snd k) t (c + rs_result_block_count r) (rows @ ps) s"
proof -
  let ?v = "unit_view k mm hist" and ?base = "(Map.empty, new_WorkQueue 0) :: 'm merge_state_scheme"
  from assms(1,4,5) consider "c = 0" "rows = []" "mm k = None" "work (snd ?v) = []"
    | "in_progress_in cap ?base (fst k) (snd k) t c rows ?v" by (auto simp: unit_status_def Let_def)
  then show ?thesis
  proof cases
    case 1
    then have "?v = ?base" by (simp add: unit_view_def new_WorkQueue_def)
    with block_first [OF assms(2,3), of ?base junk] 1 show ?thesis by simp
  next
    case 2
    from block_next [OF assms(2,3) 2] show ?thesis .
  qed
qed

lemma merge_unit_step:
  assumes "unit_status cap k t c rows mm hist" "delivers_in cap project r ps" "unit_result (fst k) (snd k) t r" "0 < rs_result_block_count r"
    "c + rs_result_block_count r \<le> t" "0 \<le> c" "sound_history cap mm hist"
  shows "\<exists>b rq' es. block junk r (mm, rq) = Inr (mm(k := b), rq') \<and> work rq' = work rq @ es \<and>
    list_all (\<lambda>e. unit_key e = k) es \<and> sound_history cap (mm(k := b)) (hist @ es) \<and>
    unit_status cap k t (c + rs_result_block_count r) (rows @ ps) (mm(k := b)) (hist @ es)"
proof -
  let ?v = "unit_view k mm hist" and ?base = "(Map.empty, new_WorkQueue 0) :: 'm merge_state_scheme" and ?c = "c + rs_result_block_count r"
  from view_step [OF assms(1-6)] obtain s where s: "block junk r ?v = Inr s"
    "outcome_in cap ?base (fst k) (snd k) t ?c (rows @ ps) s" by blast
  have key: "result_key r = k" using assms(3) by (simp add: result_key_def unit_result_def)
  from s(1) have "block junk r (fst ?v, snd ?v) = Inr (fst s, snd s)" by simp
  from block_emits [OF this] view_inv [OF assms(7)] obtain b es where
    b: "fst s = (fst ?v)(k := b)" "work (snd s) = work (snd ?v) @ es" "list_all (\<lambda>e. unit_key e = k \<and> sound_buffer_in cap e) es"
    "\<forall>m. b = Some m \<longrightarrow> unit_key m = k \<and> sound_buffer_in cap m \<and> mr_current_block_count m \<noteq> mr_total_block_count m"
    "\<And>mm2 rq2. mm2 k = fst ?v k \<Longrightarrow> \<exists>rq2'. block junk r (mm2, rq2) = Inr (mm2(k := b), rq2') \<and> work rq2' = work rq2 @ es"
    unfolding key by auto
  from b(5) [of mm rq] obtain rq' where rq': "block junk r (mm, rq) = Inr (mm(k := b), rq')" "work rq' = work rq @ es"
    by (auto simp: unit_view_def)
  have keys: "list_all (\<lambda>e. unit_key e = k) es" using b(3) by (simp add: list_all_iff)
  then have "filter (\<lambda>e. unit_key e = k) es = es" by (simp add: filter_id_conv list_all_iff)
  then have "fst (unit_view k (mm(k := b)) (hist @ es)) = fst s" "work (snd (unit_view k (mm(k := b)) (hist @ es))) = work (snd s)"
    using b(1,2) by (simp_all add: unit_view_def)
  with s(2) have "outcome_in cap ?base (fst k) (snd k) t ?c (rows @ ps) (unit_view k (mm(k := b)) (hist @ es))"
    using outcome_cong by metis
  then have "unit_status cap k t ?c (rows @ ps) (mm(k := b)) (hist @ es)"
    using assms(4-6) by (auto simp: unit_status_def outcome_in_def Let_def split: if_splits)
  moreover have "sound_history cap (mm(k := b)) (hist @ es)"
    using assms(7) b(3,4) by (auto simp: sound_history_alt list_all_iff)
  ultimately show ?thesis using rq' keys by blast
qed

end

section \<open>Properties\<close>

text \<open>
  C11. The invariant of the merge manager, for results of any number of work units in any order and
  whatever they hold: as long as nothing fails, every buffer in the map is filed under its own
  query and work id, is laid out correctly (the count, the offsets and the length describe the
  rows in the data, within \<open>BUFF_SIZE\<close>) and is not complete; and every buffer on the return queue
  is laid out correctly.
\<close>

theorem merge_manager_invariant:
  assumes "foldE (MergeBlock junk) rs (Map.empty, new_WorkQueue n) = Inr (mm, rq)"
  shows "(\<forall>q w m. mm (q, w) = Some m \<longrightarrow> mr_query_id m = q \<and> mr_work_id m = w \<and> (\<exists>rows. merge_rows m rows) \<and>
      mr_current_block_count m \<noteq> mr_total_block_count m) \<and>
    (\<forall>e\<in>set (work rq). \<exists>rows. merge_rows e rows)"
  using csd_merge.run_inv [OF assms empty_mm_inv] by (auto simp: mm_inv_def unit_key_def sound_buffer_def)

theorem merge_manager_invariant_witness:
  "\<exists>mm rq m. foldE (MergeBlock (\<lambda>_. CHR 0x2A)) [ex_result 1] (Map.empty, new_WorkQueue 1) = Inr (mm, rq) \<and>
     mm (7, 1) = Some m \<and> mr_current_block_count m \<noteq> mr_total_block_count m \<and> (\<forall>e\<in>set (work rq). \<exists>rows. merge_rows e rows)"
proof -
  let ?xs = "map (\<lambda>c. (ex_result c, [''abcd''])) [1]"
  from csd_merge.block_unit [where base = "(Map.empty, new_WorkQueue 1)" and junk = "\<lambda>_. CHR 0x2A", OF _ ex_unit_work [of "[1]"]]
  obtain s where s: "foldE (MergeBlock (\<lambda>_. CHR 0x2A)) [ex_result 1] (Map.empty, new_WorkQueue 1) = Inr s"
    "in_progress (Map.empty, new_WorkQueue 1) 7 1 2 1 [''abcd''] s"
    by (auto simp: outcome_def blocks_def ex_result_def)
  then obtain mm rq m where "s = (mm, rq)" "mm (7, 1) = Some m" by (cases s) (auto simp: in_progress_def)
  with s merge_manager_invariant [of "\<lambda>_. CHR 0x2A" "[ex_result 1]" 1 mm rq] show ?thesis by blast
qed

text \<open>
  C10. Work units do not disturb one another: after any interleaving of results of different units,
  the buffer of a unit and the buffers sent for it, in order, are those that merging its own
  results alone would have given.
\<close>

theorem units_independent:
  assumes "foldE (MergeBlock junk) rs (Map.empty, new_WorkQueue n) = Inr (mm, rq)"
  shows "\<exists>mm1 rq1. foldE (MergeBlock junk) (filter (\<lambda>r. (rs_query_id r, rs_work_id r) = (q, w)) rs) (Map.empty, new_WorkQueue n) = Inr (mm1, rq1) \<and>
    mm1 (q, w) = mm (q, w) \<and> work rq1 = filter (\<lambda>e. (mr_query_id e, mr_work_id e) = (q, w)) (work rq)"
  using csd_merge.run_unit [OF assms empty_mm_inv, where ?mm2.0 = Map.empty and k = "(q, w)" and ?rq2.0 = "new_WorkQueue n"]
  unfolding result_key_def unit_key_def by (auto simp: new_WorkQueue_def)

theorem units_independent_witness:
  "\<exists>mm rq mm1 rq1. foldE (MergeBlock (\<lambda>_. CHR 0x2A)) [ex_result 1, (ex_result 1)\<lparr> rs_work_id := 5 \<rparr>] (Map.empty, new_WorkQueue 1) = Inr (mm, rq) \<and>
    foldE (MergeBlock (\<lambda>_. CHR 0x2A)) [ex_result 1] (Map.empty, new_WorkQueue 1) = Inr (mm1, rq1) \<and>
    mm1 (7, 1) = mm (7, 1) \<and> work rq1 = filter (\<lambda>e. (mr_query_id e, mr_work_id e) = (7, 1)) (work rq)"
proof -
  let ?M = "MergeBlock (\<lambda>_. CHR 0x2A)" and ?r = "(ex_result 1)\<lparr> rs_work_id := 5 \<rparr>"
  obtain s where s: "?M (ex_result 1) (Map.empty, new_WorkQueue 1) = Inr s" "fst s (7, 5) = None"
    using csd_merge.block_unit [where base = "(Map.empty, new_WorkQueue 1)" and junk = "\<lambda>_. CHR 0x2A", OF _ ex_unit_work [of "[1]"]]
    by (auto simp: outcome_def blocks_def ex_result_def in_progress_def bindE_Inr_conv)
  have "delivers project_row ?r [''abcd'']" using ex_delivers [of 1] by (simp add: delivers_def result_rows_def)
  then have "unit_work project_row 7 5 2 [(?r, [''abcd''])]" by (simp add: unit_work_def unit_result_def ex_result_def)
  from csd_merge.block_unit [where junk = "\<lambda>_. CHR 0x2A", OF s(2) this] obtain s' where "foldE ?M [?r] s = Inr s'" by auto
  then have run: "foldE ?M [ex_result 1, ?r] (Map.empty, new_WorkQueue 1) = Inr (fst s', snd s')" using s(1) by simp
  have "filter (\<lambda>r. (rs_query_id r, rs_work_id r) = (7, 1)) [ex_result 1, ?r] = [ex_result 1]" by (simp add: ex_result_def)
  with units_independent [OF run, of 7 1] obtain mm1 rq1 where "foldE ?M [ex_result 1] (Map.empty, new_WorkQueue 1) = Inr (mm1, rq1)"
    "mm1 (7, 1) = fst s' (7, 1)" "work rq1 = filter (\<lambda>e. (mr_query_id e, mr_work_id e) = (7, 1)) (work (snd s'))" by auto
  then show ?thesis using run by (intro exI conjI)
qed

end
