(* ===== verification/Threads.thy ===== *)
theory Threads
  imports Input_Model Merge_Units Return_Model Filter_Ops
begin

text \<open>
  The threads of a worker and their queues, for both versions of the worker module. A state holds the
  queues and what each thread has in its hands; \<open>wk_step\<close> lets any thread take its next step. What
  the layers do is the argument \<open>L\<close>, a record of their operations. The scan thread computes the results
  of a snippet and sends them one by one, so that filtering, merging and returning go on meanwhile.
  \<open>wk_out\<close> records what the return thread has sent.

  The locale \<open>thread_layers\<close> shows that every run ends. The locale \<open>answering_layers\<close> asks of the
  layers what they do with the blocks of a query and proves once, for any number of queries at the same
  time, that no thread gets stuck and that every query is answered. Its invariant accounts, for every
  query, for its rows and blocks wherever they are: still to be scanned, in flight, or merged.
\<close>

section \<open>Layers, queues and threads\<close>

text \<open>
  \<open>ly_scan\<close> gives the tables, the \<open>origin_index_num\<close> and the results of a snippet, in the order of
  \<open>EnQueueData\<close>. \<open>ly_vars\<close> says what an uninitialised local variable of the filter may hold; the first
  argument of an operation is uninitialised memory, that of \<open>ly_return\<close> what \<open>read\<close> has returned.
\<close>

record ('s, 'r, 'm, 'f, 't) layers =
  ly_scan :: "buffer \<Rightarrow> 't \<Rightarrow> 's \<Rightarrow> string \<Rightarrow> ('t \<times> string \<times> 'r list) res"
  ly_enqueue :: "'r \<Rightarrow> Scan_Type \<Rightarrow> 'r WorkQueue \<times> 'r WorkQueue \<Rightarrow> 'r WorkQueue \<times> 'r WorkQueue"
  ly_vars :: "row_vars \<Rightarrow> bool"
  ly_filter :: "buffer \<Rightarrow> row_vars \<Rightarrow> 'r \<Rightarrow> 'f \<Rightarrow> 'r WorkQueue \<Rightarrow> ('f \<times> 'r WorkQueue) res"
  ly_merge :: "buffer \<Rightarrow> 'r \<Rightarrow> (pair_key \<rightharpoonup> 'm) \<times> 'm WorkQueue \<Rightarrow> ((pair_key \<rightharpoonup> 'm) \<times> 'm WorkQueue) res"
  ly_return :: "int \<Rightarrow> 'm \<Rightarrow> sock_op list"

record ('s, 'r, 'm, 'f, 't) worker =
  wk_arriving :: "'s list"                  \<comment> \<open>snippets the storage engine will send\<close>
  wk_scanq :: "'s WorkQueue"                \<comment> \<open>\<open>ScanQueue\<close>\<close>
  wk_tables :: 't                           \<comment> \<open>the table manager\<close>
  wk_origin :: string                       \<comment> \<open>\<open>origin_index_num\<close>\<close>
  wk_sending :: "(Scan_Type \<times> 'r) list"    \<comment> \<open>results of the snippet that is scanned, not yet sent\<close>
  wk_filterq :: "'r WorkQueue"              \<comment> \<open>\<open>FilterQueue\<close>\<close>
  wk_busy :: "'r option list"               \<comment> \<open>the result each filter thread works on\<close>
  wk_objs :: "'f list"                      \<comment> \<open>their \<open>Filter\<close> objects\<close>
  wk_mergeq :: "'r WorkQueue"               \<comment> \<open>\<open>MergeQueue\<close>\<close>
  wk_merging :: "pair_key \<rightharpoonup> 'm"            \<comment> \<open>\<open>m_MergeManager\<close>\<close>
  wk_returnq :: "'m WorkQueue"              \<comment> \<open>\<open>ReturnQueue\<close>\<close>
  wk_out :: "('m \<times> sock_op list) list"

definition wk_start :: "'t \<Rightarrow> 's list \<Rightarrow> 'f list \<Rightarrow> ('s, 'r, 'm, 'f, 't) worker" where
  "wk_start tm sns objs =
     \<lparr> wk_arriving = sns, wk_scanq = new_WorkQueue 1, wk_tables = tm, wk_origin = [], wk_sending = [],
       wk_filterq = new_WorkQueue (length objs), wk_busy = map (\<lambda>_. None) objs, wk_objs = objs,
       wk_mergeq = new_WorkQueue 1, wk_merging = Map.empty, wk_returnq = new_WorkQueue 1, wk_out = [] \<rparr>"

inductive wk_step ::
  "('s Snippet_scheme, 'r, 'm, 'f, 't) layers \<Rightarrow> ('s Snippet_scheme, 'r, 'm, 'f, 't) worker \<Rightarrow>
   ('s Snippet_scheme, 'r, 'm, 'f, 't) worker \<Rightarrow> bool"
  for L where
  wk_input: "wk_arriving s = sn # sns \<Longrightarrow>
     wk_step L s (s\<lparr> wk_arriving := sns, wk_scanq := EnQueueScan sn (wk_scanq s) \<rparr>)"
| wk_scan: "wk_sending s = [] \<Longrightarrow> wait_and_pop 0 (wk_scanq s) = (Some sn, sq) \<Longrightarrow>
     ly_scan L junk (wk_tables s) sn (wk_origin s) = Inr (tm, origin, rs) \<Longrightarrow>
     wk_step L s (s\<lparr> wk_scanq := sq, wk_tables := tm, wk_origin := origin, wk_sending := map (Pair (sn_scan_type sn)) rs \<rparr>)"
| wk_send: "wk_sending s = (t, r) # rs \<Longrightarrow> ly_enqueue L r t (wk_filterq s, wk_mergeq s) = (fq, mq) \<Longrightarrow>
     wk_step L s (s\<lparr> wk_sending := rs, wk_filterq := fq, wk_mergeq := mq \<rparr>)"
| wk_take: "c < length (wk_busy s) \<Longrightarrow> wk_busy s ! c = None \<Longrightarrow> wait_and_pop c (wk_filterq s) = (Some r, fq) \<Longrightarrow>
     wk_step L s (s\<lparr> wk_filterq := fq, wk_busy := (wk_busy s)[c := Some r] \<rparr>)"
| wk_finish: "c < length (wk_busy s) \<Longrightarrow> wk_busy s ! c = Some r \<Longrightarrow> ly_vars L v0 \<Longrightarrow>
     ly_filter L junk v0 r (wk_objs s ! c) (wk_mergeq s) = Inr (fo, mq) \<Longrightarrow>
     wk_step L s (s\<lparr> wk_busy := (wk_busy s)[c := None], wk_objs := (wk_objs s)[c := fo], wk_mergeq := mq \<rparr>)"
| wk_merge: "wait_and_pop 0 (wk_mergeq s) = (Some r, mq) \<Longrightarrow>
     ly_merge L junk r (wk_merging s, wk_returnq s) = Inr (mm, rq) \<Longrightarrow>
     wk_step L s (s\<lparr> wk_mergeq := mq, wk_merging := mm, wk_returnq := rq \<rparr>)"
| wk_return: "wait_and_pop 0 (wk_returnq s) = (Some m, rq) \<Longrightarrow>
     wk_step L s (s\<lparr> wk_returnq := rq, wk_out := wk_out s @ [(m, ly_return L ack m)] \<rparr>)"

inductive_cases wk_stepE: "wk_step L s s'"

inductive wk_run ::
  "('s Snippet_scheme, 'r, 'm, 'f, 't) layers \<Rightarrow> ('s Snippet_scheme, 'r, 'm, 'f, 't) worker \<Rightarrow>
   ('s Snippet_scheme, 'r, 'm, 'f, 't) worker \<Rightarrow> bool"
  for L where
  wk_refl: "wk_run L s s"
| wk_more: "wk_run L s s' \<Longrightarrow> wk_step L s' s'' \<Longrightarrow> wk_run L s s''"

definition wk_idle :: "('s, 'r, 'm, 'f, 't) worker \<Rightarrow> bool" where
  "wk_idle s \<longleftrightarrow> wk_arriving s = [] \<and> work (wk_scanq s) = [] \<and> wk_sending s = [] \<and> work (wk_filterq s) = [] \<and>
     set (wk_busy s) \<subseteq> {None} \<and> work (wk_mergeq s) = [] \<and> work (wk_returnq s) = []"

definition wk_hist :: "('s, 'r, 'm, 'f, 't) worker \<Rightarrow> 'm list" where
  \<comment> \<open>everything ever put on the return queue\<close>
  "wk_hist s = map fst (wk_out s) @ work (wk_returnq s)"

lemma wk_run_cons: "wk_run L s' s'' \<Longrightarrow> wk_step L s s' \<Longrightarrow> wk_run L s s''"
  by (induction rule: wk_run.induct) (auto intro: wk_refl wk_more)

lemma wk_step_threads: "wk_step L s s' \<Longrightarrow> length (wk_busy s') = length (wk_busy s)"
  by (induction rule: wk_step.induct) simp_all

lemma wk_run_threads: "wk_run L s s' \<Longrightarrow> length (wk_busy s') = length (wk_busy s)"
  by (induction rule: wk_run.induct) (simp_all add: wk_step_threads)

lemma popped: "wait_and_pop c q = (Some x, q') \<Longrightarrow> work q = x # work q'"
  by (auto simp: wait_and_pop_def split: list.splits)

lemma pop_front: "work q \<noteq> [] \<Longrightarrow> \<exists>x q'. wait_and_pop c q = (Some x, q')"
  by (auto simp: wait_and_pop_def neq_Nil_conv)

text \<open>The results that the filter threads hold.\<close>

definition busy_results :: "'a option list \<Rightarrow> 'a list" where
  "busy_results bs = map the (filter (\<lambda>b. b \<noteq> None) bs)"

lemma busy_results_set:
  assumes "c < length bs" "bs ! c = None"
  shows "mset (busy_results (bs[c := Some r])) = add_mset r (mset (busy_results bs))"
proof -
  have bs: "bs = take c bs @ None # drop (Suc c) bs" using assms by (metis id_take_nth_drop)
  have up: "bs[c := Some r] = take c bs @ Some r # drop (Suc c) bs" using assms(1) by (simp add: upd_conv_take_nth_drop)
  show ?thesis unfolding up by (subst (3) bs) (simp add: busy_results_def)
qed

lemma busy_results_clear:
  assumes "c < length bs" "bs ! c = Some r"
  shows "mset (busy_results bs) = add_mset r (mset (busy_results (bs[c := None])))"
proof -
  have bs: "bs = take c bs @ Some r # drop (Suc c) bs" using assms by (metis id_take_nth_drop)
  have up: "bs[c := None] = take c bs @ None # drop (Suc c) bs" using assms(1) by (simp add: upd_conv_take_nth_drop)
  show ?thesis unfolding up by (subst bs) (simp add: busy_results_def)
qed

lemma busy_length_set:
  "c < length bs \<Longrightarrow> bs ! c = None \<Longrightarrow> length (busy_results (bs[c := Some r])) = Suc (length (busy_results bs))"
  using arg_cong [OF busy_results_set, of c bs size r] by simp

lemma busy_length_clear:
  "c < length bs \<Longrightarrow> bs ! c = Some r \<Longrightarrow> Suc (length (busy_results (bs[c := None]))) = length (busy_results bs)"
  using arg_cong [OF busy_results_clear, of c bs r size] by simp

lemma no_busy: "busy_results (map (\<lambda>_. None) xs) = []"
  by (induction xs) (simp_all add: busy_results_def)

section \<open>Every run ends\<close>

text \<open>
  Snippets not scanned come first, then the way each result still has to go, then the buffers
  not yet returned, of which a merge step may make any number.
\<close>

definition wk_measure :: "('s, 'r, 'm, 'f, 't) worker \<Rightarrow> nat \<times> nat \<times> nat" where
  "wk_measure s =
     (2 * length (wk_arriving s) + length (work (wk_scanq s)),
      4 * length (wk_sending s) + 3 * length (work (wk_filterq s)) + 2 * length (busy_results (wk_busy s)) + length (work (wk_mergeq s)),
      length (work (wk_returnq s)))"

definition less3 :: "((nat \<times> nat \<times> nat) \<times> (nat \<times> nat \<times> nat)) set" where
  "less3 = less_than <*lex*> less_than <*lex*> less_than"

lemma wf_less3: "wf less3"
  by (simp add: less3_def wf_lex_prod)

text \<open>The scan passes a result on once, the filter turns it into one result.\<close>

locale thread_layers =
  fixes L :: "('s Snippet_scheme, 'r, 'm, 'f, 't) layers"
  assumes enqueue_once: "ly_enqueue L r t (fq, mq) = (push_work r fq, mq) \<or> ly_enqueue L r t (fq, mq) = (fq, push_work r mq)"
    and filter_once: "ly_filter L junk v r f mq = Inr (f', mq') \<Longrightarrow> length (work mq') = Suc (length (work mq))"
begin

lemma step_measure: "wk_step L s s' \<Longrightarrow> (wk_measure s', wk_measure s) \<in> less3"
proof (induction rule: wk_step.induct)
  case (wk_send s t r rs fq mq)
  with enqueue_once [of r t "wk_filterq s" "wk_mergeq s"]
  have "3 * length (work fq) + length (work mq) \<le> 3 + 3 * length (work (wk_filterq s)) + length (work (wk_mergeq s))" by auto
  with wk_send show ?case by (simp add: wk_measure_def less3_def)
next
  case (wk_take c s r fq)
  with popped [OF wk_take(3)] busy_length_set [OF wk_take(1,2), of r] show ?case by (simp add: wk_measure_def less3_def)
next
  case (wk_finish c s r v0 junk fo mq)
  with filter_once [OF wk_finish(4)] busy_length_clear [OF wk_finish(1,2)] show ?case
    by (simp add: wk_measure_def less3_def)
qed (auto dest!: popped simp: wk_measure_def less3_def EnQueueScan_def)

lemma wf_step: "wf {(s', s). wk_step L s s'}"
  by (rule wf_subset [OF wf_inv_image [OF wf_less3, of wk_measure]]) (auto dest: step_measure)

end

section \<open>Queries\<close>

text \<open>
  What the layers have to do with a query \<open>Q\<close> that is in order (\<open>ok Q\<close>). \<open>holds Q r F\<close>: the result \<open>r\<close> is a block of
  the query with the rows \<open>F\<close>; \<open>snip Q\<close>, \<open>key Q\<close>, \<open>total Q\<close>, \<open>rows Q\<close>: its snippet, its query and work id, the number of
  its blocks and the rows of its table; \<open>keeps Q\<close>, \<open>proj Q\<close>: the rows it selects and what is returned of them;
  \<open>tables tm\<close>: the table manager \<open>tm\<close> leads to the files.
\<close>

locale answering_layers = thread_layers L + merge_layer cap project fresh "ly_merge L"
  for L :: "('s Snippet_scheme, 'r Result_scheme, 'm MergeResult_scheme, 'f, 't) layers" and cap project fresh +
  fixes ok :: "'q \<Rightarrow> bool"
    and snip :: "'q \<Rightarrow> 's Snippet_scheme"
    and key :: "'q \<Rightarrow> pair_key"
    and total :: "'q \<Rightarrow> int"
    and rows :: "'q \<Rightarrow> 'w list"
    and keeps :: "'q \<Rightarrow> 'w \<Rightarrow> bool"
    and proj :: "'q \<Rightarrow> 'w \<Rightarrow> string"
    and holds :: "'q \<Rightarrow> 'r Result_scheme \<Rightarrow> 'w list \<Rightarrow> bool"
    and tables :: "'t \<Rightarrow> bool"
  assumes total_pos: "ok Q \<Longrightarrow> 0 < total Q"
    and vars_exist: "ok Q \<Longrightarrow> \<exists>v. ly_vars L v"
    and scan_sends: "ok Q \<Longrightarrow> tables tm \<Longrightarrow> \<exists>tm' origin' A. ly_scan L junk tm (snip Q) origin = Inr (tm', origin', map fst A) \<and>
      tables tm' \<and> list_all (\<lambda>b. holds Q (fst b) (snd b) \<and> 0 < rs_result_block_count (fst b)) A \<and>
      sum_list (map (\<lambda>b. rs_result_block_count (fst b)) A) = total Q \<and> concat (map snd A) = rows Q"
    and enqueue_routes: "ok Q \<Longrightarrow> holds Q r F \<Longrightarrow>
      ly_enqueue L r (sn_scan_type (snip Q)) (fq, mq) = (push_work r fq, mq) \<and> sn_scan_type (snip Q) = Full_Scan_Filter \<or>
      ly_enqueue L r (sn_scan_type (snip Q)) (fq, mq) = (fq, push_work r mq) \<and> list_all (keeps Q) F"
    and filter_selects: "ok Q \<Longrightarrow> sn_scan_type (snip Q) = Full_Scan_Filter \<Longrightarrow> holds Q r F \<Longrightarrow> ly_vars L v \<Longrightarrow>
      \<exists>f' fr. ly_filter L junk v r f mq = Inr (f', push_work fr mq) \<and> holds Q fr (filter (keeps Q) F) \<and>
        rs_result_block_count fr = rs_result_block_count r"
    and merge_takes: "ok Q \<Longrightarrow> holds Q r F \<Longrightarrow> list_all (keeps Q) F \<Longrightarrow>
      delivers_in cap project r (map (proj Q) F) \<and> unit_result (fst (key Q)) (snd (key Q)) (total Q) r"
begin

text \<open>A result in flight is tagged with its query and the rows it holds.\<close>

abbreviation result_of where
  "result_of x \<equiv> fst (snd x)"

definition tagged_ok where
  "tagged_ok Qs x \<longleftrightarrow> fst x \<in> set Qs \<and> holds (fst x) (result_of x) (snd (snd x)) \<and> 0 < rs_result_block_count (result_of x)"

definition tag_count where
  "tag_count Q x = (if fst x = Q then rs_result_block_count (result_of x) else 0)"

definition tag_rows where
  "tag_rows Q x = (if fst x = Q then mset (map (proj Q) (filter (keeps Q) (snd (snd x)))) else {#})"

definition answer where
  "answer Q = map (proj Q) (filter (keeps Q) (rows Q))"

definition accounts where
  "accounts N U mm hist Q \<longleftrightarrow> (\<exists>c rws. unit_status cap (key Q) (total Q) c rws mm hist \<and> 0 \<le> c \<and>
     c + sum_list (map (tag_count Q) U) = (if Q \<in> set N then 0 else total Q) \<and>
     mset rws + sum_list (map (tag_rows Q) U) = (if Q \<in> set N then {#} else mset (answer Q)))"

text \<open>
  \<open>N\<close>: the queries not yet scanned; \<open>S\<close>, \<open>U\<close>, \<open>W\<close>, \<open>B\<close>: the results to be sent, in the filter queue, with
  the filter threads, and in the merge queue.
\<close>

definition wk_places where
  "wk_places Qs s N S U W B \<longleftrightarrow>
     work (wk_scanq s) @ wk_arriving s = map snip N \<and> set N \<subseteq> set Qs \<and> distinct N \<and>
     wk_sending s = map (\<lambda>x. (sn_scan_type (snip (fst x)), result_of x)) S \<and>
     work (wk_filterq s) = map result_of U \<and> wk_busy s = map (map_option result_of) W \<and>
     work (wk_mergeq s) = map result_of B \<and>
     list_all (tagged_ok Qs) (S @ U @ busy_results W @ B) \<and>
     list_all (\<lambda>x. sn_scan_type (snip (fst x)) = Full_Scan_Filter) (U @ busy_results W) \<and>
     list_all (\<lambda>x. list_all (keeps (fst x)) (snd (snd x))) B"

definition wk_inv where
  "wk_inv Qs s \<longleftrightarrow> tables (wk_tables s) \<and> sound_history cap (wk_merging s) (wk_hist s) \<and>
     (\<exists>N S U W B. wk_places Qs s N S U W B \<and>
       (\<forall>Q\<in>set Qs. accounts N (S @ U @ busy_results W @ B) (wk_merging s) (wk_hist s) Q))"

lemma wk_invE:
  assumes "wk_inv Qs s"
  obtains N S U W B where "wk_places Qs s N S U W B"
    "\<forall>Q\<in>set Qs. accounts N (S @ U @ busy_results W @ B) (wk_merging s) (wk_hist s) Q"
    "tables (wk_tables s)" "sound_history cap (wk_merging s) (wk_hist s)"
  using assms unfolding wk_inv_def by blast

lemma wk_invI:
  assumes "wk_places Qs s N S U W B"
    "\<And>Q. Q \<in> set Qs \<Longrightarrow> accounts N (S @ U @ busy_results W @ B) (wk_merging s) (wk_hist s) Q"
    "tables (wk_tables s)" "sound_history cap (wk_merging s) (wk_hist s)"
  shows "wk_inv Qs s"
  using assms unfolding wk_inv_def by blast

text \<open>A step that only moves results: the tags move along.\<close>

definition moved where
  "moved Qs s N V \<longleftrightarrow> (\<exists>S U W B. wk_places Qs s N S U W B \<and>
     (\<forall>Q. sum_list (map (tag_count Q) (S @ U @ busy_results W @ B)) = sum_list (map (tag_count Q) V) \<and>
          sum_list (map (tag_rows Q) (S @ U @ busy_results W @ B)) = sum_list (map (tag_rows Q) V)))"

lemma wk_inv_move:
  assumes "wk_inv Qs s" "wk_tables s' = wk_tables s" "wk_merging s' = wk_merging s" "wk_hist s' = wk_hist s"
    "\<And>N S U W B. wk_places Qs s N S U W B \<Longrightarrow> moved Qs s' N (S @ U @ busy_results W @ B)"
  shows "wk_inv Qs s'"
proof -
  from assms(1) obtain N S U W B where inv: "wk_places Qs s N S U W B"
    "\<forall>Q\<in>set Qs. accounts N (S @ U @ busy_results W @ B) (wk_merging s) (wk_hist s) Q"
    "tables (wk_tables s)" "sound_history cap (wk_merging s) (wk_hist s)" by (rule wk_invE)
  from assms(5) [OF inv(1)] obtain S' U' W' B' where new: "wk_places Qs s' N S' U' W' B'"
    "\<And>Q. sum_list (map (tag_count Q) (S' @ U' @ busy_results W' @ B')) = sum_list (map (tag_count Q) (S @ U @ busy_results W @ B))"
    "\<And>Q. sum_list (map (tag_rows Q) (S' @ U' @ busy_results W' @ B')) = sum_list (map (tag_rows Q) (S @ U @ busy_results W @ B))"
    unfolding moved_def by blast
  show ?thesis
  proof (rule wk_invI [OF new(1)])
    fix Q assume "Q \<in> set Qs"
    with inv(2) have "accounts N (S @ U @ busy_results W @ B) (wk_merging s) (wk_hist s) Q" by blast
    then show "accounts N (S' @ U' @ busy_results W' @ B') (wk_merging s') (wk_hist s') Q"
      unfolding accounts_def new(2,3) assms(3,4) .
  qed (use inv(3,4) assms(2-4) in simp_all)
qed

lemma move_mset:
  assumes "wk_places Qs s' N S' U' W' B'" "mset (S' @ U' @ busy_results W' @ B') = mset (S @ U @ busy_results W @ B)"
  shows "moved Qs s' N (S @ U @ busy_results W @ B)"
proof -
  have "sum_list (map (tag_count Q) (S' @ U' @ busy_results W' @ B')) = sum_list (map (tag_count Q) (S @ U @ busy_results W @ B))"
    "sum_list (map (tag_rows Q) (S' @ U' @ busy_results W' @ B')) = sum_list (map (tag_rows Q) (S @ U @ busy_results W @ B))" for Q
    by (rule sum_list_mset_cong [OF assms(2)])+
  with assms(1) show ?thesis unfolding moved_def by blast
qed

lemma wk_inv_input:
  assumes "wk_inv Qs s" "wk_arriving s = sn # sns"
  shows "wk_inv Qs (s\<lparr> wk_arriving := sns, wk_scanq := EnQueueScan sn (wk_scanq s) \<rparr>)"
proof (rule wk_inv_move [OF assms(1)])
  fix N S U W B assume "wk_places Qs s N S U W B"
  then have "wk_places Qs (s\<lparr> wk_arriving := sns, wk_scanq := EnQueueScan sn (wk_scanq s) \<rparr>) N S U W B"
    using assms(2) by (simp add: wk_places_def EnQueueScan_def)
  then show "moved Qs (s\<lparr> wk_arriving := sns, wk_scanq := EnQueueScan sn (wk_scanq s) \<rparr>) N (S @ U @ busy_results W @ B)"
    by (rule move_mset) simp
qed (simp_all add: wk_hist_def)

lemma wk_inv_send:
  assumes "wk_inv Qs s" "list_all ok Qs" "wk_sending s = (t, r) # rs" "ly_enqueue L r t (wk_filterq s, wk_mergeq s) = (fq, mq)"
  shows "wk_inv Qs (s\<lparr> wk_sending := rs, wk_filterq := fq, wk_mergeq := mq \<rparr>)" (is "wk_inv _ ?s'")
proof (rule wk_inv_move [OF assms(1)])
  fix N S U W B assume places: "wk_places Qs s N S U W B"
  with assms(3) obtain x S' where S: "S = x # S'" "t = sn_scan_type (snip (fst x))" "r = result_of x"
    "rs = map (\<lambda>x. (sn_scan_type (snip (fst x)), result_of x)) S'"
    by (auto simp: wk_places_def Cons_eq_map_conv)
  have x: "tagged_ok Qs x" using places S(1) by (simp add: wk_places_def)
  then have "ok (fst x)" "holds (fst x) r (snd (snd x))" using assms(2) S(3) by (simp_all add: tagged_ok_def list_all_iff)
  from enqueue_routes [OF this, of "wk_filterq s" "wk_mergeq s"] consider
      "fq = push_work r (wk_filterq s)" "mq = wk_mergeq s" "t = Full_Scan_Filter"
    | "fq = wk_filterq s" "mq = push_work r (wk_mergeq s)" "list_all (keeps (fst x)) (snd (snd x))"
    using assms(4) S(2) by auto
  then show "moved Qs ?s' N (S @ U @ busy_results W @ B)"
  proof cases
    case 1
    then have "wk_places Qs ?s' N S' (U @ [x]) W B" using places S x by (auto simp: wk_places_def)
    then show ?thesis by (rule move_mset) (simp add: S(1))
  next
    case 2
    then have "wk_places Qs ?s' N S' U W (B @ [x])" using places S x by (auto simp: wk_places_def)
    then show ?thesis by (rule move_mset) (simp add: S(1))
  qed
qed (simp_all add: wk_hist_def)

lemma wk_inv_take:
  assumes "wk_inv Qs s" "c < length (wk_busy s)" "wk_busy s ! c = None" "wait_and_pop c (wk_filterq s) = (Some r, fq)"
  shows "wk_inv Qs (s\<lparr> wk_filterq := fq, wk_busy := (wk_busy s)[c := Some r] \<rparr>)" (is "wk_inv _ ?s'")
proof (rule wk_inv_move [OF assms(1)])
  fix N S U W B assume places: "wk_places Qs s N S U W B"
  with popped [OF assms(4)] obtain x U' where U: "U = x # U'" "r = result_of x" "work fq = map result_of U'"
    by (auto simp: wk_places_def Cons_eq_map_conv)
  have c: "c < length W" "W ! c = None" using places assms(2,3) by (auto simp: wk_places_def)
  note W = busy_results_set [OF c, of x]
  then have "set (busy_results (W[c := Some x])) = insert x (set (busy_results W))"
    by (metis set_mset_add_mset_insert set_mset_mset)
  with places U have "wk_places Qs ?s' N S U' (W[c := Some x]) B"
    by (auto simp: wk_places_def map_update list_all_iff)
  then show "moved Qs ?s' N (S @ U @ busy_results W @ B)"
    by (rule move_mset) (simp add: U(1) W)
qed (simp_all add: wk_hist_def)

lemma busy_tag:
  assumes "wk_places Qs s N S U W B" "c < length (wk_busy s)" "wk_busy s ! c = Some r" "list_all ok Qs"
  obtains Q F where "c < length W" "W ! c = Some (Q, r, F)" "tagged_ok Qs (Q, r, F)" "sn_scan_type (snip Q) = Full_Scan_Filter" "ok Q"
proof -
  have c: "c < length W" using assms(1,2) by (auto simp: wk_places_def)
  with assms(1,3) obtain Q F where W: "W ! c = Some (Q, r, F)" by (auto simp: wk_places_def)
  have "(Q, r, F) \<in> set (busy_results W)"
    using busy_results_clear [OF c W] by (metis union_single_eq_member set_mset_mset add_mset_add_single union_commute)
  moreover have "\<forall>x\<in>set (busy_results W). tagged_ok Qs x \<and> sn_scan_type (snip (fst x)) = Full_Scan_Filter"
    using assms(1) unfolding wk_places_def list_all_append list_all_iff set_append by blast
  ultimately have x: "tagged_ok Qs (Q, r, F)" "sn_scan_type (snip Q) = Full_Scan_Filter" by fastforce+
  moreover have "ok Q" using x(1) assms(4) by (simp add: tagged_ok_def list_all_iff)
  ultimately show thesis using that [OF c W] by blast
qed

lemma wk_inv_finish:
  assumes "wk_inv Qs s" "list_all ok Qs" "c < length (wk_busy s)" "wk_busy s ! c = Some r" "ly_vars L v0"
    "ly_filter L junk v0 r fo (wk_mergeq s) = Inr (fo', mq)"
  shows "wk_inv Qs (s\<lparr> wk_busy := (wk_busy s)[c := None], wk_objs := objs, wk_mergeq := mq \<rparr>)" (is "wk_inv _ ?s'")
proof (rule wk_inv_move [OF assms(1)])
  fix N S U W B assume places: "wk_places Qs s N S U W B"
  from busy_tag [OF places assms(3,4,2)] obtain Q F where W: "c < length W" "W ! c = Some (Q, r, F)"
    and x: "tagged_ok Qs (Q, r, F)" "sn_scan_type (snip Q) = Full_Scan_Filter" "ok Q" .
  let ?x = "(Q, r, F)"
  note cl = busy_results_clear [OF W]
  then have in_W: "set (busy_results W) = insert ?x (set (busy_results (W[c := None])))"
    by (metis set_mset_add_mset_insert set_mset_mset)
  have "holds Q r F" using x(1) by (simp add: tagged_ok_def)
  from filter_selects [OF x(3,2) this assms(5), of junk fo "wk_mergeq s"] obtain fo'' fr where
    fr: "ly_filter L junk v0 r fo (wk_mergeq s) = Inr (fo'', push_work fr (wk_mergeq s))"
    "holds Q fr (filter (keeps Q) F)" "rs_result_block_count fr = rs_result_block_count r" by blast
  let ?y = "(Q, fr, filter (keeps Q) F)"
  have y: "tagged_ok Qs ?y" using x(1) fr(2,3) by (simp add: tagged_ok_def)
  have "mq = push_work fr (wk_mergeq s)" using fr(1) assms(6) by simp
  then have new: "wk_places Qs ?s' N S U (W[c := None]) (B @ [?y])"
    using places y in_W by (auto simp: wk_places_def map_update list_all_iff)
  have same: "tag_count Q' ?y = tag_count Q' ?x" "tag_rows Q' ?y = tag_rows Q' ?x" for Q'
    using fr(3) by (simp_all add: tag_count_def tag_rows_def)
  have sums: "sum_list (map f (S @ U @ busy_results (W[c := None]) @ B @ [?y])) = sum_list (map f (S @ U @ busy_results W @ B))"
    if "f ?y = f ?x" for f :: "'q \<times> 'r Result_scheme \<times> 'w list \<Rightarrow> 'c :: comm_monoid_add"
  proof -
    have "sum_list (map f (busy_results W)) = f ?x + sum_list (map f (busy_results (W[c := None])))"
      using sum_list_mset_cong [of "busy_results W" "?x # busy_results (W[c := None])" f] cl by simp
    with that show ?thesis by (simp add: ac_simps)
  qed
  have "sum_list (map (tag_count Q') (S @ U @ busy_results (W[c := None]) @ B @ [?y])) = sum_list (map (tag_count Q') (S @ U @ busy_results W @ B))"
    "sum_list (map (tag_rows Q') (S @ U @ busy_results (W[c := None]) @ B @ [?y])) = sum_list (map (tag_rows Q') (S @ U @ busy_results W @ B))" for Q'
    by (rule sums, rule same)+
  with new show "moved Qs ?s' N (S @ U @ busy_results W @ B)" unfolding moved_def by blast
qed (simp_all add: wk_hist_def)

lemma tag_sums:
  "sum_list (map (tag_count Q') (map (Pair Q) A)) = (if Q' = Q then sum_list (map (\<lambda>b. rs_result_block_count (fst b)) A) else 0)"
  "sum_list (map (tag_rows Q') (map (Pair Q) A)) =
     (if Q' = Q then mset (map (proj Q) (filter (keeps Q) (concat (map snd A)))) else {#})"
  by (induction A) (simp_all add: tag_count_def tag_rows_def)

lemma accounts_scanned:
  assumes "accounts (Q # N) V mm hist Q'" "Q \<notin> set N" "sum_list (map (\<lambda>b. rs_result_block_count (fst b)) A) = total Q" "concat (map snd A) = rows Q"
  shows "accounts N (map (Pair Q) A @ V) mm hist Q'"
proof -
  from assms(1) obtain c rws where c: "unit_status cap (key Q') (total Q') c rws mm hist" "0 \<le> c"
    "c + sum_list (map (tag_count Q') V) = (if Q' \<in> set (Q # N) then 0 else total Q')"
    "mset rws + sum_list (map (tag_rows Q') V) = (if Q' \<in> set (Q # N) then {#} else mset (answer Q'))"
    unfolding accounts_def by blast
  let ?M = "map (Pair Q) A"
  have sums: "sum_list (map (tag_count Q') (?M @ V)) = (if Q' = Q then total Q else 0) + sum_list (map (tag_count Q') V)"
    "sum_list (map (tag_rows Q') (?M @ V)) = (if Q' = Q then mset (answer Q) else {#}) + sum_list (map (tag_rows Q') V)"
    using tag_sums [of Q' Q A] assms(3,4) by (simp_all add: answer_def del: map_map)
  have "c + sum_list (map (tag_count Q') (?M @ V)) = (if Q' \<in> set N then 0 else total Q')"
    "mset rws + sum_list (map (tag_rows Q') (?M @ V)) = (if Q' \<in> set N then {#} else mset (answer Q'))"
    unfolding sums using c(3,4) assms(2) by (cases "Q' = Q"; simp add: add.left_commute)+
  with c(1,2) show ?thesis unfolding accounts_def by blast
qed

text \<open>The scan step, from the snippet at the front of the scan queue.\<close>

lemma wk_scan_step:
  assumes "wk_inv Qs s" "list_all ok Qs" "wk_sending s = []" "wait_and_pop 0 (wk_scanq s) = (Some sn, sq)"
  shows "\<exists>tm origin' rs. ly_scan L junk (wk_tables s) sn origin = Inr (tm, origin', rs) \<and>
    wk_inv Qs (s\<lparr> wk_scanq := sq, wk_tables := tm, wk_origin := origin', wk_sending := map (Pair (sn_scan_type sn)) rs \<rparr>)"
proof -
  from assms(1) obtain N S U W B where inv: "wk_places Qs s N S U W B"
    "\<forall>Q\<in>set Qs. accounts N (S @ U @ busy_results W @ B) (wk_merging s) (wk_hist s) Q"
    "tables (wk_tables s)" "sound_history cap (wk_merging s) (wk_hist s)" by (rule wk_invE)
  from inv(1) popped [OF assms(4)] obtain Q N' where N: "N = Q # N'" "snip Q = sn" "work sq @ wk_arriving s = map snip N'"
    by (auto simp: wk_places_def Cons_eq_map_conv)
  have S: "S = []" using inv(1) assms(3) by (simp add: wk_places_def)
  have Q: "Q \<in> set Qs" "Q \<notin> set N'" using inv(1) N(1) by (auto simp: wk_places_def)
  then have "ok Q" using assms(2) by (simp add: list_all_iff)
  from scan_sends [OF this inv(3), of junk origin] obtain tm origin' A where
    A: "ly_scan L junk (wk_tables s) sn origin = Inr (tm, origin', map fst A)" "tables tm"
    "list_all (\<lambda>b. holds Q (fst b) (snd b) \<and> 0 < rs_result_block_count (fst b)) A"
    "sum_list (map (\<lambda>b. rs_result_block_count (fst b)) A) = total Q" "concat (map snd A) = rows Q" unfolding N(2) by blast
  let ?s = "s\<lparr> wk_scanq := sq, wk_tables := tm, wk_origin := origin', wk_sending := map (Pair (sn_scan_type sn)) (map fst A) \<rparr>"
  have "list_all (tagged_ok Qs) (map (Pair Q) A)" using A(3) Q(1) by (auto simp: tagged_ok_def list_all_iff)
  then have places: "wk_places Qs ?s N' (map (Pair Q) A) U W B" using inv(1) N S by (auto simp: wk_places_def)
  have "wk_inv Qs ?s"
  proof (rule wk_invI [OF places])
    fix Q' assume "Q' \<in> set Qs"
    with inv(2) have "accounts (Q # N') (U @ busy_results W @ B) (wk_merging s) (wk_hist s) Q'" unfolding N(1) S by simp
    from accounts_scanned [OF this Q(2) A(4,5)]
    show "accounts N' (map (Pair Q) A @ U @ busy_results W @ B) (wk_merging ?s) (wk_hist ?s) Q'" by (simp add: wk_hist_def)
  qed (use A(2) inv(4) in \<open>simp_all add: wk_hist_def\<close>)
  with A(1) show ?thesis by blast
qed

lemma distinct_keys: "distinct (map key Qs) \<Longrightarrow> Q \<in> set Qs \<Longrightarrow> Q' \<in> set Qs \<Longrightarrow> key Q = key Q' \<Longrightarrow> Q = Q'"
  by (auto simp: distinct_map dest: inj_onD)

lemma tag_count_nonneg: "list_all (tagged_ok Qs) V \<Longrightarrow> 0 \<le> sum_list (map (tag_count Q) V)"
  by (intro sum_list_nonneg) (auto simp: tag_count_def tagged_ok_def list_all_iff)

text \<open>The merge step, from the result at the front of the merge queue.\<close>

lemma merge_accounts:
  assumes "accounts N (x # V) mm hist Q" "x = (Q, r, F)" "tagged_ok Qs x" "list_all (tagged_ok Qs) V" "list_all (keeps Q) F" "ok Q"
    "sound_history cap mm hist"
  shows "\<exists>b rq' es. ly_merge L junk r (mm, rq) = Inr (mm(key Q := b), rq') \<and> work rq' = work rq @ es \<and>
    list_all (\<lambda>e. unit_key e = key Q) es \<and> sound_history cap (mm(key Q := b)) (hist @ es) \<and> accounts N V (mm(key Q := b)) (hist @ es) Q"
proof -
  have r: "0 < rs_result_block_count r" "holds Q r F" "filter (keeps Q) F = F"
    using assms(2,3,5) by (simp_all add: tagged_ok_def filter_id_conv list_all_iff)
  note del = merge_takes [OF assms(6) r(2) assms(5)]
  from assms(1) r(3) obtain c rws where c: "unit_status cap (key Q) (total Q) c rws mm hist" "0 \<le> c"
    "c + (rs_result_block_count r + sum_list (map (tag_count Q) V)) = (if Q \<in> set N then 0 else total Q)"
    "mset rws + (mset (map (proj Q) F) + sum_list (map (tag_rows Q) V)) = (if Q \<in> set N then {#} else mset (answer Q))"
    unfolding accounts_def assms(2) by (auto simp: tag_count_def tag_rows_def)
  have N: "Q \<notin> set N" and le: "c + rs_result_block_count r \<le> total Q"
    using c(2,3) r(1) tag_count_nonneg [OF assms(4), of Q] by (auto split: if_splits)
  from merge_unit_step [OF c(1) conjunct1 [OF del] conjunct2 [OF del] r(1) le c(2) assms(7), of junk rq]
  obtain b rq' es where step: "ly_merge L junk r (mm, rq) = Inr (mm(key Q := b), rq')" "work rq' = work rq @ es"
    "list_all (\<lambda>e. unit_key e = key Q) es" "sound_history cap (mm(key Q := b)) (hist @ es)"
    "unit_status cap (key Q) (total Q) (c + rs_result_block_count r) (rws @ map (proj Q) F) (mm(key Q := b)) (hist @ es)" by blast
  have "accounts N V (mm(key Q := b)) (hist @ es) Q" unfolding accounts_def
    by (rule exI [of _ "c + rs_result_block_count r"], rule exI [of _ "rws @ map (proj Q) F"])
      (use step(5) c(2-4) r(1) N in \<open>simp add: ac_simps\<close>)
  with step(1-4) show ?thesis by blast
qed

lemma wk_merge_step:
  assumes "wk_inv Qs s" "list_all ok Qs" "distinct (map key Qs)" "wait_and_pop 0 (wk_mergeq s) = (Some r, mq)"
  shows "\<exists>mm rq. ly_merge L junk r (wk_merging s, wk_returnq s) = Inr (mm, rq) \<and>
    wk_inv Qs (s\<lparr> wk_mergeq := mq, wk_merging := mm, wk_returnq := rq \<rparr>)"
proof -
  from assms(1) obtain N S U W B where inv: "wk_places Qs s N S U W B"
    "\<forall>Q\<in>set Qs. accounts N (S @ U @ busy_results W @ B) (wk_merging s) (wk_hist s) Q"
    "tables (wk_tables s)" "sound_history cap (wk_merging s) (wk_hist s)" by (rule wk_invE)
  from inv(1) popped [OF assms(4)] obtain Q F B' where B: "B = (Q, r, F) # B'" "work mq = map result_of B'"
    by (auto simp: wk_places_def Cons_eq_map_conv)
  let ?x = "(Q, r, F)" and ?V = "S @ U @ busy_results W @ B'" and ?k = "key Q"
  have x: "tagged_ok Qs ?x" "list_all (keeps Q) F" and V: "list_all (tagged_ok Qs) ?V"
    using inv(1) B(1) by (simp_all add: wk_places_def)
  then have Q: "Q \<in> set Qs" "ok Q" using assms(2) by (auto simp: tagged_ok_def list_all_iff)
  have acc: "accounts N (?x # ?V) (wk_merging s) (wk_hist s) Q'" if "Q' \<in> set Qs" for Q'
    using inv(2) that unfolding accounts_def B(1) by (simp add: ac_simps)
  from merge_accounts [OF acc [OF Q(1)] refl x(1) V x(2) Q(2) inv(4), of junk "wk_returnq s"] obtain b rq es where
    step: "ly_merge L junk r (wk_merging s, wk_returnq s) = Inr ((wk_merging s)(?k := b), rq)"
    "work rq = work (wk_returnq s) @ es" "list_all (\<lambda>e. unit_key e = ?k) es"
    "sound_history cap ((wk_merging s)(?k := b)) (wk_hist s @ es)" "accounts N ?V ((wk_merging s)(?k := b)) (wk_hist s @ es) Q" by blast
  let ?s = "s\<lparr> wk_mergeq := mq, wk_merging := (wk_merging s)(?k := b), wk_returnq := rq \<rparr>"
  have hist: "wk_hist ?s = wk_hist s @ es" using step(2) by (simp add: wk_hist_def)
  have "accounts N ?V (wk_merging ?s) (wk_hist ?s) Q'" if "Q' \<in> set Qs" for Q'
  proof (cases "Q' = Q")
    case True
    then show ?thesis using step(5) hist by simp
  next
    case False
    then have k: "key Q' \<noteq> ?k" using distinct_keys [OF assms(3) that Q(1)] by blast
    then have "filter (\<lambda>e. unit_key e = key Q') es = []" using step(3) by (auto simp: filter_empty_conv list_all_iff)
    with acc [OF that] status_other [of cap "key Q'" "total Q'" _ _ "wk_merging s" "wk_hist s" "wk_merging ?s" es] False k
    show ?thesis unfolding accounts_def hist by (fastforce simp: tag_count_def tag_rows_def)
  qed
  moreover have "wk_places Qs ?s N S U W B'" using inv(1) B by (simp add: wk_places_def)
  ultimately have "wk_inv Qs ?s" using inv(3) step(4) hist by (intro wk_invI) simp_all
  with step(1) show ?thesis by blast
qed

lemma wk_inv_return:
  assumes "wk_inv Qs s" "wait_and_pop 0 (wk_returnq s) = (Some m, rq)"
  shows "wk_inv Qs (s\<lparr> wk_returnq := rq, wk_out := wk_out s @ [(m, ops)] \<rparr>)"
proof -
  have "wk_hist (s\<lparr> wk_returnq := rq, wk_out := wk_out s @ [(m, ops)] \<rparr>) = wk_hist s"
    using popped [OF assms(2)] by (simp add: wk_hist_def)
  with assms(1) show ?thesis by (simp add: wk_inv_def wk_places_def)
qed

lemma wk_step_inv:
  assumes "wk_step L s s'" "wk_inv Qs s" "list_all ok Qs" "distinct (map key Qs)"
  shows "wk_inv Qs s'"
  using assms(1)
proof (cases rule: wk_step.cases)
  case (wk_merge r mq junk mm rq)
  with wk_merge_step [OF assms(2-4) wk_merge(2), of junk] show ?thesis by auto
next
  case (wk_scan sn sq junk tm origin rs)
  with wk_scan_step [OF assms(2,3) wk_scan(2,3), of junk "wk_origin s"] show ?thesis by auto
qed (use assms(2,3) in \<open>auto intro: wk_inv_input wk_inv_send wk_inv_take wk_inv_finish wk_inv_return\<close>)

lemma wk_start_inv:
  assumes "distinct Qs" "tables tm"
  shows "wk_inv Qs (wk_start tm (map snip Qs) objs)"
proof (rule wk_invI)
  show "wk_places Qs (wk_start tm (map snip Qs) objs) Qs [] [] (map (\<lambda>_. None) objs) []"
    using assms(1) by (simp add: wk_places_def wk_start_def new_WorkQueue_def no_busy)
  show "accounts Qs ([] @ [] @ busy_results (map (\<lambda>_. None) objs) @ []) (wk_merging (wk_start tm (map snip Qs) objs))
      (wk_hist (wk_start tm (map snip Qs) objs)) Q" if "Q \<in> set Qs" for Q
    using that status_start [of cap "key Q" "total Q"] by (auto simp: accounts_def no_busy wk_start_def wk_hist_def new_WorkQueue_def)
qed (use assms(2) in \<open>simp_all add: wk_start_def wk_hist_def new_WorkQueue_def sound_history_alt\<close>)

text \<open>The states that the worker reaches with the queries \<open>Qs\<close>.\<close>

lemma wk_run_inv:
  assumes "wk_run L (wk_start tm (map snip Qs) objs) s" "list_all ok Qs" "distinct (map key Qs)" "tables tm"
  shows "wk_inv Qs s"
  using assms
proof (induction "wk_start tm (map snip Qs) objs :: ('s Snippet_scheme, 'r Result_scheme, 'm MergeResult_scheme, 'f, 't) worker" s rule: wk_run.induct)
  case wk_refl
  then show ?case by (intro wk_start_inv) (simp_all add: distinct_map)
next
  case (wk_more s' s'')
  then show ?case by (blast intro: wk_step_inv)
qed

text \<open>No thread gets stuck.\<close>

lemma wk_finish_enabled:
  assumes "wk_inv Qs s" "list_all ok Qs" "c < length (wk_busy s)" "wk_busy s ! c = Some r"
  shows "\<exists>v0 fo' mq. ly_vars L v0 \<and> ly_filter L junk v0 r fo (wk_mergeq s) = Inr (fo', mq)"
proof -
  from assms(1) obtain N S U W B where places: "wk_places Qs s N S U W B" by (rule wk_invE)
  from busy_tag [OF places assms(3,4,2)] obtain Q F where
    x: "tagged_ok Qs (Q, r, F)" "sn_scan_type (snip Q) = Full_Scan_Filter" "ok Q" .
  then have "holds Q r F" by (simp add: tagged_ok_def)
  with filter_selects [OF x(3,2)] vars_exist [OF x(3)] show ?thesis by blast
qed

lemma wk_progress:
  assumes "wk_inv Qs s" "list_all ok Qs" "distinct (map key Qs)" "wk_busy s \<noteq> []" "\<not> wk_idle s"
  shows "\<exists>s'. wk_step L s s'"
proof -
  from assms(5) consider "work (wk_mergeq s) \<noteq> []" | "work (wk_returnq s) \<noteq> []"
    | c r where "c < length (wk_busy s)" "wk_busy s ! c = Some r"
    | "work (wk_filterq s) \<noteq> []" "set (wk_busy s) \<subseteq> {None}" | "wk_sending s \<noteq> []"
    | "work (wk_scanq s) \<noteq> []" "wk_sending s = []" | "wk_arriving s \<noteq> []"
    unfolding wk_idle_def by (metis in_set_conv_nth not_None_eq singletonI subsetI)
  then show ?thesis
  proof cases
    case 1
    from pop_front [OF 1] obtain r mq where "wait_and_pop 0 (wk_mergeq s) = (Some r, mq)" by blast
    with wk_merge_step [OF assms(1-3) this] show ?thesis by (blast intro: wk_merge)
  next
    case 2
    from pop_front [OF 2, of 0] show ?thesis by (blast intro: wk_return)
  next
    case 3
    from wk_finish_enabled [OF assms(1,2) 3] 3 show ?thesis by (blast intro: wk_finish)
  next
    case 4
    then have "0 < length (wk_busy s)" "wk_busy s ! 0 = None" using assms(4) by (auto simp: neq_Nil_conv)
    with pop_front [OF 4(1), of 0] show ?thesis by (blast intro: wk_take)
  next
    case 5
    then obtain t r rs where "wk_sending s = (t, r) # rs" by (metis neq_Nil_conv surj_pair)
    then show ?thesis by (metis wk_send surj_pair)
  next
    case 6
    from pop_front [OF 6(1)] obtain sn sq where "wait_and_pop 0 (wk_scanq s) = (Some sn, sq)" by blast
    with wk_scan_step [OF assms(1,2) 6(2) this] 6(2) show ?thesis by (blast intro: wk_scan)
  next
    case 7
    then show ?thesis by (metis neq_Nil_conv wk_input)
  qed
qed

lemma wk_reaches_idle:
  assumes "wk_inv Qs s" "list_all ok Qs" "distinct (map key Qs)" "wk_busy s \<noteq> []"
  shows "\<exists>s'. wk_run L s s' \<and> wk_idle s'"
  using assms(1,4)
proof (induction s rule: wf_induct_rule [OF wf_step])
  case (1 s)
  show ?case
  proof (cases "wk_idle s")
    case True
    then show ?thesis by (blast intro: wk_refl)
  next
    case False
    from wk_progress [OF "1.prems"(1) assms(2,3) "1.prems"(2) False] obtain s' where step: "wk_step L s s'" by blast
    have "wk_inv Qs s'" by (rule wk_step_inv [OF step "1.prems"(1) assms(2,3)])
    moreover have "wk_busy s' \<noteq> []" using wk_step_threads [OF step] "1.prems"(2) by auto
    ultimately obtain s'' where "wk_run L s' s''" "wk_idle s''" using "1.IH" [of s'] step by auto
    then show ?thesis using wk_run_cons [OF _ step] by blast
  qed
qed

lemma never_stuck:
  assumes "list_all ok Qs" "distinct (map key Qs)" "tables tm" "objs \<noteq> []" "wk_run L (wk_start tm (map snip Qs) objs) s"
  shows "(wk_idle s \<or> (\<exists>s'. wk_step L s s')) \<and> (\<exists>s'. wk_run L s s' \<and> wk_idle s')"
proof -
  have inv: "wk_inv Qs s" by (rule wk_run_inv [OF assms(5,1-3)])
  have busy: "wk_busy s \<noteq> []" using wk_run_threads [OF assms(5)] assms(4) by (auto simp: wk_start_def)
  show ?thesis using wk_progress [OF inv assms(1,2) busy] wk_reaches_idle [OF inv assms(1,2) busy] by blast
qed

text \<open>What the worker has returned when it is idle.\<close>

lemma answers:
  assumes "list_all ok Qs" "distinct (map key Qs)" "tables tm" "wk_run L (wk_start tm (map snip Qs) objs) s" "wk_idle s" "Q \<in> set Qs"
  shows "wk_merging s (key Q) = None \<and>
    (\<exists>rss. list_all2 (merge_rows_in cap) (filter (\<lambda>m. unit_key m = key Q) (map fst (wk_out s))) rss \<and>
      mset (concat rss) = mset (map (proj Q) (filter (keeps Q) (rows Q))) \<and>
      blocks_sent (filter (\<lambda>m. unit_key m = key Q) (map fst (wk_out s))) = total Q)"
proof -
  from wk_run_inv [OF assms(4,1-3)] obtain N S U W B where inv: "wk_places Qs s N S U W B"
    "\<forall>Q\<in>set Qs. accounts N (S @ U @ busy_results W @ B) (wk_merging s) (wk_hist s) Q" by (rule wk_invE)
  have "busy_results W = []" using inv(1) assms(5)
    by (auto simp: wk_places_def wk_idle_def busy_results_def filter_empty_conv)
  with inv(1) assms(5) have none: "S @ U @ busy_results W @ B = []" "N = []"
    by (simp_all add: wk_places_def wk_idle_def)
  from bspec [OF inv(2) assms(6)] obtain rws where
    st: "unit_status cap (key Q) (total Q) (total Q) rws (wk_merging s) (wk_hist s)" "mset rws = mset (answer Q)"
    unfolding accounts_def none by auto
  have hist: "wk_hist s = map fst (wk_out s)" using assms(5) by (simp add: wk_hist_def wk_idle_def)
  have "0 < total Q" using assms(1,6) total_pos by (simp add: list_all_iff)
  from status_complete [OF st(1) this] st(2) show ?thesis unfolding hist answer_def by metis
qed

end

end
