(* ===== verification/Worker.thy ===== *)
theory Worker
  imports Queries Threads
begin

text \<open>
  The whole worker (\<open>main.cc\<close>): the threads of \<open>Threads\<close> with the layers of this version. The scan thread
  computes the results of a snippet with \<open>scan_snippet\<close> and sends them one by one; that the queues get
  exactly these results, in this order, is \<open>scan_snippet_counts\<close>. A query and what is asked of it; the locale
  \<open>answering_layers\<close> is interpreted for the layers and these queries.
\<close>

section \<open>The worker\<close>

definition csd_layers ::
  "(string \<Rightarrow> sst_entry list) \<Rightarrow> (string \<Rightarrow> json) \<Rightarrow> (json \<Rightarrow> string) \<Rightarrow> (Snippet, Result, MergeResult, Filter_obj, table_rep) layers" where
  "csd_layers reader parse write =
     \<lparr> ly_scan = (\<lambda>junk tm sn origin.
         bindE (scan_snippet reader junk tm sn origin (new_WorkQueue 0) (new_WorkQueue 0)) (\<lambda>(tm, st).
           Inr (tm, ss_origin_index_num st, ss_sent st))),
       ly_enqueue = EnQueueData,
       ly_vars = (\<lambda>_. True),
       ly_filter = BlockFilter parse,
       ly_merge = MergeBlock,
       ly_return = SendDataToBufferManager write \<rparr>"

lemma csd_layers_simps [simp]:
  "ly_scan (csd_layers reader parse write) junk tm sn origin =
     bindE (scan_snippet reader junk tm sn origin (new_WorkQueue 0) (new_WorkQueue 0)) (\<lambda>(tm, st). Inr (tm, ss_origin_index_num st, ss_sent st))"
  "ly_enqueue (csd_layers reader parse write) = EnQueueData" "ly_vars (csd_layers reader parse write) v"
  "ly_filter (csd_layers reader parse write) = BlockFilter parse" "ly_merge (csd_layers reader parse write) = MergeBlock"
  "ly_return (csd_layers reader parse write) = SendDataToBufferManager write"
  by (simp_all add: csd_layers_def)

lemma EnQueueData_once: "EnQueueData r t (fq, mq) = (push_work r fq, mq) \<or> EnQueueData r t (fq, mq) = (fq, push_work r mq)"
  by (cases t) (simp_all add: EnQueueData_def)

lemma BlockFilter_pushes: "BlockFilter parse junk v0 r fo mq = Inr (fo', mq') \<Longrightarrow> length (work mq') = Suc (length (work mq))"
  by (auto simp: BlockFilter_def Let_def bindE_Inr_conv sendfilterresult_def)

interpretation csd_threads: thread_layers "csd_layers reader parse write" for reader parse "write"
  by unfold_locales (simp_all add: EnQueueData_once BlockFilter_pushes)

section \<open>Queries\<close>

text \<open>
  A query: its snippet, the rows of its table, its filter (unused in a scan without one) and the
  columns of its projection. \<open>query_ok\<close> collects what is asked of it: the file holds the rows
  (\<open>table_holds\<close>), the projection lists distinct columns (\<open>projection_is\<close>), the filter, if there is one, is a
  disjunctive normal form whose literals have a meaning on the rows (\<open>filter_is\<close>), and 15 blocks for every buffer the rows fill
  leave at least one block of the total for the last result. The last condition is needed because the scan counts 15 blocks
  for every full buffer, whatever it has read (\<open>scan.cc\<close>, line 182): without it the counts reach the total before
  the rows are through, and the merge layer closes the work unit early.
\<close>

record query =
  qu_snippet :: Snippet
  qu_rows :: "field list list"
  qu_dnf :: "(bool \<times> json) list list"
  qu_columns :: "nat list"

definition qu_key :: "query \<Rightarrow> pair_key" where
  "qu_key Q = (sn_query_id (qu_snippet Q), sn_work_id (qu_snippet Q))"

abbreviation qu_total :: "query \<Rightarrow> int" where
  "qu_total Q \<equiv> sn_total_block_count (qu_snippet Q)"

definition qu_keeps :: "query \<Rightarrow> field list \<Rightarrow> bool" where
  "qu_keeps Q fs \<longleftrightarrow> sn_scan_type (qu_snippet Q) = Full_Scan \<or> row_matches (sn_table_col (qu_snippet Q)) (qu_dnf Q) fs"

definition qu_good :: "query \<Rightarrow> field list \<Rightarrow> bool" where
  "qu_good Q fs \<longleftrightarrow> merge_schema (filter_info_of (qu_snippet Q)) fs \<and> enc_row fs \<noteq> [] \<and>
     (sn_scan_type (qu_snippet Q) = Full_Scan \<or> typed_filter (sn_table_col (qu_snippet Q)) (qu_dnf Q) fs)"

definition qu_project :: "query \<Rightarrow> field list \<Rightarrow> string" where
  "qu_project Q fs = columns_bytes fs (qu_columns Q)"

definition qu_answer :: "query \<Rightarrow> string list" where
  "qu_answer Q = map (qu_project Q) (filter (qu_keeps Q) (qu_rows Q))"

definition query_ok :: "(string \<Rightarrow> sst_entry list) \<Rightarrow> (string \<Rightarrow> json) \<Rightarrow> table_rep \<Rightarrow> query \<Rightarrow> bool" where
  "query_ok reader parse tm Q \<longleftrightarrow> table_holds reader tm (qu_snippet Q) (qu_rows Q) \<and>
     projection_is (qu_snippet Q) (qu_columns Q) \<and>
     (sn_scan_type (qu_snippet Q) = Full_Scan \<or> filter_is parse (qu_snippet Q) (qu_dnf Q) (qu_rows Q)) \<and>
     15 * int (buffers_filled (table_file reader tm (qu_snippet Q))) < qu_total Q"

lemma query_ok_type:
  "query_ok reader parse tm Q \<Longrightarrow> sn_scan_type (qu_snippet Q) = Full_Scan_Filter \<or> sn_scan_type (qu_snippet Q) = Full_Scan"
  by (auto simp: query_ok_def filter_is_def)

lemma query_ok_good: "query_ok reader parse tm Q \<Longrightarrow> list_all (qu_good Q) (qu_rows Q)"
  by (auto simp: query_ok_def table_holds_def filter_is_def qu_good_def list_all_iff)

lemma table_holds_file:
  "table_file reader tm1 sn = table_file reader tm sn \<Longrightarrow> table_holds reader tm1 sn Fs = table_holds reader tm sn Fs"
  by (simp add: table_holds_def)

lemma query_ok_tables:
  assumes "query_ok reader parse tm Q" "table_file reader tm1 (qu_snippet Q) = table_file reader tm (qu_snippet Q)"
  shows "query_ok reader parse tm1 Q"
  using assms by (simp add: query_ok_def table_holds_def)

lemma lookup_keeps_tables: "table_file reader (snd (GetTableRep a b tm)) sn = table_file reader tm sn"
  by (auto simp: table_file_def GetTableRep_def split: option.splits)

lemma scan_keeps_tables:
  "scan_snippet reader junk tm sn origin fq mq = Inr (tm', st) \<Longrightarrow> table_file reader tm' sn' = table_file reader tm sn'"
  using lookup_keeps_tables [of reader "sn_csd_name sn" "sn_table_name sn" tm sn']
  by (auto simp: scan_snippet_def bindE_Inr_conv split: prod.splits)

lemma query_ok_scan:
  assumes "query_ok reader parse tm Q"
  shows "\<exists>tm' st. scan_snippet reader junk tm (qu_snippet Q) origin fq mq = Inr (tm', st) \<and> (\<forall>r\<in>set (ss_sent st). 0 < rs_result_block_count r)"
proof -
  let ?sn = "qu_snippet Q" and ?n = "buffers_filled (table_file reader tm (qu_snippet Q))"
  have holds: "table_holds reader tm ?sn (qu_rows Q)" and n: "15 * int ?n < qu_total Q" using assms by (simp_all add: query_ok_def)
  from full_scan_sends [OF holds query_ok_type [OF assms]]
  obtain tm' st where st: "scan_snippet reader junk tm ?sn origin fq mq = Inr (tm', st)"
    "map rs_result_block_count (ss_sent st) = replicate ?n 15 @ [qu_total Q - 15 * int ?n]"
    unfolding Let_def by blast
  have "\<forall>c\<in>set (map rs_result_block_count (ss_sent st)). 0 < c" unfolding st(2) using n by auto
  with st(1) show ?thesis by auto
qed

lemma query_ok_total: "query_ok reader parse tm Q \<Longrightarrow> 0 < qu_total Q"
  by (auto simp: query_ok_def)

lemma query_ok_filters:
  assumes "query_ok reader parse tm Q" "sn_scan_type (qu_snippet Q) = Full_Scan_Filter"
  shows "filters_blocks parse (of_snippet (qu_snippet Q)) (qu_good Q) (qu_keeps Q)"
proof -
  have "qu_good Q = good_row (qu_snippet Q) (qu_dnf Q)" "qu_keeps Q = row_matches (sn_table_col (qu_snippet Q)) (qu_dnf Q)"
    using assms(2) by (auto simp: qu_good_def good_row_def qu_keeps_def fun_eq_iff)
  then show ?thesis using query_filters assms by (auto simp: query_ok_def table_holds_def)
qed

lemma query_ok_delivers:
  assumes "query_ok reader parse tm Q" "query_block (of_snippet (qu_snippet Q)) (qu_good Q) b"
  shows "delivers project_row (fst b) (map (qu_project Q) (snd b)) \<and>
    unit_result (fst (qu_key Q)) (snd (qu_key Q)) (qu_total Q) (fst b)"
proof -
  have "unit_work project_row (sn_query_id (qu_snippet Q)) (sn_work_id (qu_snippet Q)) (qu_total Q) (map (projected (qu_columns Q)) [b])"
    by (rule projected_unit_work) (use assms in \<open>auto simp: query_ok_def qu_good_def\<close>)
  then show ?thesis by (simp add: unit_work_def projected_def qu_key_def qu_project_def [abs_def])
qed

section \<open>The contract of the layers\<close>

definition qu_holds :: "query \<Rightarrow> Result \<Rightarrow> field list list \<Rightarrow> bool" where
  "qu_holds Q r F \<longleftrightarrow> query_block (of_snippet (qu_snippet Q)) (qu_good Q) (r, F)"

definition same_tables :: "(string \<Rightarrow> sst_entry list) \<Rightarrow> table_rep \<Rightarrow> table_rep \<Rightarrow> bool" where
  "same_tables reader tm tm1 \<longleftrightarrow> (\<forall>sn. table_file reader tm1 sn = table_file reader tm sn)"

lemma same_tables_refl: "same_tables reader tm tm"
  by (simp add: same_tables_def)

lemma query_ok_routes:
  assumes "query_ok reader parse tm Q" "qu_holds Q r F"
  shows "EnQueueData r (sn_scan_type (qu_snippet Q)) (fq, mq) = (push_work r fq, mq) \<and> sn_scan_type (qu_snippet Q) = Full_Scan_Filter \<or>
    EnQueueData r (sn_scan_type (qu_snippet Q)) (fq, mq) = (fq, push_work r mq) \<and> list_all (qu_keeps Q) F"
proof (cases "sn_scan_type (qu_snippet Q) = Full_Scan")
  case True
  then show ?thesis by (simp add: EnQueueData_def qu_keeps_def list_all_iff)
next
  case False
  then have t: "sn_scan_type (qu_snippet Q) = Full_Scan_Filter" using query_ok_type [OF assms(1)] by simp
  have "F = []" if "rs_length r = 0"
    by (rule empty_block [of "of_snippet (qu_snippet Q)" "qu_good Q" r]) (use assms(2) that in \<open>auto simp: qu_holds_def qu_good_def\<close>)
  then show ?thesis using t by (auto simp: EnQueueData_def)
qed

lemma query_ok_sends:
  assumes "query_ok reader parse tm Q" "same_tables reader tm tm1"
  shows "\<exists>tm' st A. scan_snippet reader junk tm1 (qu_snippet Q) origin fq mq = Inr (tm', st) \<and> ss_sent st = map fst A \<and>
    same_tables reader tm tm' \<and> list_all (\<lambda>b. qu_holds Q (fst b) (snd b) \<and> 0 < rs_result_block_count (fst b)) A \<and>
    sum_list (map (\<lambda>b. rs_result_block_count (fst b)) A) = qu_total Q \<and> concat (map snd A) = qu_rows Q"
proof -
  have ok: "query_ok reader parse tm1 Q" by (rule query_ok_tables [OF assms(1)]) (use assms(2) in \<open>simp add: same_tables_def\<close>)
  from query_ok_scan [OF ok, of junk origin fq mq] obtain tm' st where
    st: "scan_snippet reader junk tm1 (qu_snippet Q) origin fq mq = Inr (tm', st)"
    and pos: "\<forall>r\<in>set (ss_sent st). 0 < rs_result_block_count r" by blast
  have holds: "table_holds reader tm1 (qu_snippet Q) (qu_rows Q)" using ok by (simp add: query_ok_def)
  from scan_blocks [OF st holds query_ok_type [OF ok] query_ok_good [OF ok]] obtain A where
    A: "map fst A = ss_sent st" "list_all (query_block (of_snippet (qu_snippet Q)) (qu_good Q)) A" "concat (map snd A) = qu_rows Q" .
  have "list_all (\<lambda>b. qu_holds Q (fst b) (snd b) \<and> 0 < rs_result_block_count (fst b)) A"
    using A(2) pos unfolding A(1) [symmetric] by (auto simp: qu_holds_def list_all_iff)
  moreover have "sum_list (map (\<lambda>b. rs_result_block_count (fst b)) A) = qu_total Q"
    using scan_snippet_counts [OF st] unfolding A(1) [symmetric] by (simp add: comp_def)
  moreover have "same_tables reader tm tm'" using assms(2) scan_keeps_tables [OF st] by (simp add: same_tables_def)
  ultimately show ?thesis using st A(3)
    by (intro exI [of _ tm'] exI [of _ st] exI [of _ A]) (simp add: A(1))
qed

interpretation csd_worker: answering_layers "csd_layers reader parse write" BUFF_SIZE project_row
    "\<lambda>junk r. new_MergeResult junk (rs_query_id r) (rs_work_id r) (rs_csd_name r) (rs_total_block_count r)"
    "query_ok reader parse tm" qu_snippet qu_key qu_total qu_rows qu_keeps qu_project qu_holds "same_tables reader tm"
  for reader parse "write" tm
proof
  fix Q r F fq mq junk v f tm1 origin
  show "\<exists>v. ly_vars (csd_layers reader parse write) v" by simp
  assume ok: "query_ok reader parse tm Q"
  then show "0 < qu_total Q" by (rule query_ok_total)
  show "\<exists>tm' origin' A. ly_scan (csd_layers reader parse write) junk tm1 (qu_snippet Q) origin = Inr (tm', origin', map fst A) \<and>
      same_tables reader tm tm' \<and> list_all (\<lambda>b. qu_holds Q (fst b) (snd b) \<and> 0 < rs_result_block_count (fst b)) A \<and>
      sum_list (map (\<lambda>b. rs_result_block_count (fst b)) A) = qu_total Q \<and> concat (map snd A) = qu_rows Q" if "same_tables reader tm tm1"
    using query_ok_sends [OF ok that, of junk origin "new_WorkQueue 0" "new_WorkQueue 0"] by fastforce
  assume r: "qu_holds Q r F"
  then show "ly_enqueue (csd_layers reader parse write) r (sn_scan_type (qu_snippet Q)) (fq, mq) = (push_work r fq, mq) \<and>
        sn_scan_type (qu_snippet Q) = Full_Scan_Filter \<or>
      ly_enqueue (csd_layers reader parse write) r (sn_scan_type (qu_snippet Q)) (fq, mq) = (fq, push_work r mq) \<and> list_all (qu_keeps Q) F"
    using query_ok_routes [OF ok] by simp
  show "\<exists>f' fr. ly_filter (csd_layers reader parse write) junk v r f mq = Inr (f', push_work fr mq) \<and> qu_holds Q fr (filter (qu_keeps Q) F) \<and>
      rs_result_block_count fr = rs_result_block_count r" if "sn_scan_type (qu_snippet Q) = Full_Scan_Filter"
    using query_ok_filters [OF ok that] r unfolding filters_blocks_def qu_holds_def by simp
  show "delivers project_row r (map (qu_project Q) F) \<and> unit_result (fst (qu_key Q)) (snd (qu_key Q)) (qu_total Q) r"
    using query_ok_delivers [OF ok, of "(r, F)"] r by (simp add: qu_holds_def)
qed ((simp only: csd_layers_simps)?, rule csd_merge.fresh_rows csd_merge.fresh_counts csd_merge.fresh_unit csd_merge.block_eq | erule csd_merge.project_bound)+

end
