(* ===== verification/Merge_Expressions.thy ===== *)
theory Merge_Expressions
  imports Merge_Project
begin

text \<open>
  What the expressions of a projection compute (\<open>calculExtract\<close>, \<open>calculSubstring\<close>,
  \<open>calculPostfix\<close> and \<open>calculCase\<close> of \<open>merge_manager.cc\<close>), on a row whose columns \<open>getColOffset\<close> found:
  the parts of a date, the bytes of a substring, a postfix program against the expression tree it
  was written from, and the condition of a WHEN against the formula it was written from.
\<close>

section \<open>EXTRACT\<close>

definition extract_item :: "FilterInfo \<Rightarrow> string \<Rightarrow> nat \<Rightarrow> Projection" where
  "extract_item fi unit i =
     \<lparr> projection = 0, proj_values = [''EXTRACT'', unit, table_col fi ! i], proj_types = [11, 9, 10] \<rparr>"

text \<open>MySQL's three-byte DATE.\<close>

definition date_bytes :: "nat \<Rightarrow> nat \<Rightarrow> nat \<Rightarrow> string" where
  "date_bytes y m d = le_bytes 3 (y * 512 + m * 32 + d)"

lemma date_parts:
  assumes "m < 16" "d < 32" "y < 2 ^ 15"
  defines "v \<equiv> y * 512 + m * 32 + d"
  shows "v div 512 = y" "v mod 512 div 32 = m" "v mod 512 mod 32 = d" "le_nat (date_bytes y m d) = v"
proof -
  have q: "v = (m * 32 + d) + 512 * y" "m * 32 + d < 512" using assms(1,2) by (simp_all add: v_def)
  show "v div 512 = y" using q by simp
  have r: "v mod 512 = d + 32 * m" using q by simp
  show "v mod 512 div 32 = m" "v mod 512 mod 32 = d" unfolding r using assms(2) by simp_all
  have "v < 256 ^ 3" using q assms(3) by simp
  then show "le_nat (date_bytes y m d) = v" by (simp add: date_bytes_def v_def)
qed

lemma calculExtract_date:
  assumes "row_columns fi fs (row, co)" "i < length fs" "fs ! i = (14, 3, date_bytes y m d)"
    "l < length (column_projection fi)" "column_projection fi ! l = extract_item fi unit i"
  shows "calculExtract fi row co l cap =
    (let v = le_nat (date_bytes y m d) in
       if unit = ''YEAR'' then store cap (int_bytes 4 (int (v div 512)))
       else if unit = ''MONTH'' then store cap (int_bytes 4 (int (v mod 512 div 32)))
       else if unit = ''DAY'' then store cap (int_bytes 4 (int (v mod 512 mod 32)))
       else Inl Uninitialised)"
proof -
  have "enc_field (fs ! i) = date_bytes y m d" using assms(3) by (simp add: enc_field_def hdr_len_def)
  moreover have "length (date_bytes y m d) = 3" by (simp add: date_bytes_def)
  moreover have "token_at (extract_item fi unit i) 2 = Inr (table_col fi ! i, 10)"
    "vec_at (proj_values (extract_item fi unit i)) 1 = Inr unit"
    by (simp_all add: token_at_def extract_item_def vec_at_def)
  ultimately show ?thesis using column_slice_read [OF assms(1,2)] assms(4,5)
    by (simp add: calculExtract_def take_bytes_def Let_def)
qed

section \<open>SUBSTRING\<close>

definition substring_item :: "FilterInfo \<Rightarrow> nat \<Rightarrow> string \<Rightarrow> string \<Rightarrow> Projection" where
  "substring_item fi i from len =
     \<lparr> projection = 0, proj_values = [''SUBSTRING'', table_col fi ! i, from, len], proj_types = [11, 10, 2, 2] \<rparr>"

lemma calculSubstring_column:
  assumes "row_columns fi fs (row, co)" "i < length fs"
    "l < length (column_projection fi)" "column_projection fi ! l = substring_item fi i from len"
    "stoi from = Inr (int k + 1)" "stoi len = Inr (int n)"
    "k + n \<le> length (enc_field (fs ! i))" "n \<le> cap"
  shows "calculSubstring fi row co l cap = Inr (take n (drop k (enc_field (fs ! i))))"
proof -
  let ?p = "substring_item fi i from len"
  have "token_at ?p 1 = Inr (table_col fi ! i, 10)" "vec_at (proj_values ?p) 2 = Inr from"
    "read_length_of ?p c s = Inr (int n)" for c s
    using assms(6) by (simp_all add: token_at_def substring_item_def vec_at_def read_length_of_def)
  moreover have "row_slice (enc_field (fs ! i)) (int k) (int n) = Inr (take n (drop k (enc_field (fs ! i))))"
    using assms(7) by (simp add: row_slice_def)
  ultimately show ?thesis using column_slice_read [OF assms(1,2)] assms(3-5,8)
    by (simp add: calculSubstring_def Let_def)
qed

section \<open>Postfix programs\<close>

text \<open>Expression trees over operands and the arithmetic operators, and the programs written from them.\<close>

datatype pexpr = Atom string int | Bin string pexpr pexpr

fun postfix_of :: "pexpr \<Rightarrow> (string \<times> int) list" where
  "postfix_of (Atom v ty) = [(v, ty)]"
| "postfix_of (Bin p a b) = postfix_of a @ postfix_of b @ [(p, 11)]"

definition arith :: "string \<Rightarrow> operand \<Rightarrow> operand \<Rightarrow> operand option res" where
  "arith p = (if p = ''+'' then oper_plus else if p = ''-'' then oper_minus
     else if p = ''*'' then oper_times else if p = ''/'' then oper_divide else (\<lambda>x y. Inr None))"

fun pvalue :: "FilterInfo \<Rightarrow> string \<Rightarrow> int list \<Rightarrow> pexpr \<Rightarrow> operand res" where
  "pvalue fi row co (Atom v ty) =
     (if ty = value_code V_OPERATOR then Inl EmptyStack
      else bindE (push_operand fi row co v ty []) (\<lambda>st. case st of [x] \<Rightarrow> Inr x | _ \<Rightarrow> Inl EmptyStack))"
| "pvalue fi row co (Bin p a b) =
     bindE (pvalue fi row co a) (\<lambda>x. bindE (pvalue fi row co b) (\<lambda>y.
     bindE (arith p x y) (\<lambda>r. case r of Some z \<Rightarrow> Inr z | None \<Rightarrow> Inl EmptyStack)))"

lemma push_operand_stack:
  assumes "push_operand fi row co v ty [] = Inr [x]"
  shows "push_operand fi row co v ty st = Inr (x # st)"
  using assms by (auto simp: push_operand_def bindE_Inr_conv split: if_splits)

lemma arith_apply:
  assumes "arith p x y = Inr (Some z)"
  shows "apply_operator p (y # x # st) = Inr (Go (z # st))"
  using assms by (auto simp: arith_def apply_operator_def pushed_result_def Let_def split: if_splits)

lemma postfix_loop_pvalue:
  assumes "pvalue fi row co e = Inr x"
  shows "postfix_loop fi row co (postfix_of e @ ts) st = postfix_loop fi row co ts (x # st)"
  using assms
proof (induction e arbitrary: x ts st)
  case (Atom v ty)
  then obtain st' where ty: "ty \<noteq> value_code V_OPERATOR" and st': "push_operand fi row co v ty [] = Inr st'"
    and x: "(case st' of [x] \<Rightarrow> Inr x | _ \<Rightarrow> Inl EmptyStack) = Inr x"
    by (auto simp: bindE_Inr_conv split: if_splits)
  from x have "st' = [x]" by (cases st'; cases "tl st'") auto
  with st' have "push_operand fi row co v ty [] = Inr [x]" by simp
  from push_operand_stack [OF this] ty show ?case by simp
next
  case (Bin p a b)
  from Bin.prems obtain u v r where uv: "pvalue fi row co a = Inr u" "pvalue fi row co b = Inr v"
    and r: "arith p u v = Inr r" "(case r of Some z \<Rightarrow> Inr z | None \<Rightarrow> Inl EmptyStack) = Inr x"
    by (auto simp: bindE_Inr_conv)
  then have "arith p u v = Inr (Some x)" by (cases r) auto
  then show ?case using Bin.IH(1) [OF uv(1)] Bin.IH(2) [OF uv(2)] by (simp add: arith_apply)
qed

lemma calculPostfix_pvalue:
  assumes "pvalue fi row co e = Inr x"
  shows "calculPostfix (postfix_of e) fi row co cap dt = bindE (stack_valueToChar dt x) (store cap)"
  using postfix_loop_pvalue [OF assms, of "[]" "[]"] by (simp add: calculPostfix_def)

lemma pvalue_Bin_double:
  assumes "pvalue fi row co (Bin p a b) = Inr x"
  shows "\<exists>v. x = double_result v None \<or>
    x = double_result v (Some 2) \<and> p = ''*'' \<and> (\<exists>y. pvalue fi row co b = Inr y \<and> snd y = T_INT)"
proof -
  from assms obtain u v r where uv: "pvalue fi row co b = Inr v" and r: "arith p u v = Inr r"
    "(case r of Some z \<Rightarrow> Inr z | None \<Rightarrow> Inl EmptyStack) = Inr x"
    by (auto simp: bindE_Inr_conv)
  then have "arith p u v = Inr (Some x)" by (cases r) auto
  then show ?thesis using uv
    by (auto simp: arith_def oper_plus_def oper_minus_def oper_times_def oper_divide_def push_double_def
        bindE_Inr_conv split: if_splits STACK_TYPE.splits)
qed

lemma decimal_chars_no_size: "decimal_chars v None \<noteq> Inr bs"
  by (auto simp: decimal_chars_def Let_def split: if_splits)

lemma decimal_chars_size2: "decimal_chars v (Some 2) = Inr bs \<Longrightarrow> length bs = 8"
  by (auto simp: decimal_chars_def negate_decimal_def Let_def split: if_splits)

section \<open>The condition of a WHEN\<close>

text \<open>
  A condition is a chain of postfix programs joined by AND and OR. The code decides it from left to
  right: a false operand of AND and a true operand of OR end the evaluation, so the chain is read
  as if it were nested to the right, and AND does not bind tighter than OR.
\<close>

datatype wcond = WLast "(string \<times> int) list" | WAnd "(string \<times> int) list" wcond | WOr "(string \<times> int) list" wcond

fun wcond_toks :: "wcond \<Rightarrow> (string \<times> int) list" where
  "wcond_toks (WLast c) = c"
| "wcond_toks (WAnd c w) = c @ (''AND'', 11) # wcond_toks w"
| "wcond_toks (WOr c w) = c @ (''OR'', 11) # wcond_toks w"

fun wcond_true :: "((string \<times> int) list \<Rightarrow> bool) \<Rightarrow> wcond \<Rightarrow> bool" where
  "wcond_true tv (WLast c) = tv c"
| "wcond_true tv (WAnd c w) = (tv c \<and> wcond_true tv w)"
| "wcond_true tv (WOr c w) = (tv c \<or> wcond_true tv w)"

fun wcond_chunks :: "wcond \<Rightarrow> (string \<times> int) list list" where
  "wcond_chunks (WLast c) = [c]"
| "wcond_chunks (WAnd c w) = c # wcond_chunks w"
| "wcond_chunks (WOr c w) = c # wcond_chunks w"

definition chunk_ok :: "FilterInfo \<Rightarrow> string \<Rightarrow> int list \<Rightarrow> ((string \<times> int) list \<Rightarrow> bool) \<Rightarrow> (string \<times> int) list \<Rightarrow> bool" where
  "chunk_ok fi row co tv c \<longleftrightarrow> c \<noteq> [] \<and> ''AND'' \<notin> fst ` set c \<and> ''OR'' \<notin> fst ` set c \<and>
     calculPostfix c fi row co 1 0 = Inr (bool_byte (tv c))"

definition tokens_at :: "Projection \<Rightarrow> nat \<Rightarrow> (string \<times> int) list \<Rightarrow> bool" where
  "tokens_at p i ts \<longleftrightarrow> (\<forall>k<length ts. token_at p (int (i + k)) = Inr (ts ! k))"

lemma tokens_at_append: "tokens_at p i (xs @ ys) \<longleftrightarrow> tokens_at p i xs \<and> tokens_at p (i + length xs) ys"
proof (intro iffI conjI)
  assume h: "tokens_at p i (xs @ ys)"
  show "tokens_at p i xs" unfolding tokens_at_def
  proof (intro allI impI)
    fix k assume "k < length xs"
    with h show "token_at p (int (i + k)) = Inr (xs ! k)"
      unfolding tokens_at_def by (metis length_append nth_append trans_less_add1)
  qed
  show "tokens_at p (i + length xs) ys" unfolding tokens_at_def
  proof (intro allI impI)
    fix k assume "k < length ys"
    then have "token_at p (int (i + (length xs + k))) = Inr ((xs @ ys) ! (length xs + k))"
      using h unfolding tokens_at_def by (metis length_append nat_add_left_cancel_less)
    then show "token_at p (int (i + length xs + k)) = Inr (ys ! k)" by (simp add: add.assoc)
  qed
next
  assume h: "tokens_at p i xs \<and> tokens_at p (i + length xs) ys"
  show "tokens_at p i (xs @ ys)" unfolding tokens_at_def
  proof (intro allI impI)
    fix k assume k: "k < length (xs @ ys)"
    show "token_at p (int (i + k)) = Inr ((xs @ ys) ! k)"
    proof (cases "k < length xs")
      case False
      then obtain j where "k = length xs + j" by (metis le_Suc_ex not_less)
      with h k show ?thesis by (simp add: tokens_at_def add.assoc)
    qed (use h in \<open>simp add: tokens_at_def nth_append\<close>)
  qed
qed

lemma tokens_at_Cons: "tokens_at p i (t # ts) \<longleftrightarrow> token_at p (int i) = Inr t \<and> tokens_at p (Suc i) ts"
  using tokens_at_append [of p i "[t]" ts] by (simp add: tokens_at_def)

lemma token_at_value: "token_at p i = Inr (v, t) \<Longrightarrow> vec_at (proj_values p) i = Inr v"
  by (auto simp: token_at_def bindE_Inr_conv)

lemma eval_passed_chunk:
  "chunk_ok fi row co tv c \<Longrightarrow> eval_passed fi row co c pb = Inr (Some (if tv c then CHR 0x01 else CHR 0x00))"
  by (simp add: eval_passed_def chunk_ok_def bool_byte_def)

lemma case_when_collect:
  assumes "tokens_at p i c" "''AND'' \<notin> fst ` set c" "''OR'' \<notin> fst ` set c" "is \<noteq> []"
  shows "case_when fi row co p ([i..<i + length c] @ is) toks pb = case_when fi row co p is (toks @ c) pb"
  using assms
proof (induction c arbitrary: i toks)
  case (Cons t c)
  obtain v ty where t: "t = (v, ty)" by (cases t)
  from Cons.prems(1) have tok: "token_at p (int i) = Inr (v, ty)" "tokens_at p (Suc i) c"
    by (simp_all add: tokens_at_Cons t)
  have split: "[i..<i + length (t # c)] @ is = i # [Suc i..<Suc i + length c] @ is"
    by (subst upt_conv_Cons) simp_all
  have "case_when fi row co p ([Suc i..<Suc i + length c] @ is) (toks @ [t]) pb =
      case_when fi row co p is ((toks @ [t]) @ c) pb"
    using Cons.prems tok(2) by (intro Cons.IH) simp_all
  moreover have "v \<noteq> ''AND''" "v \<noteq> ''OR''" using Cons.prems(2,3) t by auto
  ultimately show ?case unfolding split
    using Cons.prems(4) tok(1) token_at_value [OF tok(1)] t by (simp add: Let_def del: upt_Suc)
qed simp

lemma chain_indices:
  "j = i + (m + Suc n) \<Longrightarrow> [i..<j] = [i..<i + m] @ (i + m) # [Suc (i + m)..<Suc (i + m) + n]"
  using upt_add_eq_append [of i "i + m" "Suc n"] upt_conv_Cons [of "i + m" "i + m + Suc n"]
  by (simp add: add.assoc del: upt_Suc)

lemma case_when_last:
  assumes "tokens_at p i c" "chunk_ok fi row co tv c"
  shows "case_when fi row co p [i..<i + length c] [] pb = Inr (tv c)"
proof -
  obtain b v ty where c: "c = b @ [(v, ty)]"
    using assms(2) by (metis chunk_ok_def rev_exhaust surj_pair)
  let ?n = "length b"
  have idx: "[i..<i + length c] = [i..<i + ?n] @ [i + ?n]" by (simp add: c)
  have tok: "tokens_at p i b" "token_at p (int (i + ?n)) = Inr (v, ty)"
    using assms(1) by (simp_all add: c tokens_at_append tokens_at_Cons)
  have no: "''AND'' \<notin> fst ` set b" "''OR'' \<notin> fst ` set b" "v \<noteq> ''AND''" "v \<noteq> ''OR''"
    using assms(2) by (auto simp: chunk_ok_def c)
  have "case_when fi row co p [i..<i + length c] [] pb = case_when fi row co p [i + ?n] b pb"
    unfolding idx using case_when_collect [OF tok(1) no(1,2)] by simp
  also have "\<dots> = Inr (tv c)"
    using tok(2) token_at_value [OF tok(2)] no(3,4) eval_passed_chunk [OF assms(2), of pb] c by (simp add: Let_def)
  finally show ?thesis .
qed

lemma case_when_wcond:
  assumes "tokens_at p i (wcond_toks w)" "list_all (chunk_ok fi row co tv) (wcond_chunks w)"
  shows "case_when fi row co p [i..<i + length (wcond_toks w)] [] pb = Inr (wcond_true tv w)"
  using assms
proof (induction w arbitrary: i pb)
  case (WLast c)
  then show ?case using case_when_last by simp
next
  case (WAnd c w)
  let ?j = "i + length c" and ?n = "length (wcond_toks w)"
  have tok: "tokens_at p i c" "token_at p (int ?j) = Inr (''AND'', 11)" "tokens_at p (Suc ?j) (wcond_toks w)"
    using WAnd.prems(1) by (simp_all add: tokens_at_append tokens_at_Cons)
  have ok: "chunk_ok fi row co tv c" using WAnd.prems(2) by simp
  have IH: "case_when fi row co p [Suc ?j..<Suc ?j + ?n] [] pb' = Inr (wcond_true tv w)" for pb'
    using WAnd.IH [OF tok(3)] WAnd.prems(2) by simp
  have idx: "[i..<i + length (wcond_toks (WAnd c w))] = [i..<?j] @ ?j # [Suc ?j..<Suc ?j + ?n]"
    by (rule chain_indices) simp
  have "case_when fi row co p [i..<i + length (wcond_toks (WAnd c w))] [] pb =
      case_when fi row co p (?j # [Suc ?j..<Suc ?j + ?n]) c pb"
    unfolding idx using case_when_collect [OF tok(1)] ok by (simp add: chunk_ok_def)
  also have "\<dots> = Inr (wcond_true tv (WAnd c w))"
    using token_at_value [OF tok(2)] eval_passed_chunk [OF ok] IH by simp
  finally show ?case .
next
  case (WOr c w)
  let ?j = "i + length c" and ?n = "length (wcond_toks w)"
  have tok: "tokens_at p i c" "token_at p (int ?j) = Inr (''OR'', 11)" "tokens_at p (Suc ?j) (wcond_toks w)"
    using WOr.prems(1) by (simp_all add: tokens_at_append tokens_at_Cons)
  have ok: "chunk_ok fi row co tv c" using WOr.prems(2) by simp
  have IH: "case_when fi row co p [Suc ?j..<Suc ?j + ?n] [] pb' = Inr (wcond_true tv w)" for pb'
    using WOr.IH [OF tok(3)] WOr.prems(2) by simp
  have idx: "[i..<i + length (wcond_toks (WOr c w))] = [i..<?j] @ ?j # [Suc ?j..<Suc ?j + ?n]"
    by (rule chain_indices) simp
  have "case_when fi row co p [i..<i + length (wcond_toks (WOr c w))] [] pb =
      case_when fi row co p (?j # [Suc ?j..<Suc ?j + ?n]) c pb"
    unfolding idx using case_when_collect [OF tok(1)] ok by (simp add: chunk_ok_def)
  also have "\<dots> = Inr (wcond_true tv (WOr c w))"
    using token_at_value [OF tok(2)] eval_passed_chunk [OF ok] IH by simp
  finally show ?case .
qed

section \<open>Properties\<close>

text \<open>
  \<open>EXTRACT\<close> of YEAR, MONTH or DAY from a DATE column returns the year, the month or the day as a
  four-byte integer.
\<close>

theorem extract_date_part:
  assumes "row_columns fi fs (row, co)" "i < length fs" "fs ! i = (14, 3, date_bytes y m d)"
    "l < length (column_projection fi)" "column_projection fi ! l = extract_item fi unit i"
    "m < 16" "d < 32" "y < 2 ^ 15" "(unit, v) \<in> {(''YEAR'', y), (''MONTH'', m), (''DAY'', d)}" "4 \<le> cap"
  shows "calculExtract fi row co l cap = Inr (int_bytes 4 (int v))"
  using calculExtract_date [OF assms(1-5), of cap] date_parts [OF assms(6-8)] assms(9,10)
  by (auto simp: Let_def)

definition ex_drow :: "field list" where
  "ex_drow = [(3, 4, ''abcd''), (15, 10, ''xyz''), (14, 3, date_bytes 1996 3 13)]"

lemma ex_date_schema: "merge_schema (ex_minfo ps) ex_drow"
  by (auto simp: merge_schema_def block_schema_def packed_offsets_def fits_schema_def ex_minfo_def
      ex_drow_def all_less_3 wf_field_def hdr_len_def date_bytes_def simp flip: numeral_3_eq_3)

theorem extract_date_part_witness:
  "calculExtract (ex_minfo [extract_item (ex_minfo []) ''MONTH'' 2]) (enc_row ex_drow) (col_offsets ex_drow) 0 9 =
     Inr (int_bytes 4 (int 3))"
proof (rule extract_date_part [OF row_columnsI [OF ex_date_schema]])
  show "ex_drow ! 2 = (14, 3, date_bytes 1996 3 13)" by (simp add: ex_drow_def)
qed (simp_all add: ex_drow_def ex_minfo_def extract_item_def)

text \<open>
  \<open>SUBSTRING(col, from, len)\<close> copies bytes of the column as it lies in the row. For a CHAR
  column these are the characters asked for; for a VARSTRING column the length byte is counted
  as the first character, so the result is shifted by one.
\<close>

theorem substring_of_column:
  assumes "row_columns fi fs (row, co)" "i < length fs"
    "l < length (column_projection fi)" "column_projection fi ! l = substring_item fi i from len"
    "stoi from = Inr (int k + 1)" "stoi len = Inr (int n)"
    "k + n \<le> length (enc_field (fs ! i))" "n \<le> cap"
  shows "calculSubstring fi row co l cap =
    Inr (if fst (fs ! i) = 15
         then take n (drop k (le_bytes (hdr_len (fs ! i)) (length (contents (fs ! i))) @ contents (fs ! i)))
         else take n (drop k (contents (fs ! i))))"
proof -
  have "enc_field (fs ! i) = contents (fs ! i)" if "fst (fs ! i) \<noteq> 15"
    using that by (cases "fs ! i") (simp add: enc_field_def hdr_len_def)
  moreover have "enc_field (fs ! i) = le_bytes (hdr_len (fs ! i)) (length (contents (fs ! i))) @ contents (fs ! i)"
    by (cases "fs ! i") (simp add: enc_field_def)
  ultimately show ?thesis unfolding calculSubstring_column [OF assms] by (cases "fst (fs ! i) = 15") (simp_all only: if_True if_False simp_thms)
qed

lemma stoi_2: "stoi ''1'' = Inr (int 0 + 1)" "stoi ''2'' = Inr (int 2)"
  by (simp_all add: stoi_def parse_int_def parse_sign_def is_space_def is_digit_char_def is_int32_def)

theorem substring_of_column_witness:
  "calculSubstring (ex_minfo [substring_item (ex_minfo []) 1 ''1'' ''2'']) (enc_row ex_mrow) (col_offsets ex_mrow) 0 11 =
     Inr (CHR 0x03 # ''x'')"
proof -
  let ?fi = "ex_minfo [substring_item (ex_minfo []) 1 ''1'' ''2'']"
  have "le_bytes 1 3 = [CHR 0x03]" using le_bytes.simps(2) [of 0 3] by (simp add: char_of_def bit_0)
  moreover have "ex_mrow ! 1 = (15, 10, ''xyz'')" "1 < length ex_mrow" by (simp_all add: ex_mrow_def)
  moreover have "0 < length (column_projection ?fi)" "column_projection ?fi ! 0 = substring_item ?fi 1 ''1'' ''2''"
    by (simp_all add: ex_minfo_def substring_item_def)
  ultimately show ?thesis
    using substring_of_column [OF row_columnsI [OF ex_merge_schema] _ _ _ stoi_2, where i = 1 and l = 0 and cap = 11]
    by (simp add: enc_field_def hdr_len_def)
qed

lemma decimal_chars_size2_ok: "\<bar>v\<bar> < 2 ^ 63 \<Longrightarrow> \<exists>bs. decimal_chars v (Some 2) = Inr bs"
  by (auto simp: decimal_chars_def Let_def)

text \<open>
  C24. The postfix machine evaluates expression trees: when every subexpression of an arithmetic
  expression has a value, running the program written from the tree leaves exactly that value,
  and \<open>calculPostfix\<close> returns its bytes.
\<close>

theorem postfix_evaluates_expression:
  assumes "pvalue fi row co e = Inr x"
  shows "calculPostfix (postfix_of e) fi row co cap dt = bindE (stack_valueToChar dt x) (store cap)"
  using assms by (rule calculPostfix_pvalue)

theorem postfix_evaluates_expression_witness:
  "\<exists>bs. calculPostfix [(''2'', 5), (''1'', 2), (''-'', 11), (''2'', 2), (''*'', 11)] (ex_minfo []) [] [] 8 246 = Inr bs \<and>
     decimal_chars 2 (Some 2) = Inr bs"
proof -
  let ?e = "Bin ''*'' (Bin ''-'' (Atom ''2'' 5) (Atom ''1'' 2)) (Atom ''2'' 2)"
  have num: "dbl 2 = 2" "dbl 1 = 1" "dbl (1 * 2) = 2" "d_of_int 2 = 2" "d_of_int 1 = 1"
    using d_of_int_exact [of 2] d_of_int_exact [of 1] by (simp_all add: d_of_int_def)
  have "stod ''2'' = Inr 2"
    using num(1) by (simp add: stod_def parse_decimal_def parse_sign_def is_space_def is_digit_char_def digits_nat_def
        parse_exponent_def pow10_def)
  then have v: "pvalue (ex_minfo []) [] [] ?e = Inr (double_result 2 (Some 2))"
    using stoi_2 num by (simp add: push_operand_def arith_def oper_times_def oper_minus_def push_double_def on_double_int_def double_result_def
        T_new_def d_mul_def d_sub_def)
  obtain bs where bs: "decimal_chars 2 (Some 2) = Inr bs" using decimal_chars_size2_ok [of 2] by auto
  then show ?thesis
    using decimal_chars_size2 [OF bs] postfix_evaluates_expression [OF v, of 8 246]
    by (simp add: stack_valueToChar_def double_result_def)
qed

text \<open>
  Which arithmetic can fill a DECIMAL column: the result of an operator is written as a DECIMAL
  only when that operator is a multiplication whose right operand is an integer. After every
  other operator the member \<open>real_size\<close>, which \<open>stack_valueToChar\<close> reads, was never set; this
  includes \<open>price * (1 - discount)\<close>.
\<close>

theorem decimal_result_only_after_times_int:
  assumes "pvalue fi row co (Bin p a b) = Inr x"
    "calculPostfix (postfix_of (Bin p a b)) fi row co cap 246 = Inr bs"
  shows "p = ''*'' \<and> (\<exists>y. pvalue fi row co b = Inr y \<and> snd y = T_INT) \<and> length bs = 8"
proof -
  have bs: "stack_valueToChar 246 x = Inr bs"
    using assms(2) unfolding calculPostfix_pvalue [OF assms(1)] by (auto simp: bindE_Inr_conv store_def split: if_splits)
  obtain v where "x = double_result v None \<or> x = double_result v (Some 2) \<and> p = ''*'' \<and>
      (\<exists>y. pvalue fi row co b = Inr y \<and> snd y = T_INT)"
    using pvalue_Bin_double [OF assms(1)] by blast
  with bs show ?thesis using decimal_chars_no_size decimal_chars_size2
    by (auto simp: stack_valueToChar_def double_result_def)
qed

theorem decimal_result_only_after_times_int_witness:
  "\<exists>bs. calculPostfix [(''2'', 5), (''2'', 2), (''*'', 11)] (ex_minfo []) [] [] 8 246 = Inr bs \<and> length bs = 8"
proof -
  let ?e = "Bin ''*'' (Atom ''2'' 5) (Atom ''2'' 2)"
  have two: "dbl 2 = 2" "dbl (2 * 2) = 4" "d_of_int 2 = 2" using d_of_int_exact [of 2] d_of_int_exact [of 4] by (simp_all add: d_of_int_def)
  have "stod ''2'' = Inr 2"
    using two(1) by (simp add: stod_def parse_decimal_def parse_sign_def is_space_def is_digit_char_def digits_nat_def
        parse_exponent_def pow10_def)
  then have v: "pvalue (ex_minfo []) [] [] ?e = Inr (double_result 4 (Some 2))"
    using stoi_2(2) two by (simp add: push_operand_def arith_def oper_times_def push_double_def on_double_int_def T_new_def d_mul_def)
  obtain bs where bs: "decimal_chars 4 (Some 2) = Inr bs" using decimal_chars_size2_ok [of 4] by auto
  then have r: "calculPostfix (postfix_of ?e) (ex_minfo []) [] [] 8 246 = Inr bs"
    using decimal_chars_size2 [OF bs] calculPostfix_pvalue [OF v, of 8 246]
    by (simp add: stack_valueToChar_def double_result_def)
  from decimal_result_only_after_times_int [OF v r] r show ?thesis by auto
qed

text \<open>The revenue expression of TPC-H: it has a value and yet no bytes.\<close>

lemma revenue_expression_undefined:
  assumes "row_columns fi fs (row, co)" "i < length fs" "j < length fs"
    "fs ! i = (246, 7, p)" "fs ! j = (246, 7, q)" "length p = 7" "length q = 7"
  shows "\<exists>err. calculPostfix [(table_col fi ! i, 10), (''1'', 2), (table_col fi ! j, 10), (''-'', 11), (''*'', 11)]
    fi row co cap 246 = Inl err"
proof -
  let ?e = "Bin ''*'' (Atom (table_col fi ! i) 10) (Bin ''-'' (Atom ''1'' 2) (Atom (table_col fi ! j) 10))"
  have schema: "merge_schema fi fs" using assms(1) by (simp add: row_columns_def)
  have dt: "vec_at (table_datatype fi) (int i) = Inr 246" "vec_at (table_datatype fi) (int j) = Inr 246"
    using merge_schema_field(1) [OF schema assms(2)] merge_schema_field(1) [OF schema assms(3)] assms(2-5)
      merge_schema_lengths(2) [OF schema] by simp_all
  have enc: "enc_field (fs ! i) = p" "enc_field (fs ! j) = q" using assms(4,5) by (simp_all add: enc_field_def hdr_len_def)
  obtain v where v: "pvalue fi row co ?e = Inr (double_result v None)"
    using column_slice_read [OF assms(1,2)] column_slice_read [OF assms(1,3)] dt enc assms(6,7) stoi_2(1)
    by (auto simp: push_operand_def stack_charToValue_def take_bytes_def arith_def oper_times_def oper_minus_def
        push_double_def on_int_double_def on_double_double_def double_result_def T_new_def)
  have "calculPostfix (postfix_of ?e) fi row co cap 246 \<noteq> Inr bs" for bs
    using decimal_chars_no_size unfolding calculPostfix_pvalue [OF v]
    by (auto simp: stack_valueToChar_def double_result_def bindE_Inr_conv)
  then show ?thesis by (cases "calculPostfix (postfix_of ?e) fi row co cap 246") auto
qed

text \<open>
  C25. The condition of a \<open>WHEN\<close>, a chain of string comparisons joined by \<open>AND\<close> and \<open>OR\<close>, is decided as the
  chain nested to the right, \<open>c1 AND (c2 OR (c3 ...))\<close>: \<open>AND\<close> does not bind tighter than \<open>OR\<close>, so that
  \<open>a AND b OR c\<close> is false whenever \<open>a\<close> is.
\<close>

theorem when_condition_right_nested:
  assumes "tokens_at p (Suc wh) (wcond_toks w)" "list_all (chunk_ok fi row co tv) (wcond_chunks w)"
  shows "case_when fi row co p [Suc wh..<Suc wh + length (wcond_toks w)] [] None = Inr (wcond_true tv w)"
  using assms by (rule case_when_wcond)

definition ex_when :: wcond where
  "ex_when = WAnd [(''a'', 9), (''b'', 9), (''='', 11)] (WOr [(''a'', 9), (''b'', 9), (''='', 11)]
     (WLast [(''a'', 9), (''b'', 9), (''<>'', 11)]))"

theorem when_condition_right_nested_witness:
  "case_when (ex_minfo []) [] [] \<lparr> projection = 0, proj_values = ''CASE'' # ''WHEN'' # map fst (wcond_toks ex_when),
     proj_types = 11 # 11 # map snd (wcond_toks ex_when) \<rparr> [2..<13] [] None = Inr False"
proof -
  let ?p = "\<lparr> projection = 0, proj_values = ''CASE'' # ''WHEN'' # map fst (wcond_toks ex_when),
     proj_types = 11 # 11 # map snd (wcond_toks ex_when) \<rparr>"
  let ?tv = "\<lambda>c. c ! 2 = (''<>'', 11 :: int)"
  have "tokens_at ?p (Suc 1) (wcond_toks ex_when)"
    by (simp add: tokens_at_def token_at_def vec_at_def nat_add_distrib)
  moreover have "list_all (chunk_ok (ex_minfo []) [] [] ?tv) (wcond_chunks ex_when)"
    by (simp add: ex_when_def chunk_ok_def calculPostfix_def push_operand_def apply_operator_def Let_def bool_byte_def T_new_def)
  ultimately have "case_when (ex_minfo []) [] [] ?p [Suc 1..<Suc 1 + length (wcond_toks ex_when)] [] None =
      Inr (wcond_true ?tv ex_when)" by (rule when_condition_right_nested)
  moreover have "Suc 1 + length (wcond_toks ex_when) = 13" "Suc 1 = 2" "wcond_true ?tv ex_when = False"
    by (simp_all add: ex_when_def)
  ultimately show ?thesis by (simp only:)
qed

end
