(* ===== verification/Row_Counter.thy ===== *)
theory Row_Counter
  imports Scan_Model
begin

text \<open>
  The row counter (\<open>count_row_in_sst/main.cc\<close>), the tool that gives the expected number of rows of an
  SST file. Its loop is that of the scan layer without the copying of rows, on the same entries of
  RocksDB's iterator, and it is shown here to count what the scan counts, whatever the file holds.

  \<open>index_valid\<close> is a local variable that only a foreign index number assigns: it is an option here.
\<close>

section \<open>The program\<close>

record count_state =
  cs_total_row :: int
  cs_index_valid :: "bool option"
  cs_check :: bool
  cs_origin_index_num :: string

definition count_start :: "string \<Rightarrow> count_state" where
  "count_start junk = \<lparr> cs_total_row = 0, cs_index_valid = None, cs_check = True, cs_origin_index_num = junk \<rparr>"

definition internal_bytes :: "bool \<Rightarrow> nat" where
  "internal_bytes has_pk = (if has_pk then 0 else 8)"

text \<open>One round of the loop; the flag says that the loop is left.\<close>

definition count_entry :: "bool \<Rightarrow> sst_entry \<Rightarrow> bool \<times> count_state \<Rightarrow> (bool \<times> count_state) res" where
  "count_entry has_pk e bst = (case bst of (_, st) \<Rightarrow>
     if \<not> sst_ok e then Inr (True, st)
     else
       bindE (ExtractUserKey (internal_bytes has_pk) (sst_key e)) (\<lambda>(ikey, _).
       bindE (key_slice ikey 0 (int indexnum_size)) (\<lambda>index_num.
         let st = (if cs_check st then st\<lparr> cs_origin_index_num := index_num, cs_check := False \<rparr> else st)
         in if cs_origin_index_num st \<noteq> index_num then Inr (True, st\<lparr> cs_index_valid := Some False \<rparr>)
            else Inr (False, st\<lparr> cs_total_row := cs_total_row st + 1 \<rparr>))))"

text \<open>
  The whole program: the number it prints, and then whether it prints \<open>Index Invalid\<close>, which reads
  \<open>index_valid\<close>.
\<close>

definition count_main :: "bool \<Rightarrow> string \<Rightarrow> sst_entry list \<Rightarrow> (int \<times> bool res) res" where
  "count_main has_pk junk entries =
     bindE (break_loop (count_entry has_pk) fst entries (False, count_start junk)) (\<lambda>(_, st).
       Inr (cs_total_row st, case cs_index_valid st of None \<Rightarrow> Inl Uninitialised | Some b \<Rightarrow> Inr b))"

section \<open>Simulation of the scan loop\<close>

definition count_sim :: "ScanState \<Rightarrow> count_state \<Rightarrow> bool" where
  "count_sim st cs \<longleftrightarrow> cs_total_row cs = ss_row_count st \<and> cs_check cs = ss_check st \<and>
     (\<not> ss_check st \<longrightarrow> cs_origin_index_num cs = ss_origin_index_num st) \<and>
     cs_index_valid cs = (if ss_index_valid st then None else Some False)"

lemma append_with_key_keeps:
  assumes "append_with_key sn pl ikey row st = Inr st'"
  shows "ss_check st' = ss_check st" "ss_origin_index_num st' = ss_origin_index_num st"
    "ss_index_valid st' = ss_index_valid st" "ss_row_count st' = ss_row_count st"
  using append_with_key_result [OF assms] by auto

lemmas append_keeps = append_value_keeps(1-4) append_with_key_keeps

lemma count_entry_sim:
  assumes "scan_entry sn junk e (b, st) = Inr (b', st')" "count_sim st cs"
    "sn_kNumInternalBytes sn = internal_bytes has_pk" "ss_index_valid st"
  shows "\<exists>cs'. count_entry has_pk e (b, cs) = Inr (b', cs') \<and> count_sim st' cs' \<and> (\<not> b' \<longrightarrow> ss_index_valid st')"
proof (cases "sst_ok e")
  case False
  with assms show ?thesis by (auto simp: scan_entry_def count_entry_def)
next
  case True
  define s0 where "s0 idx = (if ss_check st then st\<lparr> ss_origin_index_num := idx, ss_check := False \<rparr> else st)" for idx
  define c0 where "c0 idx = (if cs_check cs then cs\<lparr> cs_origin_index_num := idx, cs_check := False \<rparr> else cs)" for idx
  from assms(1) True obtain ikey n idx where key: "ExtractUserKey (internal_bytes has_pk) (sst_key e) = Inr (ikey, n)"
    "key_slice ikey 0 (int indexnum_size) = Inr idx"
    by (auto simp: scan_entry_def bindE_Inr_conv assms(3))
  have sim: "count_sim (s0 idx) (c0 idx)" and valid: "ss_index_valid (s0 idx)" "\<not> ss_check (s0 idx)"
    using assms(2,4) by (simp_all add: count_sim_def s0_def c0_def)
  have c: "count_entry has_pk e (b, cs) =
      (if cs_origin_index_num (c0 idx) \<noteq> idx then Inr (True, (c0 idx)\<lparr> cs_index_valid := Some False \<rparr>)
       else Inr (False, (c0 idx)\<lparr> cs_total_row := cs_total_row (c0 idx) + 1 \<rparr>))"
    using True key by (simp add: count_entry_def c0_def Let_def)
  have same: "cs_origin_index_num (c0 idx) = ss_origin_index_num (s0 idx)" using sim valid by (simp add: count_sim_def)
  show ?thesis
  proof (cases "ss_origin_index_num (s0 idx) = idx")
    case False
    with assms(1) True key have "b'" "st' = (s0 idx)\<lparr> ss_index_valid := False \<rparr>"
      by (auto simp: scan_entry_def assms(3) s0_def Let_def split: if_splits)
    with False same c sim show ?thesis by (auto simp: count_sim_def)
  next
    case eq: True
    with assms(1) True key obtain pl where "\<not> b'" and
      app: "(if pl \<noteq> 0 then append_with_key sn pl ikey (sst_value e) ((s0 idx)\<lparr> ss_row_count := ss_row_count (s0 idx) + 1 \<rparr>)
        else append_value (sn_scan_type sn) junk (sst_value e) ((s0 idx)\<lparr> ss_row_count := ss_row_count (s0 idx) + 1 \<rparr>)) = Inr st'"
      by (fastforce simp: scan_entry_def assms(3) s0_def [symmetric] Let_def bindE_Inr_conv split: option.splits)
    then have "ss_check st' = ss_check (s0 idx)" "ss_origin_index_num st' = ss_origin_index_num (s0 idx)"
      "ss_index_valid st' = ss_index_valid (s0 idx)" "ss_row_count st' = ss_row_count (s0 idx) + 1"
      by (auto dest: append_keeps split: if_splits)
    with eq same c sim valid \<open>\<not> b'\<close> show ?thesis by (auto simp: count_sim_def)
  qed
qed

lemma count_loop_sim:
  assumes "break_loop (scan_entry sn junk) fst es (False, st) = Inr (b', st')" "count_sim st cs"
    "sn_kNumInternalBytes sn = internal_bytes has_pk" "ss_index_valid st"
  shows "\<exists>cs'. break_loop (count_entry has_pk) fst es (False, cs) = Inr (b', cs') \<and> count_sim st' cs'"
  using assms
proof (induction es arbitrary: st cs)
  case (Cons e es)
  from Cons.prems(1) obtain c s where s: "scan_entry sn junk e (False, st) = Inr (c, s)"
    by (auto simp: bindE_Inr_conv)
  from count_entry_sim [OF s Cons.prems(2-4)] obtain cs' where
    cs': "count_entry has_pk e (False, cs) = Inr (c, cs')" "count_sim s cs'" "\<not> c \<longrightarrow> ss_index_valid s" by blast
  show ?case
  proof (cases c)
    case True
    with s cs' Cons.prems(1) show ?thesis by auto
  next
    case False
    with s cs' Cons.prems Cons.IH [of s cs'] show ?thesis by simp
  qed
qed auto

section \<open>Properties\<close>

text \<open>
  C35. Whatever the file holds, if a full scan of it ends without a failure, the row counter, compiled
  for the same kind of key, prints the number of rows that scan has counted; it then reads the
  uninitialised \<open>index_valid\<close> unless the scan met a foreign index number.
\<close>

theorem row_counter_agrees_with_scan:
  assumes "scan_snippet reader junk tm sn origin fq mq = Inr (tm', st)"
    and "sn_scan_type sn = Full_Scan_Filter \<or> sn_scan_type sn = Full_Scan"
    and "sn_kNumInternalBytes sn = internal_bytes has_pk"
  shows "count_main has_pk junk' (reader (fst (GetTableRep (sn_csd_name sn) (sn_table_name sn) tm))) =
    Inr (ss_row_count st, if ss_index_valid st then Inl Uninitialised else Inr False)"
proof -
  let ?es = "reader (fst (GetTableRep (sn_csd_name sn) (sn_table_name sn) tm))"
  let ?start = "scan_start junk sn origin fq mq"
  from assms(1) obtain st0 where scan: "BlockScan sn junk ?es ?start = Inr st0" and st: "st = finish_scan sn st0"
    by (auto simp: scan_snippet_def bindE_Inr_conv split: prod.splits)
  from scan assms(2) obtain b where loop: "break_loop (scan_entry sn junk) fst ?es (False, ?start) = Inr (b, st0)"
    by (auto simp: BlockScan_def bindE_Inr_conv)
  have start: "count_sim ?start (count_start junk')" "ss_index_valid ?start"
    by (simp_all add: count_sim_def count_start_def scan_start_def)
  from count_loop_sim [OF loop start(1) assms(3) start(2)] obtain cs where
    cs: "break_loop (count_entry has_pk) fst ?es (False, count_start junk') = Inr (b, cs)" "count_sim st0 cs" by blast
  moreover have "ss_row_count st = ss_row_count st0" "ss_index_valid st = ss_index_valid st0"
    by (simp_all add: st finish_scan_def Let_def)
  ultimately show ?thesis by (simp add: count_main_def count_sim_def)
qed

theorem row_counter_agrees_with_scan_witness:
  "count_main True [] (ex_entries []) = Inr (2, Inl Uninitialised)"
proof -
  have "\<exists>tm st. scan_snippet ex_entries (\<lambda>_. CHR 0x2A) Map.empty ex_key_snippet [] (new_WorkQueue 2) (new_WorkQueue 1) = Inr (tm, st) \<and>
      ss_row_count st = 2 \<and> ss_index_valid st"
    by (simp add: scan_snippet_def GetTableRep_def ex_entries_def BlockScan_def ex_key_snippet_def ex_snippet_def
      scan_entry_def ExtractUserKey_def key_slice_def indexnum_size_def scan_start_def append_with_key_def
      getPrimaryKeyData_def pk_column_def new_Result_def memcpy_to_def csd_sizes finish_scan_def Let_def)
  then obtain tm st where s: "scan_snippet ex_entries (\<lambda>_. CHR 0x2A) Map.empty ex_key_snippet [] (new_WorkQueue 2) (new_WorkQueue 1) = Inr (tm, st)"
    "ss_row_count st = 2" "ss_index_valid st" by blast
  from row_counter_agrees_with_scan [OF s(1), of True "[]"] s(2,3) show ?thesis
    by (simp add: ex_key_snippet_def ex_snippet_def internal_bytes_def ex_entries_def)
qed

end
