(* ===== verification/Metric_Collector.thy ===== *)
theory Metric_Collector
  imports Cpp_Double
begin

text \<open>
  The metric collector (\<open>csd-metric-collector-tcpip.cc\<close>), a program of its own on the CSD: every five
  seconds it reads the kernel's counters, derives the use of CPU, memory, disk and network, computes
  a score from them and sends everything as one JSON object.

  A round of \<open>run\<close> works on what the files and commands yield at that moment (a \<open>sample\<close>) and on the
  counters the collector has kept from the round before. Reading is modelled on the text:
  \<open>fscanf\<close>, \<open>getline\<close> and \<open>>>\<close> as the C++ library does it, a value that was never read is \<open>None\<close>.
  Floats and doubles round after every operation (\<open>Cpp_Double\<close>). The socket, the output on the
  console and \<open>powerUsageInit\<close> and \<open>getPowerUsage\<close>, which nothing calls, are not modelled.
\<close>

section \<open>Reading text\<close>

definition scan_word :: "string \<Rightarrow> (string \<times> string) option" where
  \<comment> \<open>\<open>%s\<close> and \<open>>> word\<close>\<close>
  "scan_word s = (let r = dropWhile is_space s
     in if r = [] then None else Some (takeWhile (\<lambda>c. \<not> is_space c) r, dropWhile (\<lambda>c. \<not> is_space c) r))"

definition scan_number :: "string \<Rightarrow> (int \<times> string) option" where
  \<comment> \<open>white space, a sign, at least one digit\<close>
  "scan_number s = (case parse_sign (dropWhile is_space s) of (neg, r) \<Rightarrow>
     let ds = takeWhile is_digit_char r; v = digits_value 0 ds
     in if ds = [] then None else Some (if neg then - v else v, dropWhile is_digit_char r))"

definition saturate :: "nat \<Rightarrow> int \<Rightarrow> int" where
  "saturate w v = max (- (2 ^ (w - 1))) (min (2 ^ (w - 1) - 1) v)"

definition scan_d :: "string \<Rightarrow> (int \<times> string) option" where
  \<comment> \<open>\<open>%d\<close>, as glibc: \<open>(int) strtol\<close>\<close>
  "scan_d s = map_option (\<lambda>(v, r). (to_int32 (saturate 64 v), r)) (scan_number s)"

definition stream_int :: "nat \<Rightarrow> string \<Rightarrow> int option \<Rightarrow> int option \<times> string option" where
  \<comment> \<open>\<open>>> i\<close> for an integer \<open>i\<close> of \<open>w\<close> bits: its new value and, unless the stream has failed, the rest. At
    the end of the text \<open>i\<close> is not touched, text that is no number makes it 0.\<close>
  "stream_int w s i =
     (if dropWhile is_space s = [] then (i, None)
      else case scan_number s of
          None \<Rightarrow> (Some 0, None)
        | Some (v, r) \<Rightarrow> (Some (saturate w v), if saturate w v = v then Some r else None))"

section \<open>The data\<close>

record stJiffies =
  jf_user :: "int option"
  jf_nice :: "int option"
  jf_system :: "int option"
  jf_idle :: "int option"

record MemoryInfo =
  MemTotal :: "int option"
  MemFree :: "int option"
  Buffers :: "int option"
  Cached :: "int option"

record Metrics =
  totalCpuCapacity :: rat
  cpuUsage :: rat
  cpuUsagePercent :: rat
  totalMemCapacity :: int
  memUsage :: int
  memUsagePercent :: rat
  totalDiskCapacity :: int
  diskUsage :: int
  diskUsagePercent :: rat
  networkUsage :: int
  networkTxData :: int
  networkRxData :: int
  csdMetricScore :: rat
  metric_ip :: string

record MetricCollector =
  prevJiffies :: stJiffies
  curJiffies :: stJiffies
  initialRxBytes :: int
  initialTxBytes :: int

record sample =
  sm_stat :: string            \<comment> \<open>\<open>/metric/cpuMemUsage/stat\<close>\<close>
  sm_cores :: string           \<comment> \<open>output of \<open>grep -c processor\<close>\<close>
  sm_meminfo :: string         \<comment> \<open>\<open>/metric/cpuMemUsage/meminfo\<close>\<close>
  sm_df :: string              \<comment> \<open>output of \<open>df -k --total\<close>\<close>
  sm_rx :: string              \<comment> \<open>\<open>/metric/networkUsage/rx_bytes\<close>\<close>
  sm_tx :: string
  sm_ip :: "string option"     \<comment> \<open>the environment variable \<open>CSD_IP\<close>\<close>

definition known :: "'a option \<Rightarrow> 'a res" where
  "known x = (case x of None \<Rightarrow> Inl Uninitialised | Some v \<Rightarrow> Inr v)"

definition int_arith :: "int \<Rightarrow> int res" where
  "int_arith v = (if is_int32 v then Inr v else Inl IntOverflow)"

definition long_arith :: "int \<Rightarrow> int res" where
  "long_arith v = (if - (2 ^ 63) \<le> v \<and> v < 2 ^ 63 then Inr v else Inl IntOverflow)"

section \<open>CPU\<close>

fun scan_ds :: "nat \<Rightarrow> string \<Rightarrow> int list" where
  "scan_ds 0 s = []"
| "scan_ds (Suc n) s = (case scan_d s of None \<Rightarrow> [] | Some (v, r) \<Rightarrow> v # scan_ds n r)"

definition scan_jiffies :: "string \<Rightarrow> stJiffies \<Rightarrow> stJiffies res" where
  \<comment> \<open>\<open>fscanf(pStat, "%s %d %d %d %d", cpuID, ...)\<close> with \<open>char cpuID[6]\<close>\<close>
  "scan_jiffies txt j = (case scan_word txt of
       None \<Rightarrow> Inr j
     | Some (w, r) \<Rightarrow>
         if 5 < length w then Inl OutOfBounds
         else let vs = scan_ds 4 r; get = (\<lambda>i old. if i < length vs then Some (vs ! i) else old)
              in Inr \<lparr> jf_user = get 0 (jf_user j), jf_nice = get 1 (jf_nice j),
                       jf_system = get 2 (jf_system j), jf_idle = get 3 (jf_idle j) \<rparr>)"

definition cpuUsageInit :: "string \<Rightarrow> MetricCollector \<Rightarrow> MetricCollector res" where
  "cpuUsageInit txt mc = bindE (scan_jiffies txt (prevJiffies mc)) (\<lambda>j. Inr (mc\<lparr> prevJiffies := j \<rparr>))"

definition diff_field :: "int option \<Rightarrow> int option \<Rightarrow> int res" where
  "diff_field c p = bindE (known c) (\<lambda>c. bindE (known p) (\<lambda>p. int_arith (c - p)))"

definition busy_share :: "int \<Rightarrow> int \<Rightarrow> rat res" where
  \<comment> \<open>\<open>1.0 - (diffJiffies.idle / (double) totalJiffies)\<close>\<close>
  "busy_share idle totalJiffies = bindE (d_div (d_of_int idle) (d_of_int totalJiffies)) (\<lambda>q. Inr (d_sub 1 q))"

definition getCpuUsage :: "sample \<Rightarrow> MetricCollector \<times> Metrics \<Rightarrow> (MetricCollector \<times> Metrics) res" where
  "getCpuUsage sm st = (case st of (mc, m) \<Rightarrow>
     bindE (scan_jiffies (sm_stat sm) (curJiffies mc)) (\<lambda>cur.
     let prev = prevJiffies mc in
     bindE (diff_field (jf_user cur) (jf_user prev)) (\<lambda>u.
     bindE (diff_field (jf_nice cur) (jf_nice prev)) (\<lambda>n.
     bindE (diff_field (jf_system cur) (jf_system prev)) (\<lambda>s.
     bindE (diff_field (jf_idle cur) (jf_idle prev)) (\<lambda>i.
     bindE (int_arith (u + n)) (\<lambda>a. bindE (int_arith (a + s)) (\<lambda>b. bindE (int_arith (b + i)) (\<lambda>totalJiffies.
     bindE (busy_share i totalJiffies) (\<lambda>share.
     bindE (known (map_option fst (scan_d (sm_cores sm)))) (\<lambda>coreCount.
       let capacity = flt (of_int coreCount) in
       Inr (mc\<lparr> curJiffies := cur, prevJiffies := cur \<rparr>,
            m\<lparr> cpuUsagePercent := flt (d_mul 100 share), totalCpuCapacity := capacity,
               cpuUsage := flt (d_mul capacity share) \<rparr>))))))))))))"

section \<open>Memory\<close>

definition mem_line :: "string \<Rightarrow> MemoryInfo \<Rightarrow> MemoryInfo" where
  \<comment> \<open>\<open>iss >> key >> value\<close>; a line without a key leaves \<open>key\<close> empty\<close>
  "mem_line line info = (case scan_word line of
       None \<Rightarrow> info
     | Some (key, r) \<Rightarrow> let value = fst (stream_int 64 r None) in
         if key = ''MemTotal:'' then info\<lparr> MemTotal := value \<rparr>
         else if key = ''MemFree:'' then info\<lparr> MemFree := value \<rparr>
         else if key = ''Buffers:'' then info\<lparr> Buffers := value \<rparr>
         else if key = ''Cached:'' then info\<lparr> Cached := value \<rparr>
         else info)"

definition mem_info :: "string \<Rightarrow> MemoryInfo" where
  "mem_info txt = fold mem_line (getline_all (CHR 0x0A) txt)
     \<lparr> MemTotal = None, MemFree = None, Buffers = None, Cached = None \<rparr>"

definition getMemUsage :: "sample \<Rightarrow> Metrics \<Rightarrow> Metrics res" where
  "getMemUsage sm m =
     (let info = mem_info (sm_meminfo sm)
      in bindE (known (MemTotal info)) (\<lambda>t.
         bindE (known (MemFree info)) (\<lambda>f.
         bindE (known (Buffers info)) (\<lambda>b.
         bindE (known (Cached info)) (\<lambda>c.
         bindE (long_arith (t - f)) (\<lambda>d1. bindE (long_arith (d1 - b)) (\<lambda>d2. bindE (long_arith (d2 - c)) (\<lambda>used.
         bindE (long_arith (f + b)) (\<lambda>s1. bindE (long_arith (s1 + c)) (\<lambda>unused.
         bindE (d_div (d_of_int unused) (d_of_int t)) (\<lambda>q.
           Inr (m\<lparr> totalMemCapacity := to_int32 t, memUsage := to_int32 used,
                   memUsagePercent := flt (d_mul (d_sub 1 q) 100) \<rparr>))))))))))))"

section \<open>Disk\<close>

definition disk_line :: "string \<Rightarrow> int option \<times> int option \<Rightarrow> int option \<times> int option" where
  \<comment> \<open>\<open>lineStream >> skip >> totalDiskCapacity >> diskUsage >> skip >> skip\<close>\<close>
  "disk_line line st = (case scan_word line of
       None \<Rightarrow> st
     | Some (_, r) \<Rightarrow> (case stream_int 32 r (fst st) of
           (t, None) \<Rightarrow> (t, snd st)
         | (t, Some r) \<Rightarrow> (t, fst (stream_int 32 r (snd st)))))"

definition disk_info :: "string \<Rightarrow> int option \<times> int option" where
  \<comment> \<open>the first line is skipped\<close>
  "disk_info txt = fold disk_line (drop 1 (getline_all (CHR 0x0A) txt)) (None, None)"

definition getDiskUsage :: "sample \<Rightarrow> Metrics \<Rightarrow> Metrics res" where
  "getDiskUsage sm m =
     (case disk_info (sm_df sm) of (t, u) \<Rightarrow>
        bindE (known u) (\<lambda>u.
        bindE (known t) (\<lambda>t.
          if t = 0 then Inl FloatRange
          else Inr (m\<lparr> totalDiskCapacity := t, diskUsage := u,
                       diskUsagePercent := flt (flt (flt (of_int u) / flt (of_int t)) * 100) \<rparr>))))"

section \<open>Network\<close>

definition readStatisticsField :: "string \<Rightarrow> string" where
  "readStatisticsField file = (case scan_word file of None \<Rightarrow> [] | Some (w, _) \<Rightarrow> w)"

definition networkUsageInit :: "string \<Rightarrow> string \<Rightarrow> MetricCollector \<Rightarrow> MetricCollector res" where
  "networkUsageInit rx tx mc =
     bindE (stoll (readStatisticsField rx)) (\<lambda>r.
     bindE (stoll (readStatisticsField tx)) (\<lambda>t.
       Inr (mc\<lparr> initialRxBytes := r, initialTxBytes := t \<rparr>)))"

definition c_div :: "int \<Rightarrow> int \<Rightarrow> int" where
  \<comment> \<open>integer division truncates towards zero\<close>
  "c_div a b = sgn a * sgn b * (\<bar>a\<bar> div \<bar>b\<bar>)"

definition getNetworkSpeed :: "sample \<Rightarrow> MetricCollector \<times> Metrics \<Rightarrow> (MetricCollector \<times> Metrics) res" where
  "getNetworkSpeed sm st = (case st of (mc, m) \<Rightarrow>
     bindE (stoll (readStatisticsField (sm_rx sm))) (\<lambda>rx.
     bindE (stoll (readStatisticsField (sm_tx sm))) (\<lambda>tx.
     bindE (long_arith (tx - initialTxBytes mc)) (\<lambda>dtx.
     bindE (long_arith (rx - initialRxBytes mc)) (\<lambda>drx.
     bindE (long_arith (drx + dtx)) (\<lambda>both.
     bindE (long_arith (c_div both 5 * 8)) (\<lambda>speed.
       Inr (mc\<lparr> initialRxBytes := rx, initialTxBytes := tx \<rparr>,
            m\<lparr> networkTxData := dtx, networkRxData := drx, networkUsage := speed \<rparr>))))))))"

section \<open>Score and report\<close>

definition weight :: rat where "weight = dbl (33 / 100)"

definition getCSDMetricScore :: "Metrics \<Rightarrow> Metrics" where
  "getCSDMetricScore m =
     (let part = (\<lambda>p. d_mul weight (flt (100 - p)))
      in m\<lparr> csdMetricScore :=
              d_add (d_add (part (cpuUsagePercent m)) (part (memUsagePercent m))) (part (diskUsagePercent m)) \<rparr>)"

datatype metric_value = MInt int | MDouble rat | MString string

definition serialize :: "Metrics \<Rightarrow> (string \<times> metric_value) list" where
  \<comment> \<open>\<open>writer.Int\<close> takes an \<open>int\<close>: the \<open>long long\<close> counters are narrowed\<close>
  "serialize m =
     [(''ip'', MString (takeWhile (\<lambda>c. c \<noteq> CHR 0x00) (metric_ip m))),
      (''totalCpuCapacity'', MInt (d_trunc (totalCpuCapacity m))),
      (''cpuUsage'', MDouble (cpuUsage m)),
      (''cpuUsagePercent'', MDouble (cpuUsagePercent m)),
      (''totalMemCapacity'', MInt (totalMemCapacity m)),
      (''memUsage'', MInt (memUsage m)),
      (''memUsagePercent'', MDouble (memUsagePercent m)),
      (''totalDiskCapacity'', MInt (totalDiskCapacity m)),
      (''diskUsage'', MInt (diskUsage m)),
      (''diskUsagePercent'', MDouble (diskUsagePercent m)),
      (''networkRxData'', MInt (to_int32 (networkRxData m))),
      (''networkTxData'', MInt (to_int32 (networkTxData m))),
      (''networkBandwidth'', MInt (to_int32 (networkUsage m))),
      (''csdMetricScore'', MDouble (csdMetricScore m))]"

definition getIPAddress :: "sample \<Rightarrow> Metrics \<Rightarrow> Metrics" where
  "getIPAddress sm m = (case sm_ip sm of None \<Rightarrow> m | Some ip \<Rightarrow> m\<lparr> metric_ip := ip \<rparr>)"

text \<open>
  One round; \<open>junk\<close> is the uninitialised \<open>Result\<close>, of which only the string \<open>ip\<close> has a value. The round
  yields the counters it keeps, the figures and the JSON object it sends.
\<close>

definition run :: "Metrics \<Rightarrow> sample \<Rightarrow> MetricCollector \<Rightarrow> (MetricCollector \<times> Metrics \<times> (string \<times> metric_value) list) res" where
  "run junk sm mc =
     (let m = getIPAddress sm (junk\<lparr> metric_ip := [] \<rparr>) in
      bindE (getCpuUsage sm (mc, m)) (\<lambda>(mc, m).
      bindE (getMemUsage sm m) (\<lambda>m.
      bindE (getDiskUsage sm m) (\<lambda>m.
      bindE (getNetworkSpeed sm (mc, m)) (\<lambda>(mc, m).
        let m = getCSDMetricScore m in Inr (mc, m, serialize m))))))"

definition new_MetricCollector :: "sample \<Rightarrow> MetricCollector res" where
  "new_MetricCollector sm =
     bindE (cpuUsageInit (sm_stat sm)
       \<lparr> prevJiffies = \<lparr> jf_user = None, jf_nice = None, jf_system = None, jf_idle = None \<rparr>,
         curJiffies = \<lparr> jf_user = None, jf_nice = None, jf_system = None, jf_idle = None \<rparr>,
         initialRxBytes = 0, initialTxBytes = 0 \<rparr>)
       (networkUsageInit (sm_rx sm) (sm_tx sm))"

text \<open>The loop of \<open>main\<close>, over the samples of the first rounds.\<close>

fun rounds :: "Metrics \<Rightarrow> sample list \<Rightarrow> MetricCollector \<Rightarrow> (MetricCollector \<times> Metrics list) res" where
  "rounds junk [] mc = Inr (mc, [])"
| "rounds junk (sm # sms) mc =
     bindE (run junk sm mc) (\<lambda>(mc, m, _).
     bindE (rounds junk sms mc) (\<lambda>(mc, ms). Inr (mc, m # ms)))"

section \<open>Rounded arithmetic on the unit interval\<close>

lemma fl_int: "\<bar>i\<bar> < 2 ^ nat prec \<Longrightarrow> 0 < prec \<Longrightarrow> fl prec (of_int i) = of_int i"
  using fl_exact [of i prec 0] by simp

lemma fl_range:
  assumes "0 \<le> x" "x \<le> of_int n" "0 \<le> n" "n < 2 ^ nat prec" "0 < prec"
  shows "0 \<le> fl prec x \<and> fl prec x \<le> of_int n"
proof -
  have "fl prec x \<le> fl prec (of_int n)" by (rule fl_mono) (use assms in simp_all)
  also have "\<dots> = of_int n" by (rule fl_int) (use assms in simp_all)
  finally show ?thesis using fl_nonneg assms by blast
qed

lemmas dbl_range = fl_range [where prec = 53, simplified]
lemmas flt_range = fl_range [where prec = 24, simplified]

lemma fl_pos: "0 < x \<Longrightarrow> 0 < prec \<Longrightarrow> 0 < fl prec x"
  using fl_between(1) [of x prec] pow2_pos [of "ulp_exp prec x + prec - 1"] by linarith

lemma share_range:
  \<comment> \<open>\<open>1 - a / b\<close> in doubles stays between 0 and 1\<close>
  assumes "0 \<le> a" "a \<le> b" "0 < b" "bindE (d_div (d_of_int a) (d_of_int b)) (\<lambda>q. Inr (d_sub 1 q)) = Inr x"
  shows "0 \<le> x \<and> x \<le> 1"
proof -
  have le: "d_of_int a \<le> d_of_int b" "0 \<le> d_of_int a" "0 < d_of_int b"
    using assms(1-3) by (auto simp: d_of_int_def intro!: fl_mono fl_nonneg fl_pos)
  then have x: "x = dbl (1 - dbl (d_of_int a / d_of_int b))" using assms(4) by (auto simp: d_div_def d_sub_def)
  have "0 \<le> d_of_int a / d_of_int b" "d_of_int a / d_of_int b \<le> 1" using le by simp_all
  from dbl_range [OF this(1), of 1] this(2) have "0 \<le> dbl (d_of_int a / d_of_int b)" "dbl (d_of_int a / d_of_int b) \<le> 1" by simp_all
  then show ?thesis unfolding x using dbl_range [of "1 - dbl (d_of_int a / d_of_int b)" 1] by simp
qed

lemma percent_range:
  assumes "0 \<le> x" "x \<le> 1"
  shows "0 \<le> flt (d_mul 100 x) \<and> flt (d_mul 100 x) \<le> 100" "d_mul x 100 = d_mul 100 x"
proof -
  have "0 \<le> d_mul 100 x \<and> d_mul 100 x \<le> 100" unfolding d_mul_def using dbl_range [of "100 * x" 100] assms by simp
  then show "0 \<le> flt (d_mul 100 x) \<and> flt (d_mul 100 x) \<le> 100" using flt_range [of "d_mul 100 x" 100] by simp
  show "d_mul x 100 = d_mul 100 x" by (simp add: d_mul_def mult.commute)
qed

lemma weight_facts: "0 < weight" "d_mul weight 100 = 33"
proof -
  show "0 < weight" by (simp add: weight_def fl_pos)
  have w: "weight = of_int 5944751508129055 * pow2 (- 54)"
    unfolding weight_def by (rule fl_eqI) (simp_all add: pow2_def)
  have "dbl (weight * 100) = of_int 4644337115725824 * pow2 (- 47)"
    unfolding w by (rule fl_eqI) (simp_all add: pow2_def)
  then show "d_mul weight 100 = 33" by (simp add: d_mul_def pow2_def)
qed

section \<open>Bounds of the figures\<close>

text \<open>Counters that have been read and have not gone back.\<close>

fun advanced :: "int option \<Rightarrow> int option \<Rightarrow> bool" where
  "advanced (Some p) (Some c) \<longleftrightarrow> p \<le> c"
| "advanced _ _ \<longleftrightarrow> False"

definition jiffies_advance :: "stJiffies \<Rightarrow> stJiffies \<Rightarrow> bool" where
  "jiffies_advance p c \<longleftrightarrow> advanced (jf_user p) (jf_user c) \<and> advanced (jf_nice p) (jf_nice c) \<and>
     advanced (jf_system p) (jf_system c) \<and> advanced (jf_idle p) (jf_idle c)"

definition mem_consistent :: "MemoryInfo \<Rightarrow> bool" where
  "mem_consistent i \<longleftrightarrow> advanced (Some 0) (MemFree i) \<and> advanced (Some 0) (Buffers i) \<and> advanced (Some 0) (Cached i) \<and>
     advanced (Some (the (MemFree i) + the (Buffers i) + the (Cached i))) (MemTotal i)"

lemma advanced_iff: "advanced p c \<longleftrightarrow> (\<exists>a b. p = Some a \<and> c = Some b \<and> a \<le> b)"
  by (cases p; cases c) auto

lemma known_Inr [csd_bind]: "known x = Inr v \<longleftrightarrow> x = Some v"
  by (auto simp: known_def split: option.splits)

lemma int_arith_Inr [csd_bind]: "int_arith v = Inr w \<longleftrightarrow> w = v \<and> is_int32 v"
  by (auto simp: int_arith_def)

lemma long_arith_Inr: "long_arith v = Inr w \<Longrightarrow> w = v"
  by (auto simp: long_arith_def split: if_splits)

lemma diff_field_Inr [csd_bind]:
  "diff_field c p = Inr d \<longleftrightarrow> (\<exists>a b. c = Some a \<and> p = Some b \<and> d = a - b \<and> is_int32 d)"
  by (auto simp: diff_field_def csd_bind)

lemma busy_share_range:
  assumes "0 \<le> i" "i \<le> t" "busy_share i t = Inr x"
  shows "0 \<le> x \<and> x \<le> 1"
proof -
  have "t \<noteq> 0" using assms(3) by (auto simp: busy_share_def d_div_def d_of_int_def fl_def)
  with assms(1,2) have "0 < t" by simp
  with share_range [of i t x] assms show ?thesis by (simp add: busy_share_def)
qed

lemma getCpuUsage_facts:
  assumes "getCpuUsage sm (mc, m) = Inr (mc', m')"
  obtains cores share i t where
    "m' = m\<lparr> cpuUsagePercent := flt (d_mul 100 share), totalCpuCapacity := flt (of_int cores),
             cpuUsage := flt (d_mul (flt (of_int cores)) share) \<rparr>"
    "map_option fst (scan_d (sm_cores sm)) = Some cores" "busy_share i t = Inr share"
    "jiffies_advance (prevJiffies mc) (prevJiffies mc') \<Longrightarrow> 0 \<le> i \<and> i \<le> t"
    "initialRxBytes mc' = initialRxBytes mc" "initialTxBytes mc' = initialTxBytes mc"
  using assms by (fastforce simp: getCpuUsage_def Let_def csd_bind jiffies_advance_def advanced_iff)

lemma getMemUsage_facts:
  assumes "getMemUsage sm m = Inr m'" "mem_consistent (mem_info (sm_meminfo sm))"
  obtains t u p where "m' = m\<lparr> totalMemCapacity := t, memUsage := u, memUsagePercent := p \<rparr>" "0 \<le> p" "p \<le> 100"
proof -
  obtain t f b c q where i: "MemTotal (mem_info (sm_meminfo sm)) = Some t" "MemFree (mem_info (sm_meminfo sm)) = Some f"
      "Buffers (mem_info (sm_meminfo sm)) = Some b" "Cached (mem_info (sm_meminfo sm)) = Some c"
    and q: "d_div (d_of_int (f + b + c)) (d_of_int t) = Inr q"
    and m': "m' = m\<lparr> totalMemCapacity := to_int32 t, memUsage := to_int32 (t - f - b - c),
                     memUsagePercent := flt (d_mul (d_sub 1 q) 100) \<rparr>"
    using assms(1) by (auto simp: getMemUsage_def Let_def csd_bind dest!: long_arith_Inr)
  have "0 \<le> d_sub 1 q \<and> d_sub 1 q \<le> 1"
    by (rule busy_share_range [of "f + b + c" t]) (use i q assms(2) in \<open>auto simp: mem_consistent_def busy_share_def\<close>)
  with percent_range [of "d_sub 1 q"] that m' show thesis by simp
qed

lemma flt_quotient:
  assumes "0 \<le> x" "x \<le> y" "0 < y"
  shows "0 \<le> flt (x / y) \<and> flt (x / y) \<le> 1"
  using flt_range [of "x / y" 1] assms by simp

lemma getDiskUsage_facts:
  assumes "getDiskUsage sm m = Inr m'" "disk_info (sm_df sm) = (Some t, Some u)" "0 \<le> u" "u \<le> t"
  obtains p where "m' = m\<lparr> totalDiskCapacity := t, diskUsage := u, diskUsagePercent := p \<rparr>" "0 \<le> p" "p \<le> 100"
proof -
  let ?q = "flt (flt (of_int u) / flt (of_int t))"
  have t: "0 < t" and m': "m' = m\<lparr> totalDiskCapacity := t, diskUsage := u, diskUsagePercent := flt (?q * 100) \<rparr>"
    using assms by (auto simp: getDiskUsage_def known_def split: if_splits)
  have "0 \<le> ?q \<and> ?q \<le> 1"
    by (rule flt_quotient) (use assms t in \<open>auto intro!: fl_mono fl_nonneg fl_pos\<close>)
  with flt_range [of "?q * 100" 100] that m' show thesis by simp
qed

lemma getNetworkSpeed_facts:
  assumes "getNetworkSpeed sm (mc, m) = Inr (mc', m')"
  obtains rx tx v where "mc' = mc\<lparr> initialRxBytes := rx, initialTxBytes := tx \<rparr>"
    "m' = m\<lparr> networkTxData := tx - initialTxBytes mc, networkRxData := rx - initialRxBytes mc, networkUsage := v \<rparr>"
  using assms by (auto simp: getNetworkSpeed_def csd_bind dest!: long_arith_Inr)

lemma part_antimono:
  assumes "0 \<le> p" "p \<le> p'" "p' \<le> 100"
  shows "d_mul weight (flt (100 - p')) \<le> d_mul weight (flt (100 - p))" "0 \<le> d_mul weight (flt (100 - p'))"
    "d_mul weight (flt (100 - p)) \<le> 33"
proof -
  have f: "0 \<le> flt (100 - p')" "flt (100 - p') \<le> flt (100 - p)" "flt (100 - p) \<le> 100"
    using assms flt_range [of "100 - p" 100] by (auto intro!: fl_mono fl_nonneg)
  then have "weight * flt (100 - p') \<le> weight * flt (100 - p)" "weight * flt (100 - p) \<le> weight * 100"
      "0 \<le> weight * flt (100 - p')" "0 \<le> weight * flt (100 - p)"
    using weight_facts(1) by (auto intro!: mult_left_mono)
  then show "d_mul weight (flt (100 - p')) \<le> d_mul weight (flt (100 - p))" "0 \<le> d_mul weight (flt (100 - p'))"
      "d_mul weight (flt (100 - p)) \<le> 33"
    unfolding weight_facts(2) [symmetric] d_mul_def by (auto intro!: fl_mono fl_nonneg)
qed

lemma d_add_mono: "0 \<le> a \<Longrightarrow> a \<le> a' \<Longrightarrow> 0 \<le> b \<Longrightarrow> b \<le> b' \<Longrightarrow> d_add a b \<le> d_add a' b' \<and> 0 \<le> d_add a b"
  by (auto simp: d_add_def intro!: fl_mono fl_nonneg)

definition percents :: "Metrics \<Rightarrow> rat list" where
  "percents m = [cpuUsagePercent m, memUsagePercent m, diskUsagePercent m]"

lemma score_range:
  assumes "list_all (\<lambda>p. 0 \<le> p \<and> p \<le> 100) (percents m)"
  shows "0 \<le> csdMetricScore (getCSDMetricScore m) \<and> csdMetricScore (getCSDMetricScore m) \<le> 99"
proof -
  let ?part = "\<lambda>p. d_mul weight (flt (100 - p))"
  let ?a = "?part (cpuUsagePercent m)" and ?b = "?part (memUsagePercent m)" and ?c = "?part (diskUsagePercent m)"
  have p: "0 \<le> ?a \<and> ?a \<le> 33" "0 \<le> ?b \<and> ?b \<le> 33" "0 \<le> ?c \<and> ?c \<le> 33"
    using assms part_antimono [of "cpuUsagePercent m" "cpuUsagePercent m"] part_antimono [of "memUsagePercent m" "memUsagePercent m"]
      part_antimono [of "diskUsagePercent m" "diskUsagePercent m"] by (auto simp: percents_def)
  then have ab: "0 \<le> d_add ?a ?b \<and> d_add ?a ?b \<le> 66"
    unfolding d_add_def using dbl_range [of "?a + ?b" 66] by simp
  with p have "0 \<le> d_add (d_add ?a ?b) ?c \<and> d_add (d_add ?a ?b) ?c \<le> 99"
    using dbl_range [of "d_add ?a ?b + ?c" 99] by (simp add: d_add_def)
  then show ?thesis by (simp add: getCSDMetricScore_def Let_def)
qed

lemma run_facts:
  assumes "run junk sm mc = Inr (mc', m, doc)"
  obtains mc1 m1 m2 m3 m4 where
    "getCpuUsage sm (mc, getIPAddress sm (junk\<lparr> metric_ip := [] \<rparr>)) = Inr (mc1, m1)"
    "getMemUsage sm m1 = Inr m2" "getDiskUsage sm m2 = Inr m3" "getNetworkSpeed sm (mc1, m3) = Inr (mc', m4)"
    "m = getCSDMetricScore m4" "doc = serialize m"
  using assms by (auto simp: run_def Let_def csd_bind)

lemma score_fields [simp]:
  "percents (getCSDMetricScore m) = percents m" "cpuUsage (getCSDMetricScore m) = cpuUsage m"
  "totalCpuCapacity (getCSDMetricScore m) = totalCpuCapacity m" "networkRxData (getCSDMetricScore m) = networkRxData m"
  "networkTxData (getCSDMetricScore m) = networkTxData m"
  by (simp_all add: percents_def getCSDMetricScore_def Let_def)

lemma cpu_usage_range:
  assumes "0 \<le> cores" "cores < 2 ^ 24" "0 \<le> x" "x \<le> 1"
  shows "0 \<le> flt (d_mul (flt (of_int cores)) x) \<and> flt (d_mul (flt (of_int cores)) x) \<le> of_int cores"
    "flt (of_int cores) = of_int cores"
proof -
  show c: "flt (of_int cores) = of_int cores" using assms by (simp add: fl_int)
  have "of_int cores * x \<le> of_int cores" using assms by (simp add: mult_left_le)
  then have "0 \<le> d_mul (of_int cores) x \<and> d_mul (of_int cores) x \<le> of_int cores"
    unfolding d_mul_def using dbl_range [of "of_int cores * x" cores] assms by simp
  then show "0 \<le> flt (d_mul (flt (of_int cores)) x) \<and> flt (d_mul (flt (of_int cores)) x) \<le> of_int cores"
    unfolding c using flt_range [of "d_mul (of_int cores) x" cores] assms by simp
qed

text \<open>Limits of the reading: coinciding readings, and disks of 2 TiB and more.\<close>

lemma same_counters_no_figure:
  assumes "scan_jiffies (sm_stat sm) (curJiffies mc) = Inr (prevJiffies mc)" "jiffies_advance (prevJiffies mc) (prevJiffies mc)"
  shows "getCpuUsage sm (mc, m) = Inl FloatRange"
  using assms by (auto simp: getCpuUsage_def jiffies_advance_def advanced_iff diff_field_def known_def int_arith_def is_int32_def
      busy_share_def d_div_def d_of_int_def fl_def)

lemma large_disk_misread:
  "disk_info (''h'' @ [CHR 0x0A] @ ''/dev/a 1000 100 900'' @ [CHR 0x0A] @ ''total 2147483648 400 5'' @ [CHR 0x0A])
     = (Some 2147483647, Some 100)"
  by code_simp

section \<open>An example round\<close>

definition ex_sample :: sample where
  "ex_sample = \<lparr> sm_stat = ''cpu  150 0 100 250 7 0'', sm_cores = ''4'',
     sm_meminfo = ''MemTotal: 800 kB'' @ [CHR 0x0A] @ ''MemFree: 100 kB'' @ [CHR 0x0A] @ ''MemAvailable: 500 kB'' @ [CHR 0x0A]
       @ ''Buffers: 100 kB'' @ [CHR 0x0A] @ ''Cached: 200 kB'' @ [CHR 0x0A],
     sm_df = ''Filesystem 1K-blocks Used'' @ [CHR 0x0A] @ ''/dev/a 1000 100 900 10% /'' @ [CHR 0x0A]
       @ ''total 1600 400 1200 25% -'' @ [CHR 0x0A],
     sm_rx = ''1500'' @ [CHR 0x0A], sm_tx = ''700'' @ [CHR 0x0A], sm_ip = Some ''10.0.4.5'' \<rparr>"

definition ex_first :: sample where
  "ex_first = ex_sample\<lparr> sm_stat := ''cpu 100 0 100 200'', sm_rx := ''1000'', sm_tx := ''500'' \<rparr>"

definition ex_junk :: Metrics where
  "ex_junk = \<lparr> totalCpuCapacity = 0, cpuUsage = 0, cpuUsagePercent = 0, totalMemCapacity = 0, memUsage = 0,
     memUsagePercent = 0, totalDiskCapacity = 0, diskUsage = 0, diskUsagePercent = 0, networkUsage = 0,
     networkTxData = 0, networkRxData = 0, csdMetricScore = 0, metric_ip = [] \<rparr>"

definition ex_collector :: MetricCollector where
  "ex_collector = \<lparr> prevJiffies = \<lparr> jf_user = Some 100, jf_nice = Some 0, jf_system = Some 100, jf_idle = Some 200 \<rparr>,
     curJiffies = \<lparr> jf_user = None, jf_nice = None, jf_system = None, jf_idle = None \<rparr>,
     initialRxBytes = 1000, initialTxBytes = 500 \<rparr>"

lemma scan_d_eq: "scan_number s = Some (v, r) \<Longrightarrow> is_int32 v \<Longrightarrow> scan_d s = Some (v, r)"
  by (simp add: scan_d_def saturate_def is_int32_def to_int32_id)

lemma ex_numbers:
  "scan_number ''  150 0 100 250 7 0'' = Some (150, '' 0 100 250 7 0'')" "scan_number '' 0 100 250 7 0'' = Some (0, '' 100 250 7 0'')"
  "scan_number '' 100 250 7 0'' = Some (100, '' 250 7 0'')" "scan_number '' 250 7 0'' = Some (250, '' 7 0'')"
  "scan_number '' 100 0 100 200'' = Some (100, '' 0 100 200'')" "scan_number '' 0 100 200'' = Some (0, '' 100 200'')"
  "scan_number '' 100 200'' = Some (100, '' 200'')" "scan_number '' 200'' = Some (200, [])"
  "scan_number ''4'' = Some (4, [])"
  by code_simp+

lemma ex_jiffies:
  "scan_jiffies ''cpu  150 0 100 250 7 0'' j =
     Inr \<lparr> jf_user = Some 150, jf_nice = Some 0, jf_system = Some 100, jf_idle = Some 250 \<rparr>"
  "scan_jiffies ''cpu 100 0 100 200'' j =
     Inr \<lparr> jf_user = Some 100, jf_nice = Some 0, jf_system = Some 100, jf_idle = Some 200 \<rparr>"
proof -
  have w: "scan_word ''cpu  150 0 100 250 7 0'' = Some (''cpu'', ''  150 0 100 250 7 0'')"
    "scan_word ''cpu 100 0 100 200'' = Some (''cpu'', '' 100 0 100 200'')" by code_simp+
  have v: "scan_ds 4 ''  150 0 100 250 7 0'' = [150, 0, 100, 250]" "scan_ds 4 '' 100 0 100 200'' = [100, 0, 100, 200]"
    by (simp_all add: numeral_eq_Suc scan_d_eq [OF ex_numbers(1)] scan_d_eq [OF ex_numbers(2)] scan_d_eq [OF ex_numbers(3)]
        scan_d_eq [OF ex_numbers(4)] scan_d_eq [OF ex_numbers(5)] scan_d_eq [OF ex_numbers(6)]
        scan_d_eq [OF ex_numbers(7)] scan_d_eq [OF ex_numbers(8)] is_int32_def)
  show "scan_jiffies ''cpu  150 0 100 250 7 0'' j =
     Inr \<lparr> jf_user = Some 150, jf_nice = Some 0, jf_system = Some 100, jf_idle = Some 250 \<rparr>"
    "scan_jiffies ''cpu 100 0 100 200'' j =
     Inr \<lparr> jf_user = Some 100, jf_nice = Some 0, jf_system = Some 100, jf_idle = Some 200 \<rparr>"
    by (simp_all add: scan_jiffies_def w v)
qed

lemma ex_sample_read:
  "sm_stat ex_sample = ''cpu  150 0 100 250 7 0''"
  "scan_d (sm_cores ex_sample) = Some (4, [])"
  "mem_info (sm_meminfo ex_sample) = \<lparr> MemTotal = Some 800, MemFree = Some 100, Buffers = Some 100, Cached = Some 200 \<rparr>"
  "disk_info (sm_df ex_sample) = (Some 1600, Some 400)"
  "stoll (readStatisticsField (sm_rx ex_sample)) = Inr 1500" "stoll (readStatisticsField (sm_tx ex_sample)) = Inr 700"
proof -
  show "scan_d (sm_cores ex_sample) = Some (4, [])"
    using scan_d_eq [OF ex_numbers(9)] by (simp add: ex_sample_def is_int32_def)
qed (simp add: ex_sample_def, code_simp+)

lemma ex_start: "new_MetricCollector ex_first = Inr ex_collector"
proof -
  have "stoll (readStatisticsField (sm_rx ex_first)) = Inr 1000" "stoll (readStatisticsField (sm_tx ex_first)) = Inr 500"
    by code_simp+
  then show ?thesis
    by (simp add: new_MetricCollector_def cpuUsageInit_def networkUsageInit_def ex_jiffies ex_collector_def)
      (simp add: ex_first_def ex_jiffies networkUsageInit_def)
qed

lemma d_of_int_pos: "0 < i \<Longrightarrow> d_of_int i \<noteq> 0"
  using fl_pos [of "of_int i" 53] by (simp add: d_of_int_def)

lemma ex_round:
  obtains mc m doc where "run ex_junk ex_sample ex_collector = Inr (mc, m, doc)"
    "prevJiffies mc = \<lparr> jf_user = Some 150, jf_nice = Some 0, jf_system = Some 100, jf_idle = Some 250 \<rparr>"
    "initialRxBytes mc = 1500" "initialTxBytes mc = 700"
  by (simp add: run_def getCpuUsage_def ex_sample_read ex_jiffies ex_collector_def diff_field_def known_def int_arith_def
      is_int32_def busy_share_def d_div_def d_of_int_pos Let_def getMemUsage_def long_arith_def getDiskUsage_def
      getNetworkSpeed_def c_div_def)

section \<open>Properties\<close>

text \<open>
  C33. One round of the collector, given CPU counters that have not gone back since the round before,
  fewer than \<open>2^24\<close> cores, memory figures whose free, buffer and cache parts fit into the total and disk
  figures with no more used than there is: all percentages are between 0 and 100, the CPU use is between 0
  and the number of cores, and the score is between 0 and 99, with every rounding of \<open>float\<close> and \<open>double\<close>
  taken into account.
\<close>

theorem metric_bounds:
  assumes run: "run junk sm mc = Inr (mc', m, doc)"
    and cpu: "jiffies_advance (prevJiffies mc) (prevJiffies mc')"
    and cores: "scan_d (sm_cores sm) = Some (cores, rest)" "0 \<le> cores" "cores < 2 ^ 24"
    and mem: "mem_consistent (mem_info (sm_meminfo sm))"
    and disk: "disk_info (sm_df sm) = (Some t, Some u)" "0 \<le> u" "u \<le> t"
  shows "list_all (\<lambda>p. 0 \<le> p \<and> p \<le> 100) (percents m) \<and>
    0 \<le> cpuUsage m \<and> cpuUsage m \<le> totalCpuCapacity m \<and> totalCpuCapacity m = of_int cores \<and>
    0 \<le> csdMetricScore m \<and> csdMetricScore m \<le> 99"
proof -
  obtain mc1 m1 m2 m3 m4 where r: "getCpuUsage sm (mc, getIPAddress sm (junk\<lparr> metric_ip := [] \<rparr>)) = Inr (mc1, m1)"
      "getMemUsage sm m1 = Inr m2" "getDiskUsage sm m2 = Inr m3" "getNetworkSpeed sm (mc1, m3) = Inr (mc', m4)"
      and m: "m = getCSDMetricScore m4"
    by (rule run_facts [OF run])
  have mc1: "prevJiffies mc' = prevJiffies mc1" and m4: "percents m4 = percents m3"
      "cpuUsage m4 = cpuUsage m3" "totalCpuCapacity m4 = totalCpuCapacity m3"
    using r(4) by (auto simp: percents_def elim!: getNetworkSpeed_facts)
  obtain share where share: "0 \<le> share" "share \<le> 1" and m1: "cpuUsagePercent m1 = flt (d_mul 100 share)"
      "totalCpuCapacity m1 = flt (of_int cores)" "cpuUsage m1 = flt (d_mul (flt (of_int cores)) share)"
  proof (rule getCpuUsage_facts [OF r(1)])
    fix n s i t
    assume "m1 = (getIPAddress sm (junk\<lparr> metric_ip := [] \<rparr>))\<lparr> cpuUsagePercent := flt (d_mul 100 s),
        totalCpuCapacity := flt (of_int n), cpuUsage := flt (d_mul (flt (of_int n)) s) \<rparr>"
      "map_option fst (scan_d (sm_cores sm)) = Some n" "busy_share i t = Inr s"
      "jiffies_advance (prevJiffies mc) (prevJiffies mc1) \<Longrightarrow> 0 \<le> i \<and> i \<le> t"
    with that [of s] busy_share_range [of i t s] cpu cores(1) show thesis by (simp add: mc1)
  qed
  obtain x y p where m2: "m2 = m1\<lparr> totalMemCapacity := x, memUsage := y, memUsagePercent := p \<rparr>" "0 \<le> p" "p \<le> 100"
    by (rule getMemUsage_facts [OF r(2) mem])
  obtain q where m3: "m3 = m2\<lparr> totalDiskCapacity := t, diskUsage := u, diskUsagePercent := q \<rparr>" "0 \<le> q" "q \<le> 100"
    by (rule getDiskUsage_facts [OF r(3) disk])
  have P: "list_all (\<lambda>p. 0 \<le> p \<and> p \<le> 100) (percents m)"
    using percent_range(1) [OF share] m2(2,3) m3(2,3) by (simp add: m m4 m3(1) m2(1)) (simp add: m1 percents_def)
  moreover have "0 \<le> cpuUsage m" "cpuUsage m \<le> totalCpuCapacity m" "totalCpuCapacity m = of_int cores"
    using cpu_usage_range [OF cores(2,3) share] by (simp_all add: m m4 m3(1) m2(1) m1)
  moreover have "0 \<le> csdMetricScore m" "csdMetricScore m \<le> 99"
    using score_range [of m4] P by (simp_all add: m)
  ultimately show ?thesis by blast
qed

theorem metric_bounds_witness:
  "\<exists>mc m doc. new_MetricCollector ex_first = Inr ex_collector \<and> run ex_junk ex_sample ex_collector = Inr (mc, m, doc) \<and>
     list_all (\<lambda>p. 0 \<le> p \<and> p \<le> 100) (percents m) \<and> cpuUsage m \<le> 4 \<and> csdMetricScore m \<le> 99"
proof -
  obtain mc m doc where r: "run ex_junk ex_sample ex_collector = Inr (mc, m, doc)"
    and j: "prevJiffies mc = \<lparr> jf_user = Some 150, jf_nice = Some 0, jf_system = Some 100, jf_idle = Some 250 \<rparr>"
    by (rule ex_round)
  have "jiffies_advance (prevJiffies ex_collector) (prevJiffies mc)" "mem_consistent (mem_info (sm_meminfo ex_sample))"
    by (simp_all add: j ex_collector_def jiffies_advance_def mem_consistent_def ex_sample_read)
  from metric_bounds [OF r this(1) ex_sample_read(2) _ _ this(2) ex_sample_read(4)] r ex_start show ?thesis by auto
qed

text \<open>
  The score prefers idle devices: if no percentage of the first device is higher than the second's, all
  within 0 and 100, the first device's score is not lower.
\<close>

theorem score_prefers_idle:
  assumes "list_all2 (\<lambda>p p'. 0 \<le> p \<and> p \<le> p' \<and> p' \<le> 100) (percents m) (percents m')"
  shows "csdMetricScore (getCSDMetricScore m') \<le> csdMetricScore (getCSDMetricScore m)"
proof -
  let ?part = "\<lambda>p. d_mul weight (flt (100 - p))"
  have le: "?part p' \<le> ?part p \<and> 0 \<le> ?part p'" if "0 \<le> p" "p \<le> p'" "p' \<le> 100" for p p'
    using part_antimono(1,2) [OF that] by blast
  note part = le [of "cpuUsagePercent m" "cpuUsagePercent m'"] le [of "memUsagePercent m" "memUsagePercent m'"]
    le [of "diskUsagePercent m" "diskUsagePercent m'"]
  note two = d_add_mono [of "?part (cpuUsagePercent m')" "?part (cpuUsagePercent m)"
      "?part (memUsagePercent m')" "?part (memUsagePercent m)"]
  from assms part two show ?thesis
    by (simp add: percents_def getCSDMetricScore_def Let_def d_add_mono)
qed

theorem score_prefers_idle_witness:
  "csdMetricScore (getCSDMetricScore (ex_junk\<lparr> cpuUsagePercent := 80 \<rparr>)) \<le> csdMetricScore (getCSDMetricScore ex_junk)"
  using score_prefers_idle [of ex_junk "ex_junk\<lparr> cpuUsagePercent := 80 \<rparr>"] by (simp add: percents_def ex_junk_def)

text \<open>What the report of a round says under a name, where it is an integer.\<close>

definition reported :: "string \<Rightarrow> (string \<times> metric_value) list \<Rightarrow> int" where
  "reported key doc = (case map_of doc key of Some (MInt i) \<Rightarrow> i | _ \<Rightarrow> 0)"

lemma reported_network:
  "reported ''networkRxData'' (serialize m) = to_int32 (networkRxData m)"
  "reported ''networkTxData'' (serialize m) = to_int32 (networkTxData m)"
  by (simp_all add: reported_def serialize_def)

lemma to_int32_mod: "to_int32 v mod 2 ^ 32 = v mod 2 ^ 32"
  by (simp add: to_int32_def mod_simps)

lemma sum_to_int32_mod: "sum_list (map (\<lambda>x. to_int32 (g x)) xs) mod 2 ^ 32 = sum_list (map g xs) mod 2 ^ 32"
proof (induction xs)
  case (Cons x xs)
  have "(a + b) mod 2 ^ 32 = (a' + b') mod 2 ^ 32" if "a mod 2 ^ 32 = a' mod 2 ^ 32" "b mod 2 ^ 32 = b' mod 2 ^ 32" for a a' b b' :: int
    using that by (rule mod_add_cong)
  from this [OF to_int32_mod Cons.IH, of "g x"] show ?case by simp
qed simp

lemma sum_to_int32: "list_all (\<lambda>x. is_int32 (g x)) xs \<Longrightarrow> sum_list (map (\<lambda>x. to_int32 (g x)) xs) = sum_list (map g xs)"
  by (induction xs) (simp_all add: to_int32_id)

lemma network_sums:
  assumes "rounds junk sms mc = Inr (mc', ms)"
  shows "length ms = length sms \<and>
    sum_list (map networkRxData ms) = initialRxBytes mc' - initialRxBytes mc \<and>
    sum_list (map networkTxData ms) = initialTxBytes mc' - initialTxBytes mc"
  using assms
proof (induction sms arbitrary: mc ms)
  case Nil
  then show ?case by simp
next
  case (Cons sm sms)
  then obtain mc1 m doc ms1 where run: "run junk sm mc = Inr (mc1, m, doc)" and ms: "ms = m # ms1"
      and IH: "rounds junk sms mc1 = Inr (mc', ms1)"
    by (auto simp: csd_bind)
  have "networkRxData m = initialRxBytes mc1 - initialRxBytes mc \<and> networkTxData m = initialTxBytes mc1 - initialTxBytes mc"
    using run by (auto elim!: run_facts getCpuUsage_facts getNetworkSpeed_facts)
  with Cons.IH [OF IH] show ?case by (simp add: ms)
qed

text \<open>
  C34. Over any number of rounds without a failure, for each direction: the bytes the collector derives in the rounds (64-bit
  figures, before they are written) add up to the difference of the kernel's counter between the start and the last round, so
  nothing is counted twice or left out. The bytes in the reports it sends, which \<open>writer.Int\<close> narrows to 32 bits, add up
  to that difference modulo \<open>2 ^ 32\<close>, and exactly to it if every round's figure fits into an \<open>int\<close>.
\<close>

theorem network_telescopes:
  assumes "rounds junk sms mc = Inr (mc', ms)"
    and "(bytes, counter, key) \<in> {(networkRxData, initialRxBytes, ''networkRxData''), (networkTxData, initialTxBytes, ''networkTxData'')}"
  shows "length ms = length sms \<and> sum_list (map bytes ms) = counter mc' - counter mc \<and>
    sum_list (map (\<lambda>m. reported key (serialize m)) ms) mod 2 ^ 32 = (counter mc' - counter mc) mod 2 ^ 32 \<and>
    (list_all (\<lambda>m. is_int32 (bytes m)) ms \<longrightarrow> sum_list (map (\<lambda>m. reported key (serialize m)) ms) = counter mc' - counter mc)"
proof -
  have key: "reported key (serialize m) = to_int32 (bytes m)" for m using assms(2) reported_network by auto
  have sum: "length ms = length sms \<and> sum_list (map bytes ms) = counter mc' - counter mc" using network_sums [OF assms(1)] assms(2) by auto
  show ?thesis unfolding key using sum sum_to_int32_mod [of bytes ms] sum_to_int32 [of bytes ms] by simp
qed

theorem network_telescopes_witness:
  "\<exists>mc ms. rounds ex_junk [ex_sample] ex_collector = Inr (mc, ms) \<and> sum_list (map networkRxData ms) = 500 \<and>
     sum_list (map (\<lambda>m. reported ''networkRxData'' (serialize m)) ms) mod 2 ^ 32 = 500"
proof -
  obtain mc m doc where "run ex_junk ex_sample ex_collector = Inr (mc, m, doc)" and i: "initialRxBytes mc = 1500" "initialTxBytes mc = 700"
    by (rule ex_round)
  then have r: "rounds ex_junk [ex_sample] ex_collector = Inr (mc, [m])" by simp
  from network_telescopes [OF r, of networkRxData initialRxBytes "''networkRxData''"] i r show ?thesis by (auto simp: ex_collector_def)
qed

end
