(* ===== verification/Metric_Check.thy ===== *)
theory Metric_Check
  imports Metric_Collector Merge_Values "HOL-Library.Word"
begin

text \<open>
  The metric check (\<open>csd_metric_check/metric-check\<close>): two programs that measure what a query costs. On
  each CSD \<open>metric_check.cc\<close> waits for connections that announce the start and the end of snippets; at
  the first start and at the last end it reads the kernel's counters (\<open>metric_check.h\<close>) and sends the
  differences to the host, where \<open>csd_metric_result_server.cc\<close> adds up the results of eight CSDs.

  A connection is a \<open>probe\<close>: what \<open>read\<close> delivers, and what the files and the clock would yield at that
  moment. \<open>unsigned long long\<close> is a \<open>64 word\<close>; a variable that has not been assigned is \<open>None\<close>. The
  sockets and the output are not modelled.
\<close>

section \<open>The data\<close>

record QueryDuration =
  start_time :: "int option"      \<comment> \<open>nanoseconds\<close>
  end_time :: "int option"

record CPU_Usage =
  start_total :: "64 word option"
  end_total :: "64 word option"
  start_idle :: "64 word option"
  end_idle :: "64 word option"
  cpu_usage_percentage :: "rat option"

record temp_CPU =
  tc_total :: "64 word"
  tc_idle :: "64 word"

record Net_Usage =
  nu_rx :: "64 word"
  nu_tx :: "64 word"

record result_Net_Usage =
  start_rx :: "64 word option"
  start_tx :: "64 word option"
  end_rx :: "64 word option"
  end_tx :: "64 word option"

record Metric_Result =
  cpu_usage :: "rat option"
  power_usage :: "rat option"
  network_usage :: "rat option"

record probe =
  pr_msg :: "string option"       \<comment> \<open>what \<open>read\<close> delivers, \<open>None\<close> for an error\<close>
  pr_stat :: string               \<comment> \<open>\<open>/proc/stat\<close>\<close>
  pr_net :: string                \<comment> \<open>\<open>/proc/net/dev\<close>\<close>
  pr_time :: int

section \<open>Reading the counters\<close>

fun stream_ints :: "nat \<Rightarrow> string \<Rightarrow> int option list" where
  \<comment> \<open>\<open>iss >> a >> b >> ...\<close> for \<open>n\<close> variables of type \<open>long\<close>\<close>
  "stream_ints 0 s = []"
| "stream_ints (Suc n) s = (case stream_int 64 s None of
       (v, None) \<Rightarrow> v # replicate n None
     | (v, Some r) \<Rightarrow> v # stream_ints n r)"

definition stream_uint :: "string \<Rightarrow> 64 word option \<Rightarrow> 64 word option \<times> string option" where
  \<comment> \<open>\<open>>> i\<close> for an \<open>unsigned long long\<close>: a negative number is negated in the type\<close>
  "stream_uint s i =
     (if dropWhile is_space s = [] then (i, None)
      else case scan_number s of
          None \<Rightarrow> (Some 0, None)
        | Some (v, r) \<Rightarrow> if 2 ^ 64 \<le> \<bar>v\<bar> then (Some (- 1), None) else (Some (of_int v), Some r))"

definition get_cpu_usage :: "string \<Rightarrow> temp_CPU res" where
  "get_cpu_usage stat =
     (let vs = (case scan_word (takeWhile (\<lambda>c. c \<noteq> CHR 0x0A) stat) of
                  None \<Rightarrow> replicate 10 None
                | Some (_, r) \<Rightarrow> stream_ints 10 r)
      in bindE (mapE known vs) (\<lambda>ns.
         bindE (foldE (\<lambda>n acc. long_arith (acc + n)) ns 0) (\<lambda>total_time.
         bindE (long_arith (ns ! 3 + ns ! 4)) (\<lambda>total_idle.
           Inr \<lparr> tc_total = of_int total_time, tc_idle = of_int total_idle \<rparr>))))"

fun read_tx :: "nat \<Rightarrow> string option \<Rightarrow> 64 word option \<Rightarrow> 64 word option" where
  \<comment> \<open>the loop that overwrites \<open>txByte\<close>; nothing is read from a stream that has failed\<close>
  "read_tx 0 s tx = tx"
| "read_tx (Suc n) None tx = tx"
| "read_tx (Suc n) (Some s) tx = (case stream_uint s tx of (tx, s) \<Rightarrow> read_tx n s tx)"

definition read_interface :: "string \<Rightarrow> 64 word option \<times> 64 word option" where
  "read_interface line = (case scan_word line of
       None \<Rightarrow> (None, None)
     | Some (_, s) \<Rightarrow> (case stream_uint s None of (rx, s) \<Rightarrow> (rx, read_tx 8 s None)))"

definition get_Network_Usage :: "string \<Rightarrow> Net_Usage res" where
  "get_Network_Usage dev =
     (let (rx, tx) = (case find (\<lambda>line. std_contains line ''ngdtap0'') (getline_all (CHR 0x0A) dev) of
                        None \<Rightarrow> (None, None) | Some line \<Rightarrow> read_interface line)
      in bindE (known rx) (\<lambda>rx. bindE (known tx) (\<lambda>tx. Inr \<lparr> nu_rx = rx, nu_tx = tx \<rparr>)))"

section \<open>Start and end of a query\<close>

definition get_CPU_Usage_Percentage :: "CPU_Usage \<Rightarrow> Metric_Result \<Rightarrow> (CPU_Usage \<times> Metric_Result) res" where
  "get_CPU_Usage_Percentage c r =
     bindE (known (end_total c)) (\<lambda>et. bindE (known (start_total c)) (\<lambda>st.
     bindE (known (end_idle c)) (\<lambda>ei. bindE (known (start_idle c)) (\<lambda>si.
     let total_cpu = et - st; total_idle = ei - si; busy = d_of_int (uint (total_cpu - total_idle)) in
     bindE (d_div busy (d_of_int (uint total_cpu))) (\<lambda>q.
       Inr (c\<lparr> cpu_usage_percentage := Some (d_mul q 100) \<rparr>, r\<lparr> cpu_usage := Some busy \<rparr>))))))"

record session =
  querydu :: QueryDuration
  cpu_usg :: CPU_Usage
  net_usg :: result_Net_Usage
  se_result :: Metric_Result
  startCount :: int
  endCount :: int

definition session_start :: session where
  "session_start = \<lparr> querydu = \<lparr> start_time = None, end_time = None \<rparr>,
     cpu_usg = \<lparr> start_total = None, end_total = None, start_idle = None, end_idle = None, cpu_usage_percentage = None \<rparr>,
     net_usg = \<lparr> start_rx = None, start_tx = None, end_rx = None, end_tx = None \<rparr>,
     se_result = \<lparr> cpu_usage = None, power_usage = None, network_usage = None \<rparr>, startCount = 0, endCount = 0 \<rparr>"

definition QueryStart :: "probe \<Rightarrow> session \<Rightarrow> session res" where
  "QueryStart p s =
     bindE (get_cpu_usage (pr_stat p)) (\<lambda>c.
     bindE (get_Network_Usage (pr_net p)) (\<lambda>n.
       Inr (s\<lparr> querydu := (querydu s)\<lparr> start_time := Some (pr_time p) \<rparr>,
               cpu_usg := (cpu_usg s)\<lparr> start_total := Some (tc_total c), start_idle := Some (tc_idle c) \<rparr>,
               net_usg := (net_usg s)\<lparr> start_rx := Some (nu_rx n), start_tx := Some (nu_tx n) \<rparr> \<rparr>)))"

definition network_mb :: "64 word \<Rightarrow> 64 word \<Rightarrow> rat" where
  \<comment> \<open>\<open>static_cast<double>(totalByte) / 1048576.0\<close>\<close>
  "network_mb rxByte_usage txByte_usage = dbl (d_of_int (uint (rxByte_usage + txByte_usage)) / 1048576)"

definition power_usg :: "rat \<Rightarrow> int \<Rightarrow> rat" where
  \<comment> \<open>\<open>12 * percentage * (duration.count() / 1000.0) / 100.0\<close>, stored in a \<open>float\<close>\<close>
  "power_usg pct ms = flt (dbl (d_mul (d_mul 12 pct) (dbl (d_of_int ms / 1000)) / 100))"

definition QueryEnd :: "probe \<Rightarrow> session \<Rightarrow> session res" where
  "QueryEnd p s =
     bindE (get_cpu_usage (pr_stat p)) (\<lambda>c.
     let cu = (cpu_usg s)\<lparr> end_total := Some (tc_total c), end_idle := Some (tc_idle c) \<rparr> in
     bindE (get_CPU_Usage_Percentage cu (se_result s)) (\<lambda>(cu, r).
     bindE (get_Network_Usage (pr_net p)) (\<lambda>n.
     bindE (known (start_rx (net_usg s))) (\<lambda>srx. bindE (known (start_tx (net_usg s))) (\<lambda>stx.
     bindE (known (start_time (querydu s))) (\<lambda>t0.
     bindE (known (cpu_usage_percentage cu)) (\<lambda>pct.
       let ms = c_div (pr_time p - t0) 1000000;
           r = r\<lparr> network_usage := Some (network_mb (nu_rx n - srx) (nu_tx n - stx)) \<rparr>;
           r = r\<lparr> power_usage := Some (power_usg pct ms) \<rparr>
       in Inr (s\<lparr> querydu := (querydu s)\<lparr> end_time := Some (pr_time p) \<rparr>, cpu_usg := cu,
                  net_usg := (net_usg s)\<lparr> end_rx := Some (nu_rx n), end_tx := Some (nu_tx n) \<rparr>,
                  se_result := r \<rparr>))))))))"

section \<open>The programs\<close>

definition message :: "probe \<Rightarrow> string res" where
  \<comment> \<open>\<open>buffer[valread] = 0\<close> in a \<open>char buffer[1024]\<close>\<close>
  "message p = (case pr_msg p of
       None \<Rightarrow> Inl OutOfBounds
     | Some bs \<Rightarrow> if 1024 \<le> length bs then Inl OutOfBounds else Inr (takeWhile (\<lambda>c. c \<noteq> CHR 0x00) bs))"

text \<open>The loop of \<open>metric_check.cc\<close>, \<open>None\<close> while it is waiting for a connection.\<close>

fun check_loop :: "int \<Rightarrow> probe list \<Rightarrow> session \<Rightarrow> session option res" where
  "check_loop snippet_num [] s = Inr None"
| "check_loop snippet_num (p # ps) s =
     bindE (message p) (\<lambda>m.
       if m = ''Query Start'' then
         bindE (if startCount s = 0 then QueryStart p s else Inr s) (\<lambda>s.
           check_loop snippet_num ps (s\<lparr> startCount := startCount s + 1 \<rparr>))
       else
         let s = s\<lparr> endCount := endCount s + 1 \<rparr>
         in if endCount s = snippet_num then bindE (QueryEnd p s) (\<lambda>s. Inr (Some s))
            else check_loop snippet_num ps s)"

definition check_main :: "int \<Rightarrow> probe list \<Rightarrow> Metric_Result option res" where
  \<comment> \<open>the result that is sent to the host\<close>
  "check_main snippet_num ps = bindE (check_loop snippet_num ps session_start) (\<lambda>s. Inr (map_option se_result s))"

text \<open>The host: three sums in \<open>float\<close>s, over complete results.\<close>

definition add_result :: "rat \<times> rat \<times> rat \<Rightarrow> rat \<times> rat \<times> rat \<Rightarrow> rat \<times> rat \<times> rat" where
  "add_result r st = (case r of (c, w, n) \<Rightarrow> case st of (cpu, pw, network) \<Rightarrow>
     (flt (d_add cpu c), flt (pw + w), flt (d_add network n)))"

fun server_loop :: "(rat \<times> rat \<times> rat) list \<Rightarrow> rat \<times> rat \<times> rat \<Rightarrow> nat \<Rightarrow> (rat \<times> rat \<times> rat) option" where
  "server_loop [] st csdCount = None"
| "server_loop (r # rs) st csdCount =
     (let st = add_result r st; csdCount = csdCount + 1
      in if csdCount = 8 then Some st else server_loop rs st csdCount)"

section \<open>What a session measures\<close>

definition is_start :: "probe \<Rightarrow> bool" where
  "is_start p \<longleftrightarrow> message p = Inr ''Query Start''"

definition is_end :: "probe \<Rightarrow> bool" where
  "is_end p \<longleftrightarrow> (\<exists>m. message p = Inr m \<and> m \<noteq> ''Query Start'')"

definition ends :: "probe list \<Rightarrow> int" where
  "ends ps = int (length (filter is_end ps))"

lemma ends_simps [simp]: "ends [] = 0" "ends (p # ps) = (if is_end p then 1 else 0) + ends ps"
  "ends (ps @ qs) = ends ps + ends qs" "0 \<le> ends ps"
  by (simp_all add: ends_def)

lemma probe_cases: "is_start p \<or> is_end p \<Longrightarrow> (is_start p \<and> \<not> is_end p) \<or> (is_end p \<and> \<not> is_start p)"
  by (auto simp: is_start_def is_end_def)

text \<open>The counters of connections do not enter a measurement.\<close>

lemma QueryStart_counts:
  "QueryStart p (s\<lparr> startCount := a, endCount := b \<rparr>) =
     bindE (QueryStart p s) (\<lambda>s. Inr (s\<lparr> startCount := a, endCount := b \<rparr>))"
  by (cases "get_cpu_usage (pr_stat p)"; cases "get_Network_Usage (pr_net p)") (simp_all add: QueryStart_def)

lemma QueryStart_keeps:
  "QueryStart p s = Inr s' \<Longrightarrow> startCount s' = startCount s \<and> endCount s' = endCount s"
  by (auto simp: QueryStart_def csd_bind)

lemma QueryEnd_counts:
  "QueryEnd p (s\<lparr> startCount := a, endCount := b \<rparr>) =
     bindE (QueryEnd p s) (\<lambda>s. Inr (s\<lparr> startCount := a, endCount := b \<rparr>))"
  unfolding QueryEnd_def Let_def session.simps bindE_assoc
  by (intro bindE_cong refl) (cases s, auto simp: csd_bind intro!: bindE_cong split: prod.splits)

text \<open>Between the first start and the last end nothing is measured.\<close>

lemma check_loop_waits:
  assumes "list_all (\<lambda>p. is_start p \<or> is_end p) ps" "list_all (\<lambda>p. is_end p) ps \<or> startCount s \<noteq> 0"
    "0 \<le> startCount s" "endCount s + ends ps < snippet_num"
  shows "\<exists>k. 0 \<le> k \<and> (list_all is_end ps \<longrightarrow> k = 0) \<and> check_loop snippet_num (ps @ qs) s =
    check_loop snippet_num qs (s\<lparr> startCount := startCount s + k, endCount := endCount s + ends ps \<rparr>)"
  using assms
proof (induction ps arbitrary: s)
  case Nil
  then show ?case by (intro exI [of _ 0]) simp
next
  case (Cons p ps)
  show ?case
  proof (cases "is_end p")
    case True
    let ?s = "s\<lparr> endCount := endCount s + 1 \<rparr>"
    have "endCount s + 1 \<noteq> snippet_num"
      using Cons.prems(4) True ends_simps(4) [of ps] by (simp del: ends_simps(4))
    then have step: "check_loop snippet_num ((p # ps) @ qs) s = check_loop snippet_num (ps @ qs) ?s"
      using True by (auto simp: is_end_def Let_def)
    from Cons.IH [of ?s] Cons.prems True obtain k where "0 \<le> k" "list_all is_end ps \<longrightarrow> k = 0"
      "check_loop snippet_num (ps @ qs) ?s =
       check_loop snippet_num qs (?s\<lparr> startCount := startCount s + k, endCount := endCount s + 1 + ends ps \<rparr>)"
      by auto
    with step True show ?thesis by (intro exI [of _ k]) (simp add: add.assoc)
  next
    case False
    then have st: "is_start p" "startCount s \<noteq> 0" using Cons.prems by auto
    let ?s = "s\<lparr> startCount := startCount s + 1 \<rparr>"
    have step: "check_loop snippet_num ((p # ps) @ qs) s = check_loop snippet_num (ps @ qs) ?s"
      using st by (simp add: is_start_def)
    from Cons.IH [of ?s] Cons.prems False st obtain k where "0 \<le> k"
      "check_loop snippet_num (ps @ qs) ?s =
       check_loop snippet_num qs (?s\<lparr> startCount := startCount s + 1 + k, endCount := endCount s + ends ps \<rparr>)"
      by auto
    with step False show ?thesis by (intro exI [of _ "1 + k"]) (simp add: add.assoc)
  qed
qed

definition measured :: "probe \<Rightarrow> probe \<Rightarrow> session res" where
  "measured first_start last_end = bindE (QueryStart first_start session_start) (QueryEnd last_end)"

definition ex_probe :: "string \<Rightarrow> string \<Rightarrow> string \<Rightarrow> int \<Rightarrow> probe" where
  "ex_probe msg stat net t = \<lparr> pr_msg = Some msg, pr_stat = stat, pr_net = net, pr_time = t \<rparr>"

definition ex_begin :: probe where
  "ex_begin = ex_probe ''Query Start'' ''cpu  50 0 50 890 10 0 0 0 0 0''
     (''Inter-| Receive'' @ [CHR 0x0A] @ '' ngdtap0: 1000 1 0 0 0 0 0 0 500 2'') 0"

definition ex_finish :: probe where
  "ex_finish = ex_probe ''Query End'' ''cpu  90 0 60 940 10 0 0 0 0 0''
     (''Inter-| Receive'' @ [CHR 0x0A] @ '' ngdtap0: 2000 1 0 0 0 0 0 0 900 2'') 2000000000"

lemma ex_stat_numbers:
  "scan_word (takeWhile (\<lambda>c. c \<noteq> CHR 0x0A) (pr_stat ex_begin)) = Some (''cpu'', ''  50 0 50 890 10 0 0 0 0 0'')"
  "stream_ints 10 ''  50 0 50 890 10 0 0 0 0 0'' = map Some [50, 0, 50, 890, 10, 0, 0, 0, 0, 0]"
  "scan_word (takeWhile (\<lambda>c. c \<noteq> CHR 0x0A) (pr_stat ex_finish)) = Some (''cpu'', ''  90 0 60 940 10 0 0 0 0 0'')"
  "stream_ints 10 ''  90 0 60 940 10 0 0 0 0 0'' = map Some [90, 0, 60, 940, 10, 0, 0, 0, 0, 0]"
  by code_simp+

lemma ex_cpu:
  "get_cpu_usage (pr_stat ex_begin) = Inr \<lparr> tc_total = 1000, tc_idle = 900 \<rparr>"
  "get_cpu_usage (pr_stat ex_finish) = Inr \<lparr> tc_total = 1100, tc_idle = 950 \<rparr>"
  unfolding get_cpu_usage_def ex_stat_numbers option.case prod.case
  by (simp_all add: known_def long_arith_def)

lemma ex_lines:
  "find (\<lambda>line. std_contains line ''ngdtap0'') (getline_all (CHR 0x0A) (pr_net ex_begin)) = Some '' ngdtap0: 1000 1 0 0 0 0 0 0 500 2''"
  "find (\<lambda>line. std_contains line ''ngdtap0'') (getline_all (CHR 0x0A) (pr_net ex_finish)) = Some '' ngdtap0: 2000 1 0 0 0 0 0 0 900 2''"
  by code_simp+

lemma ex_net:
  "get_Network_Usage (pr_net ex_begin) = Inr \<lparr> nu_rx = 1000, nu_tx = 500 \<rparr>"
  "get_Network_Usage (pr_net ex_finish) = Inr \<lparr> nu_rx = 2000, nu_tx = 900 \<rparr>"
proof -
  have "read_interface '' ngdtap0: 1000 1 0 0 0 0 0 0 500 2'' = (Some 1000, Some 500)"
    "read_interface '' ngdtap0: 2000 1 0 0 0 0 0 0 900 2'' = (Some 2000, Some 900)" by code_simp+
  then show "get_Network_Usage (pr_net ex_begin) = Inr \<lparr> nu_rx = 1000, nu_tx = 500 \<rparr>"
    "get_Network_Usage (pr_net ex_finish) = Inr \<lparr> nu_rx = 2000, nu_tx = 900 \<rparr>"
    unfolding get_Network_Usage_def ex_lines by (simp_all add: known_def)
qed

lemma ex_messages: "is_start ex_begin" "is_end ex_finish"
proof -
  have "message ex_begin = Inr ''Query Start''" "message ex_finish = Inr ''Query End''" by code_simp+
  then show "is_start ex_begin" "is_end ex_finish" by (simp_all add: is_start_def is_end_def)
qed

lemma ex_measured: "\<exists>s. measured ex_begin ex_finish = Inr s"
proof -
  have "uint (1100 - 1000 :: 64 word) = 100" by simp
  then have "d_of_int (uint (1100 - 1000 :: 64 word)) \<noteq> 0" using fl_pos [of 100 53] by (simp add: d_of_int_def)
  then show ?thesis
    by (simp add: measured_def QueryStart_def QueryEnd_def ex_cpu ex_net session_start_def Let_def
        get_CPU_Usage_Percentage_def known_def d_div_def)
qed

text \<open>
  C37. A session whose connections are all read correctly measures from the first start to the end with
  the number \<open>snippet_num\<close>, at which it stops: its result depends on the files and the clock at these two
  moments only, however many other connections come before, between and after them.
\<close>

theorem session_measures:
  assumes "list_all is_end pre" "is_start p" "list_all (\<lambda>p. is_start p \<or> is_end p) mid" "is_end e"
    and "snippet_num = ends pre + ends mid + 1"
  shows "check_main snippet_num (pre @ p # mid @ e # post) =
    bindE (measured p e) (\<lambda>s. Inr (Some (se_result s)))"
proof -
  let ?s1 = "session_start\<lparr> startCount := 0, endCount := ends pre \<rparr>"
  have s0: "startCount session_start = 0" "endCount session_start = 0" by (simp_all add: session_start_def)
  have pre: "list_all (\<lambda>p. is_start p \<or> is_end p) pre" using assms(1) by (auto simp: list_all_iff)
  have "check_loop snippet_num (pre @ p # mid @ e # post) session_start = check_loop snippet_num (p # mid @ e # post) ?s1"
    using check_loop_waits [OF pre, of session_start snippet_num "p # mid @ e # post"] assms(1,5) ends_simps(4) [of mid] s0 by auto
  also have "\<dots> = bindE (QueryStart p ?s1) (\<lambda>s. check_loop snippet_num (mid @ e # post) (s\<lparr> startCount := startCount s + 1 \<rparr>))"
    using assms(2) by (simp add: is_start_def)
  finally have start: "check_loop snippet_num (pre @ p # mid @ e # post) session_start = \<dots>" .
  show ?thesis
  proof (cases "QueryStart p session_start")
    case (Inl err)
    with start show ?thesis by (simp add: check_main_def measured_def QueryStart_counts)
  next
    case (Inr s)
    let ?s2 = "s\<lparr> startCount := 1, endCount := ends pre \<rparr>"
    obtain k where k: "check_loop snippet_num (mid @ e # post) ?s2 =
        check_loop snippet_num (e # post) (?s2\<lparr> startCount := 1 + k, endCount := ends pre + ends mid \<rparr>)"
      using check_loop_waits [OF assms(3), of ?s2 snippet_num "e # post"] assms(5) by auto
    also have "\<dots> = bindE (QueryEnd e (s\<lparr> startCount := 1 + k, endCount := snippet_num \<rparr>)) (\<lambda>s. Inr (Some s))"
      using assms(4,5) by (auto simp: is_end_def Let_def)
    finally have last: "check_loop snippet_num (mid @ e # post) ?s2 = \<dots>" .
    have "s\<lparr> endCount := ends pre, startCount := 1 \<rparr> = ?s2" by (cases s) simp
    with start Inr have "check_loop snippet_num (pre @ p # mid @ e # post) session_start =
        bindE (QueryEnd e (s\<lparr> startCount := 1 + k, endCount := snippet_num \<rparr>)) (\<lambda>s. Inr (Some s))"
      by (simp add: QueryStart_counts last)
    then show ?thesis
      using Inr by (cases "QueryEnd e s") (simp_all add: check_main_def measured_def QueryEnd_counts)
  qed
qed

theorem session_measures_witness:
  "\<exists>r. check_main 2 [ex_finish, ex_begin, ex_begin, ex_finish, ex_begin] = Inr (Some r)"
proof -
  have "check_main 2 ([ex_finish] @ ex_begin # [ex_begin] @ ex_finish # [ex_begin]) =
      bindE (measured ex_begin ex_finish) (\<lambda>s. Inr (Some (se_result s)))"
    by (rule session_measures) (use ex_messages probe_cases [of ex_begin] in auto)
  with ex_measured show ?thesis by auto
qed

section \<open>Bounds\<close>

lemma power_usg_mono:
  assumes "0 \<le> p" "p \<le> q" "0 \<le> ms"
  shows "0 \<le> power_usg p ms" "power_usg p ms \<le> power_usg q ms"
proof -
  let ?t = "dbl (d_of_int ms / 1000)"
  have t: "0 \<le> ?t" using assms(3) by (auto simp: d_of_int_def intro!: fl_nonneg)
  have "0 \<le> d_mul 12 p" "d_mul 12 p \<le> d_mul 12 q" using assms by (auto simp: d_mul_def intro!: fl_nonneg fl_mono)
  then have "0 \<le> d_mul 12 p * ?t" "d_mul 12 p * ?t \<le> d_mul 12 q * ?t" using t by (simp_all add: mult_right_mono)
  then have "0 \<le> d_mul (d_mul 12 p) ?t / 100" "d_mul (d_mul 12 p) ?t / 100 \<le> d_mul (d_mul 12 q) ?t / 100"
    by (auto simp: d_mul_def intro!: fl_nonneg fl_mono divide_right_mono)
  then show "0 \<le> power_usg p ms" "power_usg p ms \<le> power_usg q ms"
    by (auto simp: power_usg_def intro!: fl_nonneg fl_mono)
qed

lemma c_div_nonneg: "0 \<le> a \<Longrightarrow> 0 \<le> b \<Longrightarrow> 0 \<le> c_div a b"
  by (cases "a = 0"; cases "b = 0") (simp_all add: c_div_def pos_imp_zdiv_nonneg_iff)

lemma d_of_int_mono: "0 \<le> a \<Longrightarrow> 0 \<le> d_of_int a" "0 \<le> a \<Longrightarrow> a \<le> b \<Longrightarrow> d_of_int a \<le> d_of_int b"
  by (auto simp: d_of_int_def intro!: fl_mono fl_nonneg)

lemma cpu_percentage_range:
  assumes "get_CPU_Usage_Percentage c r = Inr (c', r')"
    and "end_total c = Some et" "start_total c = Some st" "end_idle c = Some ei" "start_idle c = Some si"
    and "uint (ei - si) \<le> uint (et - st)"
  shows "\<exists>pct. cpu_usage_percentage c' = Some pct \<and> 0 \<le> pct \<and> pct \<le> 100 \<and>
    cpu_usage r' = Some (d_of_int (uint (et - st) - uint (ei - si)))"
proof -
  let ?b = "et - st - (ei - si)"
  have b: "uint ?b = uint (et - st) - uint (ei - si)"
    using assms(6) by (simp add: uint_sub_if_size)
  let ?x = "d_of_int (uint ?b)" and ?y = "d_of_int (uint (et - st))"
  from assms(1-5) have y: "?y \<noteq> 0" and c': "c' = c\<lparr> cpu_usage_percentage := Some (d_mul (dbl (?x / ?y)) 100) \<rparr>"
    and r': "r' = r\<lparr> cpu_usage := Some ?x \<rparr>"
    by (auto simp: get_CPU_Usage_Percentage_def known_def Let_def d_div_def split: if_splits)
  have xy: "0 \<le> ?x" "?x \<le> ?y" unfolding b using assms(6) by (intro d_of_int_mono; simp only: uint_ge_0 diff_ge_0_iff_ge; simp)+
  with y have "0 < ?y" by simp
  then have "0 \<le> ?x / ?y" "?x / ?y \<le> 1" using xy by simp_all
  then have "0 \<le> dbl (?x / ?y)" "dbl (?x / ?y) \<le> 1" using dbl_range [of "?x / ?y" 1] by simp_all
  then have "0 \<le> d_mul (dbl (?x / ?y)) 100 \<and> d_mul (dbl (?x / ?y)) 100 \<le> 100"
    unfolding d_mul_def using dbl_range [of "dbl (?x / ?y) * 100" 100] by simp
  then show ?thesis using b by (simp add: c' r')
qed

text \<open>
  C38. If the idle time has not grown by more than the total time, both read modulo \<open>2^64\<close>, and the clock
  has not gone back, a measurement reports the difference of the busy times, rounded to a \<open>double\<close>, the
  share of the CPU is between 0 and 100 percent, and the power between 0 and what 12 watts over the
  whole time give.
\<close>

theorem measurement_in_range:
  assumes "measured p e = Inr s" "get_cpu_usage (pr_stat p) = Inr a" "get_cpu_usage (pr_stat e) = Inr b"
    and "uint (tc_idle b - tc_idle a) \<le> uint (tc_total b - tc_total a)" "pr_time p \<le> pr_time e"
  shows "\<exists>pct w. cpu_usage_percentage (cpu_usg s) = Some pct \<and> 0 \<le> pct \<and> pct \<le> 100 \<and>
    cpu_usage (se_result s) = Some (d_of_int (uint (tc_total b - tc_total a) - uint (tc_idle b - tc_idle a))) \<and>
    power_usage (se_result s) = Some w \<and> 0 \<le> w \<and> w \<le> power_usg 100 (c_div (pr_time e - pr_time p) 1000000)"
proof -
  let ?ms = "c_div (pr_time e - pr_time p) 1000000"
  let ?cu = "\<lparr> start_total = Some (tc_total a), end_total = Some (tc_total b), start_idle = Some (tc_idle a),
    end_idle = Some (tc_idle b), cpu_usage_percentage = None \<rparr>"
  from assms(1-3) obtain cu r where
    cu: "get_CPU_Usage_Percentage ?cu (se_result session_start) = Inr (cu, r)"
    and s: "cpu_usg s = cu" "cpu_usage (se_result s) = cpu_usage r"
    "power_usage (se_result s) = map_option (\<lambda>pct. power_usg pct ?ms) (cpu_usage_percentage cu)"
    by (auto simp: measured_def QueryStart_def QueryEnd_def session_start_def csd_bind Let_def)
  from cpu_percentage_range [OF cu, of "tc_total b" "tc_total a" "tc_idle b" "tc_idle a"] assms(4)
  obtain pct where pct: "cpu_usage_percentage cu = Some pct" "0 \<le> pct" "pct \<le> 100"
    "cpu_usage r = Some (d_of_int (uint (tc_total b - tc_total a) - uint (tc_idle b - tc_idle a)))" by auto
  have "0 \<le> ?ms" using assms(5) by (intro c_div_nonneg) simp_all
  with pct s power_usg_mono [OF pct(2,3)] show ?thesis by simp
qed

theorem measurement_in_range_witness:
  "\<exists>s pct. measured ex_begin ex_finish = Inr s \<and> cpu_usage_percentage (cpu_usg s) = Some pct \<and> pct \<le> 100 \<and>
     cpu_usage (se_result s) = Some (d_of_int 50)"
proof -
  obtain s where s: "measured ex_begin ex_finish = Inr s" using ex_measured by blast
  have "pr_time ex_begin \<le> pr_time ex_finish" by (simp add: ex_begin_def ex_finish_def ex_probe_def)
  with measurement_in_range [OF s ex_cpu] s show ?thesis by auto
qed

section \<open>The host's sums\<close>

lemma server_loop_sum:
  assumes "k < 8" "k + length rs = 8"
  shows "server_loop (rs @ rest) st k = Some (fold add_result rs st)"
  using assms
proof (induction rs arbitrary: st k)
  case (Cons r rs)
  show ?case
  proof (cases "k + 1 = 8")
    case True
    with Cons.prems show ?thesis by (simp add: Let_def)
  next
    case False
    with Cons.prems Cons.IH [of "k + 1" "add_result r st"] show ?thesis by (simp add: Let_def)
  qed
qed simp

text \<open>The server ends with the eighth result, and its sums are those of the first eight, in \<open>float\<close>s.\<close>

lemma server_adds_eight:
  assumes "length rs = 8"
  shows "server_loop (rs @ rest) (0, 0, 0) 0 = Some (fold add_result rs (0, 0, 0))"
  using server_loop_sum [of 0 rs rest "(0, 0, 0)"] assms by simp

lemma server_waits: "k + length rs < 8 \<Longrightarrow> server_loop rs st k = None"
  by (induction rs arbitrary: st k) (simp_all add: Let_def)

end
