(* ===== verification/Pba_Input.thy ===== *)
theory Pba_Input
  imports Input_Model Filter_Columns
begin

text \<open>
  The block version of the worker (\<open>csd-worker-module/temp\<close>) reads single blocks of an SST file by their
  physical addresses where the other version reads the whole file. This theory holds its sizes
  (\<open>temp/config.h\<close>), its \<open>Snippet\<close> (\<open>temp/scan.h\<close>), its input interface with \<open>calculForReturnData\<close>, which
  determines the types and lengths of the projected columns (\<open>temp/input.h\<close>), and its table manager
  (\<open>temp/csd_table_manager.cc\<close>).

  The constructor of \<open>Snippet\<close> goes over the document in the stages of \<open>Input_Model\<close>; what is the same there (the
  accessors, the extents of the block list, the values of a projection, the read loop of the socket) is shared.
  This version has no \<open>groupBy\<close> and no inserted rows: those fields stay empty.
\<close>

section \<open>Sizes\<close>

definition PBA_BUFF_SIZE :: nat where "PBA_BUFF_SIZE = NUM_OF_BLOCKS * 5000"

lemmas pba_sizes = NUM_OF_BLOCKS_def PBA_BUFF_SIZE_def

section \<open>Snippets\<close>

record pba_Snippet = Snippet +
  sn_projection_length :: "int list"
  sn_seek_pk_list :: "string list"

definition pba_read_header :: "json \<Rightarrow> (int \<times> pba_Snippet) res" where
  "pba_read_header doc =
     bindE (get_int doc ''queryID'') (\<lambda>qid.
     bindE (get_int doc ''workID'') (\<lambda>wid.
     bindE (get_string doc ''csdName'') (\<lambda>csd.
     bindE (get_string doc ''tableName'') (\<lambda>tn.
     bindE (get_int doc ''primaryKey'') (\<lambda>primary_count.
       Inr (primary_count,
         \<lparr> sn_work_id = wid, sn_query_id = qid, sn_csd_name = csd, sn_table_name = tn,
           sn_table_col = [], sn_table_offset = [], sn_table_offlen = [], sn_table_datatype = [],
           sn_block_info_list = [], sn_total_block_count = 0, sn_colindexmap = Map.empty,
           sn_primary_key_list = [],
           sn_kNumInternalBytes = (if primary_count = 0 then 8 else 0),
           sn_primary_length = None, sn_table_filter = [], sn_column_projection = [],
           sn_projection_datatype = [], sn_groupby_col = [], sn_scan_type = Full_Scan,
           sn_inserted_key = [], sn_inserted_value = [], sn_projection_length = [], sn_seek_pk_list = [] \<rparr>))))))"

definition pba_read_blocks :: "json \<Rightarrow> pba_Snippet \<Rightarrow> pba_Snippet res" where
  "pba_read_blocks doc sn =
     bindE (json_member doc ''pba'') (\<lambda>pba. bindE (get_array pba ''blockList'') (\<lambda>bl. foldE add_extent bl sn))"

text \<open>
  One column. The list of key columns grows; their total length is set to 0 again in every round.
\<close>

definition pba_add_column :: "json \<Rightarrow> int \<Rightarrow> nat \<Rightarrow> pba_Snippet \<Rightarrow> pba_Snippet res" where
  "pba_add_column doc primary_count j sn =
     bindE (elem_string doc ''tableCol'' j) (\<lambda>col.
     bindE (elem_int doc ''tableOffset'' j) (\<lambda>startoff.
     bindE (elem_int doc ''tableOfflen'' j) (\<lambda>offlen.
     bindE (elem_int doc ''tableDatatype'' j) (\<lambda>dt.
       let sn = sn\<lparr> sn_table_col := sn_table_col sn @ [col],
                    sn_table_offset := sn_table_offset sn @ [startoff],
                    sn_table_offlen := sn_table_offlen sn @ [offlen],
                    sn_table_datatype := sn_table_datatype sn @ [dt],
                    sn_colindexmap := map_insert (sn_colindexmap sn) col (int j),
                    sn_primary_length := Some 0 \<rparr>
       in if int j < primary_count then
            Inr (sn\<lparr> sn_primary_key_list := sn_primary_key_list sn @
                        [\<lparr> key_name = col, key_type = dt, key_length = offlen \<rparr>],
                     sn_primary_length := map_option (\<lambda>n. n + offlen) (sn_primary_length sn) \<rparr>)
          else Inr sn))))"

definition pba_read_columns :: "json \<Rightarrow> int \<Rightarrow> pba_Snippet \<Rightarrow> pba_Snippet res" where
  "pba_read_columns doc primary_count sn =
     bindE (get_array doc ''tableCol'') (\<lambda>tc. foldE (pba_add_column doc primary_count) [0..<length tc] sn)"

definition pba_read_projections :: "json \<Rightarrow> pba_Snippet \<Rightarrow> pba_Snippet res" where
  "pba_read_projections doc sn =
     bindE (get_array doc ''columnProjection'') (\<lambda>ps.
     bindE (mapE read_projection ps) (\<lambda>xs. Inr (sn\<lparr> sn_column_projection := xs \<rparr>)))"

definition pba_read_filter :: "(json \<Rightarrow> string) \<Rightarrow> json \<Rightarrow> pba_Snippet \<Rightarrow> (bool \<times> pba_Snippet) res" where
  \<comment> \<open>with \<open>only_scan\<close>\<close>
  "pba_read_filter write doc sn =
     bindE (get_array doc ''tableFilter'') (\<lambda>tf.
       if tf \<noteq> [] then Inr (False, sn\<lparr> sn_table_filter := write (JObj [(''tableFilter'', JArr tf)]) \<rparr>)
       else Inr (True, sn))"

definition HasMember :: "json \<Rightarrow> string \<Rightarrow> bool" where
  "HasMember doc k \<longleftrightarrow> (case json_member doc k of Inr _ \<Rightarrow> True | Inl _ \<Rightarrow> False)"

definition pba_read_seek :: "json \<Rightarrow> pba_Snippet \<Rightarrow> (bool \<times> pba_Snippet) res" where
  \<comment> \<open>with \<open>index_scan\<close>\<close>
  "pba_read_seek doc sn =
     (if HasMember doc ''seekPKList'' then
        bindE (get_array doc ''seekPKList'') (\<lambda>pks.
        bindE (mapE GetString pks) (\<lambda>xs. Inr (True, sn\<lparr> sn_seek_pk_list := xs \<rparr>)))
      else Inr (False, sn))"

definition pba_snippet_of_json :: "(json \<Rightarrow> string) \<Rightarrow> json \<Rightarrow> pba_Snippet res" where
  "pba_snippet_of_json write doc =
     bindE (pba_read_header doc) (\<lambda>(primary_count, sn).
     bindE (pba_read_blocks doc sn) (\<lambda>sn.
     bindE (pba_read_columns doc primary_count sn) (\<lambda>sn.
     bindE (pba_read_projections doc sn) (\<lambda>sn.
     bindE (pba_read_filter write doc sn) (\<lambda>(only_scan, sn).
     bindE (pba_read_seek doc sn) (\<lambda>(index_scan, sn).
       Inr (sn\<lparr> sn_scan_type := decide_scan_type index_scan only_scan \<rparr>)))))))"

section \<open>Results\<close>

record pba_Result = Result +
  rs_projection_length :: "int list"     \<comment> \<open>\<open>filter_info.projection_length\<close>\<close>

definition pba_new_Result :: "buffer \<Rightarrow> int \<Rightarrow> int \<Rightarrow> string \<Rightarrow> int \<Rightarrow> FilterInfo \<Rightarrow> int list \<Rightarrow> int \<Rightarrow> pba_Result" where
  "pba_new_Result junk qid wid csd tot fi lengths rbc =
     \<lparr> rs_query_id = qid, rs_work_id = wid, rs_csd_name = csd, rs_total_block_count = tot,
       rs_filter_info = fi, rs_row_count = 0, rs_length = 0, rs_data = clear4 junk,
       rs_row_offset = [], rs_result_block_count = rbc, rs_projection_length = lengths \<rparr>"

section \<open>What the projected columns will look like\<close>

definition col_map :: "string list \<Rightarrow> int list \<Rightarrow> string \<rightharpoonup> int" where
  \<comment> \<open>\<open>insert\<close> keeps the first entry\<close>
  "col_map cols xs = fold (\<lambda>(c, x) m. map_insert m c x) (zip cols xs) Map.empty"

definition return_type :: "(string \<rightharpoonup> int) \<Rightarrow> (string \<rightharpoonup> int) \<Rightarrow> Projection \<Rightarrow> (int \<times> int) res" where
  "return_type col_type col_offlen p =
     bindE (vec_at (proj_values p) 0) (\<lambda>first.
       let column = (lookup0 col_type first, lookup0 col_offlen first);
           multiple_count = length (filter (\<lambda>v. v = ''*'') (proj_values p))
       in if first = ''CASE'' then Inr (3, 4)
          else if first = ''EXTRACT'' then Inr (3, 4)
          else if first = ''SUBSTRING'' then Inr (254, 2)
          else if length (proj_values p) = 1 then Inr column
          else if multiple_count = 1 then Inr (246, 8)
          else if multiple_count = 2 then Inr (246, 9)
          else Inr column)"

definition calculForReturnData :: "pba_Snippet \<Rightarrow> pba_Snippet res" where
  "calculForReturnData sn =
     (let col_type = col_map (sn_table_col sn) (sn_table_datatype sn);
          col_offlen = col_map (sn_table_col sn) (sn_table_offlen sn)
      in bindE (mapE (return_type col_type col_offlen) (sn_column_projection sn)) (\<lambda>xs.
           Inr (sn\<lparr> sn_projection_datatype := map fst xs, sn_projection_length := map snd xs \<rparr>)))"

text \<open>One accepted connection of \<open>InputSnippet\<close>.\<close>

definition pba_InputSnippet ::
  "(string \<Rightarrow> json) \<Rightarrow> (json \<Rightarrow> string) \<Rightarrow> nat \<Rightarrow> string option list \<Rightarrow> pba_Snippet WorkQueue \<Rightarrow>
   pba_Snippet WorkQueue res option" where
  "pba_InputSnippet parse write len reads q =
     (case read_loop len [] reads of
        Some (Received json) \<Rightarrow>
          Some (bindE (pba_snippet_of_json write (parse json)) (\<lambda>sn.
                bindE (calculForReturnData sn) (\<lambda>sn. Inr (push_work sn q))))
      | _ \<Rightarrow> None)"

section \<open>The table manager\<close>

record TableRep =
  dev_name :: string
  blocks_maybe_compressed :: bool
  blocks_definitely_zstd_compressed :: bool
  immortal_table :: bool
  read_amp_bytes_per_bit :: int
  compression_name :: string

definition pba_table_entries :: "(string \<times> TableRep) list" where
  "pba_table_entries =
     (let blk3 = \<lparr> dev_name = ''/dev/ngd-blk3'', blocks_maybe_compressed = False,
            blocks_definitely_zstd_compressed = False, immortal_table = False, read_amp_bytes_per_bit = 0,
            compression_name = ''NoCompression'' \<rparr>
      in [(''lineitem'', blk3), (''customer'', blk3), (''nation'', blk3), (''orders'', blk3), (''part'', blk3),
          (''partsupp'', blk3), (''region'', blk3), (''supplier'', blk3), (''lineitemNum1'', blk3), (''lineitemNum2'', blk3),
          (''compress.lineitem'', \<lparr> dev_name = ''./001928.sst'', blocks_maybe_compressed = True,
             blocks_definitely_zstd_compressed = True, immortal_table = False, read_amp_bytes_per_bit = 0,
             compression_name = ''ZSTD'' \<rparr>),
          (''uncompress.lineitem'', blk3\<lparr> dev_name := ''./001699.sst'' \<rparr>)])"

definition pba_initCSDTableManager :: "(string \<rightharpoonup> TableRep) \<Rightarrow> (string \<rightharpoonup> TableRep)" where
  "pba_initCSDTableManager m = fold (\<lambda>(table, tr) m. map_insert m table tr) pba_table_entries m"

definition pba_getTableRep :: "string \<Rightarrow> (string \<rightharpoonup> TableRep) \<Rightarrow> TableRep \<times> (string \<rightharpoonup> TableRep)" where
  \<comment> \<open>\<open>operator[]\<close> adds a value-initialised entry for an unknown name\<close>
  "pba_getTableRep table_name m =
     (case m table_name of
        Some tr \<Rightarrow> (tr, m)
      | None \<Rightarrow> (let tr = \<lparr> dev_name = [], blocks_maybe_compressed = False,
            blocks_definitely_zstd_compressed = False, immortal_table = False, read_amp_bytes_per_bit = 0,
            compression_name = [] \<rparr> in (tr, m(table_name \<mapsto> tr))))"

section \<open>What a snippet contains\<close>

definition pba_keys :: "int \<Rightarrow> nat \<Rightarrow> string list \<Rightarrow> int list \<Rightarrow> int list \<Rightarrow> PrimaryKey list" where
  \<comment> \<open>the key columns among the first \<open>k\<close>\<close>
  "pba_keys pc k cols lens types =
     map (\<lambda>i. \<lparr> key_name = cols ! i, key_type = types ! i, key_length = lens ! i \<rparr>) [0..<min k (nat pc)]"

definition pba_columns_read :: "int \<Rightarrow> nat \<Rightarrow> string list \<Rightarrow> int list \<Rightarrow> int list \<Rightarrow> int list \<Rightarrow> pba_Snippet \<Rightarrow> bool" where
  "pba_columns_read pc k cols offs lens types sn \<longleftrightarrow>
     sn_table_col sn = take k cols \<and> sn_table_offset sn = take k offs \<and>
     sn_table_offlen sn = take k lens \<and> sn_table_datatype sn = take k types \<and>
     (\<forall>i<k. sn_colindexmap sn (cols ! i) = Some (int i)) \<and> dom (sn_colindexmap sn) = set (take k cols) \<and>
     sn_primary_key_list sn = pba_keys pc k cols lens types \<and>
     sn_primary_length sn = (if k = 0 then None else Some (if int k \<le> pc then lens ! (k - 1) else 0))"

definition pba_frame :: "pba_Snippet \<Rightarrow> pba_Snippet \<Rightarrow> bool" where
  "pba_frame sn sn' \<longleftrightarrow> sn_block_info_list sn' = sn_block_info_list sn \<and> sn_total_block_count sn' = sn_total_block_count sn \<and>
     sn_kNumInternalBytes sn' = sn_kNumInternalBytes sn \<and> sn_query_id sn' = sn_query_id sn \<and> sn_work_id sn' = sn_work_id sn \<and>
     sn_table_name sn' = sn_table_name sn"

lemma pba_add_column_ok:
  assumes doc: "schema_doc doc cols offs lens types" and dist: "distinct cols" and k: "k < length cols"
    and sn: "pba_columns_read pc k cols offs lens types sn"
  shows "\<exists>sn'. pba_add_column doc pc k sn = Inr sn' \<and> pba_columns_read pc (Suc k) cols offs lens types sn' \<and> pba_frame sn sn'"
proof -
  have new: "cols ! k \<notin> set (take k cols)"
    using dist k by (metis distinct_take not_distinct_conv_prefix take_Suc_conv_app_nth)
  then have none: "sn_colindexmap sn (cols ! k) = None" using sn by (auto simp: pba_columns_read_def)
  have old: "cols ! i \<noteq> cols ! k" if "i < k" for i using that k dist by (simp add: nth_eq_iff_index_eq)
  have keys: "pba_keys pc (Suc k) cols lens types = (if int k < pc
      then pba_keys pc k cols lens types @ [\<lparr> key_name = cols ! k, key_type = types ! k, key_length = lens ! k \<rparr>]
      else pba_keys pc k cols lens types)"
  proof (cases "int k < pc")
    case True
    then have "min (Suc k) (nat pc) = Suc k" "min k (nat pc) = k" by linarith+
    with True show ?thesis by (simp add: pba_keys_def)
  next
    case False
    then have "min (Suc k) (nat pc) = min k (nat pc)" by linarith
    with False show ?thesis by (simp add: pba_keys_def)
  qed
  have elems: "elem_string doc ''tableCol'' k = Inr (cols ! k)" "elem_int doc ''tableOffset'' k = Inr (offs ! k)"
    "elem_int doc ''tableOfflen'' k = Inr (lens ! k)" "elem_int doc ''tableDatatype'' k = Inr (types ! k)"
    using doc k by (simp_all add: elem_string_nth elem_int_nth schema_doc_def)
  let ?sn = "sn\<lparr> sn_table_col := sn_table_col sn @ [cols ! k], sn_table_offset := sn_table_offset sn @ [offs ! k],
     sn_table_offlen := sn_table_offlen sn @ [lens ! k], sn_table_datatype := sn_table_datatype sn @ [types ! k],
     sn_colindexmap := map_insert (sn_colindexmap sn) (cols ! k) (int k), sn_primary_length := Some (if int k < pc then lens ! k else 0),
     sn_primary_key_list := pba_keys pc (Suc k) cols lens types \<rparr>"
  have "pba_add_column doc pc k sn = Inr ?sn"
    using sn keys by (cases sn) (simp add: pba_add_column_def elems pba_columns_read_def)
  moreover have "pba_columns_read pc (Suc k) cols offs lens types ?sn"
    using doc k sn none old by (auto simp: pba_columns_read_def schema_doc_def take_Suc_conv_app_nth less_Suc_eq map_insert_def)
  ultimately show ?thesis by (auto simp: pba_frame_def)
qed

lemma pba_add_columns_ok:
  assumes doc: "schema_doc doc cols offs lens types" and dist: "distinct cols"
    and sn: "pba_columns_read pc 0 cols offs lens types sn"
  shows "k \<le> length cols \<Longrightarrow> \<exists>sn'. foldE (pba_add_column doc pc) [0..<k] sn = Inr sn' \<and>
    pba_columns_read pc k cols offs lens types sn' \<and> pba_frame sn sn'"
proof (induction k)
  case (Suc k)
  then obtain sn1 where "foldE (pba_add_column doc pc) [0..<k] sn = Inr sn1" "pba_columns_read pc k cols offs lens types sn1"
    "pba_frame sn sn1" by auto
  with pba_add_column_ok [OF doc dist _ this(2)] Suc.prems show ?case by (fastforce simp: foldE_append pba_frame_def)
qed (use sn in \<open>simp add: pba_frame_def\<close>)

text \<open>The stages before the columns leave them empty.\<close>

lemma pba_columns_read_update [simp]:
  "pba_columns_read pc k cols offs lens types (sn\<lparr> sn_block_info_list := bl \<rparr>) = pba_columns_read pc k cols offs lens types sn"
  "pba_columns_read pc k cols offs lens types (sn\<lparr> sn_total_block_count := n \<rparr>) = pba_columns_read pc k cols offs lens types sn"
  "pba_columns_read pc k cols offs lens types (sn\<lparr> sn_column_projection := ps \<rparr>) = pba_columns_read pc k cols offs lens types sn"
  "pba_columns_read pc k cols offs lens types (sn\<lparr> sn_table_filter := f \<rparr>) = pba_columns_read pc k cols offs lens types sn"
  "pba_columns_read pc k cols offs lens types (sn\<lparr> sn_seek_pk_list := xs \<rparr>) = pba_columns_read pc k cols offs lens types sn"
  by (simp_all add: pba_columns_read_def)

lemma pba_add_extent_columns:
  assumes "add_extent e sn = Inr sn'" "pba_columns_read pc k cols offs lens types sn"
  shows "pba_columns_read pc k cols offs lens types sn'"
proof -
  from assms(1) obtain off ls st where run: "foldE add_block ls (off, sn) = Inr st" and st: "sn' = snd st"
    by (auto simp: add_extent_def bindE_Inr_conv)
  have "pba_columns_read pc k cols offs lens types (snd st)"
    by (rule foldE_invariant [OF run]) (auto simp: assms(2) add_block_def bindE_Inr_conv)
  with st show ?thesis by simp
qed

lemma pba_read_header_start:
  assumes "pba_read_header doc = Inr (pc, sn)"
  shows "pba_columns_read pc 0 cols offs lens types sn \<and> get_int doc ''primaryKey'' = Inr pc \<and>
    sn_block_info_list sn = [] \<and> sn_total_block_count sn = 0"
  using assms by (auto simp: pba_read_header_def bindE_Inr_conv pba_columns_read_def pba_keys_def)

lemma length_all_blocks: "length (all_blocks n es) = length (concat (map snd es))"
proof -
  have "length (extent_blocks n off ls) = length ls" for n off ls by (induction ls arbitrary: n off) auto
  then show ?thesis by (induction es arbitrary: n) auto
qed

text \<open>
  C32. A snippet of the block version: the schema and the map from names to positions are those of the document, the
  key is the list of the first \<open>primaryKey\<close> columns, the blocks of each extent under \<open>pba\<close> follow each other without a
  gap and are counted, and the scan type says whether there is a filter and whether there is a list of keys to seek.
\<close>

theorem pba_snippet_contents:
  assumes "pba_snippet_of_json write doc = Inr sn" "schema_doc doc cols offs lens types" "distinct cols"
    and "get_int doc ''primaryKey'' = Inr pc" "0 \<le> pc" "pc \<le> int (length cols)"
    and "json_member doc ''pba'' = Inr pba" "json_member pba ''blockList'' = Inr (JArr (map extent_json es))" "list_all small_extent es"
    and "json_member doc ''tableFilter'' = Inr (JArr tf)"
  shows "sn_table_col sn = cols \<and> sn_table_offset sn = offs \<and> sn_table_offlen sn = lens \<and> sn_table_datatype sn = types \<and>
    dom (sn_colindexmap sn) = set cols \<and> (\<forall>i<length cols. sn_colindexmap sn (cols ! i) = Some (int i)) \<and>
    map key_name (sn_primary_key_list sn) = take (nat pc) cols \<and>
    sn_block_info_list sn = all_blocks 0 es \<and> sn_total_block_count sn = int (length (sn_block_info_list sn)) \<and>
    sn_scan_type sn = decide_scan_type (HasMember doc ''seekPKList'') (tf = [])"
proof -
  from assms(1) obtain pc' s0 s1 s2 s3 s4 s5 os ix where s0: "pba_read_header doc = Inr (pc', s0)"
    and s1: "pba_read_blocks doc s0 = Inr s1" and s2: "pba_read_columns doc pc' s1 = Inr s2"
    and s3: "pba_read_projections doc s2 = Inr s3" and s4: "pba_read_filter write doc s3 = Inr (os, s4)"
    and s5: "pba_read_seek doc s4 = Inr (ix, s5)" and sn: "sn = s5\<lparr> sn_scan_type := decide_scan_type ix os \<rparr>"
    by (auto simp: pba_snippet_of_json_def bindE_Inr_conv)
  have pc': "pc' = pc" and c0: "pba_columns_read pc 0 cols offs lens types s0"
    and z: "sn_block_info_list s0 = []" "sn_total_block_count s0 = 0"
    using pba_read_header_start [OF s0, of cols offs lens types] assms(4) by auto
  have bl: "foldE add_extent (map extent_json es) s0 = Inr s1"
    using s1 assms(7,8) by (simp add: pba_read_blocks_def get_array_def)
  have c1: "pba_columns_read pc 0 cols offs lens types s1"
    by (rule foldE_invariant [where P = "pba_columns_read pc 0 cols offs lens types", OF bl c0]) (rule pba_add_extent_columns)
  have b1: "sn_block_info_list s1 = all_blocks 0 es" "sn_total_block_count s1 = int (length (all_blocks 0 es))"
    using add_extents_ok [OF assms(9), of s0] bl z by (auto simp: length_all_blocks)
  have "get_array doc ''tableCol'' = Inr (map JStr cols)" using assms(2) by (simp add: get_array_def schema_doc_def)
  with s2 pc' pba_add_columns_ok [OF assms(2,3) c1, of "length cols"]
  have c2: "pba_columns_read pc (length cols) cols offs lens types s2" "pba_frame s1 s2" by (auto simp: pba_read_columns_def)
  from s3 obtain ps where s3': "s3 = s2\<lparr> sn_column_projection := ps \<rparr>" by (auto simp: pba_read_projections_def bindE_Inr_conv)
  from s4 obtain f where s4': "s4 = s3 \<or> s4 = s3\<lparr> sn_table_filter := f \<rparr>"
    by (auto simp: pba_read_filter_def bindE_Inr_conv split: if_splits)
  from s5 obtain xs where s5': "s5 = s4 \<or> s5 = s4\<lparr> sn_seek_pk_list := xs \<rparr>"
    by (auto simp: pba_read_seek_def bindE_Inr_conv split: if_splits)
  have c5: "pba_columns_read pc (length cols) cols offs lens types s5 \<and> sn_block_info_list s5 = sn_block_info_list s2 \<and>
      sn_total_block_count s5 = sn_total_block_count s2"
    using s3' s4' s5' c2(1) by auto
  have types: "os = (tf = [])" "ix = HasMember doc ''seekPKList''"
    using s4 s5 assms(10) by (auto simp: pba_read_filter_def get_array_def pba_read_seek_def bindE_Inr_conv split: if_splits)
  have "map key_name (sn_primary_key_list s5) = take (nat pc) cols"
    using c5 assms(5,6) by (intro nth_equalityI) (simp_all add: pba_columns_read_def pba_keys_def)
  with c5 c2(2) b1 types assms(2) show ?thesis unfolding sn by (simp add: pba_columns_read_def pba_frame_def schema_doc_def)
qed

definition ex_pba_doc :: json where
  "ex_pba_doc = JObj [(''queryID'', JInt 1), (''workID'', JInt 2), (''csdName'', JStr ''1''),
     (''tableName'', JStr ''orders''), (''primaryKey'', JInt 1),
     (''pba'', JObj [(''blockList'', JArr (map extent_json [(4096, [10, 20])]))]),
     (''tableCol'', JArr (map JStr [''o_orderkey'', ''o_custkey''])),
     (''tableOffset'', JArr (map JInt [0, 4])), (''tableOfflen'', JArr (map JInt [4, 4])),
     (''tableDatatype'', JArr (map JInt [3, 3])), (''columnProjection'', JArr []), (''tableFilter'', JArr [])]"

lemma ex_pba_doc_schema: "schema_doc ex_pba_doc [''o_orderkey'', ''o_custkey''] [0, 4] [4, 4] [3, 3]"
  by (simp add: schema_doc_def ex_pba_doc_def is_int32_def)

lemma ex_pba_doc_json: "\<exists>sn. pba_snippet_of_json write ex_pba_doc = Inr sn"
  by (simp add: pba_snippet_of_json_def pba_read_header_def pba_read_blocks_def pba_read_columns_def pba_read_projections_def
      pba_read_filter_def pba_read_seek_def HasMember_def get_int_def get_string_def get_array_def elem_int_def elem_string_def json_elem_def
      ex_pba_doc_def extent_json_def add_extent_def add_block_def pba_add_column_def Let_def is_int32_def)

theorem pba_snippet_contents_witness:
  "\<exists>sn. pba_snippet_of_json (\<lambda>_. []) ex_pba_doc = Inr sn \<and> map key_name (sn_primary_key_list sn) = [''o_orderkey''] \<and>
     sn_block_info_list sn = all_blocks 0 [(4096, [10, 20])] \<and> sn_scan_type sn = Full_Scan"
proof -
  obtain sn where sn: "pba_snippet_of_json (\<lambda>_. []) ex_pba_doc = Inr sn" using ex_pba_doc_json by blast
  have "get_int ex_pba_doc ''primaryKey'' = Inr 1" by (simp add: ex_pba_doc_def get_int_def is_int32_def)
  from pba_snippet_contents [OF sn ex_pba_doc_schema _ this, where es = "[(4096, [10, 20])]" and tf = "[]"] sn show ?thesis
    by (auto simp: ex_pba_doc_def small_extent_def HasMember_def decide_scan_type_def)
qed

text \<open>
  The length of the key is set to 0 again in every round of the column loop: if the last column does not belong to the
  key it stays 0, and the scan puts no key column back, although the list of key columns is complete.
\<close>

lemma pba_key_length_lost:
  assumes "schema_doc doc cols offs lens types" "distinct cols" "pba_columns_read pc 0 cols offs lens types sn"
    and "0 \<le> pc" "pc < int (length cols)" "pba_read_columns doc pc sn = Inr sn'"
  shows "sn_primary_length sn' = Some 0"
proof -
  have "get_array doc ''tableCol'' = Inr (map JStr cols)" using assms(1) by (simp add: get_array_def schema_doc_def)
  with pba_add_columns_ok [OF assms(1-3), of "length cols"] assms(4-6) show ?thesis
    by (cases cols) (auto simp: pba_read_columns_def pba_columns_read_def)
qed

end
