(* ===== verification/Pba_Scan.thy ===== *)
theory Pba_Scan
  imports Pba_Input Scan_Model
begin

text \<open>
  The scan layer of the block version (\<open>temp/scan.cc\<close>): \<open>Scanning\<close> goes over the blocks of a snippet,
  \<open>BlockScan\<close> appends the rows of one block to the result, with the columns of the primary key put back
  in front, and a result is sent after every 15 blocks and after the last. RocksDB's \<open>SstBlockReader\<close>
  is a parameter: for a table and a block it gives the entries its iterator delivers.

  Where the other version flushes a result when the next row does not fit, this one relies on 15
  blocks fitting into \<open>BUFF_SIZE\<close>; the properties show when that is so. \<open>WalScan\<close>, \<open>getPrimaryKeyData\<close>, and the
  conversions to and from hexadecimal text have the same text as in \<open>Scan_Keys\<close> and \<open>Scan_Model\<close> or are not called.
\<close>

section \<open>State and operations\<close>

record pba_ScanState =
  ps_result :: pba_Result
  ps_current_block_count :: int
  ps_total_block_row_count :: int
  ps_check :: bool
  ps_origin_index_num :: string
  ps_index_valid :: bool
  ps_filterq :: "pba_Result WorkQueue"
  ps_mergeq :: "pba_Result WorkQueue"
  ps_sent :: "pba_Result list"     \<comment> \<open>what \<open>EnQueueData\<close> was called with\<close>

definition pba_EnQueueData ::
  "pba_Result \<Rightarrow> Scan_Type \<Rightarrow> pba_Result WorkQueue \<times> pba_Result WorkQueue \<Rightarrow> pba_Result WorkQueue \<times> pba_Result WorkQueue" where
  "pba_EnQueueData r t qs = (case qs of (fq, mq) \<Rightarrow>
     (case t of
        Full_Scan_Filter \<Rightarrow> (push_work r fq, mq)
      | Full_Scan \<Rightarrow> (fq, push_work r mq)
      | Index_Scan_Filter \<Rightarrow> if rs_length r \<noteq> 0 then (push_work r fq, mq) else (fq, push_work r mq)
      | Index_Scan \<Rightarrow> (fq, push_work r mq)))"

text \<open>
  The row of an entry. \<open>total_row_data\<close> has \<open>primary_length + row_size\<close> bytes.
\<close>

definition pba_row :: "pba_Snippet \<Rightarrow> string \<Rightarrow> string \<Rightarrow> string res" where
  "pba_row sn ikey row =
     (case sn_primary_length sn of
        None \<Rightarrow> Inl Uninitialised
      | Some pl \<Rightarrow>
          if pl \<noteq> 0 then
            bindE (getPrimaryKeyData ikey (sn_primary_key_list sn)) (\<lambda>pk.
              if int (length pk) \<le> pl then Inr (pk @ row) else Inl OutOfBounds)
          else Inr row)"

text \<open>One round of the loop of \<open>BlockScan\<close>; the flag says that the loop is left.\<close>

definition pba_scan_entry :: "pba_Snippet \<Rightarrow> sst_entry \<Rightarrow> bool \<times> pba_ScanState \<Rightarrow> (bool \<times> pba_ScanState) res" where
  "pba_scan_entry sn e bst = (case bst of (_, st) \<Rightarrow>
     if \<not> sst_ok e then Inr (True, st)
     else
       bindE (ExtractUserKey (sn_kNumInternalBytes sn) (sst_key e)) (\<lambda>(ikey, _).
       bindE (key_slice ikey 0 (int indexnum_size)) (\<lambda>index_num.
         let st = (if ps_check st then st\<lparr> ps_origin_index_num := index_num, ps_check := False \<rparr> else st)
         in if ps_origin_index_num st \<noteq> index_num then Inr (True, st\<lparr> ps_index_valid := False \<rparr>)
            else
              bindE (pba_row sn ikey (sst_value e)) (\<lambda>row.
              bindE (scan_append_in PBA_BUFF_SIZE row (ps_result st)) (\<lambda>r.
                Inr (False, st\<lparr> ps_result := r, ps_total_block_row_count := ps_total_block_row_count st + 1 \<rparr>))))))"

definition pba_BlockScan :: "pba_Snippet \<Rightarrow> sst_entry list \<Rightarrow> pba_ScanState \<Rightarrow> pba_ScanState res" where
  "pba_BlockScan sn entries st =
     (if sn_scan_type sn = Full_Scan_Filter \<or> sn_scan_type sn = Full_Scan then
        bindE (break_loop (pba_scan_entry sn) fst entries (False, st)) (\<lambda>(_, st). Inr st)
      else Inr st)"

definition pba_send :: "pba_Snippet \<Rightarrow> pba_ScanState \<Rightarrow> pba_ScanState" where
  \<comment> \<open>\<open>EnQueueData(scanResult, snippet); scanResult.InitResult()\<close>\<close>
  "pba_send sn st =
     (case pba_EnQueueData (ps_result st) (sn_scan_type sn) (ps_filterq st, ps_mergeq st) of (fq, mq) \<Rightarrow>
        st\<lparr> ps_filterq := fq, ps_mergeq := mq, ps_sent := ps_sent st @ [ps_result st],
            ps_result := InitResult (ps_result st) \<rparr>)"

text \<open>One round of the loop over the blocks.\<close>

definition pba_scan_block ::
  "pba_Snippet \<Rightarrow> (BlockInfo \<Rightarrow> sst_entry list) \<Rightarrow> BlockInfo \<Rightarrow> bool \<times> pba_ScanState \<Rightarrow> (bool \<times> pba_ScanState) res" where
  "pba_scan_block sn reader blockInfo bst = (case bst of (_, st) \<Rightarrow>
     let r = ps_result st;
         st = st\<lparr> ps_current_block_count := ps_current_block_count st + 1,
                  ps_result := r\<lparr> rs_result_block_count := rs_result_block_count r + 1 \<rparr> \<rparr>
     in bindE (pba_BlockScan sn (reader blockInfo) st) (\<lambda>st.
        let r = ps_result st;
            st = (if \<not> ps_index_valid st then
                    st\<lparr> ps_result := r\<lparr> rs_result_block_count := rs_result_block_count r +
                                          (sn_total_block_count sn - ps_current_block_count st) \<rparr>,
                        ps_current_block_count := sn_total_block_count sn \<rparr>
                  else st)
        in if ps_current_block_count st = sn_total_block_count sn then Inr (True, pba_send sn st)
           else if ps_current_block_count st mod int NUM_OF_BLOCKS = 0 then Inr (False, pba_send sn st)
           else Inr (False, st)))"

definition pba_scan_start ::
  "buffer \<Rightarrow> pba_Snippet \<Rightarrow> string \<Rightarrow> pba_Result WorkQueue \<Rightarrow> pba_Result WorkQueue \<Rightarrow> pba_ScanState" where
  "pba_scan_start junk sn origin fq mq =
     \<lparr> ps_result = pba_new_Result junk (sn_query_id sn) (sn_work_id sn) (sn_csd_name sn)
                     (sn_total_block_count sn) (filter_info_of sn) (sn_projection_length sn) 0,
       ps_current_block_count = 0, ps_total_block_row_count = 0, ps_check = True, ps_origin_index_num = origin,
       ps_index_valid = True, ps_filterq = fq, ps_mergeq = mq, ps_sent = [] \<rparr>"

definition pba_scan_snippet ::
  "(TableRep \<Rightarrow> BlockInfo \<Rightarrow> sst_entry list) \<Rightarrow> buffer \<Rightarrow> (string \<rightharpoonup> TableRep) \<Rightarrow> pba_Snippet \<Rightarrow> string \<Rightarrow>
   pba_Result WorkQueue \<Rightarrow> pba_Result WorkQueue \<Rightarrow> ((string \<rightharpoonup> TableRep) \<times> pba_ScanState) res" where
  "pba_scan_snippet reader junk tm sn origin fq mq =
     (case pba_getTableRep (sn_table_name sn) tm of (table_rep, tm) \<Rightarrow>
        bindE (break_loop (pba_scan_block sn (reader table_rep)) fst (sn_block_info_list sn)
                 (False, pba_scan_start junk sn origin fq mq)) (\<lambda>(_, st). Inr (tm, st)))"

text \<open>One turn of the loop of \<open>Scanning\<close>.\<close>

definition pba_Scanning ::
  "(TableRep \<Rightarrow> BlockInfo \<Rightarrow> sst_entry list) \<Rightarrow> buffer \<Rightarrow> string \<Rightarrow>
   (string \<rightharpoonup> TableRep) \<times> pba_Snippet WorkQueue \<times> pba_Result WorkQueue \<times> pba_Result WorkQueue \<Rightarrow>
   ((string \<rightharpoonup> TableRep) \<times> pba_Snippet WorkQueue \<times> pba_Result WorkQueue \<times> pba_Result WorkQueue) res" where
  "pba_Scanning reader junk origin qs = (case qs of (tm, sq, fq, mq) \<Rightarrow>
     (case wait_and_pop 0 sq of
        (None, sq) \<Rightarrow> Inr (tm, sq, fq, mq)
      | (Some sn, sq) \<Rightarrow>
          bindE (pba_scan_snippet reader junk tm sn origin fq mq) (\<lambda>(tm, st).
            Inr (tm, sq, ps_filterq st, ps_mergeq st))))"

section \<open>What a block leaves alone\<close>

definition pba_of_snippet :: "pba_Snippet \<Rightarrow> pba_Result \<Rightarrow> bool" where
  "pba_of_snippet sn r \<longleftrightarrow> rs_query_id r = sn_query_id sn \<and> rs_work_id r = sn_work_id sn \<and>
     rs_csd_name r = sn_csd_name sn \<and> rs_total_block_count r = sn_total_block_count sn \<and>
     rs_filter_info r = filter_info_of sn \<and> rs_projection_length r = sn_projection_length sn"

lemma pba_of_snippet_fields [simp]:
  "pba_of_snippet sn (r\<lparr> rs_result_block_count := n \<rparr>) = pba_of_snippet sn r"
  "pba_of_snippet sn (InitResult r) = pba_of_snippet sn r"
  by (simp_all add: pba_of_snippet_def InitResult_def)

definition pba_keeps :: "pba_Snippet \<Rightarrow> pba_ScanState \<Rightarrow> pba_ScanState \<Rightarrow> bool" where
  "pba_keeps sn st st' \<longleftrightarrow> ps_current_block_count st' = ps_current_block_count st \<and> ps_sent st' = ps_sent st \<and>
     ps_filterq st' = ps_filterq st \<and> ps_mergeq st' = ps_mergeq st \<and>
     rs_result_block_count (ps_result st') = rs_result_block_count (ps_result st) \<and>
     (pba_of_snippet sn (ps_result st) \<longrightarrow> pba_of_snippet sn (ps_result st'))"

lemma pba_scan_entry_keeps:
  assumes "pba_scan_entry sn e (b, st) = Inr (b', st')"
  shows "pba_keeps sn st st'"
proof (cases "sst_ok e")
  case True
  with assms obtain ikey n index_num where *: "ExtractUserKey (sn_kNumInternalBytes sn) (sst_key e) = Inr (ikey, n)"
    "key_slice ikey 0 (int indexnum_size) = Inr index_num" by (auto simp: pba_scan_entry_def bindE_Inr_conv)
  define s0 where "s0 = (if ps_check st then st\<lparr> ps_origin_index_num := index_num, ps_check := False \<rparr> else st)"
  have s0: "pba_keeps sn st s0" by (simp add: s0_def pba_keeps_def)
  from assms True * have "st' = s0\<lparr> ps_index_valid := False \<rparr> \<or> (\<exists>row r. scan_append_in PBA_BUFF_SIZE row (ps_result s0) = Inr r \<and>
      st' = s0\<lparr> ps_result := r, ps_total_block_row_count := ps_total_block_row_count s0 + 1 \<rparr>)"
    by (cases "ps_check st") (auto simp: pba_scan_entry_def s0_def bindE_Inr_conv Let_def split: if_splits)
  with s0 show ?thesis
    by (auto simp: pba_keeps_def scan_append_in_def bindE_Inr_conv pba_of_snippet_def)
qed (use assms in \<open>auto simp: pba_scan_entry_def pba_keeps_def\<close>)

lemma pba_keeps_trans: "pba_keeps sn st st' \<Longrightarrow> pba_keeps sn st' st'' \<Longrightarrow> pba_keeps sn st st''"
  by (auto simp: pba_keeps_def)

lemma pba_keeps_refl [simp]: "pba_keeps sn st st"
  by (simp add: pba_keeps_def)

lemma pba_scan_loop_keeps:
  "break_loop (pba_scan_entry sn) fst es (b, st) = Inr (b', st') \<Longrightarrow> pba_keeps sn st st'"
proof (induction es arbitrary: b st)
  case (Cons e es)
  from Cons.prems obtain c s where s: "pba_scan_entry sn e (b, st) = Inr (c, s)" by (auto simp: bindE_Inr_conv)
  from pba_scan_entry_keeps [OF s] Cons s show ?case by (auto split: if_splits intro: pba_keeps_trans)
qed simp

lemma pba_BlockScan_keeps: "pba_BlockScan sn es st = Inr st' \<Longrightarrow> pba_keeps sn st st'"
  by (auto simp: pba_BlockScan_def bindE_Inr_conv split: if_splits dest: pba_scan_loop_keeps)

section \<open>The counts of the results\<close>

definition pba_routed :: "pba_Snippet \<Rightarrow> pba_Result WorkQueue \<times> pba_Result WorkQueue \<Rightarrow> pba_ScanState \<Rightarrow> bool" where
  "pba_routed sn qs st \<longleftrightarrow> list_all (pba_of_snippet sn) (ps_sent st) \<and>
     (ps_filterq st, ps_mergeq st) = fold (\<lambda>r. pba_EnQueueData r (sn_scan_type sn)) (ps_sent st) qs"

text \<open>The state before block \<open>k\<close>, and after the last block that is read.\<close>

definition pba_ready :: "pba_Snippet \<Rightarrow> pba_Result WorkQueue \<times> pba_Result WorkQueue \<Rightarrow> int \<Rightarrow> pba_ScanState \<Rightarrow> bool" where
  "pba_ready sn qs k st \<longleftrightarrow> pba_routed sn qs st \<and> pba_of_snippet sn (ps_result st) \<and> ps_index_valid st \<and>
     ps_current_block_count st = k \<and> rs_result_block_count (ps_result st) = k mod 15 \<and>
     sum_list (map rs_result_block_count (ps_sent st)) + k mod 15 = k \<and>
     list_all (\<lambda>r. 1 \<le> rs_result_block_count r \<and> rs_result_block_count r \<le> 15) (ps_sent st)"

definition pba_done :: "pba_Snippet \<Rightarrow> pba_Result WorkQueue \<times> pba_Result WorkQueue \<Rightarrow> pba_ScanState \<Rightarrow> bool" where
  "pba_done sn qs st \<longleftrightarrow> pba_routed sn qs st \<and>
     sum_list (map rs_result_block_count (ps_sent st)) = sn_total_block_count sn \<and>
     list_all (\<lambda>r. 1 \<le> rs_result_block_count r) (ps_sent st) \<and>
     (ps_index_valid st \<longrightarrow> list_all (\<lambda>r. rs_result_block_count r \<le> 15) (ps_sent st))"

lemma pba_send_fields [simp]:
  "ps_sent (pba_send sn st) = ps_sent st @ [ps_result st]" "ps_result (pba_send sn st) = InitResult (ps_result st)"
  "ps_current_block_count (pba_send sn st) = ps_current_block_count st" "ps_index_valid (pba_send sn st) = ps_index_valid st"
  "ps_check (pba_send sn st) = ps_check st" "ps_origin_index_num (pba_send sn st) = ps_origin_index_num st"
  by (simp_all add: pba_send_def split: prod.splits)

lemma pba_send_routed: "pba_routed sn qs st \<Longrightarrow> pba_of_snippet sn (ps_result st) \<Longrightarrow> pba_routed sn qs (pba_send sn st)"
  by (simp add: pba_routed_def pba_send_def split: prod.splits)

lemma InitResult_count [simp]: "rs_result_block_count (InitResult r) = 0"
  by (simp add: InitResult_def)

text \<open>The part of the round after \<open>BlockScan\<close>: the result \<open>counts_block\<close> with the block, and then is sent or not.\<close>

definition counts_block :: "pba_ScanState \<Rightarrow> pba_ScanState" where
  "counts_block st = st\<lparr> ps_current_block_count := ps_current_block_count st + 1,
     ps_result := (ps_result st)\<lparr> rs_result_block_count := rs_result_block_count (ps_result st) + 1 \<rparr> \<rparr>"

lemma next_mod_15: "((k::int) + 1) mod 15 = (if k mod 15 = 14 then 0 else k mod 15 + 1)"
proof -
  have "(k + 1) mod 15 = (k mod 15 + 1) mod 15" by (rule mod_add_left_eq [symmetric])
  moreover have "0 \<le> k mod 15" "k mod 15 < 15" by simp_all
  ultimately show ?thesis by (cases "k mod 15 = 14") simp_all
qed

lemma pba_scan_block_step:
  assumes "pba_ready sn qs k st" "0 \<le> k" "k < sn_total_block_count sn"
    and "pba_scan_block sn reader blk (b, st) = Inr (stop, st')"
  shows "if stop then pba_done sn qs st' else pba_ready sn qs (k + 1) st' \<and> k + 1 < sn_total_block_count sn"
proof -
  let ?t = "sn_total_block_count sn"
  from assms(4) obtain s where s: "pba_BlockScan sn (reader blk) (counts_block st) = Inr s"
    by (auto simp: pba_scan_block_def counts_block_def bindE_Inr_conv Let_def)
  have keep: "ps_current_block_count s = k + 1" "ps_sent s = ps_sent st" "pba_of_snippet sn (ps_result s)"
    "rs_result_block_count (ps_result s) = k mod 15 + 1" "pba_routed sn qs s"
    using pba_BlockScan_keeps [OF s] assms(1)
    by (simp_all add: pba_keeps_def counts_block_def pba_ready_def pba_routed_def)
  have old: "sum_list (map rs_result_block_count (ps_sent st)) + k mod 15 = k"
    "list_all (\<lambda>r. 1 \<le> rs_result_block_count r \<and> rs_result_block_count r \<le> 15) (ps_sent st)"
    using assms(1) by (simp_all add: pba_ready_def)
  have k15: "0 \<le> k mod 15" "k mod 15 < 15" by simp_all
  show ?thesis
  proof (cases "ps_index_valid s")
    case False
    let ?r = "(ps_result s)\<lparr> rs_result_block_count := rs_result_block_count (ps_result s) + (?t - (k + 1)) \<rparr>"
    let ?s = "s\<lparr> ps_result := ?r, ps_current_block_count := ?t \<rparr>"
    have st': "stop" "st' = pba_send sn ?s"
      using assms(4) s False keep(1) by (simp_all add: pba_scan_block_def counts_block_def Let_def)
    have "pba_routed sn qs st'" unfolding st'(2) using keep(3,5) by (intro pba_send_routed) (simp_all add: pba_routed_def)
    moreover have "list_all (\<lambda>r. 1 \<le> rs_result_block_count r) (ps_sent st)" using old(2) by (simp add: list_all_iff)
    ultimately show ?thesis using st' False keep(2,4) old(1) k15 assms(3) by (simp add: pba_done_def)
  next
    case True
    have mod: "(k + 1) mod 15 = (if k mod 15 = 14 then 0 else k mod 15 + 1)" by (rule next_mod_15)
    have sent: "pba_routed sn qs (pba_send sn s)" using keep(3,5) by (intro pba_send_routed)
    have split: "list_all (\<lambda>r. 1 \<le> rs_result_block_count r) (ps_sent st)" "list_all (\<lambda>r. rs_result_block_count r \<le> 15) (ps_sent st)"
      using old(2) by (simp_all add: list_all_iff)
    show ?thesis
    proof (cases "k + 1 = ?t")
      case last: True
      then have "stop" "st' = pba_send sn s"
        using assms(4) s True keep(1) by (simp_all add: pba_scan_block_def counts_block_def Let_def)
      moreover have "k mod 15 + 1 \<le> 15" using k15(2) by linarith
      ultimately show ?thesis using sent split keep(2,4) old(1) k15(1) last unfolding pba_done_def by simp
    next
      case go: False
      then have st': "\<not> stop" "st' = (if (k + 1) mod 15 = 0 then pba_send sn s else s)"
        using assms(4) s True keep(1)
        by (cases "(k + 1) mod 15 = 0"; simp add: pba_scan_block_def counts_block_def Let_def NUM_OF_BLOCKS_def)+
      have lt: "k + 1 < ?t" using go assms(3) by simp
      show ?thesis
      proof (cases "(k + 1) mod 15 = 0")
        case full: True
        then have "k mod 15 = 14" using mod k15 by (simp split: if_splits)
        with full st' sent keep old True lt show ?thesis by (simp add: pba_ready_def)
      next
        case False
        with mod have "(k + 1) mod 15 = k mod 15 + 1" by (simp split: if_splits)
        with False st' keep old True lt show ?thesis by (simp add: pba_ready_def)
      qed
    qed
  qed
qed

lemma pba_scan_blocks_done:
  assumes "break_loop (pba_scan_block sn reader) fst bs (b, st) = Inr (b', st')" "bs \<noteq> []"
    and "pba_ready sn qs k st" "0 \<le> k" "k + int (length bs) = sn_total_block_count sn"
  shows "pba_done sn qs st'"
  using assms
proof (induction bs arbitrary: b st k)
  case (Cons blk bs)
  from Cons.prems(1) obtain c s where s: "pba_scan_block sn reader blk (b, st) = Inr (c, s)"
    and rest: "(if c then Inr (c, s) else break_loop (pba_scan_block sn reader) fst bs (c, s)) = Inr (b', st')"
    by (auto simp: bindE_Inr_conv)
  from pba_scan_block_step [OF Cons.prems(3,4) _ s] Cons.prems(5)
  have step: "if c then pba_done sn qs s else pba_ready sn qs (k + 1) s \<and> k + 1 < sn_total_block_count sn" by simp
  show ?case
  proof (cases c)
    case True
    with rest step show ?thesis by simp
  next
    case False
    with step Cons.prems(5) have "bs \<noteq> []" by auto
    with Cons.IH [of c s "k + 1"] False rest step Cons.prems(4,5) show ?thesis by simp
  qed
qed simp

lemma pba_scan_start_ready: "pba_ready sn (fq, mq) 0 (pba_scan_start junk sn origin fq mq)"
  by (simp add: pba_ready_def pba_routed_def pba_scan_start_def pba_of_snippet_def pba_new_Result_def)

lemma pba_scan_snippet_done:
  assumes "pba_scan_snippet reader junk tm sn origin fq mq = Inr (tm', st)" "sn_block_info_list sn \<noteq> []"
    and "sn_total_block_count sn = int (length (sn_block_info_list sn))"
  shows "pba_done sn (fq, mq) st"
proof -
  from assms(1) obtain rd b where "break_loop (pba_scan_block sn rd) fst (sn_block_info_list sn)
      (False, pba_scan_start junk sn origin fq mq) = Inr (b, st)"
    by (auto simp: pba_scan_snippet_def bindE_Inr_conv split: prod.splits)
  from pba_scan_blocks_done [OF this assms(2) pba_scan_start_ready] assms(3) show ?thesis by simp
qed

section \<open>Blocks that fit\<close>

text \<open>The blocks of the table with index number \<open>p\<close>; \<open>rows\<close> gives the rows of a block.\<close>

definition pba_good_block :: "pba_Snippet \<Rightarrow> string \<Rightarrow> (BlockInfo \<Rightarrow> sst_entry list) \<Rightarrow> (BlockInfo \<Rightarrow> string list) \<Rightarrow> BlockInfo \<Rightarrow> bool" where
  "pba_good_block sn p reader rows blk \<longleftrightarrow> list_all (good_entry sn p) (reader blk) \<and>
     mapE (\<lambda>e. pba_row sn (sst_key e) (sst_value e)) (reader blk) = Inr (rows blk) \<and> length (concat (rows blk)) \<le> 5000"

definition pba_header :: "string \<Rightarrow> pba_ScanState \<Rightarrow> bool" where
  "pba_header p st \<longleftrightarrow> ps_check st \<or> ps_origin_index_num st = p"

lemma pba_scan_entry_good:
  assumes "good_entry sn p e" "pba_header p st" "pba_row sn (sst_key e) (sst_value e) = Inr row"
    and "result_rows_in PBA_BUFF_SIZE (ps_result st) rows" "rs_length (ps_result st) + length row \<le> PBA_BUFF_SIZE"
  shows "\<exists>st'. pba_scan_entry sn e (b, st) = Inr (False, st') \<and> pba_header p st' \<and> ps_index_valid st' = ps_index_valid st \<and>
    result_rows_in PBA_BUFF_SIZE (ps_result st') (rows @ [row])"
proof -
  from scanbuf.append_fits [OF assms(4,5)] obtain r where r: "scan_append_in PBA_BUFF_SIZE row (ps_result st) = Inr r"
    "result_rows_in PBA_BUFF_SIZE r (rows @ [row])" by blast
  have "key_slice (sst_key e) 0 (int indexnum_size) = Inr p" using assms(1) by (simp add: good_entry_def key_slice_def)
  then show ?thesis
    using assms(1-3) r by (auto simp: pba_scan_entry_def good_entry_def ExtractUserKey_def pba_header_def)
qed

lemma pba_scan_loop_good:
  assumes "list_all (good_entry sn p) es" "mapE (\<lambda>e. pba_row sn (sst_key e) (sst_value e)) es = Inr new" "pba_header p st"
    and "result_rows_in PBA_BUFF_SIZE (ps_result st) rows" "rs_length (ps_result st) + length (concat new) \<le> PBA_BUFF_SIZE"
  shows "\<exists>st'. break_loop (pba_scan_entry sn) fst es (False, st) = Inr (False, st') \<and> pba_header p st' \<and>
    ps_index_valid st' = ps_index_valid st \<and> result_rows_in PBA_BUFF_SIZE (ps_result st') (rows @ new)"
  using assms
proof (induction es arbitrary: st rows new)
  case (Cons e es)
  from Cons.prems(2) obtain row new' where row: "pba_row sn (sst_key e) (sst_value e) = Inr row" "new = row # new'"
    "mapE (\<lambda>e. pba_row sn (sst_key e) (sst_value e)) es = Inr new'" by (auto simp: bindE_Inr_conv)
  have e: "good_entry sn p e" "rs_length (ps_result st) + length row \<le> PBA_BUFF_SIZE" using Cons.prems(1,5) row(2) by simp_all
  from pba_scan_entry_good [OF e(1) Cons.prems(3) row(1) Cons.prems(4) e(2)] obtain st1 where
    st1: "pba_scan_entry sn e (False, st) = Inr (False, st1)" "pba_header p st1" "ps_index_valid st1 = ps_index_valid st"
    "result_rows_in PBA_BUFF_SIZE (ps_result st1) (rows @ [row])" by blast
  have "rs_length (ps_result st1) + length (concat new') \<le> PBA_BUFF_SIZE"
    using scanbuf.used_rep [OF st1(4)] scanbuf.used_rep [OF Cons.prems(4)] Cons.prems(5) row(2) by simp
  from Cons.IH [OF _ row(3) st1(2,4) this] Cons.prems(1) st1(1,3) row(2) show ?case by auto
qed simp

lemma pba_BlockScan_good:
  assumes "sn_scan_type sn \<in> {Full_Scan, Full_Scan_Filter}" "pba_good_block sn p reader rows blk" "pba_header p st"
    and "result_rows_in PBA_BUFF_SIZE (ps_result st) old" "rs_length (ps_result st) + 5000 \<le> PBA_BUFF_SIZE"
  shows "\<exists>st'. pba_BlockScan sn (reader blk) st = Inr st' \<and> pba_header p st' \<and> ps_index_valid st' = ps_index_valid st \<and>
    result_rows_in PBA_BUFF_SIZE (ps_result st') (old @ rows blk)"
proof -
  have "list_all (good_entry sn p) (reader blk)" "mapE (\<lambda>e. pba_row sn (sst_key e) (sst_value e)) (reader blk) = Inr (rows blk)"
    "rs_length (ps_result st) + length (concat (rows blk)) \<le> PBA_BUFF_SIZE"
    using assms(2,5) by (simp_all add: pba_good_block_def)
  from pba_scan_loop_good [OF this(1,2) assms(3,4) this(3)] assms(1) show ?thesis by (auto simp: pba_BlockScan_def)
qed

text \<open>What the results hold: those sent, and the one being filled, after \<open>k\<close> blocks.\<close>

definition pba_holds :: "string list \<Rightarrow> int \<Rightarrow> pba_ScanState \<Rightarrow> bool" where
  "pba_holds rows k st \<longleftrightarrow> (\<exists>rss lst. list_all2 (result_rows_in PBA_BUFF_SIZE) (ps_sent st) rss \<and>
     result_rows_in PBA_BUFF_SIZE (ps_result st) lst \<and> concat rss @ lst = rows \<and> int (rs_length (ps_result st)) \<le> 5000 * (k mod 15))"

lemma pba_send_holds:
  assumes "list_all2 (result_rows_in PBA_BUFF_SIZE) (ps_sent st) rss" "result_rows_in PBA_BUFF_SIZE (ps_result st) lst" "0 \<le> k mod 15"
  shows "pba_holds (concat rss @ lst) k (pba_send sn st)"
  unfolding pba_holds_def using assms scanbuf.reset_rep [of PBA_BUFF_SIZE "ps_result st"]
  by (intro exI [of _ "rss @ [lst]"] exI [of _ "[]"]) (simp add: list_all2_appendI InitResult_def)

lemma pba_scan_block_good:
  assumes "sn_scan_type sn \<in> {Full_Scan, Full_Scan_Filter}" "pba_good_block sn p reader rows blk" "pba_header p st"
    and "pba_ready sn qs k st" "0 \<le> k" "k < sn_total_block_count sn" "pba_holds old k st"
  shows "\<exists>st'. pba_scan_block sn reader blk (b, st) = Inr (k + 1 = sn_total_block_count sn, st') \<and>
    pba_header p st' \<and> ps_index_valid st' \<and> pba_holds (old @ rows blk) (k + 1) st' \<and>
    (k + 1 = sn_total_block_count sn \<longrightarrow> rs_row_count (ps_result st') = 0)"
proof -
  from assms(7) obtain rss lst where h: "list_all2 (result_rows_in PBA_BUFF_SIZE) (ps_sent st) rss"
    "result_rows_in PBA_BUFF_SIZE (ps_result st) lst" "concat rss @ lst = old" "int (rs_length (ps_result st)) \<le> 5000 * (k mod 15)"
    by (auto simp: pba_holds_def)
  have k15: "0 \<le> k mod 15" "k mod 15 \<le> 14" by simp_all
  let ?c = "counts_block st"
  have c: "pba_header p ?c" "ps_index_valid ?c" "result_rows_in PBA_BUFF_SIZE (ps_result ?c) lst"
    "rs_length (ps_result ?c) + 5000 \<le> PBA_BUFF_SIZE" "ps_current_block_count ?c = k + 1" "ps_sent ?c = ps_sent st"
    using assms(3,4) h(2,4) k15 by (simp_all add: counts_block_def pba_header_def pba_ready_def result_rows_in_def pba_sizes)
  from pba_BlockScan_good [OF assms(1,2) c(1,3,4)] c(2) obtain s where s: "pba_BlockScan sn (reader blk) ?c = Inr s"
    "pba_header p s" "ps_index_valid s" "result_rows_in PBA_BUFF_SIZE (ps_result s) (lst @ rows blk)" by auto
  have keep: "ps_current_block_count s = k + 1" "ps_sent s = ps_sent st"
    using pba_BlockScan_keeps [OF s(1)] c(5,6) by (simp_all add: pba_keeps_def)
  define stop where "stop = (k + 1 = sn_total_block_count sn)"
  let ?st = "if stop \<or> (k + 1) mod 15 = 0 then pba_send sn s else s"
  have run: "pba_scan_block sn reader blk (b, st) = Inr (stop, ?st)"
    using s(1,3) keep(1) by (simp add: pba_scan_block_def counts_block_def Let_def NUM_OF_BLOCKS_def stop_def)
  have sent: "list_all2 (result_rows_in PBA_BUFF_SIZE) (ps_sent s) rss" using h(1) keep(2) by simp
  have "pba_holds (old @ rows blk) (k + 1) ?st"
  proof (cases "stop \<or> (k + 1) mod 15 = 0")
    case True
    with pba_send_holds [OF sent s(4), of "k + 1" sn] h(3) show ?thesis by (auto simp flip: append_assoc)
  next
    case False
    then have "(k + 1) mod 15 = k mod 15 + 1" using next_mod_15 [of k] by (simp split: if_splits)
    moreover have "length (concat (rows blk)) \<le> 5000" using assms(2) by (simp add: pba_good_block_def)
    then have "int (rs_length (ps_result s)) \<le> 5000 * (k mod 15 + 1)"
      using scanbuf.used_rep [OF s(4)] scanbuf.used_rep [OF h(2)] h(4) by simp
    ultimately show ?thesis
      unfolding pba_holds_def using False sent s(4) h(3) by (intro exI [of _ rss] exI [of _ "lst @ rows blk"]) auto
  qed
  with run s(2,3) show ?thesis by (auto simp: stop_def pba_header_def InitResult_def)
qed

lemma pba_scan_blocks_good:
  assumes "sn_scan_type sn \<in> {Full_Scan, Full_Scan_Filter}" "list_all (pba_good_block sn p reader rows) bs" "bs \<noteq> []"
    and "pba_header p st" "pba_ready sn qs k st" "0 \<le> k" "k + int (length bs) = sn_total_block_count sn" "pba_holds old k st"
  shows "\<exists>st'. break_loop (pba_scan_block sn reader) fst bs (False, st) = Inr (True, st') \<and> ps_index_valid st' \<and>
    pba_holds (old @ concat (map rows bs)) (sn_total_block_count sn) st' \<and> rs_row_count (ps_result st') = 0"
  using assms(2-)
proof (induction bs arbitrary: st k old)
  case (Cons blk bs)
  let ?t = "sn_total_block_count sn"
  have blk: "pba_good_block sn p reader rows blk" "k < ?t" using Cons.prems(1,6) by simp_all
  from pba_scan_block_good [OF assms(1) blk(1) Cons.prems(3,4,5) blk(2) Cons.prems(7), of False] obtain s where
    s: "pba_scan_block sn reader blk (False, st) = Inr (k + 1 = ?t, s)" "pba_header p s" "ps_index_valid s"
    "pba_holds (old @ rows blk) (k + 1) s" "k + 1 = ?t \<longrightarrow> rs_row_count (ps_result s) = 0" by blast
  show ?case
  proof (cases "bs = []")
    case True
    with Cons.prems(6) have "k + 1 = ?t" by simp
    with s True show ?thesis by simp
  next
    case False
    then have go: "k + 1 \<noteq> ?t" using Cons.prems(6) by (cases bs) simp_all
    with pba_scan_block_step [OF Cons.prems(4,5) blk(2) s(1)] have "pba_ready sn qs (k + 1) s" by simp
    from Cons.IH [OF _ False s(2) this _ _ s(4)] Cons.prems(1,5,6) s(1) go show ?thesis by simp
  qed
qed simp

lemma pba_scan_snippet_good:
  assumes "sn_scan_type sn \<in> {Full_Scan, Full_Scan_Filter}" "sn_total_block_count sn = int (length (sn_block_info_list sn))"
    and "sn_block_info_list sn \<noteq> []"
    and "list_all (pba_good_block sn p (reader (fst (pba_getTableRep (sn_table_name sn) tm))) rows) (sn_block_info_list sn)"
  shows "\<exists>tm' st rss. pba_scan_snippet reader junk tm sn origin fq mq = Inr (tm', st) \<and>
    list_all2 (result_rows_in PBA_BUFF_SIZE) (ps_sent st) rss \<and> concat rss = concat (map rows (sn_block_info_list sn)) \<and>
    pba_done sn (fq, mq) st \<and> ps_index_valid st"
proof -
  let ?st = "pba_scan_start junk sn origin fq mq"
  obtain tr tm' where tm: "pba_getTableRep (sn_table_name sn) tm = (tr, tm')" by fastforce
  have "pba_header p ?st" by (simp add: pba_header_def pba_scan_start_def)
  moreover have "pba_holds [] 0 ?st"
    unfolding pba_holds_def by (intro exI [of _ "[]"]) (simp add: pba_scan_start_def pba_new_Result_def result_rows_in_def)
  ultimately obtain st where st: "break_loop (pba_scan_block sn (reader tr)) fst (sn_block_info_list sn) (False, ?st) = Inr (True, st)"
    "ps_index_valid st" "pba_holds (concat (map rows (sn_block_info_list sn))) (sn_total_block_count sn) st"
    "rs_row_count (ps_result st) = 0"
    using pba_scan_blocks_good [OF assms(1) assms(4) [unfolded tm fst_conv] assms(3) _ pba_scan_start_ready, of junk origin fq mq "[]"] assms(2) by auto
  then have run: "pba_scan_snippet reader junk tm sn origin fq mq = Inr (tm', st)" by (simp add: pba_scan_snippet_def tm)
  from st(3) obtain rss lst where rss: "list_all2 (result_rows_in PBA_BUFF_SIZE) (ps_sent st) rss"
    "result_rows_in PBA_BUFF_SIZE (ps_result st) lst" "concat rss @ lst = concat (map rows (sn_block_info_list sn))" by (auto simp: pba_holds_def)
  moreover have "lst = []" using rss(2) st(4) by (simp add: result_rows_in_def row_layout_in_def)
  ultimately show ?thesis using run pba_scan_snippet_done [OF run assms(3,2)] st(2) by auto
qed

lemma pba_routed_full:
  "pba_routed sn (fq, mq) st \<Longrightarrow> sn_scan_type sn = Full_Scan \<Longrightarrow> ps_filterq st = fq \<and> work (ps_mergeq st) = work mq @ ps_sent st"
  "pba_routed sn (fq, mq) st \<Longrightarrow> sn_scan_type sn = Full_Scan_Filter \<Longrightarrow> ps_mergeq st = mq \<and> work (ps_filterq st) = work fq @ ps_sent st"
proof -
  have "fold (\<lambda>r. pba_EnQueueData r Full_Scan) rs (fq, mq) = (fq, fold push_work rs mq)" for rs mq
    by (induction rs arbitrary: mq) (simp_all add: pba_EnQueueData_def)
  moreover have "fold (\<lambda>r. pba_EnQueueData r Full_Scan_Filter) rs (fq, mq) = (fold push_work rs fq, mq)" for rs fq
    by (induction rs arbitrary: fq) (simp_all add: pba_EnQueueData_def)
  moreover have "work (fold push_work rs q) = work q @ rs" for rs and q :: "pba_Result WorkQueue"
    by (induction rs arbitrary: q) (simp_all add: push_work_def Let_def)
  ultimately show "pba_routed sn (fq, mq) st \<Longrightarrow> sn_scan_type sn = Full_Scan \<Longrightarrow> ps_filterq st = fq \<and> work (ps_mergeq st) = work mq @ ps_sent st"
    "pba_routed sn (fq, mq) st \<Longrightarrow> sn_scan_type sn = Full_Scan_Filter \<Longrightarrow> ps_mergeq st = mq \<and> work (ps_filterq st) = work fq @ ps_sent st"
    by (simp_all add: pba_routed_def)
qed

section \<open>A concrete table\<close>

definition ex_pba_snippet :: pba_Snippet where
  "ex_pba_snippet = Snippet.extend (ex_snippet\<lparr> sn_table_name := ''lineitem'' \<rparr>) (pba_Snippet.fields [] [])"

lemma ex_pba_snippet_fields [simp]:
  "sn_scan_type ex_pba_snippet = Full_Scan" "sn_primary_length ex_pba_snippet = Some 0" "sn_kNumInternalBytes ex_pba_snippet = 0"
  "sn_total_block_count ex_pba_snippet = 2" "length (sn_block_info_list ex_pba_snippet) = 2"
  by (simp_all add: ex_pba_snippet_def pba_Snippet.defs Snippet.defs ex_snippet_def)

definition ex_pba_reader :: "TableRep \<Rightarrow> BlockInfo \<Rightarrow> sst_entry list" where
  "ex_pba_reader tr blk = ex_entries []"

lemma ex_pba_good:
  "list_all (pba_good_block ex_pba_snippet (replicate 4 (CHR 0x07)) (ex_pba_reader tr) (\<lambda>_. [''abcdefgh'', ''ijklmnop''])) bs"
  by (simp add: list_all_iff pba_good_block_def ex_pba_reader_def ex_entries_def good_entry_def indexnum_size_def pba_row_def)

text \<open>The first block holds an entry of another table after one row.\<close>

definition ex_stray_reader :: "TableRep \<Rightarrow> BlockInfo \<Rightarrow> sst_entry list" where
  "ex_stray_reader tr blk = [\<lparr> sst_ok = True, sst_key = replicate 4 (CHR 0x07), sst_value = ''ab'' \<rparr>,
     \<lparr> sst_ok = True, sst_key = replicate 4 (CHR 0x08), sst_value = ''cd'' \<rparr>]"

lemma ex_stray_scan:
  "\<exists>tm' st. pba_scan_snippet ex_stray_reader junk tm ex_pba_snippet [] fq mq = Inr (tm', st)"
proof -
  let ?st = "counts_block (pba_scan_start junk ex_pba_snippet [] fq mq)" and ?sn = ex_pba_snippet
  let ?p = "replicate 4 (CHR 0x07)" and ?q = "replicate 4 (CHR 0x08)"
  obtain blk1 blk2 where bs: "sn_block_info_list ?sn = [blk1, blk2]"
    by (simp add: ex_pba_snippet_def pba_Snippet.defs Snippet.defs ex_snippet_def)
  obtain e f where es: "ex_stray_reader tr blk = [e, f]" "good_entry ?sn ?p e" "good_entry ?sn ?q f"
    "pba_row ?sn (sst_key e) (sst_value e) = Inr ''ab''" for tr blk
    by (simp add: ex_stray_reader_def good_entry_def indexnum_size_def pba_row_def)
  have st: "pba_header ?p ?st" "result_rows_in PBA_BUFF_SIZE (ps_result ?st) []" "rs_length (ps_result ?st) = 0"
    by (simp_all add: pba_header_def counts_block_def pba_scan_start_def pba_new_Result_def result_rows_in_def)
  have "rs_length (ps_result ?st) + length ''ab'' \<le> PBA_BUFF_SIZE" by (simp add: st(3) pba_sizes)
  from pba_scan_entry_good [OF es(2) st(1) es(4) st(2) this] obtain s where s: "pba_scan_entry ?sn e (False, ?st) = Inr (False, s)" by blast
  have "\<not> ps_check s \<and> ps_origin_index_num s = ?p" using s es(2) st(1)
    by (auto simp: pba_scan_entry_def good_entry_def ExtractUserKey_def key_slice_def bindE_Inr_conv Let_def counts_block_def pba_scan_start_def split: if_splits)
  then have "pba_scan_entry ?sn f (False, s) = Inr (True, s\<lparr> ps_index_valid := False \<rparr>)"
    using es(3) by (simp add: pba_scan_entry_def good_entry_def ExtractUserKey_def key_slice_def)
  then have "pba_BlockScan ?sn (ex_stray_reader tr blk1) ?st = Inr (s\<lparr> ps_index_valid := False \<rparr>)" for tr
    using s by (simp add: pba_BlockScan_def es(1))
  then have "\<exists>s'. pba_scan_block ?sn (ex_stray_reader tr) blk1 (False, pba_scan_start junk ?sn [] fq mq) = Inr (True, s')" for tr
    by (simp add: pba_scan_block_def counts_block_def Let_def)
  note block = this
  obtain tr tm' where tm: "pba_getTableRep (sn_table_name ?sn) tm = (tr, tm')" by fastforce
  obtain s' where "pba_scan_block ?sn (ex_stray_reader tr) blk1 (False, pba_scan_start junk ?sn [] fq mq) = Inr (True, s')" using block by blast
  then have "pba_scan_snippet ex_stray_reader junk tm ?sn [] fq mq = Inr (tm', s')" by (simp add: pba_scan_snippet_def bs tm)
  then show ?thesis by blast
qed

section \<open>Properties\<close>

text \<open>
  C15. The block version scans whole blocks: if every block holds at most 5000 bytes of rows (the columns of
  the key put back in front) of the one table, the scan does not fail, and the results it sends hold exactly the
  rows of all blocks, in order, although no result is ever checked for space; each result accounts for at
  most 15 blocks and at least one, and together they account for all.
\<close>

theorem pba_scan_conserves_rows:
  assumes "sn_scan_type sn \<in> {Full_Scan, Full_Scan_Filter}" "sn_total_block_count sn = int (length (sn_block_info_list sn))"
    and "sn_block_info_list sn \<noteq> []"
    and "list_all (pba_good_block sn p (reader (fst (pba_getTableRep (sn_table_name sn) tm))) rows) (sn_block_info_list sn)"
  shows "\<exists>tm' st rss. pba_scan_snippet reader junk tm sn origin fq mq = Inr (tm', st) \<and>
    list_all2 (result_rows_in PBA_BUFF_SIZE) (ps_sent st) rss \<and> concat rss = concat (map rows (sn_block_info_list sn)) \<and>
    sum_list (map rs_result_block_count (ps_sent st)) = sn_total_block_count sn \<and>
    list_all (\<lambda>r. 1 \<le> rs_result_block_count r \<and> rs_result_block_count r \<le> 15) (ps_sent st)"
proof -
  obtain tm' st rss where "pba_scan_snippet reader junk tm sn origin fq mq = Inr (tm', st)"
    "list_all2 (result_rows_in PBA_BUFF_SIZE) (ps_sent st) rss" "concat rss = concat (map rows (sn_block_info_list sn))"
    "pba_done sn (fq, mq) st" "ps_index_valid st"
    using pba_scan_snippet_good [where reader = reader and tm = tm, OF assms] by blast
  then show ?thesis by (intro exI [of _ tm'] exI [of _ st] exI [of _ rss]) (auto simp: pba_done_def list_all_iff)
qed

theorem pba_scan_conserves_rows_witness:
  "\<exists>tm' st rss. pba_scan_snippet ex_pba_reader (\<lambda>_. CHR 0x2A) (pba_initCSDTableManager Map.empty) ex_pba_snippet [] (new_WorkQueue 1) (new_WorkQueue 1) =
      Inr (tm', st) \<and> list_all2 (result_rows_in PBA_BUFF_SIZE) (ps_sent st) rss \<and>
      concat rss = [''abcdefgh'', ''ijklmnop'', ''abcdefgh'', ''ijklmnop'']"
proof -
  have "concat (map (\<lambda>_. [''abcdefgh'', ''ijklmnop'']) (sn_block_info_list ex_pba_snippet)) = [''abcdefgh'', ''ijklmnop'', ''abcdefgh'', ''ijklmnop'']"
    by (simp add: ex_pba_snippet_def pba_Snippet.defs Snippet.defs ex_snippet_def)
  moreover have "sn_block_info_list ex_pba_snippet \<noteq> []"
    by (simp add: ex_pba_snippet_def pba_Snippet.defs Snippet.defs ex_snippet_def)
  from pba_scan_conserves_rows [where reader = ex_pba_reader and tm = "pba_initCSDTableManager Map.empty", OF _ _ this ex_pba_good,
      of "\<lambda>_. CHR 0x2A" "[]" "new_WorkQueue 1" "new_WorkQueue 1"]
  obtain tm' st rss where "pba_scan_snippet ex_pba_reader (\<lambda>_. CHR 0x2A) (pba_initCSDTableManager Map.empty) ex_pba_snippet [] (new_WorkQueue 1) (new_WorkQueue 1) =
      Inr (tm', st)" "list_all2 (result_rows_in PBA_BUFF_SIZE) (ps_sent st) rss"
    "concat rss = concat (map (\<lambda>_. [''abcdefgh'', ''ijklmnop'']) (sn_block_info_list ex_pba_snippet))" by auto
  ultimately show ?thesis by auto
qed

text \<open>
  C16. Whatever the blocks contain, also when an entry of another table ends the scan early and for the scan types
  whose blocks are not read: a scan of at least one block that does not fail sends results that account
  for at least one block each and together for exactly the snippet's total, so that the merge layer finishes the
  work unit with the last of them and not before; the queues hold them in order.
\<close>

theorem pba_scan_block_counts:
  assumes "pba_scan_snippet reader junk tm sn origin fq mq = Inr (tm', st)" "sn_block_info_list sn \<noteq> []"
    and "sn_total_block_count sn = int (length (sn_block_info_list sn))"
  shows "sum_list (map rs_result_block_count (ps_sent st)) = sn_total_block_count sn \<and>
    list_all (\<lambda>r. 1 \<le> rs_result_block_count r) (ps_sent st) \<and> list_all (pba_of_snippet sn) (ps_sent st) \<and>
    (ps_filterq st, ps_mergeq st) = fold (\<lambda>r. pba_EnQueueData r (sn_scan_type sn)) (ps_sent st) (fq, mq)"
  using pba_scan_snippet_done [OF assms] by (simp add: pba_done_def pba_routed_def)

theorem pba_scan_block_counts_witness:
  "\<exists>tm' st. pba_scan_snippet ex_stray_reader (\<lambda>_. CHR 0x2A) Map.empty ex_pba_snippet [] (new_WorkQueue 1) (new_WorkQueue 1) = Inr (tm', st) \<and>
    sum_list (map rs_result_block_count (ps_sent st)) = 2"
proof -
  obtain tm' st where run: "pba_scan_snippet ex_stray_reader (\<lambda>_. CHR 0x2A) Map.empty ex_pba_snippet [] (new_WorkQueue 1) (new_WorkQueue 1) = Inr (tm', st)"
    using ex_stray_scan by blast
  have "sn_block_info_list ex_pba_snippet \<noteq> []"
    by (simp add: ex_pba_snippet_def pba_Snippet.defs Snippet.defs ex_snippet_def)
  from pba_scan_block_counts [OF run this] run show ?thesis by auto
qed

text \<open>A snippet without blocks is never answered, and the scans of an index deliver no rows.\<close>

lemma pba_no_blocks:
  assumes "sn_block_info_list sn = []"
  shows "\<exists>tm' st. pba_scan_snippet reader junk tm sn origin fq mq = Inr (tm', st) \<and> ps_sent st = []"
  using assms by (simp add: pba_scan_snippet_def pba_scan_start_def split: prod.splits)

end
