(* ===== verification/Pba_Filter.thy ===== *)
theory Pba_Filter
  imports Filter_Block Pba_Input
begin

text \<open>
  The filter layer of the block version (\<open>temp/filter.cc\<close>). Its \<open>switch\<close> shares the cases \<open>GE\<close>, \<open>LE\<close>, \<open>GT\<close>,
  \<open>LT\<close>, NOT, AND and OR with the other version (\<open>Filter_Clauses\<close>), as it does the column readers, the loop over the
  filter and the loop over the rows (\<open>Filter_Block\<close>); this theory has the cases that differ, the
  dispatch, \<open>BlockFilter\<close> and \<open>Filtering\<close>.

  The differences: ET and NE trim only the column, and understand string constants; LIKE, BETWEEN and IN
  set \<open>canSaved\<close>, and IN respects a NOT; SUBSTRING takes its arguments from \<open>EXTRA\<close>. The lemmas show that, as a
  consequence, every filter in disjunctive normal form selects exactly the rows it is true of, without the
  restriction on the last disjunct that the other version has.
\<close>

section \<open>ET and NE\<close>

definition pba_compareET_str :: "string \<Rightarrow> string \<Rightarrow> row_vars \<Rightarrow> row_vars" where
  "pba_compareET_str LV RV v = compare_flags (trim LV = RV) v"

definition pba_compareNE_str :: "string \<Rightarrow> string \<Rightarrow> row_vars \<Rightarrow> row_vars" where
  "pba_compareNE_str LV RV v = compare_flags (rtrim LV \<noteq> RV) v"

definition pba_rv_big_ET ::
  "buffer \<Rightarrow> json \<Rightarrow> Filter_obj \<Rightarrow> (string \<times> Filter_obj) res" where
  \<comment> \<open>\<open>RV[0]\<close> of an empty string is the terminating NUL\<close>
  "pba_rv_big_ET rowbuf RV fo =
     (case RV of
        JStr s \<Rightarrow> if s = [] \<or> hd s \<noteq> CHR ''+'' then typeBig s rowbuf fo
                  else bindE (std_substr_from s 1) (\<lambda>r. Inr (r, fo))
      | _ \<Rightarrow> Inr ([], fo))"

definition pba_clause_ET :: "(string \<rightharpoonup> int) \<Rightarrow> buffer \<Rightarrow> json \<Rightarrow> row_state \<Rightarrow> row_state res" where
  "pba_clause_ET typedata rowbuf c st = (case st of (v, fo) \<Rightarrow>
     bindE (compare_operands (pba_rv_big_ET rowbuf) typedata rowbuf c fo) (\<lambda>(ops, fo).
       Inr (apply_compare compareET_int pba_compareET_str v ops, fo)))"

definition pba_clause_NE :: "(string \<rightharpoonup> int) \<Rightarrow> buffer \<Rightarrow> json \<Rightarrow> row_state \<Rightarrow> row_state res" where
  \<comment> \<open>a CHAR or VARSTRING column has the code of a DECIMAL one on the right\<close>
  "pba_clause_NE typedata rowbuf c st = (case st of (v, fo) \<Rightarrow>
     bindE (compare_operands (rv_decimal typedata rowbuf) typedata rowbuf c fo) (\<lambda>(ops, fo).
       Inr (apply_compare compareNE_int pba_compareNE_str v ops, fo)))"

section \<open>LIKE, BETWEEN, IN and SUBSTRING\<close>

definition pba_clause_LIKE :: "(string \<rightharpoonup> int) \<Rightarrow> buffer \<Rightarrow> json \<Rightarrow> row_state \<Rightarrow> row_state res" where
  "pba_clause_LIKE typedata rowbuf c st = (case st of (v, fo) \<Rightarrow>
     bindE (like_result typedata rowbuf c fo) (\<lambda>(b, fo).
       let v = v\<lparr>CV := b\<rparr>;
           v = (if CV v then v\<lparr>canSaved := True\<rparr> else v)
       in Inr (negate_if_not v, fo)))"

definition pba_clause_BETWEEN :: "(string \<rightharpoonup> int) \<Rightarrow> buffer \<Rightarrow> json \<Rightarrow> row_state \<Rightarrow> row_state res" where
  "pba_clause_BETWEEN typedata rowbuf c st = (case st of (v, fo) \<Rightarrow>
     bindE (between_result typedata rowbuf c (CV v) fo) (\<lambda>(b, fo).
       let v = v\<lparr>CV := b\<rparr> in Inr (negate_if_not (v\<lparr>canSaved := CV v\<rparr>), fo)))"

fun pba_InOperator_str ::
  "string \<Rightarrow> json list \<Rightarrow> (string \<rightharpoonup> int) \<Rightarrow> buffer \<Rightarrow> Filter_obj \<Rightarrow> (bool \<times> Filter_obj) res" where
  "pba_InOperator_str lv [] typedata rowbuf fo = Inr (False, fo)"
| "pba_InOperator_str lv (e # es) typedata rowbuf fo =
     bindE (in_elem_str typedata rowbuf e fo) (\<lambda>(RV, fo).
       let lv = rtrim lv in
       if lv = RV then Inr (True, fo) else pba_InOperator_str lv es typedata rowbuf fo)"

definition pba_clause_IN :: "(string \<rightharpoonup> int) \<Rightarrow> buffer \<Rightarrow> json \<Rightarrow> row_state \<Rightarrow> row_state res" where
  "pba_clause_IN typedata rowbuf c st = (case st of (v, fo) \<Rightarrow>
     bindE (in_result pba_InOperator_str typedata rowbuf c (v, fo)) (\<lambda>(b, fo).
       let v = set_in_flags b v in Inr (negate_if_not (v\<lparr>canSaved := CV v\<rparr>), fo)))"

definition pba_clause_SUBSTRING :: "(string \<rightharpoonup> int) \<Rightarrow> buffer \<Rightarrow> json \<Rightarrow> row_state \<Rightarrow> row_state res" where
  "pba_clause_SUBSTRING typedata rowbuf c st = (case st of (v, fo) \<Rightarrow>
     bindE (json_member c ''LV'') (\<lambda>jl.
     bindE (GetString jl) (\<lambda>l.
       if big_type typedata l then
         bindE (typeBig l rowbuf fo) (\<lambda>(LV, fo).
         bindE (json_member c ''EXTRA'') (\<lambda>x.
         bindE (json_elem x 0) (\<lambda>e0. bindE (GetString e0) (\<lambda>s0.
         bindE (std_substr_from s0 1) (\<lambda>r0.
         bindE (json_elem x 1) (\<lambda>e1. bindE (GetString e1) (\<lambda>s1.
         bindE (std_substr_from s1 1) (\<lambda>r1.
         bindE (std_substr LV (int_to_size (atoi r0 - 1)) (int_to_size (atoi r1))) (\<lambda>sub.
           Inr (v\<lparr>tmpsubstring := sub, substringflag := True\<rparr>, fo))))))))))
       else if decimal_type typedata l then
         bindE (typeDecimal l rowbuf fo) (\<lambda>(LV, fo). Inr (v\<lparr>substringflag := True\<rparr>, fo))
       else
         bindE (std_substr_from l 1) (\<lambda>LV. Inr (v\<lparr>substringflag := True\<rparr>, fo)))))"

section \<open>The dispatch and the loop over the rows\<close>

definition pba_filter_case :: filter_switch where
  "pba_filter_case typedata rowbuf c st = (case st of (v, fo) \<Rightarrow>
     if Passed v then bindE (passed_case c v) (\<lambda>v. Inr (v, fo))
     else
       bindE (json_member c ''OPERATOR'') (\<lambda>j.
       bindE (GetInt j) (\<lambda>n.
       case oper_of n of
         Some GE \<Rightarrow> clause_GE typedata rowbuf c st
       | Some LE \<Rightarrow> clause_LE typedata rowbuf c st
       | Some GT \<Rightarrow> clause_GT typedata rowbuf c st
       | Some LT \<Rightarrow> clause_LT typedata rowbuf c st
       | Some ET \<Rightarrow> pba_clause_ET typedata rowbuf c st
       | Some NE \<Rightarrow> pba_clause_NE typedata rowbuf c st
       | Some LIKE \<Rightarrow> pba_clause_LIKE typedata rowbuf c st
       | Some BETWEEN \<Rightarrow> pba_clause_BETWEEN typedata rowbuf c st
       | Some IN_OP \<Rightarrow> pba_clause_IN typedata rowbuf c st
       | Some IS_OP \<Rightarrow> Inr st
       | Some ISNOT \<Rightarrow> Inr st
       | Some NOT_OP \<Rightarrow> Inr (clause_NOT v, fo)
       | Some AND_OP \<Rightarrow> Inr (clause_AND v, fo)
       | Some OR_OP \<Rightarrow> Inr (clause_OR v, fo)
       | Some SUBSTRING \<Rightarrow> pba_clause_SUBSTRING typedata rowbuf c st
       | None \<Rightarrow> Inr st)))"

record pba_counts =     \<comment> \<open>file-level counters of \<open>temp/filter.cc\<close>, beside \<open>rownum\<close> and \<open>saverowcount\<close>\<close>
  current_block_count :: int
  totalrownum :: int

definition pba_BlockFilter ::
  "(string \<Rightarrow> json) \<Rightarrow> buffer \<Rightarrow> row_vars \<Rightarrow> pba_Result \<Rightarrow> Filter_obj \<times> pba_counts \<Rightarrow> pba_Result WorkQueue \<Rightarrow>
   ((Filter_obj \<times> pba_counts) \<times> pba_Result WorkQueue) res" where
  "pba_BlockFilter parse junk v0 sr st mq = (case st of (fo, k) \<Rightarrow>
     let fr = pba_new_Result junk (rs_query_id sr) (rs_work_id sr) (rs_csd_name sr) (rs_total_block_count sr)
                (rs_filter_info sr) (rs_projection_length sr) (rs_result_block_count sr);
         RowNum = rs_row_count sr
     in bindE (prepare_filter PBA_BUFF_SIZE parse sr fo) (\<lambda>(filterarray, typedata, fo).
        let k = k\<lparr> totalrownum := totalrownum k + int RowNum \<rparr> in
        bindE (foldE (filter_row PBA_BUFF_SIZE pba_filter_case typedata filterarray sr) [0..<RowNum] (v0, fo, 0, fr))
          (\<lambda>(v, fo, filteroffset, fr).
             let mq = sendfilterresult fr mq in
             Inr ((fo\<lparr> saverowcount := saverowcount fo + rownum fo \<rparr>, k), mq))))"

text \<open>One turn of the loop of \<open>Filtering\<close>; the block version has one filter thread.\<close>

definition pba_Filtering ::
  "(string \<Rightarrow> json) \<Rightarrow> buffer \<Rightarrow> row_vars \<Rightarrow>
   (Filter_obj \<times> pba_counts) \<times> pba_Result WorkQueue \<times> pba_Result WorkQueue \<Rightarrow>
   ((Filter_obj \<times> pba_counts) \<times> pba_Result WorkQueue \<times> pba_Result WorkQueue) res" where
  "pba_Filtering parse junk v0 st = (case st of ((fo, k), fq, mq) \<Rightarrow>
     (case wait_and_pop 0 fq of
        (None, fq') \<Rightarrow> Inr ((fo, k), fq', mq)
      | (Some sr, fq') \<Rightarrow>
          let k = k\<lparr> current_block_count := current_block_count k + rs_result_block_count sr \<rparr> in
          bindE (pba_BlockFilter parse junk v0 sr (fo, k) mq) (\<lambda>(fk, mq). Inr (fk, fq', mq))))"

section \<open>The meaning of the literals\<close>

text \<open>
  As in the other version, but string constants on the right of a CHAR or VARSTRING column are understood by \<open>GE\<close>,
  \<open>ET\<close> and \<open>NE\<close>, and two such columns are not compared by \<open>NE\<close>. \<open>ET\<close> tells a constant from a column by the \<open>+\<close>.
\<close>

fun pba_spec_operands :: "opertype \<Rightarrow> sqlval \<Rightarrow> sqlval \<Rightarrow> operands option" where
  "pba_spec_operands p (CStr a) (CStr b) = (if p = NE then None else Some (Strs a b))"
| "pba_spec_operands p (CStr a) (KStr b) = (if p = GE \<or> p = ET \<or> p = NE then Some (Strs a b) else None)"
| "pba_spec_operands p l r = spec_operands p l r"

definition plus_marked :: "string list \<Rightarrow> json \<Rightarrow> bool" where
  \<comment> \<open>constants, and only they, start with \<open>+\<close>\<close>
  "plus_marked names j = (case j of JStr s \<Rightarrow> (s \<noteq> [] \<and> hd s = CHR ''+'') \<longleftrightarrow> s \<notin> set names | _ \<Rightarrow> True)"

definition pba_clause_operands :: "string list \<Rightarrow> field list \<Rightarrow> opertype \<Rightarrow> json \<Rightarrow> operands option" where
  "pba_clause_operands names fs p c =
     (case (json_member c ''LV'', json_member c ''RV'') of
        (Inr jl, Inr jr) \<Rightarrow>
          (case (term_value names fs jl, term_value names fs jr) of
             (Some l, Some r) \<Rightarrow> if plus_marked names jr then pba_spec_operands p l r else None
           | _ \<Rightarrow> None)
      | _ \<Rightarrow> None)"

fun pba_oper_holds :: "opertype \<Rightarrow> operands \<Rightarrow> bool" where
  "pba_oper_holds ET (Strs a b) = (trim a = b)"
| "pba_oper_holds NE (Strs a b) = (rtrim a \<noteq> b)"
| "pba_oper_holds p ops = oper_holds p ops"

text \<open>IN: an integer column and integer constants, or a string or DECIMAL column and string constants.\<close>

definition int_constants :: "sqlval option list \<Rightarrow> bool" where
  "int_constants ts = list_all (\<lambda>t. case t of Some (KInt i) \<Rightarrow> True | _ \<Rightarrow> False) ts"

definition str_constants :: "sqlval option list \<Rightarrow> bool" where
  "str_constants ts = list_all (\<lambda>t. case t of Some (KStr s) \<Rightarrow> True | _ \<Rightarrow> False) ts"

fun in_spec :: "sqlval \<Rightarrow> sqlval option list \<Rightarrow> bool option" where
  "in_spec (CInt a) ts = (if int_constants ts then Some (Some (KInt a) \<in> set ts) else None)"
| "in_spec (CStr a) ts = (if str_constants ts then Some (Some (KStr (rtrim a)) \<in> set ts) else None)"
| "in_spec (CDec a) ts = (if str_constants ts then Some (Some (KStr (rtrim a)) \<in> set ts) else None)"
| "in_spec _ ts = None"

definition in_value :: "string list \<Rightarrow> field list \<Rightarrow> json \<Rightarrow> bool option" where
  "in_value names fs c =
     (case (member_term names fs c ''LV'', json_member c ''EXTRA'') of
        (Some l, Inr (JArr es)) \<Rightarrow> in_spec l (map (term_value names fs) es)
      | _ \<Rightarrow> None)"

definition pba_clause_lit :: "string list \<Rightarrow> field list \<Rightarrow> json \<Rightarrow> (bool \<times> bool) option" where
  "pba_clause_lit names fs c =
     (case json_member c ''OPERATOR'' of
        Inr (JInt n) \<Rightarrow>
          (case oper_of n of
             Some p \<Rightarrow>
               if n \<noteq> oper_code p then None
               else if p \<in> set compare_ops then
                 map_option (\<lambda>ops. (True, pba_oper_holds p ops)) (pba_clause_operands names fs p c)
               else if p = LIKE then map_option (\<lambda>b. (b, b)) (like_value names fs c)
               else if p = BETWEEN then map_option (Pair True) (between_value names fs c)
               else if p = IN_OP then map_option (Pair True) (in_value names fs c)
               else None
           | None \<Rightarrow> None)
      | _ \<Rightarrow> None)"


section \<open>The cases do what the literals mean\<close>

lemma pba_filter_case_op:
  assumes "has_op p c" "\<not> Passed v"
  shows "pba_filter_case typedata rowbuf c (v, fo) =
    (case p of
       GE \<Rightarrow> clause_GE typedata rowbuf c (v, fo)
     | LE \<Rightarrow> clause_LE typedata rowbuf c (v, fo)
     | GT \<Rightarrow> clause_GT typedata rowbuf c (v, fo)
     | LT \<Rightarrow> clause_LT typedata rowbuf c (v, fo)
     | ET \<Rightarrow> pba_clause_ET typedata rowbuf c (v, fo)
     | NE \<Rightarrow> pba_clause_NE typedata rowbuf c (v, fo)
     | LIKE \<Rightarrow> pba_clause_LIKE typedata rowbuf c (v, fo)
     | BETWEEN \<Rightarrow> pba_clause_BETWEEN typedata rowbuf c (v, fo)
     | IN_OP \<Rightarrow> pba_clause_IN typedata rowbuf c (v, fo)
     | IS_OP \<Rightarrow> Inr (v, fo)
     | ISNOT \<Rightarrow> Inr (v, fo)
     | NOT_OP \<Rightarrow> Inr (clause_NOT v, fo)
     | AND_OP \<Rightarrow> Inr (clause_AND v, fo)
     | OR_OP \<Rightarrow> Inr (clause_OR v, fo)
     | SUBSTRING \<Rightarrow> pba_clause_SUBSTRING typedata rowbuf c (v, fo))"
  using assms by (cases p) (simp_all only: pba_filter_case_def has_op_def prod.case if_False bindE_simps
      GetInt.simps is_int32_oper_code if_True oper_of_code option.case opertype.case)

lemma pba_passed_case_op:
  assumes "has_op p c" "Passed v"
  shows "pba_filter_case typedata rowbuf c (v, fo) = Inr (if p = OR_OP then clause_OR v else v, fo)"
  using assms
  by (cases p) (simp_all only: pba_filter_case_def passed_case_def has_op_def prod.case if_True bindE_simps
      GetInt.simps is_int32_oper_code oper_of_code option.case opertype.case opertype.distinct if_False simp_thms)

definition pba_rv_big_for :: "opertype \<Rightarrow> (string \<rightharpoonup> int) \<Rightarrow> buffer \<Rightarrow> json \<Rightarrow> Filter_obj \<Rightarrow> (string \<times> Filter_obj) res" where
  "pba_rv_big_for p typedata d = (if p = GE then rv_big_checked typedata d else if p = ET then pba_rv_big_ET d
     else if p = NE then rv_decimal typedata d else rv_big_plain typedata d)"

lemma term_CStr_name: "term_value names fs j = Some (CStr a) \<Longrightarrow> \<exists>s. j = JStr s \<and> s \<in> set names"
  by (auto simp: term_value_def field_value_def dest: map_of_SomeD set_zip_leftD
      split: json.splits option.splits if_splits list.splits)

lemma term_KStr_name:
  "length names = length fs \<Longrightarrow> term_value names fs j = Some (KStr a) \<Longrightarrow> \<exists>s. j = JStr s \<and> s \<notin> set names"
  by (auto simp: term_value_def field_value_def map_of_zip_is_None split: json.splits option.splits if_splits list.splits)

lemma pba_rv_big_for_ok:
  assumes "row_reader cap typedata names fs base d fo" "term_value names fs jr = Some r"
    and "pba_spec_operands p (CStr a) r = Some ops" "plus_marked names jr"
  shows "\<exists>b fo'. ops = Strs a b \<and> pba_rv_big_for p typedata d jr fo = Inr (b, fo') \<and> row_reader cap typedata names fs base d fo'"
proof (cases r)
  case (CStr b)
  from term_CStr_name [OF assms(2) [unfolded CStr]] assms(4) obtain s where
    "jr = JStr s" "s = [] \<or> hd s \<noteq> CHR ''+''" by (auto simp: plus_marked_def)
  with term_CStr [OF assms(1) assms(2) [unfolded CStr]] assms(3) CStr show ?thesis
    by (auto simp: pba_rv_big_for_def rv_big_checked_def pba_rv_big_ET_def rv_big_plain_def split: if_splits)
next
  case (KStr b)
  from term_KStr_name [OF row_reader_schema(1) [OF assms(1), symmetric, symmetric] assms(2) [unfolded KStr]] assms(4) obtain s where
    "jr = JStr s" "s \<noteq> []" "hd s = CHR ''+''" by (auto simp: plus_marked_def)
  with term_KStr [OF assms(1) assms(2) [unfolded KStr]] assms(1,3) KStr show ?thesis
    by (auto simp: pba_rv_big_for_def rv_big_checked_def pba_rv_big_ET_def rv_decimal_def split: if_splits)
qed (use assms(3) in simp_all)

lemma pba_clause_operands_Some:
  assumes "pba_clause_operands names fs p c = Some ops"
  obtains jl l jr r where "json_member c ''LV'' = Inr jl" "term_value names fs jl = Some l"
    "json_member c ''RV'' = Inr jr" "term_value names fs jr = Some r" "plus_marked names jr"
    "pba_spec_operands p l r = Some ops"
  using assms by (auto simp: pba_clause_operands_def split: option.splits sum.splits if_splits)

lemma pba_compare_operands_ok:
  assumes fo: "row_reader cap typedata names fs base d fo" and ops: "pba_clause_operands names fs p c = Some ops"
  shows "\<exists>fo'. compare_operands (pba_rv_big_for p typedata d) typedata d c fo = Inr (ops, fo') \<and>
    row_reader cap typedata names fs base d fo'"
proof -
  from pba_clause_operands_Some [OF ops] obtain jl l jr r where
    *: "json_member c ''LV'' = Inr jl" "term_value names fs jl = Some l"
      "json_member c ''RV'' = Inr jr" "term_value names fs jr = Some r" "plus_marked names jr"
      "pba_spec_operands p l r = Some ops" .
  have "spec_operands p l r = Some ops" if "\<forall>a. l \<noteq> CStr a" using *(6) that by (cases l) simp_all
  then show ?thesis
    by (intro compare_operands_read [OF fo *(1-4)]) (use pba_rv_big_for_ok *(4-6) in blast)+
qed

lemma pba_clause_compare_ok:
  assumes fo: "row_reader cap typedata names fs base d fo" and p: "has_op p c" "p \<in> set compare_ops"
    and ops: "pba_clause_operands names fs p c = Some ops" and v: "\<not> Passed v"
  shows "\<exists>fo'. pba_filter_case typedata d c (v, fo) = Inr (compare_flags (pba_oper_holds p ops) v, fo') \<and>
    row_reader cap typedata names fs base d fo'"
proof -
  from pba_compare_operands_ok [OF fo ops] obtain fo' where
    fo': "compare_operands (pba_rv_big_for p typedata d) typedata d c fo = Inr (ops, fo')"
    "row_reader cap typedata names fs base d fo'" by blast
  note case_op = pba_filter_case_op [OF p(1) v, of typedata d fo]
  from p(2) consider "p = GE" | "p = LE" | "p = GT" | "p = LT" | "p = ET" | "p = NE"
    by (auto simp: compare_ops_def)
  then show ?thesis
    using fo' case_op
    by cases (cases ops; simp add: pba_rv_big_for_def clause_GE_def clause_LE_def clause_GT_def clause_LT_def
        pba_clause_ET_def pba_clause_NE_def apply_compare_def compare_defs pba_compareET_str_def pba_compareNE_str_def)+
qed

lemma InOperator_int_ok:
  "int_constants (map (term_value names fs) es) \<Longrightarrow>
    InOperator_int lv es typedata d fo = Inr (Some (KInt lv) \<in> set (map (term_value names fs) es), fo)"
proof (induction es)
  case (Cons e es)
  then obtain i where i: "term_value names fs e = Some (KInt i)"
    by (auto simp: int_constants_def split: option.splits sqlval.splits)
  from term_KInt [OF i] have "in_elem_int lv typedata d e fo = Inr (lv = i, fo)" by (simp add: in_elem_int_def)
  with Cons i show ?case by (auto simp: int_constants_def)
qed simp

lemma rtrim_idem [simp]: "rtrim (rtrim s) = rtrim s"
  by (simp add: rtrim_dropWhile dropWhile_idem)

lemma pba_InOperator_str_ok:
  assumes "row_reader cap typedata names fs base d fo"
  shows "str_constants (map (term_value names fs) es) \<Longrightarrow>
    pba_InOperator_str lv es typedata d fo = Inr (Some (KStr (rtrim lv)) \<in> set (map (term_value names fs) es), fo)"
proof (induction es arbitrary: lv)
  case (Cons e es)
  then obtain k where k: "term_value names fs e = Some (KStr k)"
    by (auto simp: str_constants_def split: option.splits sqlval.splits)
  from term_KStr [OF assms k] have "in_elem_str typedata d e fo = Inr (k, fo)"
    by (auto simp: in_elem_str_def not_short)
  with Cons k show ?case by (auto simp: str_constants_def Let_def)
qed simp

lemma in_result_ok:
  assumes fo: "row_reader cap typedata names fs base d fo" and b: "in_value names fs c = Some b" and v: "\<not> substringflag v"
  shows "\<exists>fo'. in_result pba_InOperator_str typedata d c (v, fo) = Inr (b, fo') \<and> row_reader cap typedata names fs base d fo'"
proof -
  from b obtain jl l es where
    l: "json_member c ''LV'' = Inr jl" "term_value names fs jl = Some l" and
    es: "json_member c ''EXTRA'' = Inr (JArr es)" "in_spec l (map (term_value names fs) es) = Some b"
    by (auto simp: in_value_def member_term_def split: option.splits sum.splits json.splits)
  show ?thesis
  proof (cases l)
    case (CInt a)
    with es(2) have "int_constants (map (term_value names fs) es)" "b = (Some (KInt a) \<in> set (map (term_value names fs) es))"
      by (simp_all split: if_splits)
    with term_CInt [OF fo l(2) [unfolded CInt]] l(1) es(1) v InOperator_int_ok [of names fs es a] show ?thesis
      by (auto simp: in_result_def)
  next
    case (CStr a)
    with es(2) have k: "str_constants (map (term_value names fs) es)" "b = (Some (KStr (rtrim a)) \<in> set (map (term_value names fs) es))"
      by (simp_all split: if_splits)
    from term_CStr [OF fo l(2) [unfolded CStr]] l(1) es(1) v k(2) pba_InOperator_str_ok [OF _ k(1), of cap typedata base d _ a]
    show ?thesis by (auto simp: in_result_def)
  next
    case (CDec a)
    with es(2) have k: "str_constants (map (term_value names fs) es)" "b = (Some (KStr (rtrim a)) \<in> set (map (term_value names fs) es))"
      by (simp_all split: if_splits)
    from term_CDec [OF fo l(2) [unfolded CDec]] l(1) es(1) v k(2) pba_InOperator_str_ok [OF _ k(1), of cap typedata base d _ a]
    show ?thesis by (auto simp: in_result_def)
  qed (use es(2) in simp_all)
qed

text \<open>
  The literals that have a meaning when \<open>substringflag\<close> may be true: all but IN, which then looks at \<open>tmpsubstring\<close> instead of
  its column.
\<close>

definition flagged_lit :: "bool \<Rightarrow> string list \<Rightarrow> field list \<Rightarrow> json \<Rightarrow> (bool \<times> bool) option" where
  "flagged_lit flag names fs c = (if flag \<and> has_op IN_OP c then None else pba_clause_lit names fs c)"

definition in_free :: "(bool \<times> json) list list \<Rightarrow> bool" where
  "in_free Ds \<longleftrightarrow> list_all (list_all (\<lambda>l. \<not> has_op IN_OP (snd l))) Ds"

lemma loud_flags:
  assumes "TmpV v"
  shows "negate_if_not (v\<lparr>CV := b, canSaved := b\<rparr>) = compare_flags b v"
  using assms by (cases v) (auto simp: negate_if_not_def compare_flags_eq)

interpretation pba_machine: row_machine "pba_filter_case typedata d" "row_reader cap typedata names fs base d"
    "flagged_lit flag names fs" "\<lambda>s. s \<longrightarrow> flag"
  for cap typedata names fs base d flag
proof
  fix c b fo and v :: row_vars
  assume flagged: "flagged_lit flag names fs c = Some (True, b)" and ok: "row_reader cap typedata names fs base d fo"
    and v: "\<not> Passed v" "TmpV v" "substringflag v \<longrightarrow> flag"
  from flagged have lit: "pba_clause_lit names fs c = Some (True, b)" and no_in: "has_op IN_OP c \<longrightarrow> \<not> flag"
    by (auto simp: flagged_lit_def split: if_splits)
  from lit consider
      (cmp) p ops where "has_op p c" "p \<in> set compare_ops" "pba_clause_operands names fs p c = Some ops" "b = pba_oper_holds p ops"
    | (like) "has_op LIKE c" "like_value names fs c = Some b" "b"
    | (betw) "has_op BETWEEN c" "between_value names fs c = Some b"
    | (inop) "has_op IN_OP c" "in_value names fs c = Some b"
    by (auto simp: pba_clause_lit_def has_op_def split: sum.splits json.splits option.splits if_splits)
  then show "\<exists>fo'. pba_filter_case typedata d c (v, fo) = Inr (compare_flags b v, fo') \<and>
      row_reader cap typedata names fs base d fo'"
  proof cases
    case cmp
    with pba_clause_compare_ok [OF ok _ _ _ v(1)] show ?thesis by blast
  next
    case like
    with like_result_ok [OF ok like(2)] v loud_flags [OF v(2), of True] show ?thesis
      by (auto simp: pba_filter_case_op pba_clause_LIKE_def)
  next
    case betw
    with between_result_ok [OF ok betw(2), of "CV v"] v loud_flags [OF v(2), of b] show ?thesis
      by (auto simp: pba_filter_case_op pba_clause_BETWEEN_def)
  next
    case inop
    with no_in v(3) have sub: "\<not> substringflag v" by simp
    with inop in_result_ok [OF ok inop(2) sub] v loud_flags [OF v(2), of b] show ?thesis
      by (auto simp: pba_filter_case_op pba_clause_IN_def set_in_flags_def)
  qed
next
  fix c b fo and v :: row_vars
  assume lit: "flagged_lit flag names fs c = Some (False, b)" and ok: "row_reader cap typedata names fs base d fo"
    and v: "\<not> Passed v"
  from lit have "has_op LIKE c" "like_value names fs c = Some False" "\<not> b"
    by (auto simp: flagged_lit_def pba_clause_lit_def has_op_def split: sum.splits json.splits option.splits if_splits)
  with like_result_ok [OF ok this(2)] v
  show "\<exists>fo'. pba_filter_case typedata d c (v, fo) = Inr (negate_if_not (v\<lparr>CV := b\<rparr>), fo') \<and>
      row_reader cap typedata names fs base d fo'"
    by (auto simp: pba_filter_case_op pba_clause_LIKE_def)
next
  fix t fo and v :: row_vars
  assume "has_op OR_OP t"
  then show "pba_filter_case typedata d t (v, fo) = Inr (clause_OR v, fo)"
    by (cases "Passed v") (simp_all add: pba_passed_case_op pba_filter_case_op)
qed (simp_all add: pba_passed_case_op pba_filter_case_op)

interpretation pba_filter: block_filter PBA_BUFF_SIZE pba_filter_case "flagged_lit flag" "\<lambda>s. s \<longrightarrow> flag" for flag
  by unfold_locales


section \<open>Every filter selects the rows it is true of\<close>

lemma conj_toks_nonempty: "conj_toks ts D \<Longrightarrow> D \<noteq> []"
  by (induction rule: conj_toks.induct) simp_all

lemma dnf_toks_conj_nonempty: "dnf_toks ts Ds \<Longrightarrow> D \<in> set Ds \<Longrightarrow> D \<noteq> []"
  by (induction rule: dnf_toks.induct) (auto dest: conj_toks_nonempty)

text \<open>A literal that is true sets \<open>canSaved\<close>.\<close>

lemma pba_true_is_loud:
  assumes "literal_true (pba_clause_lit names fs) l"
  shows "fst (literal_mark (pba_clause_lit names fs) l)"
proof -
  obtain n c where l: "l = (n, c)" by (cases l)
  with assms obtain ld b where lit: "pba_clause_lit names fs c = Some (ld, b)" "b \<noteq> n"
    by (auto simp: literal_true_def split: option.splits)
  then have "ld \<or> \<not> b"
    by (auto simp: pba_clause_lit_def split: sum.splits json.splits option.splits if_splits)
  with l lit show ?thesis by (auto simp: literal_mark_def)
qed

lemma select_row_exact:
  assumes "Ds \<noteq> []" "\<forall>D\<in>set Ds. D \<noteq> [] \<and> (\<forall>m\<in>set D. snd m \<longrightarrow> fst m)"
  shows "select_row cs Ds \<longleftrightarrow> (\<exists>D\<in>set Ds. \<forall>m\<in>set D. snd m)"
  using assms
proof (induction cs Ds rule: select_row.induct)
  case (2 cs D)
  obtain b cs' where e: "eval_conj cs D = (b, cs')" by (cases "eval_conj cs D")
  have "cs'" if "\<forall>m\<in>set D. snd m"
  proof -
    have "\<exists>m\<in>set D. fst m" using 2(2) that by (cases D) auto
    then show ?thesis using eval_conj_loud [of cs D] eval_conj_fst [of cs D] that e by simp
  qed
  with e eval_conj_fst [of cs D] show ?case by auto
next
  case (3 cs D D' Ds)
  obtain b cs' where e: "eval_conj cs D = (b, cs')" by (cases "eval_conj cs D")
  with 3 have "select_row cs' (D' # Ds) \<longleftrightarrow> (\<exists>D\<in>set (D' # Ds). \<forall>m\<in>set D. snd m)" by simp
  with e eval_conj_fst [of cs D] show ?case by auto
qed simp

lemma pba_selects_exact:
  assumes "dnf_toks ts Ds"
  shows "dnf_selects (pba_clause_lit names fs) Ds = dnf_true (pba_clause_lit names fs) Ds"
proof -
  let ?mk = "literal_mark (pba_clause_lit names fs)"
  have "map (map ?mk) Ds \<noteq> []" using dnf_toks_nonempty [OF assms] by simp
  moreover have "\<forall>D\<in>set (map (map ?mk) Ds). D \<noteq> [] \<and> (\<forall>m\<in>set D. snd m \<longrightarrow> fst m)"
    using dnf_toks_conj_nonempty [OF assms] pba_true_is_loud by (auto simp: snd_literal_mark)
  ultimately show ?thesis
    using select_row_exact [of "map (map ?mk) Ds" False]
    by (simp add: dnf_selects_def dnf_true_def snd_literal_mark list_ex_iff list_all_iff)
qed

text \<open>If the flag is false or there is no IN, the flag does not matter.\<close>

lemma flagged_lit_eq:
  assumes "flag \<longrightarrow> in_free Ds" "D \<in> set Ds" "l \<in> set D"
  shows "flagged_lit flag names fs (snd l) = pba_clause_lit names fs (snd l)"
  using assms by (auto simp: flagged_lit_def in_free_def list_all_iff)

lemma flagged_dnf:
  assumes "flag \<longrightarrow> in_free Ds"
  shows "dnf_defined (flagged_lit flag names fs) Ds = dnf_defined (pba_clause_lit names fs) Ds"
    "dnf_selects (flagged_lit flag names fs) Ds = dnf_selects (pba_clause_lit names fs) Ds"
proof -
  note eq = flagged_lit_eq [OF assms]
  show "dnf_defined (flagged_lit flag names fs) Ds = dnf_defined (pba_clause_lit names fs) Ds"
    using eq by (force simp: dnf_defined_def list_all_iff)
  have "literal_mark (flagged_lit flag names fs) l = literal_mark (pba_clause_lit names fs) l" if "D \<in> set Ds" "l \<in> set D" for D l
    using eq [OF that, of names fs] by (cases l) (simp add: literal_mark_def)
  then show "dnf_selects (flagged_lit flag names fs) Ds = dnf_selects (pba_clause_lit names fs) Ds"
    unfolding dnf_selects_def by (simp cong: map_cong)
qed

lemma pba_BlockFilter_exact:
  assumes lay: "result_rows_in PBA_BUFF_SIZE sr (map enc_row F)"
    and schema: "block_schema (rs_filter_info sr)" "list_all (fits_schema (rs_filter_info sr)) F"
    and doc: "json_member (parse (table_filter (rs_filter_info sr))) ''tableFilter'' = Inr (JArr ts)"
    and toks: "dnf_toks ts Ds" "list_all (\<lambda>fs. dnf_defined (pba_clause_lit (table_col (rs_filter_info sr)) fs) Ds) F"
    and v0: "substringflag v0 \<longrightarrow> in_free Ds"
  shows "\<exists>fk' fr. pba_BlockFilter parse junk v0 sr fk mq = Inr (fk', push_work fr mq) \<and> same_ids sr fr \<and>
    result_rows_in PBA_BUFF_SIZE fr
      (map enc_row (filter (\<lambda>fs. dnf_true (pba_clause_lit (table_col (rs_filter_info sr)) fs) Ds) F))"
proof -
  obtain fo k where fk: "fk = (fo, k)" by (cases fk)
  let ?fi = "rs_filter_info sr"
  let ?fr = "pba_new_Result junk (rs_query_id sr) (rs_work_id sr) (rs_csd_name sr)
                 (rs_total_block_count sr) ?fi (rs_projection_length sr) (rs_result_block_count sr)"
  from prepare_filter_ok [where parse = parse, OF schema(1) doc] obtain fo1 where
    prep: "prepare_filter PBA_BUFF_SIZE parse sr fo = Inr (JArr ts, typedata_of ?fi, fo1)"
      "filter_ready PBA_BUFF_SIZE ?fi (rs_data sr) fo1" by blast
  have F: "\<forall>fs\<in>set F. fits_schema ?fi fs" "\<forall>fs\<in>set F. dnf_defined (flagged_lit (substringflag v0) (table_col ?fi) fs) Ds"
    using schema(2) toks(2) by (simp_all add: list_all_iff flagged_dnf(1) [OF v0])
  have "result_rows_in PBA_BUFF_SIZE ?fr []" "same_ids sr ?fr"
    by (cases sr; simp add: result_rows_in_def pba_new_Result_def same_ids_def)+
  from pba_filter.filter_block_ok [OF lay schema(1) F(1) toks(1) F(2) prep(2) imp_refl this] prep(1) fk show ?thesis
    unfolding flagged_dnf(2) [OF v0] pba_selects_exact [OF toks(1)]
    by (auto simp: pba_BlockFilter_def sendfilterresult_def Let_def)
qed



definition ex_pba_scan :: pba_Result where
  "ex_pba_scan = \<lparr> rs_query_id = 1, rs_work_id = 2, rs_csd_name = ''1'', rs_total_block_count = 3,
     rs_filter_info = ex_info, rs_row_count = 2, rs_length = 14, rs_data = rs_data ex_scan,
     rs_row_offset = [0, 7], rs_result_block_count = 1, rs_projection_length = [4] \<rparr>"

definition ex_locals :: row_vars where
  "ex_locals = \<lparr> CV = True, TmpV = False, Passed = True, isSaved = True, canSaved = True,
     isnot = True, substringflag = False, tmpsubstring = [] \<rparr>"

lemma ex_pba_layout: "result_rows_in PBA_BUFF_SIZE ex_pba_scan (map enc_row ex_rows)"
proof -
  have "result_rows ex_scan (map enc_row ex_rows)" by (rule ex_layout)
  then show ?thesis
    by (simp add: result_rows_in_def row_layout_in_def ex_pba_scan_def ex_scan_def csd_sizes pba_sizes)
qed

lemma ex_pba_lits:
  "pba_clause_lit [''id'', ''nm''] (ex_rows ! 0) ex_like = Some (True, True)"
  "pba_clause_lit [''id'', ''nm''] (ex_rows ! 1) ex_like = Some (False, False)"
  by (simp_all add: ex_rows_def ex_like_def ex_like_values clause_eval pba_clause_lit_def)


section \<open>SUBSTRING before IN\<close>

text \<open>
  \<open>SUBSTRING(col, from, for) IN (...)\<close> as two elements of the filter: the second one sets \<open>CV\<close> to whether the part of the
  column, without the blanks at its end, is in the list, and leaves \<open>substringflag\<close> false again.
\<close>

lemma pba_substring_in:
  assumes fo: "row_reader cap typedata names fs base d fo" and v: "\<not> Passed v" "\<not> isSaved v" "TmpV v"
    and s: "has_op SUBSTRING s" "member_term names fs s ''LV'' = Some (CStr a)"
    and arg: "json_member s ''EXTRA'' = Inr (JArr [JStr (p0 # r0), JStr (p1 # r1)])"
      "atoi r0 = int (Suc from)" "atoi r1 = int len" "from \<le> length a" "from < 2 ^ 64" "len < 2 ^ 64"
    and c: "has_op IN_OP c" "json_member c ''EXTRA'' = Inr (JArr es)" "str_constants (map (term_value names fs) es)"
  shows "\<exists>fo'. row_loop (pba_filter_case typedata d) [s, c] (v, fo) =
      Inr (compare_flags (Some (KStr (rtrim (take len (drop from a)))) \<in> set (map (term_value names fs) es))
             (v\<lparr>tmpsubstring := take len (drop from a), substringflag := False\<rparr>), fo') \<and>
    row_reader cap typedata names fs base d fo'"
proof -
  let ?sub = "take len (drop from a)"
  let ?v = "v\<lparr>tmpsubstring := ?sub, substringflag := True\<rparr>" and ?w = "v\<lparr>tmpsubstring := ?sub, substringflag := False\<rparr>"
  from s(2) obtain jl where jl: "json_member s ''LV'' = Inr jl" "term_value names fs jl = Some (CStr a)" by (rule member_term_Some)
  from term_CStr [OF fo jl(2)] obtain l fo1 where
    l: "jl = JStr l" "big_type typedata l" "typeBig l d fo = Inr (a, fo1)" "row_reader cap typedata names fs base d fo1" by blast
  have size: "int_to_size (atoi r0 - 1) = from" "int_to_size (atoi r1) = len" using arg(2,3,5,6) by (simp_all add: int_to_size_def)
  have "pba_clause_SUBSTRING typedata d s (v, fo) = Inr (?v, fo1)"
    using jl(1) l arg(1,4) size
    by (simp add: pba_clause_SUBSTRING_def json_elem_def std_substr_from_def std_substr_def)
  then have 1: "pba_filter_case typedata d s (v, fo) = Inr (?v, fo1)" using s(1) v(1) by (simp add: pba_filter_case_op)
  let ?b = "Some (KStr (rtrim ?sub)) \<in> set (map (term_value names fs) es)"
  have "pba_clause_IN typedata d c (?v, fo1) = Inr (negate_if_not (?w\<lparr>CV := ?b, canSaved := ?b\<rparr>), fo1)"
    using c(2) pba_InOperator_str_ok [OF l(4) c(3), of ?sub] by (cases v) (simp add: pba_clause_IN_def in_result_def set_in_flags_def)
  then have "pba_filter_case typedata d c (?v, fo1) = Inr (compare_flags ?b ?w, fo1)"
    using c(1) v(1,3) loud_flags [of ?w ?b] by (simp add: pba_filter_case_op)
  with 1 l(4) v(2) show ?thesis by (simp add: row_loop_def compare_flags_eq)
qed

text \<open>
  NE between two CHAR or VARSTRING columns compares the first with the \<^emph>\<open>name\<close> of the second, without its first
  character.
\<close>

lemma pba_ne_compares_name:
  assumes "row_reader cap typedata names fs base d fo" "has_op NE c" "\<not> Passed v"
    and "member_term names fs c ''LV'' = Some (CStr a)" "json_member c ''RV'' = Inr (JStr (ch # name))"
    and "term_value names fs (JStr (ch # name)) = Some (CStr b)"
  shows "\<exists>fo'. pba_filter_case typedata d c (v, fo) = Inr (compare_flags (rtrim a \<noteq> name) v, fo')"
proof -
  from assms(4) obtain jl where jl: "json_member c ''LV'' = Inr jl" "term_value names fs jl = Some (CStr a)" by (rule member_term_Some)
  from term_CStr [OF assms(1) jl(2)] obtain l fo1 where
    l: "jl = JStr l" "\<not> little_type typedata l" "big_type typedata l" "typeBig l d fo = Inr (a, fo1)" by blast
  have "\<not> decimal_type typedata (ch # name)" using term_CStr [OF assms(1,6)] by (auto simp: type_tests)
  then show ?thesis
    using assms(2,3,5) jl(1) l
    by (simp add: pba_filter_case_op pba_clause_NE_def compare_operands_def rv_decimal_def std_substr_from_def
        apply_compare_def pba_compareNE_str_def)
qed

end
