(* ===== verification/Pba_Values.thy ===== *)
theory Pba_Values
  imports Merge_Values
begin

text \<open>
  The values of the projection machine in the version of the worker that reads blocks by their
  physical address (\<open>temp/merge_manager.h\<close>, \<open>temp/merge_manager.cc\<close>). Against the version of
  \<open>Merge_Values\<close> the member \<open>real_size\<close> of \<open>T\<close>, the number of bytes of the fraction, starts at 0 and every
  operator sets it, a product adds the sizes of its operands, and a DECIMAL result is split by \<open>modf\<close> and
  rounded instead of truncated.

  Shown: a DECIMAL(15,2) of either sign comes back exactly, and the product of a price and a
  discount is written without losing a digit, though not always in normal form.
\<close>

section \<open>Operations\<close>

definition sized :: "T \<Rightarrow> T" where
  \<comment> \<open>\<open>int real_size = 0\<close>: a \<open>T\<close> whose \<open>real_size\<close> was not assigned\<close>
  "sized t = t\<lparr> real_size := Some (case real_size t of None \<Rightarrow> 0 | Some n \<Rightarrow> n) \<rparr>"

text \<open>The text of \<open>stack_charToValue\<close> is that of the other version; only the initial value differs.\<close>

definition pba_charToValue :: "string \<Rightarrow> int \<Rightarrow> operand res" where
  "pba_charToValue src type = bindE (stack_charToValue src type) (\<lambda>(t, ty). Inr (sized t, ty))"

definition d_round :: "rat \<Rightarrow> int" where
  \<comment> \<open>\<open>round\<close>: halves away from zero\<close>
  "d_round x = (if 0 \<le> x then \<lfloor>x + 1 / 2\<rfloor> else - \<lfloor>- x + 1 / 2\<rfloor>)"

definition pba_fraction :: "rat \<Rightarrow> int \<Rightarrow> string res" where
  \<comment> \<open>the bytes of \<open>real\<close>; for another size none is written, and \<open>n\<close> of them are returned\<close>
  "pba_fraction real_temp n =
     (if n = 1 then Inr (be_bytes 1 (nat (d_round (d_mul real_temp 100))))
      else if n = 2 then Inr (be_bytes 2 (nat (d_round (d_mul real_temp 10000))))
      else if n = 3 then Inr (be_bytes 3 (nat (d_round (d_mul real_temp 1000000))))
      else if n = 0 then Inr [] else Inl Uninitialised)"

definition pba_decimal_chars :: "rat \<Rightarrow> int \<Rightarrow> string res" where
  \<comment> \<open>the \<open>MySQL_NEWDECIMAL\<close> branch of \<open>stack_valueToChar\<close>; \<open>modf\<close> is exact\<close>
  "pba_decimal_chars d n =
     (let is_negative = (d < 0); v = \<bar>d\<bar>; integer = \<lfloor>v\<rfloor>; real_temp = v - of_int integer
      in if 2 ^ 63 \<le> v then Inl FloatRange
         else bindE (pba_fraction real_temp n) (\<lambda>real.
           let dest = CHR 0x80 # be_bytes 5 (nat (integer mod 2 ^ 40)) @ real
           in if \<not> is_negative then Inr dest
              else if n = 0 then Inl Uninitialised
              else Inr (map complement (take 7 dest) @ drop 7 dest)))"

definition pba_valueToChar :: "int \<Rightarrow> operand \<Rightarrow> string res" where
  "pba_valueToChar dest_type v =
     (case snd v of
        T_INT \<Rightarrow> bindE (read_var (varInt (fst v))) (\<lambda>i. Inr (int_bytes 4 i))
      | T_Long \<Rightarrow> bindE (read_var (varLong (fst v))) (\<lambda>i. Inr (int_bytes 8 i))
      | T_STRING \<Rightarrow> string_chars (varString (fst v))
      | T_DECIMAL \<Rightarrow> Inr []
      | T_None \<Rightarrow> Inr []
      | _ \<Rightarrow> if dest_type = mysql_code MySQL_NEWDECIMAL then
                bindE (read_var (varDouble (fst v))) (\<lambda>d.
                bindE (read_var (real_size (fst v))) (\<lambda>n. pba_decimal_chars d n))
              else Inr [])"

text \<open>The operators; \<open>with_size f op1 op2\<close> reads the two sizes.\<close>

definition with_size :: "(int \<Rightarrow> int \<Rightarrow> operand option res) \<Rightarrow> operand \<Rightarrow> operand \<Rightarrow> operand option res" where
  "with_size f op1 op2 = bindE (read_var (real_size (fst op1))) (\<lambda>a.
     bindE (read_var (real_size (fst op2))) (\<lambda>b. f a b))"

definition pba_plus :: "operand \<Rightarrow> operand \<Rightarrow> operand option res" where
  "pba_plus op1 op2 = (case (snd op1, snd op2) of
       (T_INT, T_DOUBLE) \<Rightarrow> push_double (Some 1) (on_int_double (\<lambda>a b. Inr (d_add a b)) op1 op2)
     | (T_DOUBLE, T_INT) \<Rightarrow> push_double (Some 1) (on_double_int (\<lambda>a b. Inr (d_add a b)) op1 op2)
     | _ \<Rightarrow> Inr None)"

definition pba_minus :: "operand \<Rightarrow> operand \<Rightarrow> operand option res" where
  "pba_minus op1 op2 = (case (snd op1, snd op2) of
       (T_INT, T_DOUBLE) \<Rightarrow> push_double (Some 1) (on_int_double (\<lambda>a b. Inr (d_sub a b)) op1 op2)
     | (T_DOUBLE, T_INT) \<Rightarrow> push_double (Some 1) (on_double_int (\<lambda>a b. Inr (d_sub a b)) op1 op2)
     | (T_DOUBLE, T_DOUBLE) \<Rightarrow> with_size (\<lambda>m n.
         push_double (Some (max m n)) (on_double_double (\<lambda>a b. Inr (d_sub a b)) op1 op2)) op1 op2
     | _ \<Rightarrow> Inr None)"

definition pba_times :: "operand \<Rightarrow> operand \<Rightarrow> operand option res" where
  "pba_times op1 op2 = (case (snd op1, snd op2) of
       (T_DOUBLE, T_DOUBLE) \<Rightarrow> with_size (\<lambda>m n.
         push_double (Some (m + n)) (on_double_double (\<lambda>a b. Inr (d_mul a b)) op1 op2)) op1 op2
     | (T_DOUBLE, T_INT) \<Rightarrow> with_size (\<lambda>m n.
         push_double (Some m) (on_double_int (\<lambda>a b. Inr (d_mul a b)) op1 op2)) op1 op2
     | (T_INT, T_DOUBLE) \<Rightarrow> with_size (\<lambda>m n.
         push_double (Some n) (on_int_double (\<lambda>a b. Inr (d_mul a b)) op1 op2)) op1 op2
     | _ \<Rightarrow> Inr None)"

definition pba_divide :: "operand \<Rightarrow> operand \<Rightarrow> operand option res" where
  "pba_divide op1 op2 = (case (snd op1, snd op2) of
       (T_INT, T_DOUBLE) \<Rightarrow> push_double (Some 1) (on_int_double d_div op1 op2)
     | (T_DOUBLE, T_INT) \<Rightarrow> push_double (Some 1) (on_double_int d_div op1 op2)
     | _ \<Rightarrow> Inr None)"

section \<open>Writing a double near a decimal\<close>

lemma d_round_eqI: "\<bar>x - of_int i\<bar> < 1 / 2 \<Longrightarrow> 0 \<le> x \<Longrightarrow> d_round x = i"
proof -
  assume x: "\<bar>x - of_int i\<bar> < 1 / 2" "0 \<le> x"
  then have "of_int i \<le> x + 1 / 2" "x + 1 / 2 < of_int i + 1" by (simp_all only: abs_less_iff, linarith+)
  then have "\<lfloor>x + 1 / 2\<rfloor> = i" by linarith
  with x(2) show "d_round x = i" by (simp add: d_round_def)
qed

definition fraction_scale :: "int \<Rightarrow> int" where
  "fraction_scale n = (if n = 1 then 100 else if n = 2 then 10000 else 1000000)"

text \<open>The rounded fraction of a double within a quarter unit of \<open>E / scale\<close>.\<close>

lemma rounded_fraction:
  assumes "0 \<le> v" "\<bar>v * of_int S - of_int E\<bar> \<le> 1 / 4" "S = 100 \<or> S = 10000 \<or> S = 1000000"
  shows "d_round (d_mul (v - of_int \<lfloor>v\<rfloor>) (of_int S)) = E - S * \<lfloor>v\<rfloor> \<and> 0 \<le> E - S * \<lfloor>v\<rfloor> \<and> E - S * \<lfloor>v\<rfloor> \<le> S"
proof -
  let ?x = "v - of_int \<lfloor>v\<rfloor>" and ?F = "E - S * \<lfloor>v\<rfloor>" and ?S = "of_int S :: rat"
  let ?y = "d_mul ?x ?S"
  have x: "0 \<le> ?x" "?x < 1" by linarith+
  have S: "0 < ?S" "?S \<le> 1000000" using assms(3) by auto
  have xS: "0 \<le> ?x * ?S" "?x * ?S \<le> ?S" using x S by (simp_all add: mult_le_cancel_right1)
  have y: "\<bar>?y - ?x * ?S\<bar> \<le> 1 / 8"
    using dbl_error [of "?x * ?S"] xS S(2) by (simp add: d_mul_def)
  have y0: "0 \<le> ?y" using xS(1) by (simp add: d_mul_def fl_nonneg)
  have "?x * ?S = v * ?S - of_int (S * \<lfloor>v\<rfloor>)" by (simp add: algebra_simps)
  then have F: "\<bar>?x * ?S - of_int ?F\<bar> \<le> 1 / 4" using assms(2) by simp
  then have "\<bar>?y - of_int ?F\<bar> < 1 / 2" using y by linarith
  moreover have "(of_int ?F :: rat) > - 1" "of_int ?F < ?S + 1" using F xS by linarith+
  then have "(of_int ?F :: rat) > of_int (- 1)" "(of_int ?F :: rat) < of_int (S + 1)" by simp_all
  then have "0 \<le> ?F" "?F \<le> S" by (simp_all only: of_int_less_iff)
  ultimately show ?thesis using d_round_eqI [OF _ y0] by simp
qed

lemma pba_chars_near:
  assumes "0 \<le> v" "v < 2 ^ 40" "n \<in> {1, 2, 3}" "\<bar>v * of_int (fraction_scale n) - of_int E\<bar> \<le> 1 / 4"
  shows "\<exists>F. pba_decimal_chars v n = Inr (CHR 0x80 # be_bytes 5 (nat \<lfloor>v\<rfloor>) @ be_bytes (nat n) F) \<and>
    fraction_scale n * \<lfloor>v\<rfloor> + int F = E \<and> int F \<le> fraction_scale n"
proof -
  let ?S = "fraction_scale n" and ?F = "nat (E - fraction_scale n * \<lfloor>v\<rfloor>)"
  have S: "?S = 100 \<or> ?S = 10000 \<or> ?S = 1000000" using assms(3) by (auto simp: fraction_scale_def)
  note F = rounded_fraction [OF assms(1,4) S]
  have "pba_fraction (v - of_int \<lfloor>v\<rfloor>) n = Inr (be_bytes (nat n) ?F)"
    using F assms(3) by (auto simp: pba_fraction_def fraction_scale_def)
  moreover have "\<lfloor>v\<rfloor> mod 2 ^ 40 = \<lfloor>v\<rfloor>"
  proof -
    have "0 \<le> \<lfloor>v\<rfloor>" "\<lfloor>v\<rfloor> < 2 ^ 40" using assms(1,2) by (simp_all add: floor_less_iff)
    then show ?thesis by (rule mod_pos_pos_trivial)
  qed
  moreover have "\<not> 2 ^ 63 \<le> v" using assms(2) by simp
  ultimately have "pba_decimal_chars v n = Inr (CHR 0x80 # be_bytes 5 (nat \<lfloor>v\<rfloor>) @ be_bytes (nat n) ?F)"
    using assms(1) by (simp add: pba_decimal_chars_def Let_def)
  then show ?thesis using F by (intro exI [of _ ?F]) simp
qed

text \<open>A negative value: the first seven bytes of the positive one, complemented, whatever the size of the fraction.\<close>

lemma pba_decimal_chars_neg:
  assumes "0 < v" "n \<noteq> 0"
  shows "pba_decimal_chars (- v) n = bindE (pba_decimal_chars v n) (\<lambda>d. Inr (map complement (take 7 d) @ drop 7 d))"
  using assms by (cases "pba_fraction (v - of_int \<lfloor>v\<rfloor>) n") (simp_all add: pba_decimal_chars_def Let_def del: take_Cons_numeral drop_Cons_numeral)

section \<open>Reading a decimal\<close>

lemma complement_complement [simp]: "complement (complement c) = c"
proof -
  have lt: "(of_char c :: nat) < 256" by simp
  then have "255 - (255 - of_char c :: nat) = of_char c" by (intro diff_diff_cancel) linarith
  moreover have "(of_char (complement c) :: nat) = 255 - of_char c" by (simp add: complement_def)
  ultimately show ?thesis unfolding complement_def [of "complement c"] by simp
qed

definition decimal_double :: "nat \<Rightarrow> nat \<Rightarrow> rat" where
  \<comment> \<open>the double that a column \<open>n.c\<close> is read as\<close>
  "decimal_double n c = d_add (of_nat n) (d_mul (of_nat c) C_0_01)"

lemma decimal_double_nonneg: "0 \<le> decimal_double n c"
proof -
  have "0 \<le> C_0_01" by (simp add: C_0_01_def fl_nonneg)
  then have "0 \<le> d_mul (of_nat c) C_0_01" by (simp add: d_mul_def fl_nonneg)
  then show ?thesis by (simp add: decimal_double_def d_add_def fl_nonneg)
qed

lemma decimal_value_complement:
  assumes "n < 10 ^ 9" "c < 100"
  shows "decimal_value (map complement (dec15_2 n c)) = - decimal_double n c"
proof -
  let ?s = "dec15_2 n c"
  have len: "length ?s = 7" using be_nat_dec15_2(2) [OF assms] .
  have s0: "?s ! 0 = CHR 0x80" by (simp add: dec15_2_bytes [OF assms(1)])
  have "complement (CHR 0x80) = CHR 0x7F" by (simp add: complement_def char_of_def bit_0)
  then have neg: "of_char (map complement ?s ! 0) < (128 :: nat)" using len s0 by simp
  have pos: "\<not> of_char (?s ! 0) < (128 :: nat)" using s0 by simp
  have "map complement (map complement ?s) = ?s" by (simp add: comp_def)
  then have "decimal_value (map complement ?s) = - decimal_value ?s"
    using neg pos by (simp add: decimal_value_def Let_def)
  then show ?thesis by (simp add: decimal_value_dec15_2 [OF assms] decimal_double_def)
qed

definition decimal_operand :: "rat \<Rightarrow> operand" where
  "decimal_operand d = (T_new\<lparr> varDouble := Some d, real_size := Some 1 \<rparr>, T_DOUBLE)"

lemma pba_charToValue_decimal:
  assumes "n < 10 ^ 9" "c < 100"
  shows "pba_charToValue (dec15_2 n c) 246 = Inr (decimal_operand (decimal_double n c))"
    and "pba_charToValue (map complement (dec15_2 n c)) 246 = Inr (decimal_operand (- decimal_double n c))"
  using be_nat_dec15_2(2) [OF assms] decimal_value_dec15_2 [OF assms] decimal_value_complement [OF assms]
  by (simp_all add: pba_charToValue_def stack_charToValue_def take_bytes_def sized_def decimal_operand_def decimal_double_def)

lemma decimal_double_bounds:
  assumes "n < 10 ^ 9" "c < 100"
  shows "\<bar>decimal_double n c * 100 - of_int (100 * int n + int c)\<bar> \<le> 1 / 4" "\<lfloor>decimal_double n c\<rfloor> = int n"
    "decimal_double n c \<le> 10 ^ 9"
proof -
  let ?v = "decimal_double n c"
  have err: "\<bar>?v - (of_nat n + of_nat c / 100)\<bar> \<le> 1 / 1000000"
    using decimal_double_error [OF assms] by (simp add: decimal_double_def)
  have c: "(of_nat c :: rat) \<le> 99" "0 \<le> (of_nat c :: rat)" using assms(2) by simp_all
  have n: "(of_nat n :: rat) \<le> 10 ^ 9 - 1" using assms(1) of_nat_mono [of n "10 ^ 9 - 1", where 'a = rat] by simp
  show "\<bar>?v * 100 - of_int (100 * int n + int c)\<bar> \<le> 1 / 4" using err unfolding abs_le_iff by simp
  show "?v \<le> 10 ^ 9" using err c n unfolding abs_le_iff by linarith
  show "\<lfloor>?v\<rfloor> = int n"
  proof (cases "c = 0")
    case True
    then have "?v = of_nat n"
      using d_of_int_exact [of "int n"] assms(1) by (simp add: decimal_double_def d_add_def d_mul_def d_of_int_def)
    then show ?thesis by simp
  next
    case False
    then have "(1 :: rat) \<le> of_nat c" by simp
    then have "of_nat n \<le> ?v" "?v < of_nat n + 1" using err c unfolding abs_le_iff by linarith+
    then show ?thesis by (simp add: floor_eq_iff)
  qed
qed

lemma pba_decimal_chars_exact:
  assumes "n < 10 ^ 9" "c < 100"
  shows "pba_decimal_chars (decimal_double n c) 1 = Inr (dec15_2 n c)"
proof -
  note b = decimal_double_bounds [OF assms]
  have "decimal_double n c < 2 ^ 40" using b(3) by simp
  from pba_chars_near [OF decimal_double_nonneg this, of 1 "100 * int n + int c"] b(1,2) obtain F where
    F: "pba_decimal_chars (decimal_double n c) 1 = Inr (CHR 0x80 # be_bytes 5 n @ be_bytes 1 F)"
    "100 * int n + int F = 100 * int n + int c" by (auto simp: fraction_scale_def)
  then have "F = c" by simp
  with F(1) show ?thesis unfolding dec15_2_bytes [OF assms(1)] bytes_unfold by simp
qed

section \<open>A price and a discount\<close>

definition discounted :: "nat \<Rightarrow> nat \<Rightarrow> nat \<Rightarrow> rat" where
  \<comment> \<open>\<open>n.c * (1 - 0.k)\<close> in doubles\<close>
  "discounted n c k = d_mul (decimal_double n c) (d_sub 1 (decimal_double 0 k))"

lemma cents_error:
  assumes "k < 100"
  shows "\<bar>decimal_double 0 k - of_nat k / 100\<bar> \<le> 4 / 2 ^ 53"
proof -
  let ?c = C_0_01
  let ?x = "dbl (of_nat k * ?c)"
  have k: "(of_nat k :: rat) \<le> 99" "0 \<le> (of_nat k :: rat)" using assms by simp_all
  have "\<bar>?c - 1 / 100\<bar> \<le> 1 / 100 / 2 ^ 53" using dbl_error [of "1 / 100"] by (simp add: C_0_01_def)
  then have "of_nat k * \<bar>?c - 1 / 100\<bar> \<le> 99 * (1 / 100 / 2 ^ 53)" using k by (intro mult_mono) simp_all
  moreover have "of_nat k * ?c - of_nat k / 100 = of_nat k * (?c - 1 / 100)" by (simp add: right_diff_distrib)
  ultimately have kc: "\<bar>of_nat k * ?c - of_nat k / 100\<bar> \<le> 1 / 2 ^ 53"
    using k(2) by (simp add: abs_mult)
  then have "\<bar>of_nat k * ?c\<bar> \<le> 1" using k unfolding abs_le_iff by simp
  then have "\<bar>?x - of_nat k * ?c\<bar> \<le> 1 / 2 ^ 53" using dbl_error [of "of_nat k * ?c"] by (simp add: field_simps)
  with kc have x: "\<bar>?x - of_nat k / 100\<bar> \<le> 2 / 2 ^ 53" by linarith
  then have "\<bar>?x\<bar> \<le> 2" using k unfolding abs_le_iff by simp
  then have "\<bar>dbl ?x - ?x\<bar> \<le> 2 / 2 ^ 53" using dbl_error [of ?x] by (simp add: field_simps)
  with x have "\<bar>dbl ?x - of_nat k / 100\<bar> \<le> 4 / 2 ^ 53" by linarith
  then show ?thesis by (simp add: decimal_double_def d_add_def d_mul_def)
qed

lemma discount_factor:
  assumes "k < 100"
  shows "\<bar>d_sub 1 (decimal_double 0 k) - (1 - of_nat k / 100)\<bar> \<le> 1 / 10 ^ 15" "0 \<le> d_sub 1 (decimal_double 0 k)"
proof -
  let ?q = "decimal_double 0 k"
  have k: "(of_nat k :: rat) \<le> 99" "0 \<le> (of_nat k :: rat)" using assms by simp_all
  note q = cents_error [OF assms]
  then have r: "0 \<le> 1 - ?q" "1 - ?q \<le> 2" using k unfolding abs_le_iff by simp_all
  then have "\<bar>dbl (1 - ?q) - (1 - ?q)\<bar> \<le> 2 / 2 ^ 53" using dbl_error [of "1 - ?q"] by (simp add: field_simps)
  with q have "\<bar>dbl (1 - ?q) - (1 - of_nat k / 100)\<bar> \<le> 6 / 2 ^ 53" by linarith
  also have "(6 / 2 ^ 53 :: rat) \<le> 1 / 10 ^ 15" by simp
  finally show "\<bar>d_sub 1 ?q - (1 - of_nat k / 100)\<bar> \<le> 1 / 10 ^ 15" by (simp add: d_sub_def)
  show "0 \<le> d_sub 1 ?q" using r(1) by (simp add: d_sub_def fl_nonneg)
qed

lemma discounted_near:
  assumes "n < 10 ^ 9" "c < 100" "k < 100"
  shows "\<bar>discounted n c k * 10000 - of_int ((100 * int n + int c) * (100 - int k))\<bar> \<le> 1 / 4"
    "0 \<le> discounted n c k" "discounted n c k < 2 ^ 40"
proof -
  let ?p = "decimal_double n c" and ?t = "d_sub 1 (decimal_double 0 k)" and ?P = "of_nat n + of_nat c / 100 :: rat"
    and ?T = "1 - of_nat k / 100 :: rat"
  have p: "\<bar>?p - ?P\<bar> \<le> 1 / 1000000" "0 \<le> ?p" "?p \<le> 10 ^ 9"
    using decimal_double_error [OF assms(1,2)] decimal_double_nonneg [of n c] decimal_double_bounds(3) [OF assms(1,2)]
    by (simp_all add: decimal_double_def)
  note t = discount_factor [OF assms(3)]
  have T: "0 \<le> ?T" "?T \<le> 1" using assms(3) by simp_all
  have t2: "?t \<le> 2" using t(1) T unfolding abs_le_iff by simp
  have "\<bar>?p * (?t - ?T)\<bar> \<le> 10 ^ 9 * (1 / 10 ^ 15)"
    unfolding abs_mult using p t by (intro mult_mono) simp_all
  moreover have "\<bar>?T * (?p - ?P)\<bar> \<le> 1 * (1 / 1000000)"
    unfolding abs_mult using p T by (intro mult_mono) simp_all
  moreover have "?p * ?t - ?P * ?T = ?p * (?t - ?T) + ?T * (?p - ?P)" by (simp add: algebra_simps)
  moreover have "(10 ^ 9 * (1 / 10 ^ 15) :: rat) = 1 / 1000000" by simp
  ultimately have pt: "\<bar>?p * ?t - ?P * ?T\<bar> \<le> 2 / 1000000"
    using abs_triangle_ineq [of "?p * (?t - ?T)" "?T * (?p - ?P)"] by simp
  have pt0: "0 \<le> ?p * ?t" "?p * ?t \<le> 10 ^ 9 * 2" using p t t2 by (simp, intro mult_mono) simp_all
  then have "\<bar>dbl (?p * ?t) - ?p * ?t\<bar> \<le> 1 / 1000000" using dbl_error [of "?p * ?t"] by simp
  with pt have r: "\<bar>discounted n c k - ?P * ?T\<bar> \<le> 3 / 1000000" unfolding discounted_def d_mul_def by linarith
  have "?P * ?T * 10000 = of_int ((100 * int n + int c) * (100 - int k))" by (simp add: field_simps)
  with r show "\<bar>discounted n c k * 10000 - of_int ((100 * int n + int c) * (100 - int k))\<bar> \<le> 1 / 4"
    unfolding abs_le_iff by linarith
  show "0 \<le> discounted n c k" using pt0(1) by (simp add: discounted_def d_mul_def fl_nonneg)
  show "discounted n c k < 2 ^ 40" using r pt pt0(2) unfolding abs_le_iff by simp
qed

text \<open>
  The written form need not be normal: 500.00 times (1 - 0.54) is the double just below 230, which is
  written with the integer 229 and the fraction 10000.
\<close>

lemma discounted_500_54: "discounted 500 0 54 = 8092405580431359 / 2 ^ 45"
proof -
  have c: "dbl (1 / 100) = of_int 5764607523034235 * pow2 (- 59)" by (rule fl_eqI) (simp_all add: pow2_def)
  have "dbl (54 * (of_int 5764607523034235 * pow2 (- 59))) = of_int 4863887597560136 * pow2 (- 53)"
    by (rule fl_eqI) (simp_all add: pow2_def)
  then have q: "d_mul 54 C_0_01 = 4863887597560136 / 2 ^ 53" unfolding d_mul_def C_0_01_def c by (simp add: pow2_def)
  have "dbl (0 + 4863887597560136 / 2 ^ 53) = 4863887597560136 / 2 ^ 53"
    using fl_exact [of 4863887597560136 53 "- 53"] by (simp add: pow2_def)
  then have q': "decimal_double 0 54 = 4863887597560136 / 2 ^ 53" by (simp only: decimal_double_def of_nat_0 of_nat_numeral q d_add_def)
  have "dbl (1 - 4863887597560136 / 2 ^ 53) = of_int 8286623314361712 * pow2 (- 54)"
    by (rule fl_eqI) (simp_all add: pow2_def)
  then have t: "d_sub 1 (decimal_double 0 54) = 8286623314361712 / 2 ^ 54" unfolding q' d_sub_def by (simp add: pow2_def)
  have p: "decimal_double 500 0 = 500"
    using d_of_int_exact [of 500] by (simp add: decimal_double_def d_add_def d_mul_def d_of_int_def)
  have "dbl (500 * (8286623314361712 / 2 ^ 54)) = of_int 8092405580431359 * pow2 (- 45)"
    by (rule fl_eqI) (simp_all add: pow2_def)
  then show ?thesis unfolding discounted_def p t d_mul_def by (simp add: pow2_def)
qed

lemma carry_not_normalised:
  "pba_decimal_chars (discounted 500 0 54) 2 = Inr (CHR 0x80 # be_bytes 5 229 @ be_bytes 2 10000)"
proof -
  have fl: "\<lfloor>discounted 500 0 54\<rfloor> = 229" unfolding discounted_500_54 by (simp add: floor_eq_iff)
  have "\<bar>discounted 500 0 54 * of_int (fraction_scale 2) - of_int 2300000\<bar> \<le> 1 / 4"
    using discounted_near(1) [of 500 0 54] by (simp add: fraction_scale_def)
  from pba_chars_near [OF discounted_near(2,3) [of 500 0 54] _ this] fl
  obtain F where "pba_decimal_chars (discounted 500 0 54) 2 = Inr (CHR 0x80 # be_bytes 5 229 @ be_bytes 2 F)"
    "10000 * 229 + int F = 2300000" by (auto simp: fraction_scale_def)
  moreover from this(2) have "F = 10000" by simp
  ultimately show ?thesis by simp
qed

section \<open>Properties\<close>

text \<open>
  C27. In the block version a DECIMAL(15,2) below \<open>10 ^ 9\<close> survives the way through a \<open>double\<close> unchanged:
  \<open>stack_charToValue\<close> followed by \<open>stack_valueToChar\<close> gives the same seven bytes, for a positive amount and,
  but for a negative zero, for the complemented bytes of a negative one.
\<close>

theorem pba_decimal_round_trip:
  assumes "n < 10 ^ 9" "c < 100"
  shows "bindE (pba_charToValue (dec15_2 n c) 246) (pba_valueToChar 246) = Inr (dec15_2 n c) \<and>
    (n \<noteq> 0 \<or> c \<noteq> 0 \<longrightarrow>
      bindE (pba_charToValue (map complement (dec15_2 n c)) 246) (pba_valueToChar 246) = Inr (map complement (dec15_2 n c)))"
proof (intro conjI impI)
  let ?v = "decimal_double n c"
  have wr: "pba_valueToChar 246 (decimal_operand d) = pba_decimal_chars d 1" for d
    by (simp add: pba_valueToChar_def decimal_operand_def)
  note exact = pba_decimal_chars_exact [OF assms]
  show "bindE (pba_charToValue (dec15_2 n c) 246) (pba_valueToChar 246) = Inr (dec15_2 n c)"
    unfolding pba_charToValue_decimal [OF assms] by (simp add: wr exact)
  assume nz: "n \<noteq> 0 \<or> c \<noteq> 0"
  have "?v \<noteq> 0"
  proof
    assume "?v = 0"
    with decimal_double_bounds(1,2) [OF assms] nz show False by (simp add: abs_le_iff)
  qed
  then have "0 < ?v" using decimal_double_nonneg [of n c] by simp
  moreover have "length (dec15_2 n c) = 7" using be_nat_dec15_2(2) [OF assms] .
  ultimately have "pba_decimal_chars (- ?v) 1 = Inr (map complement (dec15_2 n c))"
    by (simp add: pba_decimal_chars_neg exact)
  then show "bindE (pba_charToValue (map complement (dec15_2 n c)) 246) (pba_valueToChar 246) = Inr (map complement (dec15_2 n c))"
    unfolding pba_charToValue_decimal [OF assms] by (simp add: wr)
qed

theorem pba_decimal_round_trip_witness:
  "bindE (pba_charToValue (dec15_2 0 29) 246) (pba_valueToChar 246) = Inr (dec15_2 0 29) \<and>
   bindE (pba_charToValue (map complement (dec15_2 5 0)) 246) (pba_valueToChar 246) = Inr (map complement (dec15_2 5 0))"
  using pba_decimal_round_trip [of 0 29] pba_decimal_round_trip [of 5 0] by simp

end
