(* ===== verification/Pba_Merge.thy ===== *)
theory Pba_Merge
  imports Pba_Values Pba_Input Merge_Units
begin

text \<open>
  The merge layer of the block version (\<open>temp/merge_manager.cc\<close>, \<open>temp/return.h\<close>). Its text is that of
  \<open>Merge_Project\<close> and \<open>Merge_Manager\<close> but for the values of \<open>Pba_Values\<close>, and for the types and lengths of
  the projected columns, which a \<open>Result\<close> brings along in its \<open>filter_info\<close> and a \<open>MergeResult\<close> takes over.
  \<open>getColOffset\<close>, \<open>calculSubstring\<close>, \<open>calculExtract\<close> and the scans of CASE for its marks have the same text and
  are shared.

  The layer is an instance of \<open>merge_layer\<close>, so that what is shown there of work units holds for it; in
  addition, the product of a price and a discount is shown to be exact.
\<close>

section \<open>The data\<close>

record pba_MergeResult = MergeResult +
  mr_projection_datatype :: "int list"
  mr_projection_length :: "int list"

definition pba_new_MergeResult :: "buffer \<Rightarrow> int \<Rightarrow> int \<Rightarrow> string \<Rightarrow> int list \<Rightarrow> int list \<Rightarrow> int \<Rightarrow> pba_MergeResult" where
  "pba_new_MergeResult junk qid wid csd types lengths tot =
     \<lparr> mr_query_id = qid, mr_work_id = wid, mr_csd_name = csd, mr_row_offset = [],
       mr_row_count = 0, mr_data = clear4 junk, mr_length = 0, mr_total_block_count = tot,
       mr_result_block_count = 0, mr_current_block_count = 0,
       mr_projection_datatype = types, mr_projection_length = lengths \<rparr>"

section \<open>Expressions\<close>

definition pba_push_operand ::
  "FilterInfo \<Rightarrow> string \<Rightarrow> int list \<Rightarrow> string \<Rightarrow> int \<Rightarrow> operand list \<Rightarrow> operand list res" where
  "pba_push_operand fi row col_offset v ty st =
     (let t = sized T_new in
      if ty = value_code V_INT8 \<or> ty = value_code V_INT16 \<or> ty = value_code V_INT32 then
        bindE (stoi v) (\<lambda>i. Inr ((t\<lparr> varInt := Some i \<rparr>, T_INT) # st))
      else if ty = value_code V_INT64 then
        bindE (stoll v) (\<lambda>i. Inr ((t\<lparr> varLong := Some i \<rparr>, T_Long) # st))
      else if ty = value_code V_FLOAT32 then
        bindE (stof v) (\<lambda>d. Inr ((t\<lparr> varDouble := Some d \<rparr>, T_DOUBLE) # st))
      else if ty = value_code V_FLOAT64 then
        bindE (stod v) (\<lambda>d. Inr ((t\<lparr> varDouble := Some d \<rparr>, T_DOUBLE) # st))
      else if ty = value_code V_STRING then
        Inr ((t\<lparr> varString := v \<rparr>, T_STRING) # st)
      else if ty = value_code V_COLUMN then
        bindE (column_slice fi row col_offset v) (\<lambda>(idx, bs).
        bindE (vec_at (table_datatype fi) idx) (\<lambda>dt.
        bindE (pba_charToValue bs dt) (\<lambda>x. Inr (x # st))))
      else Inr st)"

definition pba_apply_operator :: "string \<Rightarrow> operand list \<Rightarrow> postfix_step res" where
  "pba_apply_operator v stk =
     (case stk of op2 # op1 # st \<Rightarrow>
        let strings = (snd op1 = T_STRING \<and> snd op2 = T_STRING);
            s1 = varString (fst op1); s2 = varString (fst op2)
        in if v = ''+'' then pushed_result st (pba_plus op1 op2)
           else if v = ''-'' then pushed_result st (pba_minus op1 op2)
           else if v = ''*'' then pushed_result st (pba_times op1 op2)
           else if v = ''/'' then pushed_result st (pba_divide op1 op2)
           else if v = ''='' then
             Inr (if strings then Return (bool_byte (s1 = s2)) else Go st)
           else if v = ''<>'' then
             Inr (if strings then Return (bool_byte (s1 \<noteq> s2)) else Go st)
           else if v = ''LIKE'' then
             (if strings then bindE (oper_like s1 s2) (\<lambda>r.
                Inr (case r of None \<Rightarrow> Go st | Some b \<Rightarrow> Return (bool_byte b)))
              else Inr (Go st))
           else Inr (Go st)
      | _ \<Rightarrow> Inl EmptyStack)"

fun pba_postfix_loop ::
  "FilterInfo \<Rightarrow> string \<Rightarrow> int list \<Rightarrow> (string \<times> int) list \<Rightarrow> operand list \<Rightarrow> postfix_step res" where
  "pba_postfix_loop fi row co [] st = Inr (Go st)"
| "pba_postfix_loop fi row co ((v, ty) # ts) st =
     (if ty \<noteq> value_code V_OPERATOR then
        bindE (pba_push_operand fi row co v ty st) (pba_postfix_loop fi row co ts)
      else bindE (pba_apply_operator v st) (\<lambda>r. case r of
        Go st' \<Rightarrow> pba_postfix_loop fi row co ts st' | Return bs \<Rightarrow> Inr (Return bs)))"

definition pba_calculPostfix ::
  "(string \<times> int) list \<Rightarrow> FilterInfo \<Rightarrow> string \<Rightarrow> int list \<Rightarrow> nat \<Rightarrow> int \<Rightarrow> string res" where
  "pba_calculPostfix toks fi row co cap projection_dt =
     bindE (pba_postfix_loop fi row co toks []) (\<lambda>r. case r of
       Return bs \<Rightarrow> store cap bs
     | Go [] \<Rightarrow> Inl EmptyStack
     | Go (x # st) \<Rightarrow> bindE (pba_valueToChar projection_dt x) (store cap))"

section \<open>CASE\<close>

definition pba_eval_passed ::
  "FilterInfo \<Rightarrow> string \<Rightarrow> int list \<Rightarrow> (string \<times> int) list \<Rightarrow> char option \<Rightarrow> char option res" where
  "pba_eval_passed fi row co toks old =
     bindE (pba_calculPostfix toks fi row co 1 0) (\<lambda>bs. Inr (case bs of [] \<Rightarrow> old | b # _ \<Rightarrow> Some b))"

fun pba_case_when ::
  "FilterInfo \<Rightarrow> string \<Rightarrow> int list \<Rightarrow> Projection \<Rightarrow> nat list \<Rightarrow> (string \<times> int) list \<Rightarrow> char option \<Rightarrow> bool res" where
  "pba_case_when fi row co p [] toks pb = Inr True"
| "pba_case_when fi row co p (i # is) toks pb =
     bindE (vec_at (proj_values p) (int i)) (\<lambda>v.
       if v = ''AND'' then
         bindE (pba_eval_passed fi row co toks pb) (\<lambda>pb.
         bindE (read_var pb) (\<lambda>b.
           if b = CHR 0x01 then pba_case_when fi row co p is [] pb else Inr False))
       else if v = ''OR'' then
         bindE (pba_eval_passed fi row co toks pb) (\<lambda>pb.
         bindE (read_var pb) (\<lambda>b.
           if b = CHR 0x01 then Inr True else pba_case_when fi row co p is [] pb))
       else
         bindE (token_at p (int i)) (\<lambda>t.
           let toks = toks @ [t] in
           if is = [] then
             bindE (pba_eval_passed fi row co toks pb) (\<lambda>pb.
             bindE (read_var pb) (\<lambda>b. Inr (b \<noteq> CHR 0x00)))
           else pba_case_when fi row co p is toks pb))"

definition pba_case_then ::
  "FilterInfo \<Rightarrow> string \<Rightarrow> int list \<Rightarrow> Projection \<Rightarrow> nat \<Rightarrow> int \<Rightarrow> nat \<Rightarrow> string res" where
  "pba_case_then fi row co p cap dest_type th =
     bindE (then_tokens p [Suc th..<length (proj_values p)]) (\<lambda>toks. case toks of
       [(v, t)] \<Rightarrow> bindE (stoi v) (\<lambda>n. store cap (int_bytes 4 n))
     | _ \<Rightarrow> pba_calculPostfix toks fi row co cap dest_type)"

fun pba_case_branches ::
  "FilterInfo \<Rightarrow> string \<Rightarrow> int list \<Rightarrow> Projection \<Rightarrow> nat \<Rightarrow> int \<Rightarrow> (nat \<times> nat) list \<Rightarrow> string option res" where
  "pba_case_branches fi row co p cap dt [] = Inr None"
| "pba_case_branches fi row co p cap dt ((wh, th) # wts) =
     bindE (pba_case_when fi row co p [Suc wh..<th] [] None) (\<lambda>passed.
       if passed then bindE (pba_case_then fi row co p cap dt th) (\<lambda>bs. Inr (Some bs))
       else pba_case_branches fi row co p cap dt wts)"

definition pba_calculCase :: "FilterInfo \<Rightarrow> string \<Rightarrow> int list \<Rightarrow> nat \<Rightarrow> nat \<Rightarrow> string res" where
  "pba_calculCase fi row co l cap =
     bindE (vec_at (column_projection fi) (int l)) (\<lambda>p.
     bindE (vec_at (projection_datatype fi) (int l)) (\<lambda>dt.
     bindE (case_marks p) (\<lambda>(wts, el).
     bindE (pba_case_branches fi row co p cap dt wts) (\<lambda>r. case r of
       Some bs \<Rightarrow> Inr bs
     | None \<Rightarrow> case_else p cap dt el))))"

section \<open>Rows and results\<close>

definition pba_project_value :: "FilterInfo \<Rightarrow> string \<Rightarrow> int list \<Rightarrow> nat \<Rightarrow> string res" where
  "pba_project_value fi row co l =
     bindE (vec_at (column_projection fi) (int l)) (\<lambda>p.
       if length (proj_values p) = 1 then
         bindE (vec_at (proj_types p) 0) (\<lambda>ty.
           if ty = value_code V_COLUMN then
             bindE (column_slice fi row co (proj_values p ! 0)) (\<lambda>(idx, bs). store (length row) bs)
           else Inl Uninitialised)
       else
         bindE (vec_at (proj_values p) 0) (\<lambda>first_operator.
           if first_operator = ''CASE'' then pba_calculCase fi row co l (length row)
           else if first_operator = ''SUBSTRING'' then calculSubstring fi row co l (length row)
           else if first_operator = ''EXTRACT'' then calculExtract fi row co l (length row)
           else
             bindE (mapE (\<lambda>k. token_at p (int k)) [0..<length (proj_values p)]) (\<lambda>toks.
             bindE (vec_at (projection_datatype fi) (int l)) (\<lambda>dt.
               pba_calculPostfix toks fi row co (length row) dt))))"

definition pba_project_round :: "FilterInfo \<Rightarrow> string \<Rightarrow> int list \<Rightarrow> nat \<Rightarrow> string \<Rightarrow> string res" where
  "pba_project_round fi row co l new_row =
     bindE (vec_at (column_projection fi) (int l)) (\<lambda>p.
       if projection p \<noteq> select_code COL_NAME then Inr new_row
       else bindE (pba_project_value fi row co l) (\<lambda>bs. store (length row) (new_row @ bs)))"

definition pba_project_row :: "FilterInfo \<Rightarrow> string \<Rightarrow> string res" where
  "pba_project_row fi row =
     bindE (getColOffset row fi) (\<lambda>offs.
       let co = offs @ [int (length row)] in
       foldE (pba_project_round fi row co) [0..<length (column_projection fi)] [])"

type_synonym pba_merge_state = "(pair_key \<rightharpoonup> pba_MergeResult) \<times> pba_MergeResult WorkQueue"

definition pba_merge_row ::
  "pba_Result \<Rightarrow> nat \<Rightarrow> pba_MergeResult \<times> pba_MergeResult WorkQueue \<Rightarrow> (pba_MergeResult \<times> pba_MergeResult WorkQueue) res" where
  "pba_merge_row r i st =
     bindE (origin_row_in PBA_BUFF_SIZE r i) (\<lambda>row.
     bindE (pba_project_row (rs_filter_info r) row) (\<lambda>new_row. merge_append_in PBA_BUFF_SIZE new_row st))"

definition pba_MergeBlock :: "buffer \<Rightarrow> pba_Result \<Rightarrow> pba_merge_state \<Rightarrow> pba_merge_state res" where
  "pba_MergeBlock junk r st = (case st of (mm, rq) \<Rightarrow>
     let key = (rs_query_id r, rs_work_id r);
         m = (case mm key of
                None \<Rightarrow> pba_new_MergeResult junk (rs_query_id r) (rs_work_id r) (rs_csd_name r)
                          (projection_datatype (rs_filter_info r)) (rs_projection_length r) (rs_total_block_count r)
              | Some m \<Rightarrow> m)
     in bindE (if rs_row_count r \<noteq> 0 then foldE (pba_merge_row r) [0..<rs_row_count r] (m, rq) else Inr (m, rq)) (\<lambda>(m, rq).
        let m = count_blocks r m
        in if mr_total_block_count m = mr_current_block_count m
           then Inr (mm(key := None), push_work m rq)
           else Inr (mm(key \<mapsto> m), rq)))"

definition pba_Merging ::
  "buffer \<Rightarrow> pba_Result WorkQueue \<times> pba_merge_state \<Rightarrow> (pba_Result WorkQueue \<times> pba_merge_state) res" where
  "pba_Merging junk st = (case st of (mq, ms) \<Rightarrow>
     (case wait_and_pop 0 mq of
        (None, mq') \<Rightarrow> Inr (mq', ms)
      | (Some r, mq') \<Rightarrow> bindE (pba_MergeBlock junk r ms) (\<lambda>ms. Inr (mq', ms))))"

section \<open>The contract of the layer\<close>

lemma pba_project_round_bound:
  assumes "pba_project_round fi row co l new_row = Inr new_row'" "length new_row \<le> length row"
  shows "length new_row' \<le> length row"
  using assms by (auto simp: pba_project_round_def store_def bindE_Inr_conv split: if_splits)

lemma pba_project_row_bound: "pba_project_row fi row = Inr new_row \<Longrightarrow> length new_row \<le> length row"
  by (auto simp: pba_project_row_def bindE_Inr_conv
      elim!: foldE_invariant [where P = "\<lambda>r. length r \<le> length row"] dest: pba_project_round_bound)

interpretation pba_merge: merge_layer PBA_BUFF_SIZE pba_project_row
    "\<lambda>junk r. pba_new_MergeResult junk (rs_query_id r) (rs_work_id r) (rs_csd_name r)
       (projection_datatype (rs_filter_info r)) (rs_projection_length r) (rs_total_block_count r)" pba_MergeBlock
  by unfold_locales
    (simp_all add: pba_project_row_bound pba_new_MergeResult_def merge_rows_in_def unit_of_def pba_MergeBlock_def
      pba_merge_row_def [abs_def] Let_def)

text \<open>A list of columns is projected as in the other version.\<close>

lemma pba_project_row_columns:
  assumes "merge_schema fi fs" "projects_columns fi is"
  shows "pba_project_row fi (enc_row fs) = store (length (enc_row fs)) (columns_bytes fs is)"
proof -
  have "pba_project_round fi (enc_row fs) co l new_row = project_round fi (enc_row fs) co l new_row"
    if "l < length is" for co l new_row
  proof -
    have "vec_at (column_projection fi) (int l) = Inr (column_item fi (is ! l))"
      using that assms(2) by (simp add: projects_columns_def)
    then show ?thesis
      by (simp add: pba_project_round_def project_round_def pba_project_value_def project_value_def column_item_def)
  qed
  then have "foldE (pba_project_round fi (enc_row fs) co) [0..<n] [] = foldE (project_round fi (enc_row fs) co) [0..<n] []"
    if "n \<le> length is" for co n
    using that by (induction n) (auto simp: foldE_append intro!: bindE_cong)
  moreover have "length (column_projection fi) = length is" using assms(2) by (simp add: projects_columns_def)
  ultimately have "pba_project_row fi (enc_row fs) = project_row fi (enc_row fs)"
    by (simp add: pba_project_row_def project_row_def Let_def)
  then show ?thesis by (simp add: project_row_columns [OF assms])
qed

section \<open>The price of a line item\<close>

definition price_tokens :: "string \<Rightarrow> string \<Rightarrow> (string \<times> int) list" where
  \<comment> \<open>\<open>price * (1 - discount)\<close>\<close>
  "price_tokens p d = [(p, 10), (''1'', 2), (d, 10), (''-'', 11), (''*'', 11)]"

definition price_item :: "string \<Rightarrow> string \<Rightarrow> Projection" where
  "price_item p d = \<lparr> projection = 0, proj_values = map fst (price_tokens p d), proj_types = map snd (price_tokens p d) \<rparr>"

definition decimal_field :: "nat \<Rightarrow> nat \<Rightarrow> field" where
  "decimal_field n c = (246, 7, dec15_2 n c)"

lemma enc_decimal_field: "enc_field (decimal_field n c) = dec15_2 n c"
  by (simp add: enc_field_def decimal_field_def hdr_len_def)

lemma stoi_one: "stoi ''1'' = Inr 1"
  by code_simp

lemma push_decimal_column:
  assumes "row_columns fi fs (row, co)" "i < length fs" "fs ! i = decimal_field n c" "n < 10 ^ 9" "c < 100"
  shows "pba_push_operand fi row co (table_col fi ! i) 10 st = Inr (decimal_operand (decimal_double n c) # st)"
proof -
  have schema: "merge_schema fi fs" using assms(1) by (simp add: row_columns_def)
  have "vec_at (table_datatype fi) (int i) = Inr 246"
    using merge_schema_field(1) [OF schema assms(2)] merge_schema_lengths(2) [OF schema] assms(2,3) by (simp add: decimal_field_def)
  then show ?thesis
    using column_slice_read [OF assms(1,2)] pba_charToValue_decimal(1) [OF assms(4,5)] assms(3)
    by (simp add: pba_push_operand_def enc_decimal_field)
qed

lemma price_loop:
  assumes "row_columns fi fs (row, co)" "i < length fs" "j < length fs" "fs ! i = decimal_field n c" "fs ! j = decimal_field 0 k"
    and "n < 10 ^ 9" "c < 100" "k < 100"
  shows "pba_postfix_loop fi row co (price_tokens (table_col fi ! i) (table_col fi ! j)) [] =
    Inr (Go [double_result (discounted n c k) (Some 2)])"
proof -
  have "pba_push_operand fi row co ''1'' 2 st = Inr (((sized T_new)\<lparr> varInt := Some 1 \<rparr>, T_INT) # st)" for st
    by (simp add: pba_push_operand_def stoi_one)
  moreover have "d_of_int 1 = 1" using d_of_int_exact [of 1] by simp
  ultimately show ?thesis
    using push_decimal_column [OF assms(1,2,4,6,7)] push_decimal_column [OF assms(1,3,5) _ assms(8)]
    by (simp add: price_tokens_def pba_apply_operator_def pushed_result_def pba_minus_def pba_times_def push_double_def
        on_int_double_def on_double_double_def with_size_def decimal_operand_def double_result_def sized_def T_new_def discounted_def)
qed

lemma two_columns_fit:
  assumes "i < length fs" "j < length fs" "i \<noteq> j"
  shows "length (enc_field (fs ! i)) + length (enc_field (fs ! j)) \<le> length (enc_row fs)"
  using columns_bytes_distinct [of "[i, j]" fs] assms by (simp add: columns_bytes_def)

lemma price_value:
  assumes "merge_schema fi fs" "i < length fs" "j < length fs" "i \<noteq> j"
    and "fs ! i = decimal_field n c" "fs ! j = decimal_field 0 k" "n < 10 ^ 9" "c < 100" "k < 100"
    and "vec_at (column_projection fi) (int l) = Inr (price_item (table_col fi ! i) (table_col fi ! j))"
    and "vec_at (projection_datatype fi) (int l) = Inr 246"
    and "table_col fi ! i \<notin> {''CASE'', ''SUBSTRING'', ''EXTRACT''}"
  shows "\<exists>I F. pba_project_value fi (enc_row fs) (col_offsets fs) l = Inr (CHR 0x80 # be_bytes 5 I @ be_bytes 2 F) \<and>
    store (length (enc_row fs)) (CHR 0x80 # be_bytes 5 I @ be_bytes 2 F) = Inr (CHR 0x80 # be_bytes 5 I @ be_bytes 2 F) \<and>
    10000 * I + F = (100 * n + c) * (100 - k) \<and> I < 2 ^ 40 \<and> F \<le> 10000"
proof -
  let ?p = "price_item (table_col fi ! i) (table_col fi ! j)" and ?v = "discounted n c k"
  note near = discounted_near [OF assms(7-9)]
  have "\<bar>?v * of_int (fraction_scale 2) - of_int ((100 * int n + int c) * (100 - int k))\<bar> \<le> 1 / 4"
    using near(1) by (simp add: fraction_scale_def)
  from pba_chars_near [OF near(2,3) _ this] obtain F where
    F: "pba_decimal_chars ?v 2 = Inr (CHR 0x80 # be_bytes 5 (nat \<lfloor>?v\<rfloor>) @ be_bytes 2 F)"
    "10000 * \<lfloor>?v\<rfloor> + int F = (100 * int n + int c) * (100 - int k)" "F \<le> 10000" by (auto simp: fraction_scale_def)
  let ?bs = "CHR 0x80 # be_bytes 5 (nat \<lfloor>?v\<rfloor>) @ be_bytes 2 F"
  have "length (enc_row fs) \<ge> 8"
    using two_columns_fit [OF assms(2-4)] be_nat_dec15_2(2) [OF assms(7,8)] be_nat_dec15_2(2) [of 0 k] assms(9)
    by (simp add: assms(5,6) enc_decimal_field)
  then have store: "store (length (enc_row fs)) ?bs = Inr ?bs" by simp
  have toks: "mapE (\<lambda>k. token_at ?p (int k)) [0..<length (proj_values ?p)] = Inr (price_tokens (table_col fi ! i) (table_col fi ! j))"
    by (simp add: price_item_def price_tokens_def token_at_def upt_rec vec_at_def)
  have calc: "pba_calculPostfix (price_tokens (table_col fi ! i) (table_col fi ! j)) fi (enc_row fs) (col_offsets fs) (length (enc_row fs)) 246 = Inr ?bs"
    unfolding pba_calculPostfix_def price_loop [OF row_columnsI [OF assms(1)] assms(2,3,5-9)]
    using F(1) store by (simp add: pba_valueToChar_def double_result_def)
  have val: "pba_project_value fi (enc_row fs) (col_offsets fs) l = Inr ?bs"
    unfolding pba_project_value_def assms(10) using toks calc assms(11,12)
    by simp (simp add: price_item_def price_tokens_def)
  moreover have "0 \<le> \<lfloor>?v\<rfloor>" "nat \<lfloor>?v\<rfloor> < 2 ^ 40" using near(2,3) by (simp_all add: floor_less_iff nat_less_iff)
  moreover have "10000 * nat \<lfloor>?v\<rfloor> + F = (100 * n + c) * (100 - k)"
  proof -
    have "int (10000 * nat \<lfloor>?v\<rfloor> + F) = int ((100 * n + c) * (100 - k))"
      using F(2) \<open>0 \<le> \<lfloor>?v\<rfloor>\<close> assms(9) by (simp add: of_nat_diff)
    then show ?thesis by (simp only: of_nat_eq_iff)
  qed
  ultimately show ?thesis using F(3) store by blast
qed

section \<open>What a buffer announces\<close>

definition announces :: "int list \<Rightarrow> int list \<Rightarrow> pba_MergeResult \<Rightarrow> bool" where
  "announces types lengths m \<longleftrightarrow> mr_projection_datatype m = types \<and> mr_projection_length m = lengths"

definition brings :: "int list \<Rightarrow> int list \<Rightarrow> pba_Result \<Rightarrow> bool" where
  "brings types lengths r \<longleftrightarrow> projection_datatype (rs_filter_info r) = types \<and> rs_projection_length r = lengths"

definition all_announce :: "int list \<Rightarrow> int list \<Rightarrow> pba_MergeResult \<times> pba_MergeResult WorkQueue \<Rightarrow> bool" where
  "all_announce ts ls s \<longleftrightarrow> announces ts ls (fst s) \<and> list_all (announces ts ls) (work (snd s))"

lemma merge_append_announces:
  assumes "merge_append_in PBA_BUFF_SIZE row s = Inr s'" "all_announce ts ls s"
  shows "all_announce ts ls s'"
  using assms by (cases s) (auto simp: all_announce_def merge_append_in_def append_merged_in_def announces_def InitMergeResult_def
      Let_def bindE_Inr_conv split: if_splits)

lemma pba_MergeBlock_announces:
  assumes "pba_MergeBlock junk r (mm, rq) = Inr (mm', rq')" "brings ts ls r"
    and "\<forall>m\<in>ran mm. announces ts ls m" "list_all (announces ts ls) (work rq)"
  shows "(\<forall>m\<in>ran mm'. announces ts ls m) \<and> list_all (announces ts ls) (work rq')"
proof -
  let ?k = "(rs_query_id r, rs_work_id r)"
  let ?m = "case mm ?k of None \<Rightarrow> pba_new_MergeResult junk (rs_query_id r) (rs_work_id r) (rs_csd_name r)
    (projection_datatype (rs_filter_info r)) (rs_projection_length r) (rs_total_block_count r) | Some m \<Rightarrow> m"
  have "announces ts ls ?m"
    using assms(2,3) by (auto simp: announces_def brings_def pba_new_MergeResult_def ran_def split: option.splits)
  then have start: "all_announce ts ls (?m, rq)" using assms(4) by (simp add: all_announce_def)
  from assms(1) obtain x where "foldE (pba_merge.row_step r) [0..<rs_row_count r] (?m, rq) = Inr x"
    "(case x of (m, rq) \<Rightarrow> let m = count_blocks r m in if mr_total_block_count m = mr_current_block_count m
      then Inr (mm(?k := None), push_work m rq) else Inr (mm(?k \<mapsto> m), rq)) = (Inr (mm', rq') :: _ res)"
    unfolding pba_merge.block_eq bindE_Inr_conv by blast
  then obtain m1 rq1 where run: "foldE (pba_merge.row_step r) [0..<rs_row_count r] (?m, rq) = Inr (m1, rq1)"
    and fin: "(mm', rq') = (mm(?k := None), push_work (count_blocks r m1) rq1) \<or>
      (mm', rq') = (mm(?k \<mapsto> count_blocks r m1), rq1)" by (cases x) (auto simp: Let_def split: if_splits)
  have "all_announce ts ls s'" if "pba_merge.row_step r i s = Inr s'" "all_announce ts ls s" for i s s'
    using that by (auto simp: bindE_Inr_conv dest: merge_append_announces)
  with foldE_invariant [where P = "all_announce ts ls", OF run start] have "all_announce ts ls (m1, rq1)" by blast
  then have "announces ts ls (count_blocks r m1)" "list_all (announces ts ls) (work rq1)"
    by (auto simp: all_announce_def announces_def count_blocks_def)
  with fin assms(3) show ?thesis by (force simp: ran_def split: if_splits)
qed

lemma pba_run_announces:
  assumes "foldE (pba_MergeBlock junk) rs (mm, rq) = Inr (mm', rq')" "list_all (brings ts ls) rs"
    and "\<forall>m\<in>ran mm. announces ts ls m" "list_all (announces ts ls) (work rq)"
  shows "list_all (announces ts ls) (work rq')"
  using assms
proof (induction rs arbitrary: mm rq)
  case (Cons r rs)
  from Cons.prems(1) obtain mm1 rq1 where s: "pba_MergeBlock junk r (mm, rq) = Inr (mm1, rq1)"
    "foldE (pba_MergeBlock junk) rs (mm1, rq1) = Inr (mm', rq')" by (auto simp: bindE_Inr_conv)
  have "brings ts ls r" "list_all (brings ts ls) rs" using Cons.prems(2) by simp_all
  with pba_MergeBlock_announces [OF s(1) _ Cons.prems(3,4)] Cons.IH [OF s(2)] show ?case by blast
qed simp

section \<open>Properties\<close>

text \<open>
  C22. \<open>SELECT price * (1 - discount)\<close> in the block version, on a row that holds a non-negative price \<open>n.c\<close> below \<open>10 ^ 9\<close>
  and a discount \<open>0.k\<close> of at least 0 and less than 1, both as DECIMAL(15,2). The projection does not fail and writes eight
  bytes, an integer part \<open>I\<close> and a number \<open>F\<close> of ten-thousandths. Despite the roundings of four operations on doubles these
  are the quotient and the remainder of the exact product, except that for a product that is a whole number
  they may be one less than it and 10000 ten-thousandths: the carry is not normalised, and such a value is not a valid
  DECIMAL (lemma \<open>carry_not_normalised\<close> shows that this happens).
\<close>

theorem discounted_price_written:
  assumes "merge_schema fi fs" "i < length fs" "j < length fs" "i \<noteq> j"
    and "fs ! i = decimal_field n c" "fs ! j = decimal_field 0 k" "n < 10 ^ 9" "c < 100" "k < 100"
    and "column_projection fi = [price_item (table_col fi ! i) (table_col fi ! j)]" "projection_datatype fi = [246]"
    and "table_col fi ! i \<notin> {''CASE'', ''SUBSTRING'', ''EXTRACT''}"
  shows "\<exists>I F. pba_project_row fi (enc_row fs) = Inr (CHR 0x80 # be_bytes 5 I @ be_bytes 2 F) \<and> I < 2 ^ 40 \<and>
    (let P = (100 * n + c) * (100 - k)
     in I = P div 10000 \<and> F = P mod 10000 \<or> 10000 dvd P \<and> Suc I = P div 10000 \<and> F = 10000)"
proof -
  from price_value [OF assms(1-9), of 0] assms(10-12) obtain I F where
    v: "pba_project_value fi (enc_row fs) (col_offsets fs) 0 = Inr (CHR 0x80 # be_bytes 5 I @ be_bytes 2 F)"
    "store (length (enc_row fs)) (CHR 0x80 # be_bytes 5 I @ be_bytes 2 F) = Inr (CHR 0x80 # be_bytes 5 I @ be_bytes 2 F)"
    "10000 * I + F = (100 * n + c) * (100 - k)" "I < 2 ^ 40" "F \<le> 10000" by (auto simp: vec_at_def)
  have "pba_project_row fi (enc_row fs) = Inr (CHR 0x80 # be_bytes 5 I @ be_bytes 2 F)"
    using getColOffset_ok [OF assms(1)] v(1,2)
    by (simp add: pba_project_row_def assms(10) pba_project_round_def vec_at_def price_item_def flip: col_offsets_def)
  moreover have "I = P div 10000 \<and> F = P mod 10000 \<or> 10000 dvd P \<and> Suc I = P div 10000 \<and> F = 10000" if "10000 * I + F = P" for P
    unfolding that [symmetric] using v(5) by (cases "F = 10000") auto
  ultimately show ?thesis using v(3,4) unfolding Let_def by blast
qed

definition ex_price_info :: FilterInfo where
  "ex_price_info = \<lparr> table_col = [''p'', ''d''], table_offset = [0, 7], table_offlen = [7, 7], table_datatype = [246, 246],
     colindexmap = [''p'' \<mapsto> 0, ''d'' \<mapsto> 1], table_filter = [], column_projection = [price_item ''p'' ''d''],
     projection_datatype = [246], groupby_col = [] \<rparr>"

lemma ex_price_schema: "merge_schema ex_price_info [decimal_field 500 0, decimal_field 0 54]"
  using be_nat_dec15_2(2) [of 500 0] be_nat_dec15_2(2) [of 0 54]
  by (simp add: merge_schema_def block_schema_def packed_offsets_def fits_schema_def ex_price_info_def decimal_field_def
      wf_field_def hdr_len_def less_Suc_eq)

theorem discounted_price_written_witness:
  "\<exists>I F. pba_project_row ex_price_info (enc_row [decimal_field 500 0, decimal_field 0 54]) =
     Inr (CHR 0x80 # be_bytes 5 I @ be_bytes 2 F) \<and> (I = 230 \<and> F = 0 \<or> I = 229 \<and> F = 10000)"
proof -
  have "\<exists>I F. pba_project_row ex_price_info (enc_row [decimal_field 500 0, decimal_field 0 54]) =
      Inr (CHR 0x80 # be_bytes 5 I @ be_bytes 2 F) \<and> I < 2 ^ 40 \<and>
    (let P = (100 * 500 + 0) * (100 - 54)
     in I = P div 10000 \<and> F = P mod 10000 \<or> 10000 dvd P \<and> Suc I = P div 10000 \<and> F = 10000)"
    by (rule discounted_price_written [OF ex_price_schema, of 0 1]) (simp_all add: ex_price_info_def)
  then show ?thesis by auto
qed

text \<open>
  A work unit in the block version, from its first result to its last: as in the other version, the
  buffers sent hold exactly the projected rows of all results, in the order they arrived, and account
  for exactly the unit's blocks; and each of them announces the types and lengths of the columns that the
  results brought along.
\<close>

theorem pba_work_unit_merged:
  assumes "unit_work_in PBA_BUFF_SIZE pba_project_row q w t xs" "xs \<noteq> []" "blocks xs = t" "\<forall>k<length xs. 0 < k \<longrightarrow> blocks (take k xs) \<noteq> t"
    and "list_all (brings ts ls) (map fst xs)"
  shows "\<exists>rq es rss. foldE (pba_MergeBlock junk) (map fst xs) (Map.empty, new_WorkQueue 1) = Inr (Map.empty, rq) \<and>
    work rq = es \<and> list_all2 (merge_rows_in PBA_BUFF_SIZE) es rss \<and> concat rss = concat (map snd xs) \<and> blocks_sent es = t \<and>
    list_all (unit_of q w t) es \<and> list_all (announces ts ls) es"
proof -
  from pba_merge.unit_merged [where mm = Map.empty and rq = "new_WorkQueue 1" and junk = junk, OF _ assms(1-4)] obtain rq es rss where
    run: "foldE (pba_MergeBlock junk) (map fst xs) (Map.empty, new_WorkQueue 1) = Inr (Map.empty, rq)" "work rq = es"
    "list_all2 (merge_rows_in PBA_BUFF_SIZE) es rss" "concat rss = concat (map snd xs)" "blocks_sent es = t" "list_all (unit_of q w t) es"
    by (auto simp: new_WorkQueue_def)
  with pba_run_announces [OF run(1) assms(5)] show ?thesis by (auto simp: new_WorkQueue_def)
qed

definition ex_pba_result :: pba_Result where
  "ex_pba_result = Result.extend (ex_result 2) (pba_Result.fields [4])"

lemma ex_pba_delivers: "delivers_in PBA_BUFF_SIZE pba_project_row ex_pba_result [''abcd'']"
proof -
  let ?fi = "ex_minfo [column_item (ex_minfo []) 0]"
  have len: "length (enc_row ex_mrow) = 11" by (simp add: enc_row_def ex_mrow_def enc_field_def hdr_len_def)
  have "buf_read (buf_write (\<lambda>_. CHR 0x00) 0 (enc_row ex_mrow)) 0 11 = enc_row ex_mrow"
    using buf_read_write_same [of "\<lambda>_. CHR 0x00" 0 "enc_row ex_mrow"] by (simp only: len)
  then have "result_rows_in PBA_BUFF_SIZE ex_pba_result [enc_row ex_mrow]"
    using len by (simp add: result_rows_in_def row_layout_in_def ex_pba_result_def pba_Result.defs Result.defs ex_result_def pba_sizes)
  moreover have "projects_columns ?fi [0]" by (simp add: projects_columns_def column_item_def ex_minfo_def)
  then have "pba_project_row ?fi (enc_row ex_mrow) = store 11 (columns_bytes ex_mrow [0])"
    using pba_project_row_columns [OF ex_merge_schema] len by metis
  then have "pba_project_row ?fi (enc_row ex_mrow) = Inr ''abcd''"
    by (simp add: columns_bytes_def ex_mrow_def enc_field_def hdr_len_def)
  ultimately show ?thesis unfolding delivers_in_def
    by (intro exI [of _ "[enc_row ex_mrow]"]) (simp add: ex_pba_result_def pba_Result.defs Result.defs ex_result_def)
qed

theorem pba_work_unit_merged_witness:
  "\<exists>rq es rss. foldE (pba_MergeBlock (\<lambda>_. CHR 0x2A)) [ex_pba_result] (Map.empty, new_WorkQueue 1) = Inr (Map.empty, rq) \<and>
     work rq = es \<and> list_all2 (merge_rows_in PBA_BUFF_SIZE) es rss \<and> concat rss = [''abcd''] \<and> blocks_sent es = 2 \<and> list_all (announces [3] [4]) es"
proof -
  let ?xs = "[(ex_pba_result, [''abcd''])]"
  have "unit_work_in PBA_BUFF_SIZE pba_project_row 7 1 2 ?xs" using ex_pba_delivers
    by (simp add: unit_work_in_def unit_result_def) (simp add: ex_pba_result_def pba_Result.defs Result.defs ex_result_def)
  moreover have "blocks ?xs = 2" "list_all (brings [3] [4]) (map fst ?xs)"
    by (simp_all add: blocks_def brings_def ex_pba_result_def pba_Result.defs Result.defs ex_result_def ex_minfo_def)
  ultimately show ?thesis
    using pba_work_unit_merged [of 7 1 2 ?xs "[3]" "[4]" "\<lambda>_. CHR 0x2A"] by auto
qed

end
