(* ===== verification/Pba_Worker.thy ===== *)
theory Pba_Worker
  imports Pba_Scan Pba_Filter Pba_Merge Return_Model
begin

text \<open>
  The return interface of the block version (\<open>temp/return.cc\<close>) and the layers together: a snippet without a
  filter and one with a filter, from its blocks to what the buffer manager receives; and that what the input
  interface announces of the projected columns is what the merge layer writes.
\<close>

section \<open>The return interface\<close>

definition pba_result_doc :: "pba_MergeResult \<Rightarrow> json" where
  "pba_result_doc m = JObj
     [(''queryID'', JInt (mr_query_id m)),
      (''workID'', JInt (mr_work_id m)),
      (''rowCount'', JInt (int (mr_row_count m))),
      (''rowOffset'', JArr (map (\<lambda>off. JInt (int off)) (mr_row_offset m))),
      (''length'', JInt (int (mr_length m))),
      (''returnDatatype'', JArr (map JInt (mr_projection_datatype m))),
      (''returnOfflen'', JArr (map JInt (mr_projection_length m))),
      (''csdName'', JStr (c_str (mr_csd_name m))),
      (''resultBlockCount'', JInt (mr_result_block_count m))]"

definition pba_SendDataToBufferManager :: "(json \<Rightarrow> string) \<Rightarrow> int \<Rightarrow> pba_MergeResult \<Rightarrow> sock_op list" where
  "pba_SendDataToBufferManager write ack m =
     (let block_buf = c_str (write (pba_result_doc m)) in
      [Send (le_bytes 8 (length block_buf)), Send block_buf, Recv] @
      (if ack = 0 then []
       else [Send (le_bytes 8 (mr_length m)), Send (buf_read (mr_data m) 0 PBA_BUFF_SIZE), Close]))"

definition pba_ReturnResult ::
  "(json \<Rightarrow> string) \<Rightarrow> int \<Rightarrow> pba_MergeResult WorkQueue \<Rightarrow> sock_op list \<times> pba_MergeResult WorkQueue" where
  "pba_ReturnResult write ack rq =
     (case wait_and_pop 0 rq of
        (None, rq') \<Rightarrow> ([], rq')
      | (Some m, rq') \<Rightarrow> (pba_SendDataToBufferManager write ack m, rq'))"

lemma pba_stream_readable:
  assumes "CHR 0x00 \<notin> set (write (pba_result_doc m))" "length (write (pba_result_doc m)) < 2 ^ 64"
    and "merge_rows_in PBA_BUFF_SIZE m rows" "ack \<noteq> 0"
  shows "receive (sent_bytes (pba_SendDataToBufferManager write ack m)) = (write (pba_result_doc m), concat rows) \<and>
    cut_rows (mr_row_offset m) (concat rows) = rows"
proof -
  let ?txt = "write (pba_result_doc m)"
  have body: "c_str ?txt = ?txt" using assms(1) by (auto simp: c_str_def takeWhile_eq_all_conv)
  have m: "mr_length m = length (concat rows)" "mr_length m \<le> PBA_BUFF_SIZE" "mr_row_offset m = offsets 0 rows"
    "buf_read (mr_data m) 0 (mr_length m) = concat rows"
    using assms(3) by (auto simp: merge_rows_in_def row_layout_in_def)
  have "sent_bytes (pba_SendDataToBufferManager write ack m) =
      le_bytes 8 (length ?txt) @ ?txt @ le_bytes 8 (mr_length m) @ buf_read (mr_data m) 0 PBA_BUFF_SIZE"
    using assms(4) body by (simp add: pba_SendDataToBufferManager_def Let_def)
  then have "receive (sent_bytes (pba_SendDataToBufferManager write ack m)) = (?txt, take (mr_length m) (buf_read (mr_data m) 0 PBA_BUFF_SIZE))"
    using receive_stream [of ?txt "mr_length m" "buf_read (mr_data m) 0 PBA_BUFF_SIZE"] assms(2) m(2) by (simp add: pba_sizes)
  also have "take (mr_length m) (buf_read (mr_data m) 0 PBA_BUFF_SIZE) = concat rows" using take_buf_read [OF m(2)] m(4) by simp
  finally show ?thesis using m(3) cut_rows_offsets by simp
qed

section \<open>The types and lengths that are announced\<close>

lemma col_map_nth:
  assumes "distinct cols" "length xs = length cols" "i < length cols"
  shows "col_map cols xs (cols ! i) = Some (xs ! i)"
proof -
  have other: "fold (\<lambda>(c, x) m. map_insert m c x) zs m k = m k" if "k \<notin> fst ` set zs" for zs m and k :: string
    using that by (induction zs arbitrary: m) (auto simp: map_insert_def split: option.splits)
  have "fold (\<lambda>(c, x) m. map_insert m c x) (zip cols xs) m (cols ! i) = Some (xs ! i)" if "m (cols ! i) = None" for m
    using assms that
  proof (induction cols arbitrary: xs i m)
    case (Cons c cols)
    obtain x ys where xs: "xs = x # ys" using Cons.prems(2) by (cases xs) auto
    show ?case
    proof (cases i)
      case 0
      have "c \<notin> fst ` set (zip cols ys)" using Cons.prems(1) by (auto dest: set_zip_leftD)
      then show ?thesis using 0 xs Cons.prems(4) other [of c "zip cols ys"] by (simp add: map_insert_def)
    next
      case (Suc k)
      then have k: "k < length cols" "cols ! k \<noteq> c" using Cons.prems(1,3) by auto
      have "(map_insert m c x) (cols ! k) = None" using k(2) Suc Cons.prems(4) by (simp add: map_insert_def split: option.splits)
      with Cons.IH [of ys k "map_insert m c x"] Cons.prems(1,2) k xs Suc show ?thesis by simp
    qed
  qed simp
  then show ?thesis by (simp add: col_map_def)
qed

lemma merge_schema_distinct:
  assumes "merge_schema fi fs"
  shows "distinct (table_col fi)"
  unfolding distinct_conv_nth
proof (intro allI impI notI)
  fix i j assume "i < length (table_col fi)" "j < length (table_col fi)" "i \<noteq> j" "table_col fi ! i = table_col fi ! j"
  moreover from this have "int i = int j"
    using merge_schema_field(5) [OF assms, of i] merge_schema_field(5) [OF assms, of j] merge_schema_lengths(1) [OF assms] by simp
  ultimately show False by simp
qed

text \<open>A column whose values have all the same length, or a discounted price.\<close>

definition fixed_item :: "FilterInfo \<Rightarrow> field list \<Rightarrow> Projection \<Rightarrow> bool" where
  "fixed_item fi fs p \<longleftrightarrow> (\<exists>i<length fs. p = column_item fi i \<and> table_col fi ! i \<notin> {''CASE'', ''SUBSTRING'', ''EXTRACT''} \<and>
       fst (fs ! i) \<noteq> 15) \<or>
     (\<exists>i j n c k. i < length fs \<and> j < length fs \<and> i \<noteq> j \<and> fs ! i = decimal_field n c \<and> fs ! j = decimal_field 0 k \<and>
       n < 10 ^ 9 \<and> c < 100 \<and> k < 100 \<and> p = price_item (table_col fi ! i) (table_col fi ! j) \<and>
       table_col fi ! i \<notin> {''CASE'', ''SUBSTRING'', ''EXTRACT''} \<and> table_col fi ! i \<noteq> ''*'' \<and> table_col fi ! j \<noteq> ''*'')"

lemma calculForReturnData_nth:
  assumes "calculForReturnData sn = Inr sn'" "l < length (sn_column_projection sn)"
  shows "return_type (col_map (sn_table_col sn) (sn_table_datatype sn)) (col_map (sn_table_col sn) (sn_table_offlen sn))
      (sn_column_projection sn ! l) = Inr (sn_projection_datatype sn' ! l, sn_projection_length sn' ! l)"
    and "length (sn_projection_datatype sn') = length (sn_column_projection sn)"
    and "sn_table_col sn' = sn_table_col sn" "sn_table_datatype sn' = sn_table_datatype sn" "sn_table_offlen sn' = sn_table_offlen sn"
    and "sn_column_projection sn' = sn_column_projection sn"
proof -
  let ?f = "return_type (col_map (sn_table_col sn) (sn_table_datatype sn)) (col_map (sn_table_col sn) (sn_table_offlen sn))"
  from assms(1) obtain xs where xs: "mapE ?f (sn_column_projection sn) = Inr xs"
    "sn' = sn\<lparr> sn_projection_datatype := map fst xs, sn_projection_length := map snd xs \<rparr>"
    by (auto simp: calculForReturnData_def bindE_Inr_conv Let_def)
  have len: "length xs = length (sn_column_projection sn)" by (rule mapE_length [OF xs(1)])
  then show "length (sn_projection_datatype sn') = length (sn_column_projection sn)" using xs(2) by simp
  show "?f (sn_column_projection sn ! l) = Inr (sn_projection_datatype sn' ! l, sn_projection_length sn' ! l)"
    using mapE_nth [OF xs(1) assms(2)] xs(2) len assms(2) by simp
  show "sn_table_col sn' = sn_table_col sn" "sn_table_datatype sn' = sn_table_datatype sn" "sn_table_offlen sn' = sn_table_offlen sn"
    "sn_column_projection sn' = sn_column_projection sn" using xs(2) by simp_all
qed

lemma fixed_item_value:
  assumes "merge_schema fi fs" "fixed_item fi fs p" "vec_at (column_projection fi) (int l) = Inr p"
    and "vec_at (projection_datatype fi) (int l) = Inr dt"
    and "return_type (col_map (table_col fi) (table_datatype fi)) (col_map (table_col fi) (table_offlen fi)) p = Inr (dt, n)"
  shows "\<exists>bs. pba_project_value fi (enc_row fs) (col_offsets fs) l = Inr bs \<and> int (length bs) = n"
proof -
  note len = merge_schema_lengths [OF assms(1)] and dist = merge_schema_distinct [OF assms(1)]
  from assms(2) consider
      (col) i where "i < length fs" "p = column_item fi i" "table_col fi ! i \<notin> {''CASE'', ''SUBSTRING'', ''EXTRACT''}" "fst (fs ! i) \<noteq> 15"
    | (price) i j m c k where "i < length fs" "j < length fs" "i \<noteq> j" "fs ! i = decimal_field m c" "fs ! j = decimal_field 0 k"
        "m < 10 ^ 9" "c < 100" "k < 100" "p = price_item (table_col fi ! i) (table_col fi ! j)"
        "table_col fi ! i \<notin> {''CASE'', ''SUBSTRING'', ''EXTRACT''}" "table_col fi ! i \<noteq> ''*''" "table_col fi ! j \<noteq> ''*''"
    unfolding fixed_item_def by blast
  then show ?thesis
  proof cases
    case col
    have n: "n = table_offlen fi ! i"
      using assms(5) col col_map_nth [OF dist, of "table_offlen fi" i] len by (simp add: return_type_def column_item_def lookup0_def)
    have "int (length (enc_field (fs ! i))) = table_offlen fi ! i"
      using merge_schema_field(2,3) [OF assms(1) col(1)] col(4)
      by (cases "fs ! i") (simp add: length_enc_field wf_field_def hdr_len_def)
    moreover have "length (enc_field (fs ! i)) \<le> length (enc_row fs)"
      using enc_row_split [OF col(1)] by (metis le_add1 le_add2 le_trans length_append)
    ultimately show ?thesis
      using assms(3) col(2) n column_slice_read [OF row_columnsI [OF assms(1)] col(1)]
      by (auto simp: pba_project_value_def column_item_def)
  next
    case price
    have "dt = 246" "n = 8" using assms(5) price(9-12) by (auto simp: return_type_def price_item_def price_tokens_def)
    with price_value [OF assms(1) price(1-8) assms(3) [unfolded price(9)] _ price(10)] assms(4) show ?thesis by auto
  qed
qed

text \<open>
  C23. What the input interface announces of the projected columns before a row is read is what the merge layer writes:
  for a column of fixed length and for a discounted price, the value written for every row has exactly the announced length.
\<close>

theorem announced_length_written:
  assumes "calculForReturnData sn = Inr sn'" "merge_schema (filter_info_of sn') fs" "l < length (sn_column_projection sn)"
    and "fixed_item (filter_info_of sn') fs (sn_column_projection sn ! l)"
  shows "\<exists>bs. pba_project_value (filter_info_of sn') (enc_row fs) (col_offsets fs) l = Inr bs \<and>
    int (length bs) = sn_projection_length sn' ! l"
proof (rule fixed_item_value [OF assms(2,4)])
  note c = calculForReturnData_nth [OF assms(1,3)]
  show "vec_at (column_projection (filter_info_of sn')) (int l) = Inr (sn_column_projection sn ! l)"
    "vec_at (projection_datatype (filter_info_of sn')) (int l) = Inr (sn_projection_datatype sn' ! l)"
    using assms(3) c(2,6) by (simp_all add: filter_info_of_def)
  show "return_type (col_map (table_col (filter_info_of sn')) (table_datatype (filter_info_of sn')))
      (col_map (table_col (filter_info_of sn')) (table_offlen (filter_info_of sn'))) (sn_column_projection sn ! l) =
      Inr (sn_projection_datatype sn' ! l, sn_projection_length sn' ! l)"
    using c(1,3-5) by (simp add: filter_info_of_def)
qed

definition ex_price_snippet :: pba_Snippet where
  "ex_price_snippet = ex_pba_snippet\<lparr> sn_table_col := [''p'', ''d''], sn_table_offset := [0, 7], sn_table_offlen := [7, 7],
     sn_table_datatype := [246, 246], sn_colindexmap := [''p'' \<mapsto> 0, ''d'' \<mapsto> 1],
     sn_column_projection := [price_item ''p'' ''d''] \<rparr>"

lemma ex_price_fields:
  "calculForReturnData ex_price_snippet = Inr (ex_price_snippet\<lparr> sn_projection_datatype := [246], sn_projection_length := [8] \<rparr>)"
  "filter_info_of (ex_price_snippet\<lparr> sn_projection_datatype := [246], sn_projection_length := [8] \<rparr>) = ex_price_info"
  by (simp_all add: calculForReturnData_def return_type_def ex_price_snippet_def price_item_def price_tokens_def filter_info_of_def
      ex_pba_snippet_def pba_Snippet.defs Snippet.defs ex_snippet_def ex_price_info_def)

theorem announced_length_written_witness:
  "\<exists>bs. pba_project_value ex_price_info (enc_row [decimal_field 500 0, decimal_field 0 54]) (col_offsets [decimal_field 500 0, decimal_field 0 54]) 0 = Inr bs \<and>
     int (length bs) = 8"
proof -
  have "fixed_item ex_price_info [decimal_field 500 0, decimal_field 0 54] (price_item ''p'' ''d'')"
    unfolding fixed_item_def by (intro disjI2 exI [of _ 0] exI [of _ 1] exI [of _ 500] exI [of _ 54]) (simp add: ex_price_info_def)
  moreover have "sn_column_projection ex_price_snippet = [price_item ''p'' ''d'']" by (simp add: ex_price_snippet_def)
  ultimately show ?thesis
    using announced_length_written [OF ex_price_fields(1), of "[decimal_field 500 0, decimal_field 0 54]" 0]
    by (simp add: ex_price_fields(2) ex_price_schema)
qed

section \<open>From the blocks to the buffer manager\<close>

lemma mapE_append: "mapE f (xs @ ys) = bindE (mapE f xs) (\<lambda>us. bindE (mapE f ys) (\<lambda>vs. Inr (us @ vs)))"
proof (induction xs)
  case (Cons x xs)
  then show ?case by (cases "f x"; cases "mapE f xs"; cases "mapE f ys") simp_all
qed simp

lemma mapE_concat:
  "mapE f (concat rss) = Inr ps \<Longrightarrow> \<exists>pss. list_all2 (\<lambda>rs ps. mapE f rs = Inr ps) rss pss \<and> concat pss = ps"
proof (induction rss arbitrary: ps)
  case (Cons rs rss)
  then obtain us vs where "ps = us @ vs" "mapE f rs = Inr us" "mapE f (concat rss) = Inr vs" by (auto simp: mapE_append bindE_Inr_conv)
  moreover from Cons.IH [OF this(3)] obtain pss where "list_all2 (\<lambda>rs ps. mapE f rs = Inr ps) rss pss" "concat pss = vs" by blast
  ultimately show ?case by (intro exI [of _ "us # pss"]) simp
qed auto

text \<open>The results of a scan as a work unit of the merge layer.\<close>

lemma scan_unit_work:
  assumes "list_all2 (result_rows_in PBA_BUFF_SIZE) rs rss" "list_all2 (\<lambda>rows ps. mapE (pba_project_row (filter_info_of sn)) rows = Inr ps) rss pss"
    and "list_all (pba_of_snippet sn) rs"
  shows "unit_work_in PBA_BUFF_SIZE pba_project_row (sn_query_id sn) (sn_work_id sn) (sn_total_block_count sn) (zip rs pss)"
  using assms
proof (induction rs rss arbitrary: pss rule: list_all2_induct)
  case (Cons r rs rows rss)
  from Cons.prems(1) obtain ps pss' where p: "pss = ps # pss'" "mapE (pba_project_row (filter_info_of sn)) rows = Inr ps"
    "list_all2 (\<lambda>rows ps. mapE (pba_project_row (filter_info_of sn)) rows = Inr ps) rss pss'" by (auto simp: list_all2_Cons1)
  have r: "pba_of_snippet sn r" "list_all (pba_of_snippet sn) rs" using Cons.prems(2) by simp_all
  have "delivers_in PBA_BUFF_SIZE pba_project_row r ps" unfolding delivers_in_def
    using Cons.hyps(1) p(2) r(1) by (intro exI [of _ rows]) (simp add: pba_of_snippet_def)
  moreover have "unit_result (sn_query_id sn) (sn_work_id sn) (sn_total_block_count sn) r"
    using r(1) by (simp add: unit_result_def pba_of_snippet_def)
  ultimately show ?case using Cons.IH [OF p(3) r(2)] p(1) by (simp add: unit_work_in_def)
qed (simp add: unit_work_in_def)

lemma results_merged:
  assumes "list_all (pba_of_snippet sn) rs" "sum_list (map rs_result_block_count rs) = sn_total_block_count sn"
    and "list_all (\<lambda>r. 1 \<le> rs_result_block_count r) rs" "rs \<noteq> []" "list_all2 (result_rows_in PBA_BUFF_SIZE) rs rss"
    and "mapE (pba_project_row (filter_info_of sn)) (concat rss) = Inr ps"
  shows "\<exists>rq pss. foldE (pba_MergeBlock junk) rs (Map.empty, new_WorkQueue 1) = Inr (Map.empty, rq) \<and>
    list_all2 (merge_rows_in PBA_BUFF_SIZE) (work rq) pss \<and> concat pss = ps \<and> blocks_sent (work rq) = sn_total_block_count sn"
proof -
  let ?t = "sn_total_block_count sn"
  have cnt: "\<forall>r\<in>set rs. 0 < rs_result_block_count r" using assms(3) by (auto simp: list_all_iff)
  from mapE_concat [OF assms(6)] obtain qss where qss: "list_all2 (\<lambda>rows ps. mapE (pba_project_row (filter_info_of sn)) rows = Inr ps) rss qss"
    "concat qss = ps" by blast
  let ?xs = "zip rs qss"
  have len: "length qss = length rs" using list_all2_lengthD [OF assms(5)] list_all2_lengthD [OF qss(1)] by simp
  then have proj: "map fst ?xs = rs" "map snd ?xs = qss" by simp_all
  have ne: "?xs \<noteq> []" using assms(4) len by (metis length_0_conv map_is_Nil_conv proj(1))
  have "blocks ?xs = sum_list (map rs_result_block_count (map fst ?xs))" by (simp only: blocks_def map_map o_def)
  then have sum: "blocks ?xs = ?t" using assms(2) by (simp only: proj)
  have pos: "\<forall>x\<in>set ?xs. 0 < rs_result_block_count (fst x)" using cnt by (auto dest: set_zip_leftD)
  have pre: "\<forall>k<length ?xs. 0 < k \<longrightarrow> blocks (take k ?xs) \<noteq> ?t" using blocks_positive [OF pos] sum by fastforce
  from pba_merge.unit_merged [where mm = Map.empty and rq = "new_WorkQueue 1" and junk = junk,
      OF _ scan_unit_work [OF assms(5) qss(1) assms(1)] ne sum pre]
  obtain rq es pss where "foldE (pba_MergeBlock junk) rs (Map.empty, new_WorkQueue 1) = Inr (Map.empty, rq)" "work rq = es"
    "list_all2 (merge_rows_in PBA_BUFF_SIZE) es pss" "concat pss = ps" "blocks_sent es = ?t"
    using qss(2) by (auto simp: new_WorkQueue_def proj)
  then show ?thesis by auto
qed

text \<open>What a buffer manager reads of the buffers the merge layer sends for the results \<open>rs\<close> of a snippet.\<close>

lemma results_returned:
  assumes "list_all (pba_of_snippet sn) rs" "sum_list (map rs_result_block_count rs) = sn_total_block_count sn"
    and "list_all (\<lambda>r. 1 \<le> rs_result_block_count r) rs" "rs \<noteq> []" "list_all2 (result_rows_in PBA_BUFF_SIZE) rs rss"
    and "mapE (pba_project_row (filter_info_of sn)) (concat rss) = Inr ps"
    and "\<forall>m. CHR 0x00 \<notin> set (wr (pba_result_doc m)) \<and> length (wr (pba_result_doc m)) < 2 ^ 64" "ack \<noteq> 0"
  shows "\<exists>rq pss. foldE (pba_MergeBlock junk) rs (Map.empty, new_WorkQueue 1) = Inr (Map.empty, rq) \<and>
    list_all2 (\<lambda>m rows. receive (sent_bytes (pba_SendDataToBufferManager wr ack m)) = (wr (pba_result_doc m), concat rows) \<and>
      cut_rows (mr_row_offset m) (concat rows) = rows) (work rq) pss \<and>
    concat pss = ps \<and> blocks_sent (work rq) = sn_total_block_count sn"
proof -
  from results_merged [OF assms(1-6)] obtain rq pss where
    m: "foldE (pba_MergeBlock junk) rs (Map.empty, new_WorkQueue 1) = Inr (Map.empty, rq)"
    "list_all2 (merge_rows_in PBA_BUFF_SIZE) (work rq) pss" "concat pss = ps" "blocks_sent (work rq) = sn_total_block_count sn" by metis
  have "list_all2 (\<lambda>m rows. receive (sent_bytes (pba_SendDataToBufferManager wr ack m)) = (wr (pba_result_doc m), concat rows) \<and>
      cut_rows (mr_row_offset m) (concat rows) = rows) (work rq) pss"
    using m(2) by (rule list_all2_mono) (use pba_stream_readable [of wr] assms(7,8) in blast)
  then show ?thesis using m by blast
qed

lemma pba_done_results:
  assumes "pba_done sn qs st"
  shows "list_all (pba_of_snippet sn) (ps_sent st)" "sum_list (map rs_result_block_count (ps_sent st)) = sn_total_block_count sn"
    "list_all (\<lambda>r. 1 \<le> rs_result_block_count r) (ps_sent st)"
  using assms by (simp_all add: pba_done_def pba_routed_def)

text \<open>When the projection of a snippet lists columns, the projection of a row is the contents of these columns.\<close>

definition columns_of :: "'s Snippet_scheme \<Rightarrow> nat list \<Rightarrow> field list list \<Rightarrow> bool" where
  "columns_of sn is Fs \<longleftrightarrow> projects_columns (filter_info_of sn) is \<and> list_all (merge_schema (filter_info_of sn)) Fs"

lemma column_row_projected:
  assumes "merge_schema fi fs" "projects_columns fi is" "pba_project_row fi (enc_row fs) = Inr row"
  shows "row = columns_bytes fs is"
  using pba_project_row_columns [OF assms(1,2)] assms(3) by (auto simp: store_def split: if_splits)

lemma columns_projected_all:
  assumes "columns_of sn is Fs" "mapE (pba_project_row (filter_info_of sn)) (map enc_row Fs) = Inr ps"
  shows "ps = map (\<lambda>fs. columns_bytes fs is) Fs"
  using assms by (induction Fs arbitrary: ps) (auto simp: columns_of_def bindE_Inr_conv dest: column_row_projected)

text \<open>
  C6. A query without a filter in the block version, through all layers. The snippet has blocks and counts them correctly, every block
  holds readable entries of the one table with at most 5000 bytes of rows, and \<open>pba_project_row\<close> yields a projection of every row,
  \<open>ps\<close> in all (it fails when the projected values are longer than the row, for instance with a column listed twice). Then neither
  the scan nor the merge layer fails, the merge layer keeps nothing of the work
  unit, and a buffer manager that acknowledges and reads what is sent for its buffers, in their order, gets exactly the rows \<open>ps\<close>, in
  order, and counts exactly the blocks of the snippet. If the projection lists columns, each of these is the
  contents of those columns of its row. (Of the JSON writer only that its text has no NUL and is not over-long.)
\<close>

theorem pba_query_answered:
  assumes "sn_scan_type sn = Full_Scan" "sn_total_block_count sn = int (length (sn_block_info_list sn))" "sn_block_info_list sn \<noteq> []"
    and "list_all (pba_good_block sn p (reader (fst (pba_getTableRep (sn_table_name sn) tm))) rows) (sn_block_info_list sn)"
    and "mapE (pba_project_row (filter_info_of sn)) (concat (map rows (sn_block_info_list sn))) = Inr ps"
    and "\<forall>m. CHR 0x00 \<notin> set (wr (pba_result_doc m)) \<and> length (wr (pba_result_doc m)) < 2 ^ 64" "ack \<noteq> 0"
  shows "\<exists>tm' st rq pss. pba_scan_snippet reader junk tm sn origin fq mq = Inr (tm', st) \<and>
    ps_filterq st = fq \<and> work (ps_mergeq st) = work mq @ ps_sent st \<and>
    foldE (pba_MergeBlock junk') (ps_sent st) (Map.empty, new_WorkQueue 1) = Inr (Map.empty, rq) \<and>
    list_all2 (\<lambda>m rows. receive (sent_bytes (pba_SendDataToBufferManager wr ack m)) = (wr (pba_result_doc m), concat rows) \<and>
      cut_rows (mr_row_offset m) (concat rows) = rows) (work rq) pss \<and>
    concat pss = ps \<and> blocks_sent (work rq) = sn_total_block_count sn \<and>
    (\<forall>is Fs. columns_of sn is Fs \<and> map enc_row Fs = concat (map rows (sn_block_info_list sn)) \<longrightarrow> ps = map (\<lambda>fs. columns_bytes fs is) Fs)"
proof -
  have type: "sn_scan_type sn \<in> {Full_Scan, Full_Scan_Filter}" using assms(1) by simp
  have cols: "\<forall>is Fs. columns_of sn is Fs \<and> map enc_row Fs = concat (map rows (sn_block_info_list sn)) \<longrightarrow> ps = map (\<lambda>fs. columns_bytes fs is) Fs"
    using columns_projected_all assms(5) by metis
  obtain tm' st rss where scan: "pba_scan_snippet reader junk tm sn origin fq mq = Inr (tm', st)"
    "list_all2 (result_rows_in PBA_BUFF_SIZE) (ps_sent st) rss" "concat rss = concat (map rows (sn_block_info_list sn))"
    "pba_done sn (fq, mq) st"
    using pba_scan_snippet_good [where reader = reader and tm = tm, OF type assms(2-4)] by blast
  have "pba_routed sn (fq, mq) st" using scan(4) by (simp add: pba_done_def)
  then have queues: "ps_filterq st = fq" "work (ps_mergeq st) = work mq @ ps_sent st"
    using pba_routed_full(1) [OF _ assms(1)] by blast+
  have "ps_sent st \<noteq> []" using scan(4) assms(2,3) by (auto simp: pba_done_def)
  from results_returned [where junk = junk', OF pba_done_results [OF scan(4)] this scan(2) assms(5) [folded scan(3)] assms(6,7)]
  obtain rq pss where "foldE (pba_MergeBlock junk') (ps_sent st) (Map.empty, new_WorkQueue 1) = Inr (Map.empty, rq)"
    "list_all2 (\<lambda>m rows. receive (sent_bytes (pba_SendDataToBufferManager wr ack m)) = (wr (pba_result_doc m), concat rows) \<and>
      cut_rows (mr_row_offset m) (concat rows) = rows) (work rq) pss"
    "concat pss = ps" "blocks_sent (work rq) = sn_total_block_count sn" by blast
  with scan(1) queues cols show ?thesis
    by (intro exI [of _ tm'] exI [of _ st] exI [of _ rq] exI [of _ pss] conjI)
qed

definition ex_pba_query :: pba_Snippet where
  "ex_pba_query = ex_pba_snippet\<lparr> sn_column_projection := [\<lparr> projection = 0, proj_values = [''o_custkey''], proj_types = [10] \<rparr>],
     sn_projection_datatype := [3], sn_projection_length := [4] \<rparr>"

lemma ex_pba_query_good:
  "list_all (pba_good_block ex_pba_query (replicate 4 (CHR 0x07)) (ex_pba_reader tr) (\<lambda>_. [''abcdefgh'', ''ijklmnop''])) bs"
  by (simp add: list_all_iff pba_good_block_def ex_pba_reader_def ex_entries_def good_entry_def indexnum_size_def pba_row_def ex_pba_query_def)

lemma ex_pba_query_row:
  assumes "length x = 4" "length y = 4"
  shows "pba_project_row (filter_info_of ex_pba_query) (x @ y) = Inr y"
proof -
  let ?fs = "[(3, 4, x), (3, 4, y)]" and ?fi = "filter_info_of ex_pba_query"
  have fi: "table_col ?fi = [''o_orderkey'', ''o_custkey'']" "table_offset ?fi = [0, 4]" "table_offlen ?fi = [4, 4]"
    "table_datatype ?fi = [3, 3]" "colindexmap ?fi = [''o_orderkey'' \<mapsto> 0, ''o_custkey'' \<mapsto> 1]"
    "column_projection ?fi = [column_item ?fi 1]"
    by (simp_all add: filter_info_of_def ex_pba_query_def ex_pba_snippet_def pba_Snippet.defs Snippet.defs ex_snippet_def column_item_def)
  have "merge_schema ?fi ?fs" using assms
    by (simp add: merge_schema_def block_schema_def packed_offsets_def fits_schema_def fi wf_field_def hdr_len_def less_Suc_eq)
  moreover have "projects_columns ?fi [1]" by (simp add: projects_columns_def fi)
  moreover have "enc_row ?fs = x @ y" "columns_bytes ?fs [1] = y" by (simp_all add: enc_row_def enc_field_def hdr_len_def columns_bytes_def)
  ultimately show ?thesis using pba_project_row_columns [of ?fi ?fs "[1]"] by simp
qed

theorem pba_query_answered_witness:
  "\<exists>tm' st rq pss. pba_scan_snippet ex_pba_reader (\<lambda>_. CHR 0x2A) (pba_initCSDTableManager Map.empty) ex_pba_query [] (new_WorkQueue 1) (new_WorkQueue 1) =
      Inr (tm', st) \<and> foldE (pba_MergeBlock (\<lambda>_. CHR 0x2A)) (ps_sent st) (Map.empty, new_WorkQueue 1) = Inr (Map.empty, rq) \<and>
    concat pss = [''efgh'', ''mnop'', ''efgh'', ''mnop''] \<and> list_all2 (\<lambda>m rows. cut_rows (mr_row_offset m) (concat rows) = rows) (work rq) pss"
proof -
  let ?sn = ex_pba_query and ?rows = "\<lambda>_ :: BlockInfo. [''abcdefgh'', ''ijklmnop'']" and ?tm = "pba_initCSDTableManager Map.empty"
  obtain b1 b2 where bs: "sn_block_info_list ?sn = [b1, b2]"
    by (simp add: ex_pba_query_def ex_pba_snippet_def pba_Snippet.defs Snippet.defs ex_snippet_def)
  have "mapE (pba_project_row (filter_info_of ?sn)) (concat (map ?rows (sn_block_info_list ?sn))) = Inr [''efgh'', ''mnop'', ''efgh'', ''mnop'']"
    using ex_pba_query_row [of "''abcd''" "''efgh''"] ex_pba_query_row [of "''ijkl''" "''mnop''"] by (simp add: bs)
  moreover have "sn_scan_type ?sn = Full_Scan" "sn_total_block_count ?sn = int (length (sn_block_info_list ?sn))" "sn_block_info_list ?sn \<noteq> []"
    by (simp_all add: bs) (simp_all add: ex_pba_query_def)
  ultimately obtain tm' st rq pss where "pba_scan_snippet ex_pba_reader (\<lambda>_. CHR 0x2A) ?tm ?sn [] (new_WorkQueue 1) (new_WorkQueue 1) = Inr (tm', st)"
    "foldE (pba_MergeBlock (\<lambda>_. CHR 0x2A)) (ps_sent st) (Map.empty, new_WorkQueue 1) = Inr (Map.empty, rq)"
    "concat pss = [''efgh'', ''mnop'', ''efgh'', ''mnop'']"
    "list_all2 (\<lambda>m rows. receive (sent_bytes (pba_SendDataToBufferManager (\<lambda>_. ''{}'') 36 m)) = (''{}'', concat rows) \<and>
      cut_rows (mr_row_offset m) (concat rows) = rows) (work rq) pss"
    using pba_query_answered [where reader = ex_pba_reader and tm = ?tm and sn = ?sn and rows = ?rows and ack = 36 and wr = "\<lambda>_. ''{}''",
        OF _ _ _ ex_pba_query_good, of "[''efgh'', ''mnop'', ''efgh'', ''mnop'']" "\<lambda>_. CHR 0x2A" "[]" "new_WorkQueue 1" "new_WorkQueue 1" "\<lambda>_. CHR 0x2A"]
    by auto
  moreover from this(4) have "list_all2 (\<lambda>m rows. cut_rows (mr_row_offset m) (concat rows) = rows) (work rq) pss"
    by (rule list_all2_mono) simp
  ultimately show ?thesis by blast
qed

section \<open>With a filter\<close>

lemma concat_map_split: "concat rss = map f xs \<Longrightarrow> \<exists>yss. rss = map (map f) yss \<and> concat yss = xs"
proof (induction rss arbitrary: xs)
  case (Cons rs rss)
  then have "rs @ concat rss = map f xs" by simp
  then obtain us vs where xs: "xs = us @ vs" "rs = map f us" "concat rss = map f vs" by (auto simp: append_eq_map_conv)
  from Cons.IH [OF xs(3)] obtain yss where "rss = map (map f) yss" "concat yss = vs" by blast
  with xs show ?case by (intro exI [of _ "us # yss"]) simp
qed simp

text \<open>
  The filter thread, turn by turn. The uninitialised locals (\<open>v0\<close>) and the memory of the result object (\<open>junk\<close>) may be
  different in every turn.
\<close>

definition pba_filter_turns ::
  "(string \<Rightarrow> json) \<Rightarrow> (nat \<Rightarrow> buffer) \<Rightarrow> (nat \<Rightarrow> row_vars) \<Rightarrow> nat list \<Rightarrow>
   (Filter_obj \<times> pba_counts) \<times> pba_Result WorkQueue \<times> pba_Result WorkQueue \<Rightarrow>
   ((Filter_obj \<times> pba_counts) \<times> pba_Result WorkQueue \<times> pba_Result WorkQueue) res" where
  "pba_filter_turns parse junk v0 = foldE (\<lambda>i. pba_Filtering parse (junk i) (v0 i))"

definition pba_keeps_row :: "pba_Snippet \<Rightarrow> (bool \<times> json) list list \<Rightarrow> field list \<Rightarrow> bool" where
  "pba_keeps_row sn Ds fs = dnf_true (pba_clause_lit (sn_table_col sn) fs) Ds"

definition pba_typed_row :: "pba_Snippet \<Rightarrow> (bool \<times> json) list list \<Rightarrow> field list \<Rightarrow> bool" where
  \<comment> \<open>a row of the table on which every literal of the filter has a meaning\<close>
  "pba_typed_row sn Ds fs \<longleftrightarrow> fits_schema (filter_info_of sn) fs \<and> dnf_defined (pba_clause_lit (sn_table_col sn) fs) Ds"

lemma pba_BlockFilter_count:
  "pba_BlockFilter parse junk v0 r fk mq = Inr (fk', mq') \<Longrightarrow> current_block_count (snd fk') = current_block_count (snd fk)"
  by (cases fk) (auto simp: pba_BlockFilter_def Let_def bindE_Inr_conv)

lemma filter_block:
  assumes "pba_of_snippet sn r" "result_rows_in PBA_BUFF_SIZE r (map enc_row F)"
    and "list_all (pba_typed_row sn Ds) F" "block_schema (filter_info_of sn)"
    and "json_member (parse (sn_table_filter sn)) ''tableFilter'' = Inr (JArr ts)" "dnf_toks ts Ds" "substringflag v \<longrightarrow> in_free Ds"
  shows "\<exists>fk' fr. pba_BlockFilter parse j v r fk mq = Inr (fk', push_work fr mq) \<and> pba_of_snippet sn fr \<and>
    rs_result_block_count fr = rs_result_block_count r \<and> result_rows_in PBA_BUFF_SIZE fr (map enc_row (filter (pba_keeps_row sn Ds) F))"
proof -
  have fi: "rs_filter_info r = filter_info_of sn" using assms(1) by (simp add: pba_of_snippet_def)
  have info: "table_col (filter_info_of sn) = sn_table_col sn" "table_filter (filter_info_of sn) = sn_table_filter sn"
    by (simp_all add: filter_info_of_def)
  have F: "list_all (fits_schema (filter_info_of sn)) F" "list_all (\<lambda>fs. dnf_defined (pba_clause_lit (sn_table_col sn) fs) Ds) F"
    using assms(3) by (simp_all add: pba_typed_row_def list_all_iff)
  from pba_BlockFilter_exact [where parse = parse and sr = r and junk = j and fk = fk and mq = mq, OF assms(2), unfolded fi info,
      OF assms(4) F(1) assms(5,6) F(2) assms(7)]
  obtain fk' fr where fr: "pba_BlockFilter parse j v r fk mq = Inr (fk', push_work fr mq)" "same_ids r fr"
    "result_rows_in PBA_BUFF_SIZE fr (map enc_row (filter (pba_keeps_row sn Ds) F))"
    unfolding pba_keeps_row_def by blast
  have "pba_of_snippet sn fr" "rs_result_block_count fr = rs_result_block_count r"
    using fr(2) assms(1) by (cases fr; cases r; simp add: same_ids_def pba_of_snippet_def)+
  with fr show ?thesis by blast
qed

lemma filter_turn:
  assumes "work fq = r # rs" "pba_of_snippet sn r" "result_rows_in PBA_BUFF_SIZE r (map enc_row F)"
    and "list_all (pba_typed_row sn Ds) F" "block_schema (filter_info_of sn)"
    and "json_member (parse (sn_table_filter sn)) ''tableFilter'' = Inr (JArr ts)" "dnf_toks ts Ds" "substringflag v \<longrightarrow> in_free Ds"
  shows "\<exists>fk' fq' fr. pba_Filtering parse j v (fk, fq, mq) = Inr (fk', fq', push_work fr mq) \<and> work fq' = rs \<and>
    pba_of_snippet sn fr \<and> rs_result_block_count fr = rs_result_block_count r \<and>
    result_rows_in PBA_BUFF_SIZE fr (map enc_row (filter (pba_keeps_row sn Ds) F)) \<and>
    current_block_count (snd fk') = current_block_count (snd fk) + rs_result_block_count r"
proof -
  obtain fo k where fk: "fk = (fo, k)" by (cases fk)
  let ?fk = "(fo, k\<lparr> current_block_count := current_block_count k + rs_result_block_count r \<rparr>)"
  obtain fq' where fq': "wait_and_pop 0 fq = (Some r, fq')" "work fq' = rs" using assms(1) by (simp add: wait_and_pop_def)
  from filter_block [where fk = ?fk and parse = parse and j = j and mq = mq, OF assms(2-8)]
  obtain fk' fr where fr: "pba_BlockFilter parse j v r ?fk mq = Inr (fk', push_work fr mq)" "pba_of_snippet sn fr"
    "rs_result_block_count fr = rs_result_block_count r" "result_rows_in PBA_BUFF_SIZE fr (map enc_row (filter (pba_keeps_row sn Ds) F))" by blast
  with fq' pba_BlockFilter_count [OF fr(1)] fk show ?thesis
    by (intro exI [of _ fk'] exI [of _ fq'] exI [of _ fr]) (simp add: pba_Filtering_def Let_def)
qed

lemma filter_stage:
  assumes "list_all2 (\<lambda>r F. result_rows_in PBA_BUFF_SIZE r (map enc_row F)) rs Fs" "list_all (pba_of_snippet sn) rs"
    and "list_all (list_all (pba_typed_row sn Ds)) Fs" "work fq = rs @ rest" "block_schema (filter_info_of sn)"
    and "json_member (parse (sn_table_filter sn)) ''tableFilter'' = Inr (JArr ts)" "dnf_toks ts Ds"
    and "\<forall>i. substringflag (v0 i) \<longrightarrow> in_free Ds"
  shows "\<exists>fk' fq' mq' frs. pba_filter_turns parse junk v0 [n..<n + length rs] (fk, fq, mq) = Inr (fk', fq', mq') \<and>
    work fq' = rest \<and> work mq' = work mq @ frs \<and>
    list_all (pba_of_snippet sn) frs \<and> map rs_result_block_count frs = map rs_result_block_count rs \<and>
    list_all2 (\<lambda>r F. result_rows_in PBA_BUFF_SIZE r (map enc_row (filter (pba_keeps_row sn Ds) F))) frs Fs \<and>
    current_block_count (snd fk') = current_block_count (snd fk) + sum_list (map rs_result_block_count rs)"
  using assms(1-4)
proof (induction rs Fs arbitrary: n fk fq mq rule: list_all2_induct)
  case (Cons r rs F Fs)
  have r: "pba_of_snippet sn r" "list_all (pba_of_snippet sn) rs" "list_all (list_all (pba_typed_row sn Ds)) Fs"
    "list_all (pba_typed_row sn Ds) F" "work fq = r # (rs @ rest)" using Cons.prems by simp_all
  from filter_turn [where parse = parse and j = "junk n" and fk = fk and mq = mq, OF r(5,1) Cons.hyps(1) r(4) assms(5-7) spec [OF assms(8), of n]]
  obtain fk1 fq1 fr where fr: "pba_Filtering parse (junk n) (v0 n) (fk, fq, mq) = Inr (fk1, fq1, push_work fr mq)" "work fq1 = rs @ rest"
    "pba_of_snippet sn fr" "rs_result_block_count fr = rs_result_block_count r"
    "result_rows_in PBA_BUFF_SIZE fr (map enc_row (filter (pba_keeps_row sn Ds) F))"
    "current_block_count (snd fk1) = current_block_count (snd fk) + rs_result_block_count r" by blast
  from Cons.IH [OF r(2,3) fr(2), of "Suc n" fk1 "push_work fr mq"] obtain fk' fq' mq' frs where
    rest: "pba_filter_turns parse junk v0 [Suc n..<Suc n + length rs] (fk1, fq1, push_work fr mq) = Inr (fk', fq', mq')" "work fq' = rest"
      "work mq' = (work mq @ [fr]) @ frs" "list_all (pba_of_snippet sn) frs" "map rs_result_block_count frs = map rs_result_block_count rs"
      "list_all2 (\<lambda>r F. result_rows_in PBA_BUFF_SIZE r (map enc_row (filter (pba_keeps_row sn Ds) F))) frs Fs"
      "current_block_count (snd fk') = current_block_count (snd fk1) + sum_list (map rs_result_block_count rs)"
    by (auto simp: push_work_def Let_def)
  have turns: "[n..<n + length (r # rs)] = n # [Suc n..<Suc n + length rs]"
    using upt_conv_Cons [of n "n + length (r # rs)"] by (simp del: upt_Suc)
  have "pba_filter_turns parse junk v0 [n..<n + length (r # rs)] (fk, fq, mq) = Inr (fk', fq', mq')"
    using fr(1) rest(1) unfolding turns by (simp add: pba_filter_turns_def)
  with fr rest show ?case by (intro exI [of _ fk'] exI [of _ fq'] exI [of _ mq'] exI [of _ "fr # frs"]) simp
qed (simp add: pba_filter_turns_def)


definition ex_filter_query :: pba_Snippet where
  "ex_filter_query = ex_pba_query\<lparr> sn_scan_type := Full_Scan_Filter \<rparr>"

definition ex_key_ge :: json where
  \<comment> \<open>\<open>o_orderkey >= 1700000000\<close>\<close>
  "ex_key_ge = JObj [(''LV'', JStr ''o_orderkey''), (''OPERATOR'', JInt 1), (''RV'', JInt 1700000000)]"

definition ex_fields :: "field list list" where
  "ex_fields = [[(3, 4, ''abcd''), (3, 4, ''efgh'')], [(3, 4, ''ijkl''), (3, 4, ''mnop'')]]"

lemma ex_fields_rows: "map enc_row ex_fields = [''abcdefgh'', ''ijklmnop'']"
  by (simp add: ex_fields_def enc_row_def enc_field_def hdr_len_def)

lemma ex_filter_info:
  "table_col (filter_info_of ex_filter_query) = [''o_orderkey'', ''o_custkey'']" "sn_table_col ex_filter_query = [''o_orderkey'', ''o_custkey'']"
  "table_datatype (filter_info_of ex_filter_query) = [3, 3]" "table_offlen (filter_info_of ex_filter_query) = [4, 4]"
  "block_schema (filter_info_of ex_filter_query)" "filter_info_of ex_filter_query = filter_info_of ex_pba_query"
  "sn_block_info_list ex_filter_query = sn_block_info_list ex_pba_query"
  by (simp_all add: filter_info_of_def ex_filter_query_def ex_pba_query_def ex_pba_snippet_def pba_Snippet.defs Snippet.defs ex_snippet_def
      block_schema_def less_Suc_eq)

lemma ex_key_lits:
  "pba_clause_lit [''o_orderkey'', ''o_custkey''] [(3, 4, ''abcd''), (3, 4, ''efgh'')] ex_key_ge = Some (True, False)"
  "pba_clause_lit [''o_orderkey'', ''o_custkey''] [(3, 4, ''ijkl''), (3, 4, ''mnop'')] ex_key_ge = Some (True, True)"
  by (simp_all add: pba_clause_lit_def ex_key_ge_def oper_of_def all_opers_def compare_ops_def pba_clause_operands_def plus_marked_def
      term_value_def field_value_def little_field_def little_value_def is_int32_def to_int32_def)

lemma ex_key_rows:
  "list_all (pba_typed_row ex_filter_query [[(False, ex_key_ge)]]) ex_fields"
  "filter (pba_keeps_row ex_filter_query [[(False, ex_key_ge)]]) ex_fields = [[(3, 4, ''ijkl''), (3, 4, ''mnop'')]]"
  by (auto simp add: ex_fields_def pba_typed_row_def pba_keeps_row_def ex_filter_info(1-5) ex_key_lits dnf_defined_def dnf_true_def literal_true_def
      fits_schema_def wf_field_def)


end
