(* ===== verification/Pba_Threads.thy ===== *)
theory Pba_Threads
  imports Pba_Worker Threads
begin

text \<open>
  The worker of the block version (\<open>temp/main.cc\<close>): the threads of \<open>Threads\<close>, of which one filters, with the layers
  of the block version. The locale \<open>answering_layers\<close> is interpreted for them, so that what \<open>Worker\<close> has for the
  other version holds here too, under the conditions of the block version: the rows of a block fit, every literal of the
  filter has a meaning on the rows, and \<open>substringflag\<close>, which \<open>BlockFilter\<close> reads without having set it, is false
  or the filter has no IN.
\<close>

section \<open>The worker\<close>

definition pba_layers ::
  "(TableRep \<Rightarrow> BlockInfo \<Rightarrow> sst_entry list) \<Rightarrow> (string \<Rightarrow> json) \<Rightarrow> (json \<Rightarrow> string) \<Rightarrow> (row_vars \<Rightarrow> bool) \<Rightarrow>
   (pba_Snippet, pba_Result, pba_MergeResult, Filter_obj \<times> pba_counts, string \<rightharpoonup> TableRep) layers" where
  "pba_layers reader parse write vars =
     \<lparr> ly_scan = (\<lambda>junk tm sn origin.
         bindE (pba_scan_snippet reader junk tm sn origin (new_WorkQueue 0) (new_WorkQueue 0)) (\<lambda>(tm, st).
           Inr (tm, ps_origin_index_num st, ps_sent st))),
       ly_enqueue = pba_EnQueueData,
       ly_vars = vars,
       ly_filter = (\<lambda>junk v0 r (fo, k).
         pba_BlockFilter parse junk v0 r (fo, k\<lparr> current_block_count := current_block_count k + rs_result_block_count r \<rparr>)),
       ly_merge = pba_MergeBlock,
       ly_return = pba_SendDataToBufferManager write \<rparr>"

lemma pba_layers_simps [simp]:
  "ly_scan (pba_layers reader parse write vars) junk tm sn origin =
     bindE (pba_scan_snippet reader junk tm sn origin (new_WorkQueue 0) (new_WorkQueue 0)) (\<lambda>(tm, st). Inr (tm, ps_origin_index_num st, ps_sent st))"
  "ly_enqueue (pba_layers reader parse write vars) = pba_EnQueueData" "ly_vars (pba_layers reader parse write vars) = vars"
  "ly_filter (pba_layers reader parse write vars) junk v r (fo, k) =
     pba_BlockFilter parse junk v r (fo, k\<lparr> current_block_count := current_block_count k + rs_result_block_count r \<rparr>)"
  "ly_merge (pba_layers reader parse write vars) = pba_MergeBlock"
  "ly_return (pba_layers reader parse write vars) = pba_SendDataToBufferManager write"
  by (simp_all add: pba_layers_def)

lemma pba_EnQueueData_once: "pba_EnQueueData r t (fq, mq) = (push_work r fq, mq) \<or> pba_EnQueueData r t (fq, mq) = (fq, push_work r mq)"
  by (cases t) (simp_all add: pba_EnQueueData_def)

lemma pba_BlockFilter_pushes: "pba_BlockFilter parse junk v0 r fk mq = Inr (fk', mq') \<Longrightarrow> length (work mq') = Suc (length (work mq))"
  by (cases fk) (auto simp: pba_BlockFilter_def Let_def bindE_Inr_conv sendfilterresult_def)

interpretation pba_threads: thread_layers "pba_layers reader parse wr vars" for reader parse wr vars
proof
  fix junk v r f mq f' mq'
  show "ly_filter (pba_layers reader parse wr vars) junk v r f mq = Inr (f', mq') \<Longrightarrow> length (work mq') = Suc (length (work mq))"
    by (cases f) (simp add: pba_BlockFilter_pushes)
qed (simp add: pba_EnQueueData_once)

section \<open>Queries\<close>

record pba_query =
  qp_snippet :: pba_Snippet
  qp_rows :: "BlockInfo \<Rightarrow> field list list"      \<comment> \<open>the rows of a block\<close>
  qp_dnf :: "(bool \<times> json) list list"             \<comment> \<open>the filter, unused in a scan without one\<close>

definition qp_key :: "pba_query \<Rightarrow> pair_key" where
  "qp_key Q = (sn_query_id (qp_snippet Q), sn_work_id (qp_snippet Q))"

definition qp_total :: "pba_query \<Rightarrow> int" where
  "qp_total Q = int (length (sn_block_info_list (qp_snippet Q)))"

definition qp_table :: "pba_query \<Rightarrow> field list list" where
  "qp_table Q = concat (map (qp_rows Q) (sn_block_info_list (qp_snippet Q)))"

definition qp_keeps :: "pba_query \<Rightarrow> field list \<Rightarrow> bool" where
  "qp_keeps Q fs \<longleftrightarrow> sn_scan_type (qp_snippet Q) = Full_Scan \<or> pba_keeps_row (qp_snippet Q) (qp_dnf Q) fs"

definition qp_project :: "pba_query \<Rightarrow> field list \<Rightarrow> string" where
  "qp_project Q fs = (case pba_project_row (filter_info_of (qp_snippet Q)) (enc_row fs) of Inl _ \<Rightarrow> [] | Inr row \<Rightarrow> row)"

text \<open>A row the query can be asked about: the filter has a meaning on it, and if it is selected it can be projected.\<close>

definition qp_good :: "pba_query \<Rightarrow> field list \<Rightarrow> bool" where
  "qp_good Q fs \<longleftrightarrow> (sn_scan_type (qp_snippet Q) = Full_Scan \<or> pba_typed_row (qp_snippet Q) (qp_dnf Q) fs) \<and>
     (qp_keeps Q fs \<longrightarrow> (\<exists>row. pba_project_row (filter_info_of (qp_snippet Q)) (enc_row fs) = Inr row))"

definition pba_query_ok ::
  "(TableRep \<Rightarrow> BlockInfo \<Rightarrow> sst_entry list) \<Rightarrow> (string \<Rightarrow> json) \<Rightarrow> (string \<rightharpoonup> TableRep) \<Rightarrow> pba_query \<Rightarrow> bool" where
  "pba_query_ok reader parse tm Q \<longleftrightarrow> (let sn = qp_snippet Q in
     sn_total_block_count sn = qp_total Q \<and> sn_block_info_list sn \<noteq> [] \<and>
     (\<exists>p. list_all (pba_good_block sn p (reader (fst (pba_getTableRep (sn_table_name sn) tm))) (\<lambda>b. map enc_row (qp_rows Q b)))
        (sn_block_info_list sn)) \<and>
     list_all (qp_good Q) (qp_table Q) \<and>
     (sn_scan_type sn = Full_Scan \<or> sn_scan_type sn = Full_Scan_Filter \<and> block_schema (filter_info_of sn) \<and>
        (\<exists>ts. json_member (parse (sn_table_filter sn)) ''tableFilter'' = Inr (JArr ts) \<and> dnf_toks ts (qp_dnf Q))))"

text \<open>
  What the uninitialised locals of \<open>BlockFilter\<close> may hold: IN reads \<open>substringflag\<close> before it is set, so a query whose filter
  has an IN needs it to be false.
\<close>

definition flag_ok :: "(row_vars \<Rightarrow> bool) \<Rightarrow> pba_query \<Rightarrow> bool" where
  "flag_ok vars Q \<longleftrightarrow> (\<exists>v. vars v) \<and>
     (sn_scan_type (qp_snippet Q) = Full_Scan \<or> in_free (qp_dnf Q) \<or> (\<forall>v. vars v \<longrightarrow> \<not> substringflag v))"

definition qp_holds :: "pba_query \<Rightarrow> pba_Result \<Rightarrow> field list list \<Rightarrow> bool" where
  "qp_holds Q r F \<longleftrightarrow> pba_of_snippet (qp_snippet Q) r \<and> result_rows_in PBA_BUFF_SIZE r (map enc_row F) \<and> list_all (qp_good Q) F"

definition pba_same_tables :: "(string \<rightharpoonup> TableRep) \<Rightarrow> (string \<rightharpoonup> TableRep) \<Rightarrow> bool" where
  "pba_same_tables tm tm1 \<longleftrightarrow> (\<forall>name. fst (pba_getTableRep name tm1) = fst (pba_getTableRep name tm))"

lemma pba_same_tables_refl: "pba_same_tables tm tm"
  by (simp add: pba_same_tables_def)

lemma pba_lookup_keeps: "pba_same_tables tm tm1 \<Longrightarrow> pba_same_tables tm (snd (pba_getTableRep name tm1))"
  unfolding pba_same_tables_def
proof (rule allI)
  fix n assume "\<forall>n. fst (pba_getTableRep n tm1) = fst (pba_getTableRep n tm)"
  moreover have "fst (pba_getTableRep n (snd (pba_getTableRep name tm1))) = fst (pba_getTableRep n tm1)"
    by (cases "tm1 name"; cases "tm1 n") (auto simp: pba_getTableRep_def Let_def)
  ultimately show "fst (pba_getTableRep n (snd (pba_getTableRep name tm1))) = fst (pba_getTableRep n tm)" by simp
qed

section \<open>The contract of the layers\<close>

lemma pba_query_sends:
  assumes "pba_query_ok reader parse tm Q" "pba_same_tables tm tm1"
  shows "\<exists>tm' st A. pba_scan_snippet reader junk tm1 (qp_snippet Q) origin fq mq = Inr (tm', st) \<and> ps_sent st = map fst A \<and>
    pba_same_tables tm tm' \<and> list_all (\<lambda>b. qp_holds Q (fst b) (snd b) \<and> 0 < rs_result_block_count (fst b)) A \<and>
    sum_list (map (\<lambda>b. rs_result_block_count (fst b)) A) = qp_total Q \<and> concat (map snd A) = qp_table Q"
proof -
  let ?sn = "qp_snippet Q" let ?bs = "sn_block_info_list ?sn"
  from assms obtain p where
    blocks: "list_all (pba_good_block ?sn p (reader (fst (pba_getTableRep (sn_table_name ?sn) tm1))) (\<lambda>b. map enc_row (qp_rows Q b))) ?bs"
    and ok: "sn_total_block_count ?sn = int (length ?bs)" "?bs \<noteq> []" "list_all (qp_good Q) (qp_table Q)"
      "sn_scan_type ?sn \<in> {Full_Scan, Full_Scan_Filter}"
    by (auto simp: pba_query_ok_def pba_same_tables_def qp_total_def Let_def)
  from pba_scan_snippet_good [where reader = reader and tm = tm1, OF ok(4,1,2) blocks]
  obtain tm' st rss where scan: "pba_scan_snippet reader junk tm1 ?sn origin fq mq = Inr (tm', st)"
    "list_all2 (result_rows_in PBA_BUFF_SIZE) (ps_sent st) rss" "concat rss = concat (map (\<lambda>b. map enc_row (qp_rows Q b)) ?bs)"
    "pba_done ?sn (fq, mq) st" by blast
  note res = pba_done_results [OF scan(4)]
  have "concat rss = map enc_row (qp_table Q)" using scan(3) by (simp add: qp_table_def map_concat o_def)
  then obtain Fs where Fs: "rss = map (map enc_row) Fs" "concat Fs = qp_table Q" using concat_map_split by blast
  have len: "length (ps_sent st) = length Fs" using scan(2) Fs(1) by (auto dest: list_all2_lengthD)
  let ?A = "zip (ps_sent st) Fs"
  have A: "map fst ?A = ps_sent st" "map snd ?A = Fs" using len by simp_all
  have "qp_holds Q r F \<and> 0 < rs_result_block_count r" if "(r, F) \<in> set ?A" for r F
  proof -
    have rF: "r \<in> set (ps_sent st)" "F \<in> set Fs" using that by (auto dest: set_zip_leftD set_zip_rightD)
    have "result_rows_in PBA_BUFF_SIZE r (map enc_row F)"
      using scan(2) that unfolding Fs(1) list_all2_map2 by (auto simp: list_all2_iff)
    moreover have "list_all (qp_good Q) F" using ok(3) rF(2) unfolding Fs(2) [symmetric] by (auto simp: list_all_iff)
    ultimately show ?thesis using res(1,3) rF(1) by (force simp: qp_holds_def list_all_iff)
  qed
  then have all: "list_all (\<lambda>b. qp_holds Q (fst b) (snd b) \<and> 0 < rs_result_block_count (fst b)) ?A" by (auto simp: list_all_iff)
  have "sum_list (map (\<lambda>b. rs_result_block_count (fst b)) ?A) = sum_list (map rs_result_block_count (map fst ?A))" by (simp only: map_map o_def)
  then have sum: "sum_list (map (\<lambda>b. rs_result_block_count (fst b)) ?A) = qp_total Q"
    unfolding A(1) using res(2) ok(1) by (simp add: qp_total_def)
  have "tm' = snd (pba_getTableRep (sn_table_name ?sn) tm1)"
    using scan(1) by (auto simp: pba_scan_snippet_def bindE_Inr_conv split: prod.splits)
  then have "pba_same_tables tm tm'" using pba_lookup_keeps [OF assms(2)] by simp
  with scan(1) all sum A Fs(2) show ?thesis by (intro exI [of _ tm'] exI [of _ st] exI [of _ ?A]) simp
qed

lemma pba_query_filters:
  assumes "pba_query_ok reader parse tm Q" "sn_scan_type (qp_snippet Q) = Full_Scan_Filter" "qp_holds Q r F" "substringflag v \<longrightarrow> in_free (qp_dnf Q)"
  shows "\<exists>fk' fr. pba_BlockFilter parse junk v r fk mq = Inr (fk', push_work fr mq) \<and> qp_holds Q fr (filter (qp_keeps Q) F) \<and>
    rs_result_block_count fr = rs_result_block_count r"
proof -
  let ?sn = "qp_snippet Q" and ?Ds = "qp_dnf Q"
  from assms(1,2) obtain ts where ts: "block_schema (filter_info_of ?sn)"
    "json_member (parse (sn_table_filter ?sn)) ''tableFilter'' = Inr (JArr ts)" "dnf_toks ts ?Ds"
    by (auto simp: pba_query_ok_def Let_def)
  have r: "pba_of_snippet ?sn r" "result_rows_in PBA_BUFF_SIZE r (map enc_row F)" "list_all (qp_good Q) F"
    using assms(3) by (simp_all add: qp_holds_def)
  have typed: "list_all (pba_typed_row ?sn ?Ds) F" using r(3) assms(2) by (auto simp: qp_good_def list_all_iff)
  have keeps: "qp_keeps Q = pba_keeps_row ?sn ?Ds" using assms(2) by (simp add: fun_eq_iff qp_keeps_def)
  from filter_block [where fk = fk and parse = parse and j = junk and mq = mq, OF r(1,2) typed ts assms(4)] r(3) show ?thesis
    unfolding keeps qp_holds_def by (fastforce simp: list_all_iff)
qed

lemma pba_query_delivers:
  assumes "pba_query_ok reader parse tm Q" "qp_holds Q r F" "list_all (qp_keeps Q) F"
  shows "delivers_in PBA_BUFF_SIZE pba_project_row r (map (qp_project Q) F) \<and> unit_result (fst (qp_key Q)) (snd (qp_key Q)) (qp_total Q) r"
proof -
  let ?fi = "filter_info_of (qp_snippet Q)"
  have r: "pba_of_snippet (qp_snippet Q) r" "result_rows_in PBA_BUFF_SIZE r (map enc_row F)" "list_all (qp_good Q) F"
    using assms(2) by (simp_all add: qp_holds_def)
  have "mapE (pba_project_row ?fi) (map enc_row F) = Inr (map (qp_project Q) F)" using r(3) assms(3)
    by (induction F) (auto simp: qp_good_def qp_project_def)
  with r have "delivers_in PBA_BUFF_SIZE pba_project_row r (map (qp_project Q) F)"
    unfolding delivers_in_def by (intro exI [of _ "map enc_row F"]) (simp add: pba_of_snippet_def)
  then show ?thesis using r(1) assms(1) by (simp add: unit_result_def pba_of_snippet_def qp_key_def pba_query_ok_def Let_def)
qed

lemma pba_query_routes:
  assumes "pba_query_ok reader parse tm Q"
  shows "pba_EnQueueData r (sn_scan_type (qp_snippet Q)) (fq, mq) = (push_work r fq, mq) \<and> sn_scan_type (qp_snippet Q) = Full_Scan_Filter \<or>
    pba_EnQueueData r (sn_scan_type (qp_snippet Q)) (fq, mq) = (fq, push_work r mq) \<and> list_all (qp_keeps Q) F"
  using assms by (auto simp: pba_query_ok_def Let_def pba_EnQueueData_def qp_keeps_def list_all_iff)

interpretation pba_worker: answering_layers "pba_layers reader parse wr vars" PBA_BUFF_SIZE pba_project_row
    "\<lambda>junk r. pba_new_MergeResult junk (rs_query_id r) (rs_work_id r) (rs_csd_name r)
       (projection_datatype (rs_filter_info r)) (rs_projection_length r) (rs_total_block_count r)"
    "\<lambda>Q. pba_query_ok reader parse tm Q \<and> flag_ok vars Q" qp_snippet qp_key qp_total qp_table qp_keeps qp_project qp_holds "pba_same_tables tm"
  for reader parse wr vars tm
proof
  fix Q r F fq mq junk v f tm1 origin
  assume Q: "pba_query_ok reader parse tm Q \<and> flag_ok vars Q"
  then have ok: "pba_query_ok reader parse tm Q" and clear: "flag_ok vars Q" by simp_all
  show "\<exists>v. ly_vars (pba_layers reader parse wr vars) v" using clear by (simp add: flag_ok_def)
  show "0 < qp_total Q" using ok
    by (simp add: pba_query_ok_def qp_total_def Let_def)
  show "\<exists>tm' origin' A. ly_scan (pba_layers reader parse wr vars) junk tm1 (qp_snippet Q) origin = Inr (tm', origin', map fst A) \<and>
      pba_same_tables tm tm' \<and> list_all (\<lambda>b. qp_holds Q (fst b) (snd b) \<and> 0 < rs_result_block_count (fst b)) A \<and>
      sum_list (map (\<lambda>b. rs_result_block_count (fst b)) A) = qp_total Q \<and> concat (map snd A) = qp_table Q" if "pba_same_tables tm tm1"
    using pba_query_sends [OF ok that, of junk origin "new_WorkQueue 0" "new_WorkQueue 0"] by fastforce
  show "ly_enqueue (pba_layers reader parse wr vars) r (sn_scan_type (qp_snippet Q)) (fq, mq) = (push_work r fq, mq) \<and>
        sn_scan_type (qp_snippet Q) = Full_Scan_Filter \<or>
      ly_enqueue (pba_layers reader parse wr vars) r (sn_scan_type (qp_snippet Q)) (fq, mq) = (fq, push_work r mq) \<and> list_all (qp_keeps Q) F"
    using pba_query_routes [OF ok] by simp
  assume r: "qp_holds Q r F"
  show "\<exists>f' fr. ly_filter (pba_layers reader parse wr vars) junk v r f mq = Inr (f', push_work fr mq) \<and> qp_holds Q fr (filter (qp_keeps Q) F) \<and>
      rs_result_block_count fr = rs_result_block_count r"
    if "sn_scan_type (qp_snippet Q) = Full_Scan_Filter" "ly_vars (pba_layers reader parse wr vars) v"
  proof -
    have "substringflag v \<longrightarrow> in_free (qp_dnf Q)" using that clear by (auto simp: flag_ok_def)
    from pba_query_filters [OF ok that(1) r this] show ?thesis by (cases f) simp
  qed
  show "delivers_in PBA_BUFF_SIZE pba_project_row r (map (qp_project Q) F) \<and> unit_result (fst (qp_key Q)) (snd (qp_key Q)) (qp_total Q) r"
    if "list_all (qp_keeps Q) F" by (rule pba_query_delivers [OF ok r that])
qed ((simp only: pba_layers_simps)?, rule pba_merge.fresh_rows pba_merge.fresh_counts pba_merge.fresh_unit pba_merge.block_eq | erule pba_merge.project_bound)+

section \<open>Two queries at the same time\<close>

definition ex_pba_unit :: "Scan_Type \<Rightarrow> int \<Rightarrow> pba_query" where
  "ex_pba_unit t w = \<lparr> qp_snippet = ex_pba_query\<lparr> sn_scan_type := t, sn_work_id := w \<rparr>, qp_rows = (\<lambda>_. ex_fields), qp_dnf = [[(False, ex_key_ge)]] \<rparr>"

lemma ex_pba_unit_snippet:
  "filter_info_of (ex_pba_query\<lparr> sn_scan_type := t, sn_work_id := w \<rparr>) = filter_info_of ex_pba_query"
  "sn_table_col ex_pba_query = [''o_orderkey'', ''o_custkey'']"
  "\<exists>b1 b2. sn_block_info_list ex_pba_query = [b1, b2]" "sn_total_block_count ex_pba_query = 2"
  by (simp_all add: filter_info_of_def ex_pba_query_def ex_pba_snippet_def pba_Snippet.defs Snippet.defs ex_snippet_def)

lemma ex_pba_unit_rows:
  "list_all (qp_good (ex_pba_unit t w)) ex_fields"
  "filter (qp_keeps (ex_pba_unit Full_Scan_Filter w)) ex_fields = [[(3, 4, ''ijkl''), (3, 4, ''mnop'')]]"
  "filter (qp_keeps (ex_pba_unit Full_Scan w)) ex_fields = ex_fields"
  "map (qp_project (ex_pba_unit t w)) ex_fields = [''efgh'', ''mnop'']"
proof -
  let ?sn = "ex_pba_query\<lparr> sn_scan_type := t, sn_work_id := w \<rparr>"
  have same: "pba_typed_row (ex_pba_query\<lparr> sn_scan_type := u, sn_work_id := w \<rparr>) Ds = pba_typed_row ex_filter_query Ds"
    "pba_keeps_row (ex_pba_query\<lparr> sn_scan_type := u, sn_work_id := w \<rparr>) Ds = pba_keeps_row ex_filter_query Ds" for u Ds
    by (simp_all add: fun_eq_iff pba_typed_row_def pba_keeps_row_def ex_pba_unit_snippet(1) ex_filter_info(6)) (simp_all add: ex_filter_query_def)
  have proj: "pba_project_row (filter_info_of ?sn) (enc_row fs) = Inr (snd (snd (fs ! 1)))" if "fs \<in> set ex_fields" for fs
    using that ex_pba_query_row [of "''abcd''" "''efgh''"] ex_pba_query_row [of "''ijkl''" "''mnop''"]
    by (auto simp: ex_fields_def enc_row_def enc_field_def hdr_len_def ex_pba_unit_snippet(1))
  show "list_all (qp_good (ex_pba_unit t w)) ex_fields"
    using ex_key_rows(1) proj by (auto simp: list_all_iff qp_good_def ex_pba_unit_def same)
  show "filter (qp_keeps (ex_pba_unit Full_Scan_Filter w)) ex_fields = [[(3, 4, ''ijkl''), (3, 4, ''mnop'')]]"
    using ex_key_rows(2) by (simp add: qp_keeps_def [abs_def] ex_pba_unit_def same)
  show "filter (qp_keeps (ex_pba_unit Full_Scan w)) ex_fields = ex_fields" by (simp add: qp_keeps_def ex_pba_unit_def)
  show "map (qp_project (ex_pba_unit t w)) ex_fields = [''efgh'', ''mnop'']"
    using proj by (simp add: qp_project_def ex_pba_unit_def ex_fields_def)
qed

lemma ex_pba_unit_table: "qp_table (ex_pba_unit t w) = ex_fields @ ex_fields"
  using ex_pba_unit_snippet(3) by (auto simp: qp_table_def ex_pba_unit_def)

lemma ex_pba_unit_ok:
  assumes "t = Full_Scan_Filter \<or> t = Full_Scan"
  shows "pba_query_ok ex_pba_reader (ex_parse ex_key_ge) tm (ex_pba_unit t w)"
proof -
  let ?sn = "ex_pba_query\<lparr> sn_scan_type := t, sn_work_id := w \<rparr>"
  obtain b1 b2 where bs: "sn_block_info_list ex_pba_query = [b1, b2]" using ex_pba_unit_snippet(3) by blast
  have good: "list_all (pba_good_block ?sn (replicate 4 (CHR 0x07)) (ex_pba_reader tr) (\<lambda>b. map enc_row ex_fields)) (sn_block_info_list ?sn)" for tr
    by (simp add: ex_fields_rows list_all_iff pba_good_block_def ex_pba_reader_def ex_entries_def good_entry_def indexnum_size_def pba_row_def
        ex_pba_query_def)
  have toks: "dnf_toks [ex_key_ge] [[(False, ex_key_ge)]]"
    by (auto intro!: dnf_one conj_one lit_plain [of GE] simp: has_op_def ex_key_ge_def literal_ops_def compare_ops_def)
  have "block_schema (filter_info_of ?sn)" using ex_filter_info(5,6) by (simp add: ex_pba_unit_snippet(1))
  then show ?thesis
    using assms good ex_pba_unit_rows(1) toks bs ex_pba_unit_table [of t w] ex_pba_unit_snippet(4)
    by (auto simp: pba_query_ok_def Let_def ex_pba_unit_def qp_total_def ex_parse_def)
qed

definition ex_pba_units :: "pba_query list" where
  "ex_pba_units = [ex_pba_unit Full_Scan_Filter 2, ex_pba_unit Full_Scan 3]"

lemma ex_pba_units_ok: "list_all (pba_query_ok ex_pba_reader (ex_parse ex_key_ge) tm) ex_pba_units" "distinct (map qp_key ex_pba_units)"
  using ex_pba_unit_ok by (simp_all add: ex_pba_units_def) (simp add: ex_pba_unit_def qp_key_def)

lemma ex_pba_answers:
  "map (qp_project (ex_pba_unit Full_Scan_Filter w)) (filter (qp_keeps (ex_pba_unit Full_Scan_Filter w)) (qp_table (ex_pba_unit Full_Scan_Filter w))) =
     [''mnop'', ''mnop'']"
  "map (qp_project (ex_pba_unit Full_Scan w)) (filter (qp_keeps (ex_pba_unit Full_Scan w)) (qp_table (ex_pba_unit Full_Scan w))) =
     [''efgh'', ''mnop'', ''efgh'', ''mnop'']"
  using ex_pba_unit_rows(4) [of Full_Scan_Filter w] ex_pba_unit_rows(4) [of Full_Scan w]
  by (simp_all add: ex_pba_unit_table ex_pba_unit_rows(2,3)) (simp add: ex_fields_def)

lemma ex_flags_ok: "list_all (flag_ok (\<lambda>v. v = ex_locals)) Qs"
  by (simp add: flag_ok_def ex_locals_def list_all_iff)

lemma list_all_both: "list_all P Qs \<Longrightarrow> list_all R Qs \<Longrightarrow> list_all (\<lambda>Q. P Q \<and> R Q) Qs"
  by (simp add: list_all_iff)

lemma qp_project_columns:
  assumes "pba_query_ok reader parse tm Q" "columns_of (qp_snippet Q) is (qp_table Q)"
  shows "map (qp_project Q) (filter (qp_keeps Q) (qp_table Q)) = map (\<lambda>fs. columns_bytes fs is) (filter (qp_keeps Q) (qp_table Q))"
proof (rule map_cong [OF refl])
  fix fs assume fs: "fs \<in> set (filter (qp_keeps Q) (qp_table Q))"
  have "qp_good Q fs" using assms(1) fs by (auto simp: pba_query_ok_def list_all_iff Let_def)
  with fs obtain row where row: "pba_project_row (filter_info_of (qp_snippet Q)) (enc_row fs) = Inr row" by (auto simp: qp_good_def)
  with column_row_projected [OF _ _ row, of "is"] fs assms(2) show "qp_project Q fs = columns_bytes fs is"
    by (auto simp: columns_of_def list_all_iff qp_project_def)
qed

section \<open>Properties\<close>



text \<open>
  C4. For queries with different ids that satisfy \<open>pba_query_ok\<close> and \<open>flag_ok\<close> (blocks of at most 5000 bytes of readable rows of the one table, filters all of whose literals
  have a meaning on the rows, selected rows that can be projected, \<open>substringflag\<close> false wherever a filter has an IN) the worker of the block version
  cannot get stuck, and nothing in it fails: in every state that any interleaving of its
  threads reaches, nothing is left to do or some thread can take a step, and from every such state the worker can come to rest.
  (An operation that throws, reads an uninitialised variable or leaves an array is not a step of the relation.) Every run ends, whatever the queries are.
\<close>

theorem pba_worker_never_stuck:
  assumes "list_all (pba_query_ok reader parse tm) Qs" "distinct (map qp_key Qs)" "list_all (flag_ok vars) Qs"
    and "wk_run (pba_layers reader parse wr vars) (wk_start tm (map qp_snippet Qs) [fk]) s"
  shows "(wk_idle s \<or> (\<exists>s'. wk_step (pba_layers reader parse wr vars) s s')) \<and> (\<exists>s'. wk_run (pba_layers reader parse wr vars) s s' \<and> wk_idle s') \<and>
    wf {(s', s). wk_step (pba_layers reader parse wr vars) s s'}"
  using pba_worker.never_stuck [OF list_all_both [OF assms(1,3)] assms(2) pba_same_tables_refl _ assms(4)] pba_threads.wf_step by blast

theorem pba_worker_never_stuck_witness:
  "\<exists>s. wk_run (pba_layers ex_pba_reader (ex_parse ex_key_ge) (\<lambda>_. ''{}'') (\<lambda>v. v = ex_locals))
      (wk_start (pba_initCSDTableManager Map.empty) (map qp_snippet ex_pba_units) [undefined]) s \<and> wk_idle s"
  using pba_worker_never_stuck [OF ex_pba_units_ok ex_flags_ok wk_refl, where wr = "\<lambda>_. ''{}''" and fk = undefined and tm = "pba_initCSDTableManager Map.empty"] by blast

end
