(* ===== verification/Host_Worker.thy ===== *)
theory Host_Worker
  imports Row_Counter Threads Filter_Block Pba_Input
begin

text \<open>
  The host-side copy of the worker module (\<open>host_file_scan/keti\<close>), a test build that scans one file on the host: the snippet
  comes from the file \<open>test.json\<close> and the path of the SST file from the command line; \<open>EnQueueData\<close> is commented out, so
  that the scan only counts rows. Functions whose text is that of the other copy are shared: \<open>filter.cc\<close> (up to comments and
  output), the loop over the columns, the helpers of \<open>scan.cc\<close>. Shown: which text is read, that the rows counted are those of the
  row counter, and that nothing ever gets past the scan layer, whatever the merge layer would do.
\<close>

section \<open>Input\<close>

text \<open>
  What \<open>read\<close> of one byte gives. The loop of \<open>InputSnippet\<close> writes to \<open>json[i++]\<close> without looking at the size 8000 of the array, and
  goes on after an error. The list is what has been read; \<open>None\<close>: the loop has not ended.
\<close>

datatype byte_read = Byte char | Eof | Failed

definition json_size :: nat where "json_size = 8000"

fun host_read_loop :: "string \<Rightarrow> byte_read list \<Rightarrow> string res option" where
  "host_read_loop json [] = None"
| "host_read_loop json (Eof # rs) = Some (Inr json)"
| "host_read_loop json (Failed # rs) = host_read_loop (json @ [CHR 0x00]) rs"
| "host_read_loop json (Byte c # rs) =
     (if length json < json_size then host_read_loop (json @ [c]) rs else Some (Inl OutOfBounds))"

definition host_json_text :: "string \<Rightarrow> string res" where
  \<comment> \<open>the array as a C string; it was filled with zeros\<close>
  "host_json_text json =
     (if length json < json_size \<or> CHR 0x00 \<in> set (take json_size json) then Inr (c_str json) else Inl OutOfBounds)"

record host_Snippet = Snippet +
  sn_file_path :: string
  sn_deleted_key :: "string list"
  sn_is_inserted :: bool

text \<open>\<open>ins\<close> is the value of \<open>is_inserted\<close>, which the constructor does not assign.\<close>

definition host_read_header :: "string \<Rightarrow> bool \<Rightarrow> json \<Rightarrow> (int \<times> host_Snippet) res" where
  "host_read_header path ins doc =
     bindE (get_int doc ''queryID'') (\<lambda>qid.
     bindE (get_int doc ''workID'') (\<lambda>wid.
     bindE (get_string doc ''tableName'') (\<lambda>tn.
     bindE (get_int doc ''pkNum'') (\<lambda>primary_count.
       Inr (primary_count,
         \<lparr> sn_work_id = wid, sn_query_id = qid, sn_csd_name = [], sn_table_name = tn,
           sn_table_col = [], sn_table_offset = [], sn_table_offlen = [], sn_table_datatype = [],
           sn_block_info_list = [], sn_total_block_count = 2444, sn_colindexmap = Map.empty,
           sn_primary_key_list = [],
           sn_kNumInternalBytes = (if primary_count = 0 then 8 else 0),
           sn_primary_length = None, sn_table_filter = [], sn_column_projection = [],
           sn_projection_datatype = [], sn_groupby_col = [], sn_scan_type = Full_Scan,
           sn_inserted_key = [], sn_inserted_value = [],
           sn_file_path = path, sn_deleted_key = [], sn_is_inserted = ins \<rparr>)))))"

definition host_snippet_of_json :: "(json \<Rightarrow> string) \<Rightarrow> string \<Rightarrow> bool \<Rightarrow> json \<Rightarrow> host_Snippet res" where
  "host_snippet_of_json write path ins doc =
     bindE (host_read_header path ins doc) (\<lambda>(primary_count, sn).
     bindE (read_columns doc primary_count sn) (\<lambda>sn.
       read_filter write doc sn))"

definition host_InputSnippet ::
  "(string \<Rightarrow> json) \<Rightarrow> (json \<Rightarrow> string) \<Rightarrow> string \<Rightarrow> bool \<Rightarrow> byte_read list \<Rightarrow> host_Snippet WorkQueue \<Rightarrow> host_Snippet WorkQueue res option" where
  "host_InputSnippet parse write path ins reads q =
     (case host_read_loop [] reads of
        None \<Rightarrow> None
      | Some r \<Rightarrow> Some (
          bindE r (\<lambda>json.
          bindE (host_json_text json) (\<lambda>txt.
          bindE (host_snippet_of_json write path ins (parse txt)) (\<lambda>sn. Inr (EnQueueScan sn q))))))"

section \<open>The table manager\<close>

definition host_device :: "string \<Rightarrow> TableRep" where
  "host_device dev = \<lparr> dev_name = dev, blocks_maybe_compressed = False, blocks_definitely_zstd_compressed = False,
     immortal_table = False, read_amp_bytes_per_bit = 0, compression_name = ''NoCompression'' \<rparr>"

definition host_table_entries :: "(string \<times> string) list" where
  "host_table_entries =
     map (\<lambda>t. (t, ''/dev/ngd-blk2''))
       [''small_line.lineitem111_Table1'', ''tpch_100000.lineitem_100000'', ''tpch_100000.part'', ''tpch8test.part'',
        ''tpch8test.lineitem_100000'', ''tpch200.lineitem'', ''tpch_line_part.lineitem_100000'', ''tpch_line_part.part'',
        ''tpch_line_part.customer'', ''tpch_line_part.orders'', ''tpch_line_part.partsupp'', ''tpch_line_part.supplier'',
        ''tpch_line_part.nation'', ''tpch100.lineitem''] @
     [(''lineitem'', ''/dev/ngd-blk3''), (''customer'', ''/dev/ngd-blk3''), (''nation'', ''/dev/ngd-blk3''),
      (''orders'', ''/dev/ngd-blk2''), (''part'', ''/dev/ngd-blk3''), (''partsupp'', ''/dev/ngd-blk3''),
      (''region'', ''/dev/ngd-blk3''), (''supplier'', ''/dev/ngd-blk3'')]"

definition host_InitCSDTableManager :: "(string \<rightharpoonup> TableRep) \<Rightarrow> (string \<rightharpoonup> TableRep)" where
  "host_InitCSDTableManager m = fold (\<lambda>(t, dev) m. map_insert m t (host_device dev)) host_table_entries m"

definition host_GetTableRep :: "string \<Rightarrow> (string \<rightharpoonup> TableRep) \<Rightarrow> TableRep \<times> (string \<rightharpoonup> TableRep)" where
  \<comment> \<open>\<open>operator[]\<close> adds a value-initialised entry for an unknown name\<close>
  "host_GetTableRep table_name m =
     (case m table_name of
        Some tr \<Rightarrow> (tr, m)
      | None \<Rightarrow> (let tr = (host_device [])\<lparr> compression_name := [] \<rparr> in (tr, m(table_name \<mapsto> tr))))"

section \<open>The scan layer\<close>

definition host_EnQueueData ::
  "Result \<Rightarrow> Scan_Type \<Rightarrow> Result WorkQueue \<times> Result WorkQueue \<Rightarrow> Result WorkQueue \<times> Result WorkQueue" where
  \<comment> \<open>its body is commented out\<close>
  "host_EnQueueData r t qs = qs"

definition host_send_result :: "Result \<Rightarrow> Scan_Type \<Rightarrow> ScanState \<Rightarrow> ScanState" where
  "host_send_result r t st =
     (case host_EnQueueData r t (ss_filterq st, ss_mergeq st) of (fq, mq) \<Rightarrow>
        st\<lparr> ss_filterq := fq, ss_mergeq := mq, ss_sent := ss_sent st @ [r] \<rparr>)"

definition host_append_value :: "Scan_Type \<Rightarrow> buffer \<Rightarrow> string \<Rightarrow> ScanState \<Rightarrow> ScanState res" where
  "host_append_value t junk row st =
     bindE (if TEST_SIZE < rs_length (ss_result st) + length row then
              (let r = (ss_result st)\<lparr> rs_result_block_count := 15 \<rparr> in
               bindE (copy_result junk r) (\<lambda>r'.
                 Inr (host_send_result r' t (st\<lparr> ss_current_block_count := ss_current_block_count st + 15,
                                                  ss_result := InitResult r \<rparr>))))
            else Inr st) (\<lambda>st.
     bindE (scan_append row (ss_result st)) (\<lambda>r. Inr (st\<lparr> ss_result := r \<rparr>)))"

text \<open>One round of the loop of \<open>BlockScan\<close>; a row is counted before it is looked up among the deleted keys.\<close>

definition host_scan_entry :: "host_Snippet \<Rightarrow> buffer \<Rightarrow> sst_entry \<Rightarrow> bool \<times> ScanState \<Rightarrow> (bool \<times> ScanState) res" where
  "host_scan_entry sn junk e bst = (case bst of (_, st) \<Rightarrow>
     if \<not> sst_ok e then Inr (True, st)
     else
       bindE (ExtractUserKey (sn_kNumInternalBytes sn) (sst_key e)) (\<lambda>(ikey, _).
       bindE (key_slice ikey 0 (int indexnum_size)) (\<lambda>index_num.
         let st = (if ss_check st then st\<lparr> ss_origin_index_num := index_num, ss_check := False \<rparr> else st)
         in if ss_origin_index_num st \<noteq> index_num then Inr (True, st\<lparr> ss_index_valid := False \<rparr>)
            else
              let st = st\<lparr> ss_row_count := ss_row_count st + 1 \<rparr> in
              bindE (key_slice (sst_key e) 0 (int (sn_kNumInternalBytes sn + indexnum_size))) (\<lambda>key_data.
              if char_to_hexstr key_data \<in> set (sn_deleted_key sn) then Inr (False, st)
              else
                (case sn_primary_length sn of
                   None \<Rightarrow> Inl Uninitialised
                 | Some pl \<Rightarrow>
                     bindE (if pl \<noteq> 0 then append_with_key sn pl ikey (sst_value e) st
                            else host_append_value (sn_scan_type sn) junk (sst_value e) st)
                       (\<lambda>st. Inr (False, st)))))))"

definition host_BlockScan :: "host_Snippet \<Rightarrow> buffer \<Rightarrow> sst_entry list \<Rightarrow> ScanState \<Rightarrow> ScanState res" where
  "host_BlockScan sn junk entries st =
     (if sn_scan_type sn = Full_Scan_Filter \<or> sn_scan_type sn = Full_Scan then
        bindE (break_loop (host_scan_entry sn junk) fst entries (False, st)) (\<lambda>(_, st). Inr st)
      else Inr st)"

text \<open>
  One snippet. \<open>check\<close>, \<open>origin\<close> and \<open>valid\<close> are the file-level variables; \<open>check\<close> starts as true and, other than in the
  other copy, is not set again for the next snippet.
\<close>

definition host_scan_start ::
  "buffer \<Rightarrow> host_Snippet \<Rightarrow> bool \<Rightarrow> string \<Rightarrow> bool \<Rightarrow> Result WorkQueue \<Rightarrow> Result WorkQueue \<Rightarrow> ScanState" where
  "host_scan_start junk sn check origin valid fq mq =
     \<lparr> ss_result = new_Result junk (sn_query_id sn) (sn_work_id sn) (sn_csd_name sn)
                     (sn_total_block_count sn) (filter_info_of sn) 0,
       ss_current_block_count = 0, ss_row_count = 0, ss_check = check, ss_origin_index_num = origin,
       ss_index_valid = valid, ss_filterq = fq, ss_mergeq = mq, ss_sent = [] \<rparr>"

definition host_wal_stage :: "host_Snippet \<Rightarrow> ScanState \<Rightarrow> ScanState res" where
  "host_wal_stage sn st =
     (if sn_is_inserted sn then
        bindE (WalScan sn (ss_result st)) (\<lambda>r.
          let st = host_send_result r (sn_scan_type sn) (st\<lparr> ss_result := r \<rparr>)
          in Inr (st\<lparr> ss_result := InitResult (ss_result st) \<rparr>))
      else Inr st)"

definition host_finish_scan :: "host_Snippet \<Rightarrow> ScanState \<Rightarrow> ScanState" where
  "host_finish_scan sn st =
     (let r = (ss_result st)\<lparr> rs_result_block_count := sn_total_block_count sn - ss_current_block_count st \<rparr>;
          st = st\<lparr> ss_result := r, ss_current_block_count := ss_current_block_count st + rs_result_block_count r \<rparr>;
          st = host_send_result r (sn_scan_type sn) st
      in st\<lparr> ss_result := InitResult r \<rparr>)"

definition host_scan_snippet ::
  "(string \<Rightarrow> sst_entry list) \<Rightarrow> buffer \<Rightarrow> (string \<rightharpoonup> TableRep) \<Rightarrow> host_Snippet \<Rightarrow> bool \<Rightarrow> string \<Rightarrow> bool \<Rightarrow>
   Result WorkQueue \<Rightarrow> Result WorkQueue \<Rightarrow> ((string \<rightharpoonup> TableRep) \<times> ScanState) res" where
  "host_scan_snippet reader junk tm sn check origin valid fq mq =
     (case host_GetTableRep (sn_table_name sn) tm of (table_rep, tm) \<Rightarrow>
        bindE (host_wal_stage sn (host_scan_start junk sn check origin valid fq mq)) (\<lambda>st.
        bindE (host_BlockScan sn junk (reader (sn_file_path sn)) (st\<lparr> ss_row_count := 0 \<rparr>)) (\<lambda>st.
          Inr (tm, host_finish_scan sn st))))"

section \<open>The return interface\<close>

definition host_SendDataToBufferManager :: "int \<Rightarrow> MergeResult \<Rightarrow> sock_op list" where
  \<comment> \<open>it writes the description of the buffer and returns before the socket is opened\<close>
  "host_SendDataToBufferManager ack m = []"

section \<open>The threads\<close>

text \<open>
  \<open>main\<close> starts the same threads, detaches them and returns, so that the process may end in any state of a run. The merge layer
  is an argument: what it would do does not matter.
\<close>

definition host_layers ::
  "(string \<Rightarrow> sst_entry list) \<Rightarrow> (string \<Rightarrow> json) \<Rightarrow> (buffer \<Rightarrow> Result \<Rightarrow> merge_state \<Rightarrow> merge_state res) \<Rightarrow>
   (host_Snippet, Result, MergeResult, Filter_obj, (string \<rightharpoonup> TableRep) \<times> bool \<times> bool) layers" where
  "host_layers reader parse merge_block =
     \<lparr> ly_scan = (\<lambda>junk (tm, check, valid) sn origin.
         bindE (host_scan_snippet reader junk tm sn check origin valid (new_WorkQueue 0) (new_WorkQueue 0)) (\<lambda>(tm, st).
           Inr ((tm, ss_check st, ss_index_valid st), ss_origin_index_num st, ss_sent st))),
       ly_enqueue = host_EnQueueData,
       ly_vars = (\<lambda>_. True),
       ly_filter = BlockFilter parse,
       ly_merge = merge_block,
       ly_return = host_SendDataToBufferManager \<rparr>"

section \<open>The scan is that of the other copy without the queues\<close>

definition same_scan :: "ScanState \<Rightarrow> ScanState \<Rightarrow> bool" where
  "same_scan st s \<longleftrightarrow> s\<lparr> ss_filterq := ss_filterq st, ss_mergeq := ss_mergeq st, ss_index_valid := ss_index_valid st \<rparr> = st"

lemma same_scanD:
  assumes "same_scan st s"
  shows "ss_result st = ss_result s" "ss_current_block_count st = ss_current_block_count s" "ss_row_count st = ss_row_count s"
    "ss_check st = ss_check s" "ss_origin_index_num st = ss_origin_index_num s" "ss_sent st = ss_sent s"
  using assms by (cases st; cases s; simp add: same_scan_def)+

lemma same_scanI:
  assumes "ss_result st = ss_result s" "ss_current_block_count st = ss_current_block_count s" "ss_row_count st = ss_row_count s"
    "ss_check st = ss_check s" "ss_origin_index_num st = ss_origin_index_num s" "ss_sent st = ss_sent s"
  shows "same_scan st s"
  using assms by (cases st; cases s; simp add: same_scan_def)

definition same_outcome :: "(bool \<times> ScanState) res \<Rightarrow> (bool \<times> ScanState) res \<Rightarrow> bool" where
  "same_outcome = rel_sum (=) (rel_prod (=) same_scan)"

lemma host_append_value_same:
  assumes "same_scan st s"
  shows "rel_sum (=) same_scan (host_append_value t junk row st) (append_value t junk row s)"
proof -
  note eq = same_scanD [OF assms]
  have tail: "rel_sum (=) same_scan (bindE (scan_append row (ss_result st')) (\<lambda>r. Inr (st'\<lparr> ss_result := r \<rparr>)))
      (bindE (scan_append row (ss_result s')) (\<lambda>r. Inr (s'\<lparr> ss_result := r \<rparr>)))" if "same_scan st' s'" for st' s'
    using same_scanD [OF that] by (cases "scan_append row (ss_result s')") (auto intro!: same_scanI)
  show ?thesis
  proof (cases "TEST_SIZE < rs_length (ss_result s) + length row")
    case False
    with tail [OF assms] eq(1) show ?thesis by (simp add: host_append_value_def append_value_def)
  next
    case True
    let ?r = "(ss_result s)\<lparr> rs_result_block_count := 15 \<rparr>"
    show ?thesis
    proof (cases "copy_result junk ?r")
      case (Inl e)
      with True eq(1) show ?thesis by (simp add: host_append_value_def append_value_def flush_result_def)
    next
      case (Inr r')
      let ?h = "\<lambda>x :: ScanState. x\<lparr> ss_current_block_count := ss_current_block_count x + 15, ss_result := InitResult ((ss_result x)\<lparr> rs_result_block_count := 15 \<rparr>) \<rparr>"
      have "same_scan (host_send_result r' t (?h st)) (send_result r' t (?h s))"
        using eq by (intro same_scanI) (simp_all add: host_send_result_def host_EnQueueData_def)
      from tail [OF this] True Inr eq(1) show ?thesis
        by (simp add: host_append_value_def append_value_def flush_result_def Let_def)
    qed
  qed
qed

lemma append_with_key_same:
  assumes "same_scan st s"
  shows "rel_sum (=) same_scan (append_with_key sn pl ikey row st) (append_with_key sn pl ikey row s)"
proof -
  note eq = same_scanD [OF assms]
  show ?thesis
  proof (cases "getPrimaryKeyData ikey (sn_primary_key_list sn)")
    case (Inr pk)
    then show ?thesis
      using eq by (cases "memcpy_to (rs_data (ss_result s)) (int (rs_length (ss_result s))) (pk @ row)")
        (auto simp: append_with_key_def Let_def intro!: same_scanI)
  qed (simp add: append_with_key_def)
qed

lemma host_scan_entry_same:
  assumes "same_scan st s" "sn_deleted_key sn = []" "sst_ok e \<Longrightarrow> sn_kNumInternalBytes sn + indexnum_size \<le> length (sst_key e)"
  shows "same_outcome (host_scan_entry sn junk e (b, st)) (scan_entry sn junk e (b, s))"
proof (cases "sst_ok e")
  case False
  with assms(1) show ?thesis by (simp add: host_scan_entry_def scan_entry_def same_outcome_def)
next
  case True
  let ?idx = "take indexnum_size (sst_key e)"
  define h where "h x = (if ss_check x then x\<lparr> ss_origin_index_num := ?idx, ss_check := False \<rparr> else x)" for x :: ScanState
  have hs: "same_scan (h st) (h s)" using same_scanD [OF assms(1)] by (auto simp: h_def intro!: same_scanI)
  have key: "ExtractUserKey (sn_kNumInternalBytes sn) (sst_key e) = Inr (sst_key e, length (sst_key e) - sn_kNumInternalBytes sn)"
    "key_slice (sst_key e) 0 (int indexnum_size) = Inr ?idx"
    "key_slice (sst_key e) 0 (int (sn_kNumInternalBytes sn + indexnum_size)) = Inr (take (sn_kNumInternalBytes sn + indexnum_size) (sst_key e))"
    using assms(3) [OF True] by (simp_all add: ExtractUserKey_def key_slice_def nat_add_distrib)
  show ?thesis
  proof (cases "ss_origin_index_num (h s) = ?idx")
    case False
    have "same_scan ((h st)\<lparr> ss_index_valid := False \<rparr>) ((h s)\<lparr> ss_index_valid := False \<rparr>)"
      using same_scanD [OF hs] by (auto intro!: same_scanI)
    with False True same_scanD(5) [OF hs] show ?thesis
      unfolding host_scan_entry_def scan_entry_def prod.case key bindE_simps Let_def h_def [symmetric] by (simp add: same_outcome_def)
  next
    case eq: True
    let ?n = "\<lambda>x :: ScanState. (h x)\<lparr> ss_row_count := ss_row_count (h x) + 1 \<rparr>"
    have n: "same_scan (?n st) (?n s)" using same_scanD [OF hs] by (auto intro!: same_scanI)
    have lift: "same_outcome (bindE x (\<lambda>st. Inr (False, st))) (bindE y (\<lambda>st. Inr (False, st)))" if "rel_sum (=) same_scan x y" for x y
      using that by (cases x; cases y) (auto simp: same_outcome_def)
    from eq same_scanD(5) [OF hs] True lift [OF append_with_key_same [OF n, of sn]] lift [OF host_append_value_same [OF n]] assms(2) show ?thesis
      unfolding host_scan_entry_def scan_entry_def prod.case key bindE_simps Let_def h_def [symmetric]
      by (cases "sn_primary_length sn") (simp_all add: same_outcome_def)
  qed
qed

lemma host_scan_loop_same:
  assumes "same_scan st s" "sn_deleted_key sn = []" "list_all (\<lambda>e. sst_ok e \<longrightarrow> sn_kNumInternalBytes sn + indexnum_size \<le> length (sst_key e)) es"
  shows "same_outcome (break_loop (host_scan_entry sn junk) fst es (b, st)) (break_loop (scan_entry sn junk) fst es (b, s))"
  using assms
proof (induction es arbitrary: b st s)
  case Nil
  then show ?case by (simp add: same_outcome_def)
next
  case (Cons e es)
  then have "same_outcome (host_scan_entry sn junk e (b, st)) (scan_entry sn junk e (b, s))" by (intro host_scan_entry_same) simp_all
  then consider err where "host_scan_entry sn junk e (b, st) = Inl err" "scan_entry sn junk e (b, s) = Inl err"
    | c st' s' where "host_scan_entry sn junk e (b, st) = Inr (c, st')" "scan_entry sn junk e (b, s) = Inr (c, s')" "same_scan st' s'"
    by (auto simp: same_outcome_def rel_sum.simps)
  then show ?case
  proof cases
    case 2
    with Cons.IH [OF 2(3)] Cons.prems(2,3) show ?thesis by (cases c) (simp_all add: same_outcome_def)
  qed (simp add: same_outcome_def)
qed

text \<open>The queues and the counting of rows.\<close>

lemma host_append_value_queues: "host_append_value t junk row st = Inr st' \<Longrightarrow> ss_filterq st' = ss_filterq st \<and> ss_mergeq st' = ss_mergeq st"
  by (auto simp: host_append_value_def host_send_result_def host_EnQueueData_def bindE_Inr_conv Let_def split: if_splits)

lemma append_with_key_queues: "append_with_key sn pl ikey row st = Inr st' \<Longrightarrow> ss_filterq st' = ss_filterq st \<and> ss_mergeq st' = ss_mergeq st"
  by (auto simp: append_with_key_def bindE_Inr_conv Let_def split: if_splits)

lemma host_scan_entry_queues:
  assumes "host_scan_entry sn junk e (b, st) = Inr (b', st')"
  shows "ss_filterq st' = ss_filterq st \<and> ss_mergeq st' = ss_mergeq st"
  using assms
  by (auto simp: host_scan_entry_def bindE_Inr_conv Let_def split: if_splits option.splits
      dest!: host_append_value_queues append_with_key_queues)

lemma host_scan_loop_queues:
  "break_loop (host_scan_entry sn junk) fst es (b, st) = Inr (b', st') \<Longrightarrow> ss_filterq st' = ss_filterq st \<and> ss_mergeq st' = ss_mergeq st"
proof (induction es arbitrary: b st)
  case (Cons e es)
  from Cons.prems obtain c s where s: "host_scan_entry sn junk e (b, st) = Inr (c, s)" by (auto simp: bindE_Inr_conv)
  from host_scan_entry_queues [OF s] Cons s show ?case by (auto split: if_splits)
qed simp

lemma host_add_column_keeps:
  fixes s :: host_Snippet
  assumes "add_column doc pc i s = Inr s'"
  shows "sn_file_path s' = sn_file_path s \<and> sn_deleted_key s' = sn_deleted_key s \<and> sn_inserted_key s' = sn_inserted_key s \<and>
    sn_kNumInternalBytes s' = sn_kNumInternalBytes s"
proof -
  from assms obtain col off len dt where "elem_string doc ''tableCol'' i = Inr col" "elem_int doc ''tableOffset'' i = Inr off"
    "elem_int doc ''tableOfflen'' i = Inr len" "elem_int doc ''tableDatatype'' i = Inr dt"
    unfolding add_column_def by (elim bindE_InrE)
  with assms show ?thesis by (cases "int i < pc") (auto simp: add_column_def Let_def)
qed

lemma host_snippet_fields:
  assumes "host_snippet_of_json write path ins doc = Inr sn" "get_int doc ''pkNum'' = Inr pc"
  shows "sn_file_path sn = path" "sn_deleted_key sn = []" "sn_inserted_key sn = []"
    "sn_kNumInternalBytes sn = internal_bytes (pc \<noteq> 0)" "sn_scan_type sn = Full_Scan_Filter \<or> sn_scan_type sn = Full_Scan"
proof -
  let ?P = "\<lambda>s :: host_Snippet. sn_file_path s = path \<and> sn_deleted_key s = [] \<and> sn_inserted_key s = [] \<and> sn_kNumInternalBytes s = internal_bytes (pc \<noteq> 0)"
  from assms obtain s0 s1 where s: "host_read_header path ins doc = Inr (pc, s0)" "read_columns doc pc s0 = Inr s1" "read_filter write doc s1 = Inr sn"
    by (auto simp: host_snippet_of_json_def host_read_header_def bindE_Inr_conv)
  have "?P s0" using s(1) by (auto simp: host_read_header_def bindE_Inr_conv internal_bytes_def)
  moreover from s(2) obtain "is" where "foldE (add_column doc pc) is s0 = Inr s1" by (auto simp: read_columns_def bindE_Inr_conv)
  moreover have "?P s'" if "?P s" "add_column doc pc i s = Inr s'" for i s s'
    using host_add_column_keeps [OF that(2)] that(1) by simp
  ultimately have "?P s1" by - (rule foldE_invariant [of "add_column doc pc" "is" s0 s1 ?P])
  then show "sn_file_path sn = path" "sn_deleted_key sn = []" "sn_inserted_key sn = []" "sn_kNumInternalBytes sn = internal_bytes (pc \<noteq> 0)"
    using s(3) by (auto simp: read_filter_def bindE_Inr_conv Let_def)
  show "sn_scan_type sn = Full_Scan_Filter \<or> sn_scan_type sn = Full_Scan"
    using s(3) by (auto simp: read_filter_def bindE_Inr_conv Let_def decide_scan_type_def)
qed

lemma host_wal_stage_nothing:
  assumes "sn_inserted_key sn = []"
  shows "\<exists>st. host_wal_stage sn (host_scan_start junk sn check origin valid fq mq) = Inr st \<and> ss_check st = check \<and>
    ss_filterq st = fq \<and> ss_mergeq st = mq \<and> result_rows (ss_result st) []"
  using assms by (simp add: host_wal_stage_def WalScan_def host_scan_start_def host_send_result_def host_EnQueueData_def Let_def
      new_Result_def InitResult_def result_rows_def)

section \<open>Properties\<close>

text \<open>
  The text of \<open>test.json\<close> is read as it is if it is shorter than the array; a longer file overruns it, and one that cannot
  be read is read for ever.
\<close>

theorem host_config_read:
  assumes "CHR 0x00 \<notin> set bs"
  shows "(case host_read_loop [] (map Byte bs @ [Eof]) of None \<Rightarrow> None | Some r \<Rightarrow> Some (bindE r host_json_text)) =
      Some (if length bs < json_size then Inr bs else Inl OutOfBounds)"
    and "host_read_loop json (replicate n Failed) = None"
proof -
  have loop: "host_read_loop json (map Byte bs @ [Eof]) =
      Some (if length json + length bs \<le> json_size \<or> bs = [] then Inr (json @ bs) else Inl OutOfBounds)" for json
  proof (induction bs arbitrary: json)
    case (Cons b bs)
    show ?case by (cases "length json < json_size") (auto simp: Cons.IH)
  qed simp
  have "c_str bs = bs" using assms by (auto simp: c_str_def takeWhile_eq_all_conv)
  with assms show "(case host_read_loop [] (map Byte bs @ [Eof]) of None \<Rightarrow> None | Some r \<Rightarrow> Some (bindE r host_json_text)) =
      Some (if length bs < json_size then Inr bs else Inl OutOfBounds)"
    by (auto simp: loop host_json_text_def json_size_def dest: in_set_takeD)
  show "host_read_loop json (replicate n Failed) = None" by (induction n arbitrary: json) simp_all
qed

text \<open>A scan of a table whose key does not have to be restored does not fail, and counts every entry of the file.\<close>

theorem host_scan_returns:
  assumes "host_snippet_of_json write path ins doc = Inr sn" "get_int doc ''pkNum'' = Inr pc" "sn_primary_length sn = Some 0"
    and "list_all (good_entry sn p) (reader path)" "list_all (\<lambda>e. length (sst_value e) \<le> BUFF_SIZE) (reader path)"
    and "list_all (\<lambda>e. sst_ok e \<longrightarrow> sn_kNumInternalBytes sn + indexnum_size \<le> length (sst_key e)) (reader path)"
  shows "\<exists>tm' st. host_scan_snippet reader junk tm sn True origin valid fq mq = Inr (tm', st) \<and> ss_row_count st = int (length (reader path))"
proof -
  note sn = host_snippet_fields [OF assms(1,2)]
  let ?es = "reader path"
  obtain s0 where s0: "host_wal_stage sn (host_scan_start junk sn True origin valid fq mq) = Inr s0" "ss_check s0" "result_rows (ss_result s0) []"
    using host_wal_stage_nothing [OF sn(3)] by blast
  let ?s0 = "s0\<lparr> ss_row_count := 0 \<rparr>"
  let ?s1 = "if ?es = [] then ?s0 else ?s0\<lparr> ss_check := False, ss_origin_index_num := p \<rparr>"
  have "result_rows (ss_result ?s1) []" "\<forall>r\<in>set (map sst_value ?es). length r \<le> BUFF_SIZE"
    using s0(3) assms(5) by (simp_all add: list_all_iff)
  from scan.run_conserves [OF this, where t = "sn_scan_type sn" and junk = junk] obtain s' where
    "foldE (append_value (sn_scan_type sn) junk) (map sst_value ?es) ?s1 = Inr s'" by blast
  then have "BlockScan sn junk ?es ?s0 = Inr (s'\<lparr> ss_row_count := int (length ?es) \<rparr>)"
    using BlockScan_good [OF assms(4,3) _ sn(5), of ?s0 junk] s0(2) by simp
  then obtain b where loop: "break_loop (scan_entry sn junk) fst ?es (False, ?s0) = Inr (b, s'\<lparr> ss_row_count := int (length ?es) \<rparr>)"
    using sn(5) by (auto simp: BlockScan_def bindE_Inr_conv)
  have "same_scan ?s0 ?s0" by (rule same_scanI) simp_all
  from host_scan_loop_same [OF this sn(2) assms(6), of junk False] loop obtain s where
    s: "break_loop (host_scan_entry sn junk) fst ?es (False, ?s0) = Inr (b, s)" "ss_row_count s = int (length ?es)"
    by (auto simp: same_outcome_def rel_sum.simps dest: same_scanD(3))
  then have "host_BlockScan sn junk ?es ?s0 = Inr s" using sn(5) by (auto simp: host_BlockScan_def)
  moreover have "ss_row_count (host_finish_scan sn s) = ss_row_count s"
    by (simp add: host_finish_scan_def host_send_result_def Let_def split: prod.splits)
  ultimately show ?thesis using s0(1) s(2) sn(1) by (simp add: host_scan_snippet_def split: prod.splits)
qed

text \<open>
  C36. The scan on the host counts what the row counter prints: if the first snippet of the process is the one its constructor builds,
  the readable entries of the file have keys long enough for an index number, and the scan ends without a failure, the row count it prints is that of the row counter, compiled for the same kind of key, on the same file,
  whatever else the file holds and whatever the uninitialised \<open>is_inserted\<close> is; and neither queue has been touched.
\<close>

theorem host_counts_rows:
  assumes "host_snippet_of_json write path ins doc = Inr sn" "get_int doc ''pkNum'' = Inr pc"
    and "list_all (\<lambda>e. sst_ok e \<longrightarrow> sn_kNumInternalBytes sn + indexnum_size \<le> length (sst_key e)) (reader path)"
    and "host_scan_snippet reader junk tm sn True origin valid fq mq = Inr (tm', st)"
  shows "(\<exists>b. count_main (pc \<noteq> 0) junk' (reader path) = Inr (ss_row_count st, b)) \<and> ss_filterq st = fq \<and> ss_mergeq st = mq"
proof -
  note sn = host_snippet_fields [OF assms(1,2)]
  let ?es = "reader path" and ?start = "host_scan_start junk sn True origin valid fq mq"
  obtain s0 where s0: "host_wal_stage sn ?start = Inr s0" "ss_check s0" "ss_filterq s0 = fq" "ss_mergeq s0 = mq"
    using host_wal_stage_nothing [OF sn(3)] by blast
  let ?s0 = "s0\<lparr> ss_row_count := 0 \<rparr>" let ?c0 = "s0\<lparr> ss_row_count := 0, ss_index_valid := True \<rparr>"
  from assms(4) s0(1) sn(1,5) obtain b s where loop: "break_loop (host_scan_entry sn junk) fst ?es (False, ?s0) = Inr (b, s)"
    and st: "st = host_finish_scan sn s"
    by (auto simp: host_scan_snippet_def host_BlockScan_def bindE_Inr_conv split: prod.splits)
  have "same_scan ?s0 ?c0" by (rule same_scanI) simp_all
  from host_scan_loop_same [OF this sn(2) assms(3), of junk False] loop obtain c where
    c: "break_loop (scan_entry sn junk) fst ?es (False, ?c0) = Inr (b, c)" "same_scan s c"
    by (auto simp: same_outcome_def rel_sum.simps)
  have sim: "count_sim ?c0 (count_start junk')" "ss_index_valid ?c0" using s0(2) by (simp_all add: count_sim_def count_start_def)
  from count_loop_sim [OF c(1) sim(1) sn(4) sim(2)] obtain cs where
    cs: "break_loop (count_entry (pc \<noteq> 0)) fst ?es (False, count_start junk') = Inr (b, cs)" "count_sim c cs" by blast
  have "ss_row_count st = cs_total_row cs"
    using st cs(2) same_scanD(3) [OF c(2)] by (simp add: host_finish_scan_def host_send_result_def Let_def count_sim_def split: prod.splits)
  moreover have "ss_filterq st = fq" "ss_mergeq st = mq"
    using host_scan_loop_queues [OF loop] s0(3,4) by (simp_all add: st host_finish_scan_def host_send_result_def host_EnQueueData_def Let_def)
  ultimately show ?thesis using cs(1) by (simp add: count_main_def)
qed

definition ex_host_doc :: json where
  "ex_host_doc = JObj [(''queryID'', JInt 1), (''workID'', JInt 2), (''tableName'', JStr ''orders''), (''pkNum'', JInt 0),
     (''tableCol'', JArr [JStr ''o_orderkey'']), (''tableOffset'', JArr [JInt 0]), (''tableOfflen'', JArr [JInt 4]),
     (''tableDatatype'', JArr [JInt 3]), (''tableFilter'', JArr [])]"

definition ex_host_entries :: "string \<Rightarrow> sst_entry list" where
  "ex_host_entries path =
     [\<lparr> sst_ok = True, sst_key = replicate 4 (CHR 0x07) @ ''abcdefgh'', sst_value = ''abcd'' \<rparr>,
      \<lparr> sst_ok = True, sst_key = replicate 4 (CHR 0x07) @ ''ijklmnop'', sst_value = ''efgh'' \<rparr>]"

lemma ex_host_snippet:
  obtains sn where "host_snippet_of_json write path ins ex_host_doc = Inr sn" "sn_primary_length sn = Some 0" "sn_kNumInternalBytes sn = 8"
  by (simp add: host_snippet_of_json_def host_read_header_def read_columns_def read_filter_def get_int_def get_string_def get_array_def
      elem_int_def elem_string_def json_elem_def ex_host_doc_def add_column_def decide_scan_type_def Let_def is_int32_def)

theorem host_counts_rows_witness:
  "\<exists>b. count_main False [] (ex_host_entries ''t.sst'') = Inr (2, b)"
proof -
  let ?p = "replicate 4 (CHR 0x07)"
  obtain sn where sn: "host_snippet_of_json (\<lambda>_. []) ''t.sst'' True ex_host_doc = Inr sn" "sn_primary_length sn = Some 0" "sn_kNumInternalBytes sn = 8"
    using ex_host_snippet [of "\<lambda>_. []" "''t.sst''" True] by blast
  have pk: "get_int ex_host_doc ''pkNum'' = Inr 0" by (simp add: ex_host_doc_def get_int_def is_int32_def)
  have es: "list_all (good_entry sn ?p) (ex_host_entries ''t.sst'')" "list_all (\<lambda>e. length (sst_value e) \<le> BUFF_SIZE) (ex_host_entries ''t.sst'')"
    "list_all (\<lambda>e. sst_ok e \<longrightarrow> sn_kNumInternalBytes sn + indexnum_size \<le> length (sst_key e)) (ex_host_entries ''t.sst'')"
    by (simp_all add: ex_host_entries_def good_entry_def indexnum_size_def sn(3) csd_sizes)
  from host_scan_returns [where reader = ex_host_entries, OF sn(1) pk sn(2) es] obtain tm' st where
    st: "host_scan_snippet ex_host_entries (\<lambda>_. CHR 0x2A) Map.empty sn True [] False (new_WorkQueue 2) (new_WorkQueue 1) = Inr (tm', st)"
    "ss_row_count st = int (length (ex_host_entries ''t.sst''))" by blast
  from host_counts_rows [where reader = ex_host_entries and junk' = "[]", OF sn(1) pk es(3) st(1)] st(2) show ?thesis by (simp add: ex_host_entries_def)
qed

text \<open>
  Nothing gets past the scan layer: in every state of every run, for any snippets, files and merge layer, the filter and
  the merge queue are empty, no filter thread has work, the merge layer holds nothing and nothing has been returned.
\<close>

theorem host_returns_nothing:
  assumes "wk_run (host_layers reader parse merge_block) (wk_start tm sns objs) s"
  shows "wk_out s = [] \<and> work (wk_filterq s) = [] \<and> work (wk_mergeq s) = [] \<and> work (wk_returnq s) = [] \<and> wk_merging s = Map.empty \<and>
    set (wk_busy s) \<subseteq> {None}"
  using assms
proof (induction "wk_start tm sns objs :: (host_Snippet, Result, MergeResult, Filter_obj, (string \<rightharpoonup> TableRep) \<times> bool \<times> bool) worker" s rule: wk_run.induct)
  case wk_refl
  then show ?case by (auto simp: wk_start_def new_WorkQueue_def)
next
  case (wk_more s' s'')
  from wk_more(3) wk_more(2) show ?case
    by (cases rule: wk_step.cases) (auto dest: popped nth_mem simp: host_layers_def host_EnQueueData_def)
qed

end
