(* ===== verification/Spec2Isabelle.thy ===== *)
theory Spec2Isabelle
  imports Worker Merge_Expressions Filter_Semantics Table_Manager Row_Counter Metric_Check Pba_Threads Host_Worker
begin

text \<open>
  \<^bold>\<open>The CSD worker module of KETI-CSD-Manager.\<close>
  The worker runs on a computational storage drive. It receives \<^emph>\<open>snippets\<close> (a table, a filter, a
  projection) from the storage engine, scans the table's SST file on the drive, filters and
  projects the rows there, and returns the result in buffers. The program is
  \<open>src/csd-worker-module/csd_file_scan/keti\<close>; the file names below are relative to it. A second version,
  \<open>src/csd-worker-module/temp\<close>, called the block version here, reads single blocks by their physical
  addresses instead of whole files. Beside them are programs of their own: the metric collector (\<open>src/csd-metric-collector\<close>), which reports the load
  of the drive, the metric check (\<open>src/csd-worker-module/csd_metric_check\<close>), which measures what a query
  costs, and the row counter (\<open>src/csd-worker-module/count_row_in_sst\<close>).

  \<^bold>\<open>The parts of the program and how they interact.\<close> \<open>main.cc\<close> starts six threads connected by four
  queues: the input interface (\<open>input.cc\<close>) reads a snippet from a socket and puts it on the scan
  queue; the scan layer (\<open>scan.cc\<close>) looks up the file (\<open>csd_table_manager.cc\<close>), reads its rows into
  a \<open>Result\<close> buffer and sends full buffers to the filter queue or, without a filter, to the merge
  queue; two filter threads (\<open>filter.cc\<close>) evaluate the WHERE clause on every row; the merge layer
  (\<open>merge_manager.cc\<close>) projects the rows and collects them per query and work id in \<open>MergeResult\<close>
  buffers; the return interface (\<open>return.cc\<close>) sends those to the buffer manager. A work unit is
  complete when the block counts of its results add up to the snippet's total.

  \<^bold>\<open>The theories.\<close>
  \<^item> \<open>CSD_Prelude\<close>: errors as values (\<open>res\<close>, \<open>bindE\<close>, \<open>foldE\<close>, \<open>mapE\<close>), vector and buffer accesses that
    fail out of bounds, bytes and little-endian integers, documents (\<open>json\<close>) as rapidjson presents
    them; shared lemmas. \<open>Cpp_Strings\<close>, \<open>Cpp_Double\<close>: what the code uses of \<open>std::string\<close>, \<open>stoi\<close>,
    \<open>to_string\<close>, \<open>getline\<close> and of IEEE double arithmetic (rationals rounded to 53 bits).
  \<^item> \<open>CSD_Types\<close>: the enumerations and structures of \<open>input.h\<close>, \<open>filter.h\<close>, \<open>merge_manager.h\<close> and
    \<open>return.h\<close>, the layout of rows in a buffer (\<open>result_rows\<close>, \<open>merge_rows\<close>), and the contracts
    \<open>row_buffer\<close> and \<open>flush_buffer\<close>, interpreted by the scan, the filter and the merge layer. The size of the arrays
    is an argument of the definitions named \<open>_in\<close>, because the two versions define \<open>BUFF_SIZE\<close> differently.
  \<^item> \<open>Work_Queue\<close>: \<open>WorkQueue\<close> of \<open>input.h\<close>, with its mutex sections as atomic steps and \<open>notify_one\<close>
    as a separate step. Shown: first in first out in every interleaving, and no lost wake-up.
  \<^item> \<open>Input_Model\<close>: the read loop of \<open>InputSnippet\<close> and the constructor of \<open>Snippet\<close> over a parsed
    document. Shown: the text is reassembled however the network cuts it, the loop spins when the
    peer closes early, the schema and the block list are those of the document, the primary key is
    lost.
  \<^item> \<open>Table_Manager\<close>: the table of SST files.
  \<^item> \<open>Scan_Keys\<close>, \<open>Scan_Model\<close>: all of \<open>scan.cc\<close>. Shown: for a file of readable rows of one index the scan fails exactly when a
    row is longer than the buffer, and otherwise rows are neither lost nor reordered; block counts add up, 15 for every
    buffer filled (\<open>buffers_filled\<close>); what happens to keys.
  \<^item> \<open>Filter_Ops\<close> (comparisons and flags), \<open>Filter_Like\<close>, \<open>Filter_Columns\<close> (finding a column behind
    variable-length ones, the interface \<open>column_reader\<close>), \<open>Filter_Clauses\<close> (one definition per operator
    case of \<open>BlockFilter\<close>), \<open>Filter_Row\<close> (the evaluation of the token list of a row, in the locale \<open>row_machine\<close>),
    \<open>Filter_Block\<close> (the loop over the rows, in the locale \<open>block_filter\<close>, and the theorem that it computes the
    formula), \<open>Filter_Semantics\<close> (what single conditions mean for the stored values; the six comparisons of a DECIMAL
    column with an integer decide the order of the numbers, within stated bounds). Both locales are interpreted for
    both versions (\<open>machine\<close>, \<open>csd_filter\<close> here, \<open>pba_machine\<close>, \<open>pba_filter\<close> for the block version).
  \<^item> \<open>Merge_Values\<close> (the operand type \<open>T\<close>, conversions from and to column bytes, operators),
    \<open>Merge_Project\<close> (column offsets, postfix expressions, CASE, SUBSTRING, EXTRACT, the projection of
    a row), \<open>Merge_Expressions\<close> (their meaning), \<open>Merge_Manager\<close> (\<open>MergeBlock\<close>, one work unit; the
    locale \<open>merge_layer\<close>, interpreted as \<open>csd_merge\<close> here and as \<open>pba_merge\<close> for the block version, proves what
    happens to a work unit once for every projection, constructor and buffer size), \<open>Merge_Units\<close> (the invariant of
    the manager, several units, in the same locale).
  \<^item> \<open>Return_Model\<close>: the description of a buffer and the bytes sent.
  \<^item> \<open>Threads\<close>: the threads and the four queues as one step relation \<open>wk_step\<close>, for any number of queries at the same
    time, over a record \<open>layers\<close> of what the layers do. The locale \<open>thread_layers\<close> gives that every run ends; the locale
    \<open>answering_layers\<close> states what the layers promise about the blocks of a query, and its invariant, which accounts for
    every row and block of every query, gives that no thread gets stuck and what has been returned at the end. \<open>Queries\<close>:
    what a query is, and how its rows pass through the layers block by block. \<open>Worker\<close>: the layers of this version
    (\<open>csd_layers\<close>) and the interpretations \<open>csd_threads\<close> and \<open>csd_worker\<close>. This theory holds the
    properties of the whole worker and those that span two layers.
  \<^item> The block version: \<open>Pba_Input\<close> (sizes, the constructor of \<open>Snippet\<close>, \<open>calculForReturnData\<close>, the table manager),
    \<open>Pba_Scan\<close> (the scan over blocks), \<open>Pba_Values\<close> and \<open>Pba_Merge\<close> (its decimals, expressions and merge layer),
    \<open>Pba_Filter\<close> (the cases of the filter that differ, on the loops of \<open>Filter_Block\<close>), \<open>Pba_Worker\<close> (the return interface, and
    the layers together for a query with and without a filter), \<open>Pba_Threads\<close> (the threads of \<open>temp/main.cc\<close>: the same locales,
    interpreted as \<open>pba_threads\<close> and \<open>pba_worker\<close>). Functions whose text is
    the same in both versions are shared. Shown: the scan fills no array beyond its end when 15 blocks fit, rows
    and counts add up, every filter in disjunctive normal form whose literals have a meaning on the rows selects exactly the rows it is true of (here also when it
    consists of LIKE, BETWEEN and IN; with an IN, if the uninitialised \<open>substringflag\<close> is false), the announced lengths are those written, and prices with a discount have the exact
    value, up to a carry that is not normalised.
  \<^item> \<open>Metric_Collector\<close>: a round of the metric collector over the text of the kernel's files. Shown: the
    figures and the score stay in their ranges with all roundings, the score prefers idle devices, the
    network figures of all rounds add up to the counters' difference, in the reports modulo \<open>2 ^ 32\<close>.
  \<^item> \<open>Metric_Check\<close>: the sessions of \<open>metric_check.cc\<close> with the counters of \<open>metric_check.h\<close>, and the sums of
    \<open>csd_metric_result_server.cc\<close>. Shown: which two moments a session measures, and the range of the result.
  \<^item> \<open>Row_Counter\<close>: \<open>count_row_in_sst/main.cc\<close>, shown to count the rows the scan layer counts.
  \<^item> \<open>Host_Worker\<close>: the copy in \<open>host_file_scan/keti\<close>, a test build whose \<open>EnQueueData\<close> is commented out: reading \<open>test.json\<close>,
    the snippet, the table manager, the scan, the threads. Shown: its scan behaves as the other one without the queues, it
    prints the number the row counter prints, and nothing ever gets past the scan layer.

  \<^bold>\<open>Correspondence.\<close> A structure is a record with the fields of the source under a short prefix
  (\<open>rs_\<close> for \<open>Result\<close>, \<open>mr_\<close> for \<open>MergeResult\<close>, \<open>sn_\<close> for \<open>Snippet\<close>); a method takes the object and
  returns it updated; a queue an operation pushes to is an argument and a result. Integers are
  unbounded where the code's arithmetic cannot leave the range in the theorems' hypotheses, and
  reduced to their width where a conversion or an unsigned subtraction wraps. Every read of an
  uninitialised variable, every access outside an array and every C++ exception is an error value
  (\<open>Uninitialised\<close>, \<open>OutOfBounds\<close>, \<open>OutOfRange\<close> and others), so a theorem that an operation
  returns \<open>Inr\<close> says that none of them happens. Where the code copies uninitialised memory without
  depending on it, the memory is an argument named \<open>junk\<close> and the theorems hold for all its values.

  \<^bold>\<open>Scope of the theorems about queries.\<close> The properties of the whole worker, of both versions, are about queries the code
  handles as it means to; \<open>query_ok\<close> and \<open>pba_query_ok\<close> list the conditions, each of which excludes a behaviour that is stated elsewhere: 15 blocks
  counted for every full buffer (\<open>late_rows_stay\<close>), rows longer than the buffer, restored keys without row
  offsets (\<open>key_scan_has_no_offsets\<close>), LIKE on a value shorter than its pattern (\<open>like_infix_short_value\<close>), string constants that are lost
  (\<open>string_constant_lost\<close>), filters that set no \<open>canSaved\<close> (\<open>quiet_filter_drops_all\<close>), projections longer than the row,
  and an IN that reads the uninitialised \<open>substringflag\<close>.

  \<^bold>\<open>Parameters.\<close> RocksDB's reader is a function from a path, or from a table and a block, to the entries
  the iterator yields.
  rapidjson is a function from text to documents and one from documents to text. The theorems
  that need more of them say so in their hypotheses.

  \<^bold>\<open>Loops.\<close> All loops but one run over a finite list or a counter and are total functions. The read
  loop of \<open>InputSnippet\<close> is a function of the list of results of \<open>read\<close> and returns \<open>None\<close> while it
  has not ended; one theorem shows that it ends and one that it need not. The endless loops of
  the layers are modelled by one turn, and in \<open>Threads\<close> by steps that can be taken again and again.

  \<^bold>\<open>Not modelled.\<close> A table file that cannot be opened: the scan prints a message and asks RocksDB's reader, which has no
  table then, for an iterator, and what follows is inside RocksDB. Opening and configuring sockets, log output, the exits after failed system calls
  in \<open>input.cc\<close>; \<open>IndexScan\<close>, \<open>Column_Filtering\<close> and \<open>GetColumnOff\<close>, which \<open>scan.h\<close> declares and nothing
  defines; commented-out code. Doubles have unbounded exponents in the model; a division by zero,
  infinities and NaNs are errors. Of the block version the index scan (commented out in its source). Of the host-side copy its
  \<open>merge_manager.cc\<close>, which no result reaches (\<open>host_returns_nothing\<close> holds for every merge layer), and the files named \<open>copy\<close> or
  \<open>debugg\<close>, which its Makefile does not build. Outside the worker module: the metric interface (Go) and the vendored RocksDB. Of the metric collector: the socket, files that cannot be opened, the console
  output, and \<open>powerUsageInit\<close> and \<open>getPowerUsage\<close>, which nothing calls.
\<close>

section \<open>A concrete query\<close>

text \<open>
  \<open>SELECT id FROM t WHERE id >= 6\<close> on the two rows of \<open>ex_rows\<close>; without its filter when \<open>t\<close> is
  \<open>Full_Scan\<close>.
\<close>

definition ex_query :: "Scan_Type \<Rightarrow> Snippet" where
  "ex_query t = ex_snippet\<lparr> sn_table_col := [''id'', ''nm''], sn_table_offset := [0, 4], sn_table_offlen := [4, 10],
     sn_table_datatype := [3, 15], sn_colindexmap := [''id'' \<mapsto> 0, ''nm'' \<mapsto> 1],
     sn_column_projection := [\<lparr> projection = 0, proj_values = [''id''], proj_types = [10] \<rparr>],
     sn_projection_datatype := [3], sn_scan_type := t \<rparr>"

definition ex_file :: "string \<Rightarrow> sst_entry list" where
  "ex_file path = map (\<lambda>fs. \<lparr> sst_ok = True, sst_key = replicate 4 (CHR 0x07) @ ''k'', sst_value = enc_row fs \<rparr>) ex_rows"

lemma ex_row_lengths: "list_all (\<lambda>fs. length (enc_row fs) = 7) ex_rows"
  by (simp add: ex_rows_def enc_row_def enc_field_def hdr_len_def)

lemma ex_query_schema:
  "block_schema (filter_info_of (ex_query t))"
  "list_all (merge_schema (filter_info_of (ex_query t))) ex_rows"
  by (simp_all add: merge_schema_def block_schema_def packed_offsets_def fits_schema_def filter_info_of_def
      ex_query_def ex_rows_def wf_field_def hdr_len_def less_Suc_eq)

lemma ex_query_table: "table_holds ex_file Map.empty (ex_query t) ex_rows"
proof -
  have "table_file ex_file Map.empty (ex_query t) = ex_file []" by (simp add: table_file_def ex_file_def)
  moreover have "list_all (good_entry (ex_query t) (replicate 4 (CHR 0x07))) (ex_file [])"
    by (simp add: ex_file_def good_entry_def ex_query_def ex_snippet_def indexnum_size_def list_all_iff)
  moreover have "list_all (\<lambda>e. length (sst_value e) \<le> BUFF_SIZE) (ex_file [])"
    using ex_row_lengths by (simp add: ex_file_def list_all_iff csd_sizes)
  moreover have "list_all (\<lambda>fs. merge_schema (filter_info_of (ex_query t)) fs \<and> enc_row fs \<noteq> []) ex_rows"
    using ex_row_lengths ex_query_schema(2) [of t] by (auto simp: list_all_iff)
  ultimately show ?thesis
    using ex_query_schema(1) by (auto simp: table_holds_def ex_query_def ex_snippet_def ex_file_def)
qed

lemma ex_query_filter: "filter_is (ex_parse ex_ge) (ex_query Full_Scan_Filter) [[(False, ex_ge)]] ex_rows"
proof -
  have rows: "ex_rows = [ex_rows ! 0, ex_rows ! 1]" by (simp add: ex_rows_def)
  have "list_all (typed_filter [''id'', ''nm''] [[(False, ex_ge)]]) ex_rows"
    by (subst rows) (simp only: list.pred_inject dnf_defined_def prod.case ex_row_lits option.distinct simp_thms)
  moreover have "list_ex loud_literal (last [[(False, ex_ge)]])"
    using ex_has_op(1) by (simp add: loud_literal_def compare_ops_def)
  ultimately show ?thesis using ex_toks(1) by (simp add: filter_is_def ex_query_def ex_parse_def)
qed

lemma ex_query_selects: "filter (row_matches (sn_table_col (ex_query t)) [[(False, ex_ge)]]) ex_rows = [ex_rows ! 1]"
proof -
  have rows: "ex_rows = [ex_rows ! 0, ex_rows ! 1]" by (simp add: ex_rows_def)
  have col: "sn_table_col (ex_query t) = [''id'', ''nm'']" by (simp add: ex_query_def)
  have m: "\<not> row_matches [''id'', ''nm''] [[(False, ex_ge)]] (ex_rows ! 0)"
    "row_matches [''id'', ''nm''] [[(False, ex_ge)]] (ex_rows ! 1)"
    by (simp_all only: dnf_true_def list_ex_Nil_iff list_ex_Cons_iff list.pred_inject literal_true_def prod.case ex_row_lits
        option.case simp_thms)
  show ?thesis unfolding col by (subst rows) (simp only: m filter.simps if_True if_False)
qed

lemma ex_query_projection: "projection_is (ex_query t) [0]"
  by (simp add: projection_is_def projects_columns_def column_item_def filter_info_of_def ex_query_def)

lemma ex_query_buffers: "buffers_filled (table_file ex_file tm (ex_query t)) = 0"
  using ex_row_lengths by (auto simp: buffers_filled_def table_file_def ex_file_def ex_rows_def csd_sizes)

text \<open>The query as a unit of work, with work id \<open>w\<close>.\<close>

definition ex_unit :: "Scan_Type \<Rightarrow> int \<Rightarrow> query" where
  "ex_unit t w = \<lparr> qu_snippet = (ex_query t)\<lparr> sn_work_id := w \<rparr>, qu_rows = ex_rows, qu_dnf = [[(False, ex_ge)]], qu_columns = [0] \<rparr>"

lemma work_id_irrelevant:
  "filter_info_of (sn\<lparr> sn_work_id := w \<rparr>) = filter_info_of sn"
  "table_holds reader tm (sn\<lparr> sn_work_id := w \<rparr>) Fs = table_holds reader tm sn Fs"
  "projection_is (sn\<lparr> sn_work_id := w \<rparr>) is = projection_is sn is"
  "filter_is parse (sn\<lparr> sn_work_id := w \<rparr>) Ds Fs = filter_is parse sn Ds Fs"
  "table_file reader tm (sn\<lparr> sn_work_id := w \<rparr>) = table_file reader tm sn"
  by (simp_all add: filter_info_of_def table_holds_def table_file_def good_entry_def projection_is_def filter_is_def cong: list.pred_cong)

lemma ex_unit_ok:
  assumes "t = Full_Scan_Filter \<or> t = Full_Scan"
  shows "query_ok ex_file (ex_parse ex_ge) Map.empty (ex_unit t w)"
proof -
  have "t = Full_Scan \<or> filter_is (ex_parse ex_ge) (ex_query t) [[(False, ex_ge)]] ex_rows"
    using assms ex_query_filter by blast
  moreover have "sn_scan_type (ex_query t) = t" "sn_total_block_count (ex_query t) = 2"
    by (simp_all add: ex_query_def ex_snippet_def)
  ultimately show ?thesis
    using ex_query_table ex_query_projection ex_query_buffers
    by (simp add: query_ok_def ex_unit_def work_id_irrelevant)
qed

text \<open>Two queries at the same time: one with the filter, one without.\<close>

definition ex_units :: "query list" where
  "ex_units = [ex_unit Full_Scan_Filter 2, ex_unit Full_Scan 3]"

lemma ex_units_ok: "list_all (query_ok ex_file (ex_parse ex_ge) Map.empty) ex_units" "distinct (map qu_key ex_units)"
  using ex_unit_ok by (simp_all add: ex_units_def) (simp add: ex_unit_def qu_key_def)

lemma ex_answers:
  "qu_answer (ex_unit Full_Scan_Filter 2) = [int_bytes 4 9]" "qu_answer (ex_unit Full_Scan 3) = [int_bytes 4 5, int_bytes 4 9]"
proof -
  have bytes: "columns_bytes (ex_rows ! Suc 0) [0] = int_bytes 4 9" "map (\<lambda>fs. columns_bytes fs [0]) ex_rows = [int_bytes 4 5, int_bytes 4 9]"
    by (simp_all add: columns_bytes_def ex_rows_def enc_field_def hdr_len_def)
  have "qu_keeps (ex_unit Full_Scan_Filter 2) = row_matches (sn_table_col (ex_query Full_Scan_Filter)) [[(False, ex_ge)]]"
    by (auto simp: qu_keeps_def ex_unit_def ex_query_def fun_eq_iff)
  then have "filter (qu_keeps (ex_unit Full_Scan_Filter 2)) ex_rows = [ex_rows ! 1]" using ex_query_selects by simp
  then show "qu_answer (ex_unit Full_Scan_Filter 2) = [int_bytes 4 9]"
    using bytes(1) by (simp add: qu_answer_def qu_project_def ex_unit_def)
  have "filter (qu_keeps (ex_unit Full_Scan 3)) ex_rows = ex_rows"
    by (simp add: filter_id_conv qu_keeps_def ex_unit_def ex_query_def)
  then show "qu_answer (ex_unit Full_Scan 3) = [int_bytes 4 5, int_bytes 4 9]"
    using bytes(2) by (simp add: qu_answer_def qu_project_def [abs_def] ex_unit_def)
qed

section \<open>Properties\<close>



text \<open>
  C2. For queries with different ids that satisfy \<open>query_ok\<close> (files of readable rows that fit, without key columns to restore; distinct projected columns; filters all of
  whose literals have a meaning on the rows; fewer than the total of blocks counted for full buffers) the worker cannot get stuck, and nothing
  in it fails: in every state that any interleaving
  reaches, either nothing is left to do or some thread can take a step, and from every such state
  the worker can come to rest. (A step in which an operation throws, reads an uninitialised
  variable or leaves an array is not a step of the relation: outside these conditions the worker can fail, for instance on a table with restored keys.)
\<close>

theorem worker_never_stuck:
  assumes "list_all (query_ok reader parse tm) Qs" "distinct (map qu_key Qs)" "objs \<noteq> []"
    and "wk_run (csd_layers reader parse write) (wk_start tm (map qu_snippet Qs) objs) s"
  shows "(wk_idle s \<or> (\<exists>s'. wk_step (csd_layers reader parse write) s s')) \<and> (\<exists>s'. wk_run (csd_layers reader parse write) s s' \<and> wk_idle s')"
  by (rule csd_worker.never_stuck [OF assms(1,2) same_tables_refl assms(3,4)])

theorem worker_never_stuck_witness:
  "\<exists>s. wk_run (csd_layers ex_file (ex_parse ex_ge) ex_write) (wk_start Map.empty (map qu_snippet ex_units) [undefined, undefined]) s \<and> wk_idle s"
  using worker_never_stuck [OF ex_units_ok _ wk_refl, of "[undefined, undefined]" ex_write] by blast

text \<open>
  C20. Every run of the worker ends, whatever the snippets, the files and the filters are: the step
  relation is well founded, so with finitely many snippets there is no infinite run.
\<close>

theorem worker_terminates: "wf {(s', s). wk_step (csd_layers reader parse write) s s'}"
  by (rule csd_threads.wf_step)

text \<open>
  C5. A query without a filter, for a table whose file holds its rows (readable entries of one index, no row longer than the
  buffer of a result, no key columns to restore) and whose projection lists distinct columns. The scan counts 15 blocks for
  every buffer the rows fill; if none of these counts is the total of the snippet by itself, neither the scan nor the
  merge layer fails, and the buffers the merge layer hands on hold the projections of all rows of the table, in the order
  of the file, and account for exactly the snippet's blocks. (If the counts reach the total too early, the
  rows that follow stay behind: \<open>late_rows_stay\<close>.)
\<close>

theorem full_scan_query_correct:
  assumes "table_holds reader tm sn Fs" "sn_scan_type sn = Full_Scan" "projection_is sn is"
    and "\<forall>k\<in>{1..buffers_filled (table_file reader tm sn)}. 15 * int k \<noteq> sn_total_block_count sn"
    and "mm (sn_query_id sn, sn_work_id sn) = None"
  shows "\<exists>tm' st rq' es rss. scan_snippet reader junk tm sn origin fq (new_WorkQueue 1) = Inr (tm', st) \<and>
    foldE (MergeBlock junk') (work (ss_mergeq st)) (mm, rq) = Inr (mm, rq') \<and> work rq' = work rq @ es \<and>
    list_all2 merge_rows es rss \<and> concat rss = map (\<lambda>fs. columns_bytes fs is) Fs \<and>
    blocks_sent es = sn_total_block_count sn"
proof -
  let ?good = "\<lambda>fs. merge_schema (filter_info_of sn) fs \<and> enc_row fs \<noteq> []" and ?n = "buffers_filled (table_file reader tm sn)"
  have good: "list_all ?good Fs" using assms(1) by (simp add: table_holds_def)
  have type: "sn_scan_type sn = Full_Scan_Filter \<or> sn_scan_type sn = Full_Scan" using assms(2) by simp
  from full_scan_sends [OF assms(1) type] obtain tm' st where
    st: "scan_snippet reader junk tm sn origin fq (new_WorkQueue 1) = Inr (tm', st)"
    "map rs_result_block_count (ss_sent st) = replicate ?n 15 @ [sn_total_block_count sn - 15 * int ?n]" unfolding Let_def by blast
  from scan_blocks [OF st(1) assms(1) type good] obtain A where
    A: "map fst A = ss_sent st" "list_all (query_block (of_snippet sn) ?good) A" "concat (map snd A) = Fs" "A \<noteq> []" .
  have counts: "map (\<lambda>b. rs_result_block_count (fst b)) A = map rs_result_block_count (ss_sent st)"
    unfolding A(1) [symmetric] by simp
  then have sum: "sum_list (map (\<lambda>b. rs_result_block_count (fst b)) A) = sn_total_block_count sn"
    using scan_snippet_counts [OF st(1)] by simp
  have pre: "\<forall>k<length A. 0 < k \<longrightarrow> sum_list (map (\<lambda>b. rs_result_block_count (fst b)) (take k A)) \<noteq> sn_total_block_count sn"
  proof (intro allI impI)
    fix k assume k: "k < length A" "0 < k"
    have "length A = Suc ?n" using counts st(2) by (metis length_append_singleton length_map length_replicate)
    then have k': "k \<in> {1..?n}" using k by simp
    have "map (\<lambda>b. rs_result_block_count (fst b)) (take k A) = replicate k 15"
      unfolding take_map [symmetric] counts st(2) using k' by (simp add: min_def)
    with assms(4) k' show "sum_list (map (\<lambda>b. rs_result_block_count (fst b)) (take k A)) \<noteq> sn_total_block_count sn"
      by (simp add: sum_list_replicate mult.commute)
  qed
  have "(ss_filterq st, ss_mergeq st) = fold (\<lambda>r. EnQueueData r Full_Scan) (ss_sent st) (fq, new_WorkQueue 1)"
    using scan_snippet_counts [OF st(1)] assms(2) by simp
  then have queue: "work (ss_mergeq st) = map fst A"
    using full_scan_queue [of "ss_sent st" fq "new_WorkQueue 1"] A(1) by (metis append_Nil snd_conv new_WorkQueue_def WorkQueue.select_convs(1))
  have schema: "\<forall>fs. ?good fs \<longrightarrow> merge_schema (filter_info_of sn) fs" by simp
  from merge_query [where mm = mm and junk = junk' and rq = rq, OF A(2) assms(3) schema A(4) sum pre assms(5), folded queue, unfolded A(3)] st(1)
  show ?thesis by blast
qed

theorem full_scan_query_correct_witness:
  "\<exists>tm st rq es rss.
    scan_snippet ex_file (\<lambda>_. CHR 0x2A) Map.empty (ex_query Full_Scan) [] (new_WorkQueue 2) (new_WorkQueue 1) = Inr (tm, st) \<and>
    foldE (MergeBlock (\<lambda>_. CHR 0x2A)) (work (ss_mergeq st)) (Map.empty, new_WorkQueue 1) = Inr (Map.empty, rq) \<and>
    work rq = es \<and> list_all2 merge_rows es rss \<and> concat rss = [int_bytes 4 5, int_bytes 4 9] \<and> blocks_sent es = 2"
proof -
  let ?q = "ex_query Full_Scan"
  have type: "sn_scan_type ?q = Full_Scan" by (simp add: ex_query_def)
  have pre: "\<forall>k\<in>{1..buffers_filled (table_file ex_file Map.empty ?q)}. 15 * int k \<noteq> sn_total_block_count ?q"
    by (simp add: ex_query_buffers)
  have none: "Map.empty (sn_query_id ?q, sn_work_id ?q) = None" by simp
  have bytes: "map (\<lambda>fs. columns_bytes fs [0]) ex_rows = [int_bytes 4 5, int_bytes 4 9]"
    by (simp add: columns_bytes_def ex_rows_def enc_field_def hdr_len_def)
  have count: "sn_total_block_count ?q = 2" by (simp add: ex_query_def ex_snippet_def)
  from full_scan_query_correct [where junk = "\<lambda>_. CHR 0x2A" and junk' = "\<lambda>_. CHR 0x2A" and origin = "[]" and
      fq = "new_WorkQueue 2" and rq = "new_WorkQueue 1", OF ex_query_table type ex_query_projection pre none]
  show ?thesis unfolding bytes count by (force simp: new_WorkQueue_def)
qed

text \<open>
  C39. The constructor of \<open>Snippet\<close> establishes what the later layers rely on: for a document whose
  columns are distinct and packed and whose key does not include the last column, the filter
  information of the snippet has the schema that the filter and the merge layer ask of it
  (vectors of equal length, the column index the inverse of the column list, offsets that add up),
  and the scan takes the branch that records row offsets.
\<close>

theorem snippet_ready_for_layers:
  assumes "snippet_of_json write doc = Inr sn" "schema_doc doc cols offs lens types" "distinct cols" "cols \<noteq> []"
    and "get_int doc ''primaryKey'' = Inr pc" "pc < int (length cols)"
    and "\<forall>i<length cols. offs ! i = sum_list (take i lens)"
  shows "block_schema (filter_info_of sn) \<and> packed_offsets (filter_info_of sn) \<and> sn_primary_length sn = Some 0"
proof -
  have "columns_read pc (length cols) cols offs lens types sn"
    using snippet_columns [OF assms(1-3,5)] by (simp add: stage_def)
  moreover have len: "length offs = length cols" "length lens = length cols" "length types = length cols"
    using assms(2) by (simp_all add: schema_doc_def)
  moreover have "offs = 0 # tl offs"
    using assms(4) spec [OF assms(7), of 0] len by (cases offs) auto
  ultimately show ?thesis using assms(3,4,6,7)
    by (auto simp: columns_read_def block_schema_def packed_offsets_def filter_info_of_def)
qed

theorem snippet_ready_for_layers_witness:
  "block_schema (filter_info_of ex_snippet) \<and> packed_offsets (filter_info_of ex_snippet) \<and> sn_primary_length ex_snippet = Some 0"
  by (rule snippet_ready_for_layers [OF ex_snippet_json ex_doc_schema, where pc = 1])
    (simp_all add: ex_doc_def get_int_def is_int32_def less_Suc_eq)

text \<open>
  C17. From the merge layer to the host: whatever results the merge layer has processed, of however many
  queries, everything it has put on the return queue reaches a reader that follows the protocol:
  it gets the description of the buffer and, cutting the data at the offsets described, as many
  rows as the description says, which together are the data.
\<close>

theorem returned_buffers_readable:
  assumes "foldE (MergeBlock junk) rs (Map.empty, new_WorkQueue n) = Inr (mm, rq)" "m \<in> set (work rq)"
    and "parse (write (result_doc m)) = result_doc m" "CHR 0x00 \<notin> set (write (result_doc m))"
    "length (write (result_doc m)) < 2 ^ 64" "ack \<noteq> 0"
  shows "\<exists>txt d. receive (sent_bytes (SendDataToBufferManager write ack m)) = (txt, d) \<and> parse txt = result_doc m \<and>
    length d = mr_length m \<and> length (cut_rows (mr_row_offset m) d) = mr_row_count m \<and> concat (cut_rows (mr_row_offset m) d) = d"
proof -
  from csd_merge.run_inv [OF assms(1) empty_mm_inv] assms(2) obtain rows where rows: "merge_rows m rows"
    by (auto simp: mm_inv_def sound_buffer_def)
  from stream_readable [of parse "write" m, OF assms(3-5) this assms(6)] rows show ?thesis
    by (auto simp: merge_rows_def row_layout_def)
qed

theorem returned_buffers_readable_witness:
  "\<exists>mm rq m txt d. foldE (MergeBlock (\<lambda>_. CHR 0x2A)) [ex_result 2] (Map.empty, new_WorkQueue 1) = Inr (mm, rq) \<and>
     m \<in> set (work rq) \<and> receive (sent_bytes (SendDataToBufferManager (\<lambda>_. ''{...}'') 36 m)) = (txt, d) \<and>
     length (cut_rows (mr_row_offset m) d) = mr_row_count m \<and> concat (cut_rows (mr_row_offset m) d) = d"
proof -
  let ?w = "\<lambda>_ :: json. ''{...}''"
  from csd_merge.block_unit [where base = "(Map.empty, new_WorkQueue 1)" and junk = "\<lambda>_. CHR 0x2A", OF _ ex_unit_work [of "[2]"]]
  obtain s where s: "foldE (MergeBlock (\<lambda>_. CHR 0x2A)) [ex_result 2] (Map.empty, new_WorkQueue 1) = Inr (fst s, snd s)"
    "finished (Map.empty, new_WorkQueue 1) 7 1 2 [''abcd''] s"
    by (auto simp: outcome_def blocks_def ex_result_def)
  then have "work (snd s) \<noteq> []" by (auto simp: finished_def)
  then obtain m where m: "m \<in> set (work (snd s))" by (meson list.set_sel(1))
  from returned_buffers_readable [OF s(1) m, of "\<lambda>_. result_doc m" ?w 36]
  obtain text1 d where
    "receive (sent_bytes (SendDataToBufferManager ?w 36 m)) = (text1, d)" "length (cut_rows (mr_row_offset m) d) = mr_row_count m"
    "concat (cut_rows (mr_row_offset m) d) = d" by auto
  with s(1) m show ?thesis by (intro exI conjI)
qed

text \<open>
  C40. A table whose key columns the scan has to restore: its result counts rows but has no row
  offsets, and the merge layer runs past the end of the offset vector on the first row.
\<close>

theorem key_scan_result_unreadable:
  assumes "scan_snippet reader junk tm sn origin fq mq = Inr (tm', st)"
    and "sn_primary_length sn = Some pl" "pl \<noteq> 0" "0 < ss_row_count st"
  shows "\<exists>r. ss_sent st = [r] \<and> MergeBlock junk' r ms = Inl OutOfBounds"
proof -
  from key_scan_result [OF assms(1-3)] obtain r where
    r: "ss_sent st = [r]" "rs_row_offset r = []" "int (rs_row_count r) = ss_row_count st" by blast
  with assms(4) have rows: "[0..<rs_row_count r] = 0 # [1..<rs_row_count r]" by (simp add: upt_conv_Cons)
  have "origin_row r 0 = Inl OutOfBounds" using r(2) by (simp add: origin_row_def vec_at_def)
  then have "foldE (merge_row r) [0..<rs_row_count r] s = Inl OutOfBounds" for s
    unfolding rows by (simp add: merge_row_def)
  then have "MergeBlock junk' r ms = Inl OutOfBounds"
    using r(3) assms(4) by (cases ms) (simp add: MergeBlock_def Let_def)
  with r(1) show ?thesis by blast
qed

theorem key_scan_result_unreadable_witness:
  "\<exists>tm st r. scan_snippet ex_entries (\<lambda>_. CHR 0x2A) Map.empty ex_key_snippet [] (new_WorkQueue 2) (new_WorkQueue 1) = Inr (tm, st) \<and>
    ss_sent st = [r] \<and> MergeBlock (\<lambda>_. CHR 0x2A) r (Map.empty, new_WorkQueue 1) = Inl OutOfBounds"
proof -
  from ex_key_scan obtain tm st where
    s: "scan_snippet ex_entries (\<lambda>_. CHR 0x2A) Map.empty ex_key_snippet [] (new_WorkQueue 2) (new_WorkQueue 1) = Inr (tm, st)"
    "ss_row_count st = 2" by blast
  have "sn_primary_length ex_key_snippet = Some 4" by (simp add: ex_key_snippet_def)
  from key_scan_result_unreadable [OF s(1) this] s show ?thesis by auto
qed

end
